(* ===== verification/TN_Prelude.thy ===== *)
theory TN_Prelude
  imports Main "HOL-Library.Word" "HOL-Library.Monad_Syntax"
begin

text \<open>
  Prelude of the TNKernel development: the names of the machine types, the return codes and
  the bit constants of \<^verbatim>\<open>TNKernel/tn.h\<close>, the collections of rewrite rules the component
  theories extend, and the lemmas on options, lists and 32-bit words that they share.

  Every kernel function that touches memory is a function into the option monad. \<open>None\<close> means
  that the C code dereferences a null pointer, leaves the memory the model describes (for
  example by treating a list head as a task control block) or does not return.
\<close>

unbundle bit_operations_syntax

section \<open>Machine types\<close>

type_synonym u32 = "32 word"
type_synonym u16 = "16 word"
type_synonym u8 = "8 word"

text \<open>Task control blocks and kernel objects are named by numbers; a pointer to one of them is
  an option whose \<open>None\<close> is the null pointer.\<close>

type_synonym tid = nat
type_synonym oid = nat
type_synonym tptr = "tid option"
type_synonym optr = "oid option"

section \<open>Collections of rewrite rules\<close>

named_theorems kdefs \<open>definitions of the kernel operations, for unfolding\<close>
named_theorems kconst \<open>numeric values of the constants of tn.h\<close>
named_theorems qspec \<open>effect of the queue operations on the abstract lists\<close>

section \<open>Constants of tn.h\<close>

abbreviation (input) TN_NUM_PRIORITY :: int where "TN_NUM_PRIORITY \<equiv> 32"
abbreviation (input) TN_TIMER_STACK_SIZE :: int where "TN_TIMER_STACK_SIZE \<equiv> 64"
abbreviation (input) TN_IDLE_STACK_SIZE :: int where "TN_IDLE_STACK_SIZE \<equiv> 48"
abbreviation (input) TN_ST_STATE_NOT_RUN :: int where "TN_ST_STATE_NOT_RUN \<equiv> 0"
abbreviation (input) TN_ST_STATE_RUNNING :: int where "TN_ST_STATE_RUNNING \<equiv> 1"
abbreviation (input) TN_MIN_STACK_SIZE :: int where "TN_MIN_STACK_SIZE \<equiv> 20"
abbreviation (input) TN_WAIT_INFINITE :: u32 where "TN_WAIT_INFINITE \<equiv> 0xFFFFFFFF"
abbreviation (input) TN_FILL_STACK_VAL :: u32 where "TN_FILL_STACK_VAL \<equiv> 0xFFFFFFFF"

abbreviation (input) TN_TASK_START_ON_CREATION :: u32 where "TN_TASK_START_ON_CREATION \<equiv> 1"
abbreviation (input) TN_TASK_TIMER :: u32 where "TN_TASK_TIMER \<equiv> 0x80"
abbreviation (input) TN_TASK_IDLE :: u32 where "TN_TASK_IDLE \<equiv> 0x40"

abbreviation (input) TN_ID_TASK :: u32 where "TN_ID_TASK \<equiv> 0x47ABCF69"
abbreviation (input) TN_ID_SEMAPHORE :: u32 where "TN_ID_SEMAPHORE \<equiv> 0x6FA173EB"
abbreviation (input) TN_ID_EVENT :: u32 where "TN_ID_EVENT \<equiv> 0x5E224F25"
abbreviation (input) TN_ID_DATAQUEUE :: u32 where "TN_ID_DATAQUEUE \<equiv> 0x8C8A6C89"
abbreviation (input) TN_ID_FSMEMORYPOOL :: u32 where "TN_ID_FSMEMORYPOOL \<equiv> 0x26B7CE8B"
abbreviation (input) TN_ID_MUTEX :: u32 where "TN_ID_MUTEX \<equiv> 0x17129E45"

abbreviation (input) TN_EXIT_AND_DELETE_TASK :: int where "TN_EXIT_AND_DELETE_TASK \<equiv> 1"

abbreviation (input) TSK_STATE_RUNNABLE :: u32 where "TSK_STATE_RUNNABLE \<equiv> 0x01"
abbreviation (input) TSK_STATE_WAIT :: u32 where "TSK_STATE_WAIT \<equiv> 0x04"
abbreviation (input) TSK_STATE_SUSPEND :: u32 where "TSK_STATE_SUSPEND \<equiv> 0x08"
abbreviation (input) TSK_STATE_WAITSUSP :: u32 where "TSK_STATE_WAITSUSP \<equiv> 0x0C"
abbreviation (input) TSK_STATE_DORMANT :: u32 where "TSK_STATE_DORMANT \<equiv> 0x10"

abbreviation (input) TSK_WAIT_REASON_SLEEP :: u32 where "TSK_WAIT_REASON_SLEEP \<equiv> 0x0001"
abbreviation (input) TSK_WAIT_REASON_SEM :: u32 where "TSK_WAIT_REASON_SEM \<equiv> 0x0002"
abbreviation (input) TSK_WAIT_REASON_EVENT :: u32 where "TSK_WAIT_REASON_EVENT \<equiv> 0x0004"
abbreviation (input) TSK_WAIT_REASON_DQUE_WSEND :: u32 where "TSK_WAIT_REASON_DQUE_WSEND \<equiv> 0x0008"
abbreviation (input) TSK_WAIT_REASON_DQUE_WRECEIVE :: u32 where "TSK_WAIT_REASON_DQUE_WRECEIVE \<equiv> 0x0010"
abbreviation (input) TSK_WAIT_REASON_MUTEX_C :: u32 where "TSK_WAIT_REASON_MUTEX_C \<equiv> 0x0020"
abbreviation (input) TSK_WAIT_REASON_MUTEX_C_BLK :: u32 where "TSK_WAIT_REASON_MUTEX_C_BLK \<equiv> 0x0040"
abbreviation (input) TSK_WAIT_REASON_MUTEX_I :: u32 where "TSK_WAIT_REASON_MUTEX_I \<equiv> 0x0080"
abbreviation (input) TSK_WAIT_REASON_WFIXMEM :: u32 where "TSK_WAIT_REASON_WFIXMEM \<equiv> 0x2000"

abbreviation (input) TN_EVENT_ATTR_SINGLE :: u32 where "TN_EVENT_ATTR_SINGLE \<equiv> 1"
abbreviation (input) TN_EVENT_ATTR_MULTI :: u32 where "TN_EVENT_ATTR_MULTI \<equiv> 2"
abbreviation (input) TN_EVENT_ATTR_CLR :: u32 where "TN_EVENT_ATTR_CLR \<equiv> 4"
abbreviation (input) TN_EVENT_WCOND_OR :: u32 where "TN_EVENT_WCOND_OR \<equiv> 8"
abbreviation (input) TN_EVENT_WCOND_AND :: u32 where "TN_EVENT_WCOND_AND \<equiv> 0x10"
abbreviation (input) TN_MUTEX_ATTR_CEILING :: int where "TN_MUTEX_ATTR_CEILING \<equiv> 1"
abbreviation (input) TN_MUTEX_ATTR_INHERIT :: int where "TN_MUTEX_ATTR_INHERIT \<equiv> 2"

abbreviation (input) TERR_NO_ERR :: int where "TERR_NO_ERR \<equiv> 0"
abbreviation (input) TERR_OVERFLOW :: int where "TERR_OVERFLOW \<equiv> -1"
abbreviation (input) TERR_WCONTEXT :: int where "TERR_WCONTEXT \<equiv> -2"
abbreviation (input) TERR_WSTATE :: int where "TERR_WSTATE \<equiv> -3"
abbreviation (input) TERR_TIMEOUT :: int where "TERR_TIMEOUT \<equiv> -4"
abbreviation (input) TERR_WRONG_PARAM :: int where "TERR_WRONG_PARAM \<equiv> -5"
abbreviation (input) TERR_UNDERFLOW :: int where "TERR_UNDERFLOW \<equiv> -6"
abbreviation (input) TERR_OUT_OF_MEM :: int where "TERR_OUT_OF_MEM \<equiv> -7"
abbreviation (input) TERR_ILUSE :: int where "TERR_ILUSE \<equiv> -8"
abbreviation (input) TERR_NOEXS :: int where "TERR_NOEXS \<equiv> -9"
abbreviation (input) TERR_DLT :: int where "TERR_DLT \<equiv> -10"

abbreviation (input) TN_INVALID_VAL :: u32 where "TN_INVALID_VAL \<equiv> 0xFFFFFFFF"
abbreviation (input) NO_TIME_SLICE :: u16 where "NO_TIME_SLICE \<equiv> 0"
abbreviation (input) MAX_TIME_SLICE :: int where "MAX_TIME_SLICE \<equiv> 0xFFFE"

text \<open>A C condition on a bit mask: \<open>x & m\<close> read as a truth value.\<close>

definition has_bits :: "u32 \<Rightarrow> u32 \<Rightarrow> bool" where
  "has_bits x m \<longleftrightarrow> x AND m \<noteq> 0"

lemma has_bits_numeral [simp]:
  "has_bits (numeral a) (numeral b) \<longleftrightarrow> numeral a AND numeral b \<noteq> (0 :: u32)"
  "has_bits 1 (numeral b) \<longleftrightarrow> 1 AND numeral b \<noteq> (0 :: u32)"
  "has_bits (numeral a) 1 \<longleftrightarrow> numeral a AND 1 \<noteq> (0 :: u32)"
  "\<not> has_bits 0 m" "\<not> has_bits m 0" "has_bits 1 1"
  by (simp_all add: has_bits_def)

section \<open>Shared lemmas\<close>

lemma bind_Some_exI: "m = Some x \<Longrightarrow> (\<exists>y. f x = Some y \<and> P y) \<Longrightarrow> \<exists>y. Option.bind m f = Some y \<and> P y"
  by simp

lemma remove1_split: "distinct (ys @ x # zs) \<Longrightarrow> remove1 x (ys @ x # zs) = ys @ zs"
  by (induction ys) auto

lemma bit_set_bmp: "n < 32 \<Longrightarrow> bit ((w :: u32) OR 2 ^ n) i \<longleftrightarrow> bit w i \<or> i = n"
  by (auto simp: bit_or_iff bit_exp_iff)

lemma bit_clear_bmp: "n < 32 \<Longrightarrow> bit ((w :: u32) AND NOT (2 ^ n)) i \<longleftrightarrow> bit w i \<and> i \<noteq> n"
  by (auto simp: bit_and_iff bit_not_iff bit_exp_iff dest: bit_imp_le_length)

lemma u32_eq_0_iff: "(w :: u32) = 0 \<longleftrightarrow> (\<forall>i<32. \<not> bit w i)"
  by (auto simp: bit_word_eqI intro!: bit_word_eqI)

end
