(* ===== verification/TN_Cdll.thy ===== *)
theory TN_Cdll
  imports TN_Prelude
begin

text \<open>
  The circular doubly linked queues of \<^verbatim>\<open>TNKernel/tn_utils.c\<close>, at the level of their
  pointers. A \<open>CDLL_QUEUE\<close> is a pair of pointers; the heap maps the address of every queue
  field of the kernel to its contents. The operations below follow the C statements one by
  one, reads and writes in the order the code has them.

  The second half relates the pointers to lists: \<open>cdll h q xs\<close> says that the queue with head
  \<open>q\<close> holds the entries \<open>xs\<close> in this order, and \<open>lists_ok h H L\<close> that the heads \<open>H\<close> carry
  pairwise disjoint queues with contents \<open>L\<close>. The locale \<open>wait_queues\<close> is the interface the
  kernel objects rely on; the pointer operations interpret it.
\<close>

section \<open>Queue fields and their contents\<close>

text \<open>The addresses of the queue fields: the global list heads of \<^verbatim>\<open>tn.c\<close>, the queue fields of a
  task control block, and the queue heads and links of the kernel objects.\<close>

datatype qaddr =
    ReadyList int | CreateQueue | TimeoutList | LockedMutexes | BlockedTasks
  | TaskQ tid | TimerQ tid | BlockQ tid | CreateQ tid | TaskMutexQ tid
  | SemWaitQ oid | EventWaitQ oid | DqueSendQ oid | DqueRecvQ oid | FmpWaitQ oid
  | MutexWaitQ oid | MutexQ oid | LockMutexQ oid

type_synonym qptr = "qaddr option"

record cdll_queue =
  q_prev :: qptr
  q_next :: qptr

type_synonym qheap = "qaddr \<Rightarrow> cdll_queue"

definition set_next :: "qaddr \<Rightarrow> qptr \<Rightarrow> qheap \<Rightarrow> qheap" where
  "set_next n p h = h(n := (h n)\<lparr>q_next := p\<rparr>)"

definition set_prev :: "qaddr \<Rightarrow> qptr \<Rightarrow> qheap \<Rightarrow> qheap" where
  "set_prev n p h = h(n := (h n)\<lparr>q_prev := p\<rparr>)"

lemma q_next_set_next [simp]: "q_next (set_next n p h m) = (if m = n then p else q_next (h m))"
  and q_prev_set_next [simp]: "q_prev (set_next n p h m) = q_prev (h m)"
  and q_next_set_prev [simp]: "q_next (set_prev n p h m) = q_next (h m)"
  and q_prev_set_prev [simp]: "q_prev (set_prev n p h m) = (if m = n then p else q_prev (h m))"
  by (simp_all add: set_next_def set_prev_def)

lemma set_next_other: "m \<noteq> n \<Longrightarrow> set_next n p h m = h m"
  and set_prev_other: "m \<noteq> n \<Longrightarrow> set_prev n p h m = h m"
  by (simp_all add: set_next_def set_prev_def)

section \<open>Operations of tn_utils.c\<close>

definition queue_reset :: "qaddr \<Rightarrow> qheap \<Rightarrow> qheap" where
  "queue_reset que h = set_prev que (Some que) (set_next que (Some que) h)"

definition is_queue_empty :: "qaddr \<Rightarrow> qheap \<Rightarrow> bool" where
  "is_queue_empty que h \<longleftrightarrow> q_next (h que) = Some que \<and> q_prev (h que) = Some que"

definition queue_add_head :: "qaddr \<Rightarrow> qaddr \<Rightarrow> qheap \<Rightarrow> qheap option" where
  "queue_add_head que entry h =
     (let h1 = set_next entry (q_next (h que)) h;
          h2 = set_prev entry (Some que) h1
      in do {
        n \<leftarrow> q_next (h2 entry);
        let h3 = set_prev n (Some entry) h2;
        Some (set_next que (Some entry) h3)
      })"

definition queue_add_tail :: "qaddr \<Rightarrow> qaddr \<Rightarrow> qheap \<Rightarrow> qheap option" where
  "queue_add_tail que entry h =
     (let h1 = set_next entry (Some que) h;
          h2 = set_prev entry (q_prev (h1 que)) h1
      in do {
        p \<leftarrow> q_prev (h2 entry);
        let h3 = set_next p (Some entry) h2;
        Some (set_prev que (Some entry) h3)
      })"

definition queue_remove_head :: "qptr \<Rightarrow> qheap \<Rightarrow> (qptr \<times> qheap) option" where
  "queue_remove_head que h =
     (case que of
        None \<Rightarrow> Some (None, h)
      | Some q \<Rightarrow>
          if q_next (h q) = Some q then Some (None, h)
          else do {
            entry \<leftarrow> q_next (h q);
            n \<leftarrow> q_next (h entry);
            let h1 = set_prev n (Some q) h;
            Some (Some entry, set_next q (q_next (h1 entry)) h1)
          })"

definition queue_remove_tail :: "qaddr \<Rightarrow> qheap \<Rightarrow> (qptr \<times> qheap) option" where
  "queue_remove_tail que h =
     (if q_prev (h que) = Some que then Some (None, h)
      else do {
        entry \<leftarrow> q_prev (h que);
        p \<leftarrow> q_prev (h entry);
        let h1 = set_next p (Some que) h;
        Some (Some entry, set_prev que (q_prev (h1 entry)) h1)
      })"

definition queue_remove_entry :: "qaddr \<Rightarrow> qheap \<Rightarrow> qheap option" where
  "queue_remove_entry entry h =
     do {
       p \<leftarrow> q_prev (h entry);
       let h1 = set_next p (q_next (h entry)) h;
       n \<leftarrow> q_next (h1 entry);
       Some (set_prev n (q_prev (h1 entry)) h1)
     }"

text \<open>The loop of \<open>queue_contains_entry\<close>: on pointers that do not lead back to the head it does
  not return.\<close>

partial_function (option) contains_loop :: "qaddr \<Rightarrow> qaddr \<Rightarrow> qptr \<Rightarrow> qheap \<Rightarrow> bool option" where
  "contains_loop que entry curr_que h =
     (if curr_que = Some entry then Some True
      else do {
        c \<leftarrow> curr_que;
        (if q_next (h c) = Some que then Some False
         else contains_loop que entry (q_next (h c)) h)
      })"

definition queue_contains_entry :: "qaddr \<Rightarrow> qaddr \<Rightarrow> qheap \<Rightarrow> bool option" where
  "queue_contains_entry que entry h = contains_loop que entry (q_next (h que)) h"

section \<open>Queues as lists\<close>

definition linked :: "qheap \<Rightarrow> qaddr \<Rightarrow> qaddr \<Rightarrow> bool" where
  "linked h u v \<longleftrightarrow> q_next (h u) = Some v \<and> q_prev (h v) = Some u"

definition cdll :: "qheap \<Rightarrow> qaddr \<Rightarrow> qaddr list \<Rightarrow> bool" where
  "cdll h q xs \<longleftrightarrow> distinct (q # xs) \<and> successively (linked h) (q # xs @ [q])"

lemma links_frame:
  assumes "distinct xs"
    and "\<And>u. u \<in> set xs \<Longrightarrow> u \<noteq> last xs \<Longrightarrow> q_next (h' u) = q_next (h u)"
    and "\<And>u. u \<in> set xs \<Longrightarrow> u \<noteq> hd xs \<Longrightarrow> q_prev (h' u) = q_prev (h u)"
  shows "successively (linked h') xs = successively (linked h) xs"
  using assms
proof (induction xs rule: induct_list012)
  case (3 x y zs)
  have "successively (linked h') (y # zs) = successively (linked h) (y # zs)"
    using 3 by (intro "3.IH") auto
  moreover have "x \<noteq> last (x # y # zs)"
    using "3.prems"(1) last_in_set [of "y # zs"] by auto
  then have "q_next (h' x) = q_next (h x)"
    using "3.prems"(2) [of x] by simp
  moreover have "q_prev (h' y) = q_prev (h y)"
    using "3.prems"(1,3) by auto
  ultimately show ?case by (simp add: linked_def)
qed simp_all

lemma cdll_frame: "(\<And>u. u \<in> set (q # xs) \<Longrightarrow> h' u = h u) \<Longrightarrow> cdll h' q xs = cdll h q xs"
  unfolding cdll_def
  by (intro conj_cong refl successively_cong) (auto simp: linked_def)

lemma cdll_Nil_iff: "cdll h q [] \<longleftrightarrow> is_queue_empty q h"
  by (simp add: cdll_def is_queue_empty_def linked_def)

lemma cdll_distinct: "cdll h q xs \<Longrightarrow> distinct xs \<and> q \<notin> set xs"
  by (simp add: cdll_def)

lemma cdll_split:
  "cdll h q (ys @ zs) \<longleftrightarrow>
     distinct (q # ys @ zs) \<and> successively (linked h) (q # ys) \<and>
     successively (linked h) (zs @ [q]) \<and> linked h (last (q # ys)) (hd (zs @ [q]))"
proof -
  have "successively (linked h) (q # (ys @ zs) @ [q]) \<longleftrightarrow>
    successively (linked h) (q # ys) \<and> successively (linked h) (zs @ [q]) \<and>
    linked h (last (q # ys)) (hd (zs @ [q]))"
    using successively_append_iff [of "linked h" "q # ys" "zs @ [q]"] by simp
  then show ?thesis
    unfolding cdll_def by blast
qed

lemma cdll_next: "cdll h q xs \<Longrightarrow> q_next (h q) = Some (hd (xs @ [q]))"
  using cdll_split [of h q "[]" xs] by (auto simp: linked_def)

lemma cdll_prev: "cdll h q xs \<Longrightarrow> q_prev (h q) = Some (last (q # xs))"
  using cdll_split [of h q xs "[]"] by (auto simp: linked_def)

lemma cdll_next_entry: "cdll h q (ys @ e # zs) \<Longrightarrow> q_next (h e) = Some (hd (zs @ [q]))"
  using cdll_split [of h q "ys @ [e]" zs] by (auto simp: linked_def)

lemma cdll_prev_entry: "cdll h q (ys @ e # zs) \<Longrightarrow> q_prev (h e) = Some (last (q # ys))"
  using cdll_split [of h q ys "e # zs"] by (auto simp: linked_def)

lemma cdll_empty_iff: "cdll h q xs \<Longrightarrow> is_queue_empty q h \<longleftrightarrow> xs = []"
  by (cases xs) (auto simp: is_queue_empty_def cdll_Nil_iff cdll_next dest: cdll_distinct)

lemma cdll_next_self_iff: "cdll h q xs \<Longrightarrow> q_next (h q) = Some q \<longleftrightarrow> xs = []"
  by (cases xs) (auto simp: cdll_next dest: cdll_distinct)

text \<open>A heap determines the contents of a queue.\<close>

lemma links_unique:
  "successively (linked h) (u # xs @ [q]) \<Longrightarrow> successively (linked h) (u # ys @ [q]) \<Longrightarrow>
   q \<notin> set xs \<Longrightarrow> q \<notin> set ys \<Longrightarrow> xs = ys"
proof (induction xs arbitrary: u ys)
  case Nil
  then show ?case by (cases ys) (auto simp: linked_def)
next
  case (Cons x xs)
  then obtain y ys' where ys: "ys = y # ys'" "y = x"
    by (cases ys) (auto simp: linked_def)
  then show ?case using Cons.IH [of x ys'] Cons.prems by simp
qed

lemma cdll_unique: "cdll h q xs \<Longrightarrow> cdll h q ys \<Longrightarrow> xs = ys"
  unfolding cdll_def by (rule links_unique [of h q]) auto

section \<open>Effect of the operations on one queue\<close>

lemma cdll_queue_reset: "cdll (queue_reset q h) q []"
  by (simp add: cdll_Nil_iff is_queue_empty_def queue_reset_def)

lemma queue_reset_other: "u \<noteq> q \<Longrightarrow> queue_reset q h u = h u"
  by (simp add: queue_reset_def set_next_other set_prev_other)

lemma queue_add_tail_cdll:
  assumes "cdll h q xs" and "e \<notin> set (q # xs)"
  shows "\<exists>h'. queue_add_tail q e h = Some h' \<and> cdll h' q (xs @ [e]) \<and>
    (\<forall>u. u \<notin> set (q # e # xs) \<longrightarrow> h' u = h u)"
proof -
  let ?p = "last (q # xs)"
  define h' where "h' = set_prev q (Some e) (set_next ?p (Some e)
    (set_prev e (Some ?p) (set_next e (Some q) h)))"
  have p: "q_prev (h q) = Some ?p" using assms(1) by (rule cdll_prev)
  have ne: "e \<noteq> q" "e \<noteq> ?p" using assms(2) by auto
  have "queue_add_tail q e h = Some h'"
    using p ne by (simp add: queue_add_tail_def h'_def Let_def)
  moreover have "cdll h' q (xs @ [e])"
  proof -
    have old: "distinct (q # xs)" "successively (linked h) (q # xs)"
      using assms(1) cdll_split [of h q xs "[]"] by auto
    have "successively (linked h') (q # xs)"
      using old assms(2) by (subst links_frame [of _ h' h]) (auto simp: h'_def)
    then show ?thesis
      using old assms(2) ne cdll_split [of h' q xs "[e]"]
      by (auto simp: linked_def h'_def)
  qed
  moreover have "h' u = h u" if "u \<notin> set (q # e # xs)" for u
    using that by (auto simp: h'_def set_next_def set_prev_def)
  ultimately show ?thesis by blast
qed

lemma queue_add_head_cdll:
  assumes "cdll h q xs" and "e \<notin> set (q # xs)"
  shows "\<exists>h'. queue_add_head q e h = Some h' \<and> cdll h' q (e # xs) \<and>
    (\<forall>u. u \<notin> set (q # e # xs) \<longrightarrow> h' u = h u)"
proof -
  let ?n = "hd (xs @ [q])"
  define h' where "h' = set_next q (Some e) (set_prev ?n (Some e)
    (set_prev e (Some q) (set_next e (Some ?n) h)))"
  have n: "q_next (h q) = Some ?n" using assms(1) by (rule cdll_next)
  have ne: "e \<noteq> q" "e \<noteq> ?n" using assms(2) by (cases xs; auto)+
  have "queue_add_head q e h = Some h'"
    using n ne by (simp add: queue_add_head_def h'_def Let_def)
  moreover have "cdll h' q (e # xs)"
  proof -
    have old: "distinct (q # xs)" "successively (linked h) (xs @ [q])"
      using assms(1) cdll_split [of h q "[]" xs] by auto
    have "successively (linked h') (xs @ [q])"
      using old assms(2) by (subst links_frame [of _ h' h]) (auto simp: h'_def)
    then show ?thesis
      using old assms(2) ne cdll_split [of h' q "[e]" xs]
      by (auto simp: linked_def h'_def)
  qed
  moreover have "h' u = h u" if "u \<notin> set (q # e # xs)" for u
    using that by (cases xs) (auto simp: h'_def set_next_def set_prev_def)
  ultimately show ?thesis by blast
qed

lemma unlink_cdll:
  assumes "cdll h q (ys @ e # zs)"
    and "h' = set_prev (hd (zs @ [q])) (Some (last (q # ys)))
                (set_next (last (q # ys)) (Some (hd (zs @ [q]))) h)"
  shows "cdll h' q (ys @ zs)" and "\<And>u. u \<notin> set (q # ys @ zs) \<Longrightarrow> h' u = h u"
proof -
  have d: "distinct (q # ys @ e # zs)" and l: "successively (linked h) (q # ys)"
    and r: "successively (linked h) (zs @ [q])"
    using assms(1) cdll_split [of h q ys "e # zs"] cdll_split [of h q "ys @ [e]" zs] by auto
  have "hd (zs @ [q]) = q \<or> hd (zs @ [q]) \<notin> set (q # ys)"
    using d by (cases zs) auto
  then have "successively (linked h') (q # ys)"
    using l d by (subst links_frame [of _ h' h]) (auto simp: assms(2))
  moreover have "last (q # ys) = q \<or> last (q # ys) \<notin> set (zs @ [q])"
    using d by (cases ys rule: rev_cases) auto
  then have "successively (linked h') (zs @ [q])"
    using r d by (subst links_frame [of _ h' h]) (auto simp: assms(2))
  moreover have "linked h' (last (q # ys)) (hd (zs @ [q]))"
    by (simp add: linked_def assms(2))
  ultimately show "cdll h' q (ys @ zs)"
    using d by (auto simp: cdll_split)
  show "h' u = h u" if "u \<notin> set (q # ys @ zs)" for u
    using that by (cases zs; cases ys rule: rev_cases) (auto simp: assms(2) set_next_def set_prev_def)
qed

lemma queue_remove_entry_cdll:
  assumes "cdll h q (ys @ e # zs)"
  shows "\<exists>h'. queue_remove_entry e h = Some h' \<and> cdll h' q (ys @ zs) \<and>
    (\<forall>u. u \<notin> set (q # ys @ zs) \<longrightarrow> h' u = h u)"
proof -
  let ?p = "last (q # ys)" and ?n = "hd (zs @ [q])"
  have ne: "e \<noteq> ?p" "e \<noteq> ?n"
    using cdll_distinct [OF assms] assms by (cases zs; auto simp: cdll_def)+
  have "queue_remove_entry e h = Some (set_prev ?n (Some ?p) (set_next ?p (Some ?n) h))"
    using cdll_prev_entry [OF assms] cdll_next_entry [OF assms] ne
    by (simp add: queue_remove_entry_def)
  then show ?thesis
    using unlink_cdll [OF assms refl] by blast
qed

lemma queue_remove_head_cdll:
  assumes "cdll h q (e # zs)"
  shows "\<exists>h'. queue_remove_head (Some q) h = Some (Some e, h') \<and> cdll h' q zs \<and>
    (\<forall>u. u \<notin> set (q # zs) \<longrightarrow> h' u = h u)"
proof -
  let ?n = "hd (zs @ [q])"
  have split: "cdll h q ([] @ e # zs)" using assms by simp
  have "e \<noteq> q" using assms by (auto simp: cdll_def)
  then have "queue_remove_head (Some q) h =
      Some (Some e, set_next q (Some ?n) (set_prev ?n (Some q) h))"
    using cdll_next [OF assms] cdll_next_entry [OF split]
    by (auto simp: queue_remove_head_def)
  moreover have "set_next q (Some ?n) (set_prev ?n (Some q) h) =
      set_prev ?n (Some (last [q])) (set_next (last [q]) (Some ?n) h)"
    by (auto simp: set_next_def set_prev_def fun_upd_def)
  ultimately show ?thesis
    using unlink_cdll [OF split, of "set_next q (Some ?n) (set_prev ?n (Some q) h)"] by simp
qed

lemma queue_remove_head_cdll_Nil:
  "cdll h q [] \<Longrightarrow> queue_remove_head (Some q) h = Some (None, h)"
  by (simp add: queue_remove_head_def cdll_Nil_iff is_queue_empty_def)

lemma queue_remove_tail_cdll:
  assumes "cdll h q (ys @ [e])"
  shows "\<exists>h'. queue_remove_tail q h = Some (Some e, h') \<and> cdll h' q ys \<and>
    (\<forall>u. u \<notin> set (q # ys) \<longrightarrow> h' u = h u)"
proof -
  let ?p = "last (q # ys)"
  have split: "cdll h q (ys @ e # [])" using assms by simp
  have "e \<noteq> q" using assms by (auto simp: cdll_def)
  then have "queue_remove_tail q h =
      Some (Some e, set_prev q (Some ?p) (set_next ?p (Some q) h))"
    using cdll_prev [OF assms] cdll_prev_entry [OF split]
    by (auto simp: queue_remove_tail_def)
  then show ?thesis
    using unlink_cdll [OF split refl] by simp
qed

lemma queue_remove_tail_cdll_Nil:
  "cdll h q [] \<Longrightarrow> queue_remove_tail q h = Some (None, h)"
  by (simp add: queue_remove_tail_def cdll_Nil_iff is_queue_empty_def)

text \<open>An entry linked to itself, as \<open>queue_reset\<close> leaves it, can be removed without effect.\<close>

lemma queue_remove_entry_self:
  assumes "is_queue_empty e h"
  shows "queue_remove_entry e h = Some h"
proof -
  have "set_prev e (Some e) (set_next e (Some e) h) = h"
    using assms by (auto simp: is_queue_empty_def set_prev_def set_next_def)
  with assms show ?thesis
    by (simp add: queue_remove_entry_def is_queue_empty_def)
qed

lemma contains_loop_cdll:
  "cdll h q (ys @ x # zs) \<Longrightarrow>
   contains_loop q e (Some x) h = Some (e \<in> set (x # zs))"
proof (induction zs arbitrary: ys x)
  case Nil
  then have "q_next (h x) = Some q" using cdll_next_entry [of h q ys x "[]"] by simp
  then show ?case by (subst contains_loop.simps) auto
next
  case (Cons z zs)
  have "q_next (h x) = Some z" using cdll_next_entry [OF Cons.prems] by simp
  moreover have "z \<noteq> q" using Cons.prems by (auto simp: cdll_def)
  moreover have "contains_loop q e (Some z) h = Some (e \<in> set (z # zs))"
    using Cons.IH [of "ys @ [x]" z] Cons.prems by simp
  ultimately show ?case by (subst contains_loop.simps) auto
qed

lemma queue_contains_entry_cdll:
  assumes "cdll h q xs" and "e \<noteq> q"
  shows "queue_contains_entry q e h = Some (e \<in> set xs)"
proof (cases xs)
  case Nil
  then have "q_next (h q) = Some q" using cdll_next [OF assms(1)] by simp
  then show ?thesis
    unfolding queue_contains_entry_def using Nil assms(2) by (subst contains_loop.simps) auto
next
  case (Cons x zs)
  then have "q_next (h q) = Some x" using cdll_next [OF assms(1)] by simp
  then show ?thesis
    using contains_loop_cdll [of h q "[]" x zs e] assms(1) Cons
    by (simp add: queue_contains_entry_def)
qed

section \<open>All queues of the kernel together\<close>

text \<open>\<open>H\<close> are the heads in use, \<open>L\<close> gives the contents of each of them.\<close>

definition lists_ok :: "qheap \<Rightarrow> qaddr set \<Rightarrow> (qaddr \<Rightarrow> qaddr list) \<Rightarrow> bool" where
  "lists_ok h H L \<longleftrightarrow>
     (\<forall>q\<in>H. cdll h q (L q) \<and> set (L q) \<inter> H = {}) \<and>
     (\<forall>q\<in>H. \<forall>q'\<in>H. q \<noteq> q' \<longrightarrow> set (L q) \<inter> set (L q') = {})"

definition queued :: "qaddr set \<Rightarrow> (qaddr \<Rightarrow> qaddr list) \<Rightarrow> qaddr \<Rightarrow> bool" where
  "queued H L e \<longleftrightarrow> (\<exists>q\<in>H. e \<in> set (L q))"

lemma lists_ok_cdll: "lists_ok h H L \<Longrightarrow> q \<in> H \<Longrightarrow> cdll h q (L q)"
  by (simp add: lists_ok_def)

lemma lists_ok_distinct: "lists_ok h H L \<Longrightarrow> q \<in> H \<Longrightarrow> distinct (L q)"
  by (auto simp: lists_ok_def dest: cdll_distinct)

lemma lists_ok_entry_not_head: "lists_ok h H L \<Longrightarrow> q \<in> H \<Longrightarrow> e \<in> set (L q) \<Longrightarrow> e \<notin> H"
  by (auto simp: lists_ok_def)

lemma lists_ok_disjoint:
  "lists_ok h H L \<Longrightarrow> q \<in> H \<Longrightarrow> q' \<in> H \<Longrightarrow> e \<in> set (L q) \<Longrightarrow> e \<in> set (L q') \<Longrightarrow> q' = q"
  unfolding lists_ok_def by blast

lemma lists_ok_empty_iff: "lists_ok h H L \<Longrightarrow> q \<in> H \<Longrightarrow> is_queue_empty q h \<longleftrightarrow> L q = []"
  by (blast dest: lists_ok_cdll cdll_empty_iff)

lemma lists_ok_loose:
  assumes "lists_ok h H L" and "q \<in> H" and "e \<in> set (L q)" and "e \<notin> set xs"
  shows "e \<notin> H \<and> \<not> queued H (L(q := xs)) e"
proof -
  have "e \<notin> set ((L(q := xs)) q')" if "q' \<in> H" for q'
    using lists_ok_disjoint [OF assms(1,2) that assms(3)] assms(4) by (cases "q' = q") auto
  then show ?thesis
    using lists_ok_entry_not_head [OF assms(1-3)] by (auto simp: queued_def)
qed

text \<open>One queue changes, the others keep their contents.\<close>

lemma lists_ok_update:
  assumes ok: "lists_ok h H L" and q: "q \<in> H" and new: "cdll h' q xs"
    and entries: "\<And>e. e \<in> set xs \<Longrightarrow> e \<in> set (L q) \<or> e \<notin> H \<and> \<not> queued H L e"
    and frame: "\<And>u. u \<notin> set (q # xs) \<Longrightarrow> u \<notin> set (L q) \<Longrightarrow> h' u = h u"
  shows "lists_ok h' H (L(q := xs))"
proof -
  have dis: "set xs \<inter> set (L q') = {}" if "q' \<in> H" "q' \<noteq> q" for q'
    using entries lists_ok_disjoint [OF ok q that(1)] that unfolding queued_def by blast
  have xsH: "set xs \<inter> H = {}"
    using entries lists_ok_entry_not_head [OF ok q] by blast
  have same: "cdll h' q' (L q')" if q': "q' \<in> H" "q' \<noteq> q" for q'
  proof -
    have "h' u = h u" if u: "u \<in> set (q' # L q')" for u
    proof (rule frame)
      have "u \<noteq> q" using u q' q lists_ok_entry_not_head [OF ok q'(1)] by auto
      moreover have "u \<notin> set xs" using u q' dis xsH by auto
      ultimately show "u \<notin> set (q # xs)" by simp
      show "u \<notin> set (L q)"
        using u q' lists_ok_entry_not_head [OF ok q] lists_ok_disjoint [OF ok q] by auto
    qed
    then show ?thesis
      using cdll_frame [of q' "L q'" h' h] lists_ok_cdll [OF ok q'(1)] by blast
  qed
  show ?thesis
    unfolding lists_ok_def
  proof (intro conjI ballI impI)
    fix q' assume q': "q' \<in> H"
    show "cdll h' q' ((L(q := xs)) q')" using new same q' by (cases "q' = q") auto
    show "set ((L(q := xs)) q') \<inter> H = {}"
      using xsH ok q' by (cases "q' = q") (auto simp: lists_ok_def)
    fix q'' assume "q'' \<in> H" "q' \<noteq> q''"
    then show "set ((L(q := xs)) q') \<inter> set ((L(q := xs)) q'') = {}"
      using dis q' lists_ok_disjoint [OF ok q'] by (cases "q' = q"; cases "q'' = q") auto
  qed
qed

text \<open>The operations on the whole heap: each is a function of the abstract lists.\<close>

lemma lists_ok_add_tail:
  assumes "lists_ok h H L" and "q \<in> H" and "e \<notin> H" and "\<not> queued H L e"
  shows "\<exists>h'. queue_add_tail q e h = Some h' \<and> lists_ok h' H (L(q := L q @ [e]))"
proof -
  have "e \<notin> set (q # L q)" using assms by (auto simp: queued_def)
  then obtain h' where h': "queue_add_tail q e h = Some h'" "cdll h' q (L q @ [e])"
    "\<And>u. u \<notin> set (q # e # L q) \<Longrightarrow> h' u = h u"
    using queue_add_tail_cdll [OF lists_ok_cdll [OF assms(1,2)]] by blast
  have "lists_ok h' H (L(q := L q @ [e]))"
    using assms h' by (intro lists_ok_update [of h H L]) auto
  with h' show ?thesis by blast
qed

lemma lists_ok_add_head:
  assumes "lists_ok h H L" and "q \<in> H" and "e \<notin> H" and "\<not> queued H L e"
  shows "\<exists>h'. queue_add_head q e h = Some h' \<and> lists_ok h' H (L(q := e # L q))"
proof -
  have "e \<notin> set (q # L q)" using assms by (auto simp: queued_def)
  then obtain h' where h': "queue_add_head q e h = Some h'" "cdll h' q (e # L q)"
    "\<And>u. u \<notin> set (q # e # L q) \<Longrightarrow> h' u = h u"
    using queue_add_head_cdll [OF lists_ok_cdll [OF assms(1,2)]] by blast
  have "lists_ok h' H (L(q := e # L q))"
    using assms h' by (intro lists_ok_update [of h H L]) auto
  with h' show ?thesis by blast
qed

lemma lists_ok_remove_entry:
  assumes "lists_ok h H L" and "q \<in> H" and "e \<in> set (L q)"
  shows "\<exists>h'. queue_remove_entry e h = Some h' \<and> lists_ok h' H (L(q := remove1 e (L q)))"
proof -
  obtain ys zs where L: "L q = ys @ e # zs" using assms(3) by (auto simp: in_set_conv_decomp)
  have "distinct (ys @ e # zs)" using lists_ok_distinct [OF assms(1,2)] L by simp
  then have rm: "remove1 e (L q) = ys @ zs" by (simp only: L remove1_split)
  obtain h' where h': "queue_remove_entry e h = Some h'" "cdll h' q (ys @ zs)"
    "\<And>u. u \<notin> set (q # ys @ zs) \<Longrightarrow> h' u = h u"
    using queue_remove_entry_cdll [of h q ys e zs] lists_ok_cdll [OF assms(1,2)] L by auto
  have "lists_ok h' H (L(q := ys @ zs))"
    using assms(1,2) h' L by (intro lists_ok_update [of h H L]) auto
  with h' rm show ?thesis by metis
qed

lemma lists_ok_remove_head:
  assumes "lists_ok h H L" and "q \<in> H" and "L q = e # zs"
  shows "\<exists>h'. queue_remove_head (Some q) h = Some (Some e, h') \<and> lists_ok h' H (L(q := zs))"
proof -
  obtain h' where h': "queue_remove_head (Some q) h = Some (Some e, h')" "cdll h' q zs"
    "\<And>u. u \<notin> set (q # zs) \<Longrightarrow> h' u = h u"
    using queue_remove_head_cdll [of h q e zs] lists_ok_cdll [OF assms(1,2)] assms(3) by auto
  have "lists_ok h' H (L(q := zs))"
    using assms h' by (intro lists_ok_update [of h H L]) auto
  with h' show ?thesis by blast
qed

lemma lists_ok_remove_tail:
  assumes "lists_ok h H L" and "q \<in> H" and "L q = ys @ [e]"
  shows "\<exists>h'. queue_remove_tail q h = Some (Some e, h') \<and> lists_ok h' H (L(q := ys))"
proof -
  obtain h' where h': "queue_remove_tail q h = Some (Some e, h')" "cdll h' q ys"
    "\<And>u. u \<notin> set (q # ys) \<Longrightarrow> h' u = h u"
    using queue_remove_tail_cdll [of h q ys e] lists_ok_cdll [OF assms(1,2)] assms(3) by auto
  have "lists_ok h' H (L(q := ys))"
    using assms h' by (intro lists_ok_update [of h H L]) auto
  with h' show ?thesis by blast
qed

text \<open>A field outside all queues becomes the head of an empty queue.\<close>

lemma lists_ok_reset_new:
  assumes "lists_ok h H L" and "q \<notin> H" and "\<not> queued H L q"
  shows "lists_ok (queue_reset q h) (insert q H) (L(q := []))"
proof -
  have "cdll (queue_reset q h) q' (L q')" if "q' \<in> H" for q'
    using that assms cdll_frame [of q' "L q'" "queue_reset q h" h] lists_ok_cdll [OF assms(1) that]
    by (metis queue_reset_other queued_def set_ConsD)
  then show ?thesis
    using assms cdll_queue_reset [of q h]
    by (auto simp: lists_ok_def queued_def)
qed

text \<open>Resetting a field that is neither a head nor queued changes nothing.\<close>

lemma lists_ok_reset_entry:
  assumes "lists_ok h H L" and "q \<notin> H" and "\<not> queued H L q"
  shows "lists_ok (queue_reset q h) H L"
proof -
  have "cdll (queue_reset q h) q' (L q')" if "q' \<in> H" for q'
    using that assms cdll_frame [of q' "L q'" "queue_reset q h" h] lists_ok_cdll [OF assms(1) that]
    by (metis queue_reset_other queued_def set_ConsD)
  then show ?thesis
    using assms by (auto simp: lists_ok_def)
qed

lemma lists_ok_unique:
  "lists_ok h H L \<Longrightarrow> lists_ok h H L' \<Longrightarrow> q \<in> H \<Longrightarrow> L q = L' q"
  by (meson cdll_unique lists_ok_cdll)

lemma lists_ok_cong:
  "(\<And>q. q \<in> H \<Longrightarrow> L q = L' q) \<Longrightarrow> lists_ok h H L = lists_ok h H L'"
  by (auto simp: lists_ok_def)

section \<open>The interface of the wait queues\<close>

text \<open>What a kernel object relies on: a heap represents a family of lists, insertion at the tail,
  removal at the head and removal anywhere act on one of the lists.\<close>

locale wait_queues =
  fixes heads :: "'q set"
    and rep :: "'h \<Rightarrow> ('q \<Rightarrow> 'e list) \<Rightarrow> bool"
    and loose :: "('q \<Rightarrow> 'e list) \<Rightarrow> 'e \<Rightarrow> bool"
    and isempty :: "'q \<Rightarrow> 'h \<Rightarrow> bool"
    and enq :: "'q \<Rightarrow> 'e \<Rightarrow> 'h \<Rightarrow> 'h option"
    and deq :: "'q \<Rightarrow> 'h \<Rightarrow> ('e option \<times> 'h) option"
    and unlink :: "'e \<Rightarrow> 'h \<Rightarrow> 'h option"
  assumes isempty_iff: "rep h L \<Longrightarrow> q \<in> heads \<Longrightarrow> isempty q h \<longleftrightarrow> L q = []"
    and enq_rep: "rep h L \<Longrightarrow> q \<in> heads \<Longrightarrow> loose L e \<Longrightarrow>
      \<exists>h'. enq q e h = Some h' \<and> rep h' (L(q := L q @ [e]))"
    and deq_rep: "rep h L \<Longrightarrow> q \<in> heads \<Longrightarrow> L q = e # es \<Longrightarrow>
      \<exists>h'. deq q h = Some (Some e, h') \<and> rep h' (L(q := es))"
    and deq_none: "rep h L \<Longrightarrow> q \<in> heads \<Longrightarrow> L q = [] \<Longrightarrow> deq q h = Some (None, h)"
    and unlink_rep: "rep h L \<Longrightarrow> q \<in> heads \<Longrightarrow> e \<in> set (L q) \<Longrightarrow>
      \<exists>h'. unlink e h = Some h' \<and> rep h' (L(q := remove1 e (L q)))"
    and loose_removed: "rep h L \<Longrightarrow> q \<in> heads \<Longrightarrow> e \<in> set (L q) \<Longrightarrow>
      loose (L(q := remove1 e (L q))) e"
    and loose_after_enq: "q \<in> heads \<Longrightarrow> loose L e \<Longrightarrow> e \<noteq> e' \<Longrightarrow> loose (L(q := L q @ [e'])) e"

text \<open>A family of insertions and of removals, as folds over the heap.\<close>

fun enq_all :: "('q \<Rightarrow> 'e \<Rightarrow> 'h \<Rightarrow> 'h option) \<Rightarrow> 'q \<Rightarrow> 'e list \<Rightarrow> 'h \<Rightarrow> 'h option" where
  "enq_all enq q [] h = Some h"
| "enq_all enq q (e # es) h = do { h' \<leftarrow> enq q e h; enq_all enq q es h' }"

fun deq_many :: "('q \<Rightarrow> 'h \<Rightarrow> ('e option \<times> 'h) option) \<Rightarrow> 'q \<Rightarrow> nat \<Rightarrow> 'h \<Rightarrow> ('e list \<times> 'h) option" where
  "deq_many deq q 0 h = Some ([], h)"
| "deq_many deq q (Suc n) h = do {
     (eo, h1) \<leftarrow> deq q h;
     e \<leftarrow> eo;
     (es, h2) \<leftarrow> deq_many deq q n h1;
     Some (e # es, h2)
   }"

context wait_queues
begin

lemma enq_all_rep:
  "rep h L \<Longrightarrow> q \<in> heads \<Longrightarrow> distinct es \<Longrightarrow> (\<And>e. e \<in> set es \<Longrightarrow> loose L e) \<Longrightarrow>
   \<exists>h'. enq_all enq q es h = Some h' \<and> rep h' (L(q := L q @ es))"
proof (induction es arbitrary: h L)
  case Nil
  then show ?case by simp
next
  case (Cons e es)
  obtain h1 where h1: "enq q e h = Some h1" "rep h1 (L(q := L q @ [e]))"
    using enq_rep [OF Cons.prems(1,2), of e] Cons.prems(4) by auto
  have l: "loose (L(q := L q @ [e])) x" if "x \<in> set es" for x
    using Cons.prems that by (intro loose_after_enq) auto
  obtain h' where "enq_all enq q es h1 = Some h'"
    "rep h' ((L(q := L q @ [e]))(q := (L(q := L q @ [e])) q @ es))"
    using Cons.IH [OF h1(2) Cons.prems(2) _ l] Cons.prems(3) by (meson distinct.simps(2))
  with h1 show ?case by (simp add: fun_upd_def cong: if_cong)
qed

lemma deq_many_rep:
  "rep h L \<Longrightarrow> q \<in> heads \<Longrightarrow> L q = es @ rest \<Longrightarrow>
   \<exists>h'. deq_many deq q (length es) h = Some (es, h') \<and> rep h' (L(q := rest))"
proof (induction es arbitrary: h L)
  case Nil
  then show ?case by (metis append_Nil deq_many.simps(1) fun_upd_triv list.size(3))
next
  case (Cons e es)
  obtain h1 where h1: "deq q h = Some (Some e, h1)" "rep h1 (L(q := es @ rest))"
    using deq_rep [OF Cons.prems(1,2), of e "es @ rest"] Cons.prems(3) by auto
  obtain h' where "deq_many deq q (length es) h1 = Some (es, h')"
    "rep h' ((L(q := es @ rest))(q := rest))"
    using Cons.IH [OF h1(2) Cons.prems(2) fun_upd_same] by blast
  with h1 show ?case by (auto simp: fun_upd_def cong: if_cong)
qed

text \<open>First in, first out.\<close>

lemma fifo:
  assumes "rep h L" and "q \<in> heads" and "L q = []" and "distinct es"
    and "\<And>e. e \<in> set es \<Longrightarrow> loose L e"
  shows "\<exists>h1 h2. enq_all enq q es h = Some h1 \<and>
    deq_many deq q (length es) h1 = Some (es, h2) \<and> isempty q h2"
proof -
  obtain h1 where h1: "enq_all enq q es h = Some h1" "rep h1 (L(q := es))"
    using enq_all_rep [OF assms(1,2,4,5)] assms(3) by auto
  then obtain h2 where "deq_many deq q (length es) h1 = Some (es, h2)" "rep h2 (L(q := []))"
    using deq_many_rep [of h1 "L(q := es)" q es "[]"] assms(2) by auto
  moreover from this have "isempty q h2" using isempty_iff [OF _ assms(2)] by auto
  ultimately show ?thesis using h1 by blast
qed

text \<open>An entry moves from one queue to the tail of another, as a task that is woken up does.\<close>

lemma move_rep:
  assumes "rep h L" and "q \<in> heads" and "q' \<in> heads" and "e \<in> set (L q)" and "q \<noteq> q'"
  shows "\<exists>h1 h2. unlink e h = Some h1 \<and> enq q' e h1 = Some h2 \<and>
    rep h2 (L(q := remove1 e (L q), q' := L q' @ [e]))"
proof -
  obtain h1 where h1: "unlink e h = Some h1" "rep h1 (L(q := remove1 e (L q)))"
    using unlink_rep assms by blast
  then show ?thesis
    using enq_rep [OF h1(2) assms(3) loose_removed [OF assms(1,2,4)]] assms(5) by auto
qed

end

text \<open>The ready lists are also rotated: the last entry is taken off and put in front.\<close>

locale rotating_queues = wait_queues heads rep loose isempty enq deq unlink
  for heads :: "'q set"
    and rep :: "'h \<Rightarrow> ('q \<Rightarrow> 'e list) \<Rightarrow> bool"
    and loose :: "('q \<Rightarrow> 'e list) \<Rightarrow> 'e \<Rightarrow> bool"
    and isempty :: "'q \<Rightarrow> 'h \<Rightarrow> bool"
    and enq :: "'q \<Rightarrow> 'e \<Rightarrow> 'h \<Rightarrow> 'h option"
    and deq :: "'q \<Rightarrow> 'h \<Rightarrow> ('e option \<times> 'h) option"
    and unlink :: "'e \<Rightarrow> 'h \<Rightarrow> 'h option" +
  fixes enq_front :: "'q \<Rightarrow> 'e \<Rightarrow> 'h \<Rightarrow> 'h option"
    and deq_back :: "'q \<Rightarrow> 'h \<Rightarrow> ('e option \<times> 'h) option"
  assumes enq_front_rep: "rep h L \<Longrightarrow> q \<in> heads \<Longrightarrow> loose L e \<Longrightarrow>
      \<exists>h'. enq_front q e h = Some h' \<and> rep h' (L(q := e # L q))"
    and deq_back_rep: "rep h L \<Longrightarrow> q \<in> heads \<Longrightarrow> L q = es @ [e] \<Longrightarrow>
      \<exists>h'. deq_back q h = Some (Some e, h') \<and> rep h' (L(q := es))"
    and loose_back: "rep h L \<Longrightarrow> q \<in> heads \<Longrightarrow> L q = es @ [e] \<Longrightarrow> loose (L(q := es)) e"
begin

lemma rotate_rep:
  assumes "rep h L" and "q \<in> heads" and "L q = es @ [e]"
  shows "\<exists>h1 h2. deq_back q h = Some (Some e, h1) \<and> enq_front q e h1 = Some h2 \<and>
    rep h2 (L(q := e # es))"
proof -
  obtain h1 where h1: "deq_back q h = Some (Some e, h1)" "rep h1 (L(q := es))"
    using deq_back_rep assms by blast
  then show ?thesis
    using enq_front_rep [OF h1(2) assms(2) loose_back [OF assms]] by auto
qed

end

text \<open>The pointer operations of \<^verbatim>\<open>tn_utils.c\<close> are such queues, for any set of heads in use.\<close>

interpretation wq: wait_queues H "\<lambda>h. lists_ok h H" "\<lambda>L e. e \<notin> H \<and> \<not> queued H L e"
  is_queue_empty queue_add_tail "\<lambda>q. queue_remove_head (Some q)" queue_remove_entry
  for H
proof (unfold_locales, goal_cases)
  case (1 h L q) then show ?case by (rule lists_ok_empty_iff)
next
  case (2 h L q e) then show ?case by (blast intro: lists_ok_add_tail)
next
  case (3 h L q e es) then show ?case by (rule lists_ok_remove_head)
next
  case (4 h L q) then show ?case
    using lists_ok_cdll [OF 4(1,2)] by (simp add: queue_remove_head_cdll_Nil)
next
  case (5 h L q e) then show ?case by (rule lists_ok_remove_entry)
next
  case (6 h L q e) then show ?case
    using lists_ok_distinct [OF 6(1,2)] by (intro lists_ok_loose) auto
next
  case (7 q L e e') then show ?case by (auto simp: queued_def split: if_splits)
qed

interpretation rq: rotating_queues H "\<lambda>h. lists_ok h H" "\<lambda>L e. e \<notin> H \<and> \<not> queued H L e"
  is_queue_empty queue_add_tail "\<lambda>q. queue_remove_head (Some q)" queue_remove_entry
  queue_add_head queue_remove_tail
  for H
proof (unfold_locales, goal_cases)
  case (1 h L q e) then show ?case by (blast intro: lists_ok_add_head)
next
  case (2 h L q es e) then show ?case by (rule lists_ok_remove_tail)
next
  case (3 h L q es e)
  then show ?case
    using lists_ok_distinct [OF 3(1,2)] by (intro lists_ok_loose) auto
qed

end
