(* ===== verification/TN_Kernel.thy ===== *)
theory TN_Kernel
  imports TN_Cdll
begin

text \<open>
  The data structures of \<^verbatim>\<open>TNKernel/tn.h\<close>, the global variables of \<^verbatim>\<open>TNKernel/tn.c\<close>, the context
  checks, and the processor primitives of the assembler port (\<^verbatim>\<open>tn_port_asm.s\<close>) the C code calls.

  The queue fields of a structure are not fields of its record: they are addresses of the queue
  heap of \<open>TN_Cdll\<close> (\<open>&task->task_queue\<close> is \<open>TaskQ t\<close>). All other fields keep the C names, with a
  prefix where two structures use the same name. Counters and priorities are \<open>int\<close>; fields used as
  bit masks, identifiers, addresses or tick counts are 32-bit words.
\<close>

section \<open>Structures\<close>

record tn_tcb =
  task_stk :: u32
  pwait_queue :: qptr
  blk_task :: tptr
  stk_start :: u32
  stk_size :: int
  task_func_addr :: u32
  task_func_param :: u32
  base_priority :: int
  priority :: int
  id_task :: u32
  task_state :: u32
  task_wait_reason :: u32
  task_wait_rc :: int
  tick_count :: u32
  tslice_count :: int
  ewait_pattern :: u32
  ewait_mode :: u32
  data_elem :: u32
  activate_count :: int
  wakeup_count :: int
  suspend_count :: int

record tn_sem =
  count :: int
  max_count :: int
  id_sem :: u32

record tn_event =
  e_attr :: u32
  pattern :: u32
  id_event :: u32

record tn_dque =
  data_fifo :: u32
  num_entries :: int
  tail_cnt :: int
  header_cnt :: int
  id_dque :: u32

record tn_fmp =
  block_size :: u32
  num_blocks :: int
  start_addr :: u32
  free_list :: u32
  fblkcnt :: int
  id_fmp :: u32

record tn_mutex =
  m_attr :: int
  holder :: tptr
  ceil_priority :: int
  cnt :: int
  id_mutex :: u32

text \<open>The kernel state: the queue heap, the word memory (stacks, data queue storage, memory pools),
  the objects and the global variables. \<open>cpsr\<close> is the processor's status register and \<open>addr_tn_task_exit\<close> the link-time address of
  \<^verbatim>\<open>tn_task_exit\<close>, which no operation changes.\<close>

record kernel =
  qh :: qheap
  mem :: "u32 \<Rightarrow> u32"
  tcb :: "tid \<Rightarrow> tn_tcb"
  sem :: "oid \<Rightarrow> tn_sem"
  event :: "oid \<Rightarrow> tn_event"
  dque :: "oid \<Rightarrow> tn_dque"
  fmp :: "oid \<Rightarrow> tn_fmp"
  mutex :: "oid \<Rightarrow> tn_mutex"
  tn_created_tasks_qty :: int
  tn_tslice_ticks :: "int \<Rightarrow> u16"
  tn_system_state :: int
  tn_next_task_to_run :: tptr
  tn_curr_run_task :: tptr
  tn_enable_switch_context :: int
  tn_context_switch_request :: int
  tn_int_counter :: int
  tn_ready_to_run_bmp :: u32
  tn_idle_count :: "64 word"
  cpsr :: u32
  addr_tn_task_exit :: u32

section \<open>Access to the structures\<close>

definition upd_qh :: "(qheap \<Rightarrow> qheap option) \<Rightarrow> kernel \<Rightarrow> kernel option" where
  "upd_qh f s = do { h \<leftarrow> f (qh s); Some (s\<lparr>qh := h\<rparr>) }"

definition upd_tcb :: "tid \<Rightarrow> (tn_tcb \<Rightarrow> tn_tcb) \<Rightarrow> kernel \<Rightarrow> kernel" where
  "upd_tcb i f s = s\<lparr>tcb := (tcb s)(i := f (tcb s i))\<rparr>"

definition upd_sem :: "oid \<Rightarrow> (tn_sem \<Rightarrow> tn_sem) \<Rightarrow> kernel \<Rightarrow> kernel" where
  "upd_sem i f s = s\<lparr>sem := (sem s)(i := f (sem s i))\<rparr>"

definition upd_event :: "oid \<Rightarrow> (tn_event \<Rightarrow> tn_event) \<Rightarrow> kernel \<Rightarrow> kernel" where
  "upd_event i f s = s\<lparr>event := (event s)(i := f (event s i))\<rparr>"

definition upd_dque :: "oid \<Rightarrow> (tn_dque \<Rightarrow> tn_dque) \<Rightarrow> kernel \<Rightarrow> kernel" where
  "upd_dque i f s = s\<lparr>dque := (dque s)(i := f (dque s i))\<rparr>"

definition upd_fmp :: "oid \<Rightarrow> (tn_fmp \<Rightarrow> tn_fmp) \<Rightarrow> kernel \<Rightarrow> kernel" where
  "upd_fmp i f s = s\<lparr>fmp := (fmp s)(i := f (fmp s i))\<rparr>"

definition upd_mutex :: "oid \<Rightarrow> (tn_mutex \<Rightarrow> tn_mutex) \<Rightarrow> kernel \<Rightarrow> kernel" where
  "upd_mutex i f s = s\<lparr>mutex := (mutex s)(i := f (mutex s i))\<rparr>"

text \<open>Reading any field after an update of one object.\<close>

lemma upd_tcb_sel [simp]:
  "tcb (upd_tcb i f s) j = (if j = i then f (tcb s i) else tcb s j)"
  "qh (upd_tcb i f s) = qh s"
  "mem (upd_tcb i f s) = mem s"
  "sem (upd_tcb i f s) = sem s"
  "event (upd_tcb i f s) = event s"
  "dque (upd_tcb i f s) = dque s"
  "fmp (upd_tcb i f s) = fmp s"
  "mutex (upd_tcb i f s) = mutex s"
  "tn_created_tasks_qty (upd_tcb i f s) = tn_created_tasks_qty s"
  "tn_tslice_ticks (upd_tcb i f s) = tn_tslice_ticks s"
  "tn_system_state (upd_tcb i f s) = tn_system_state s"
  "tn_next_task_to_run (upd_tcb i f s) = tn_next_task_to_run s"
  "tn_curr_run_task (upd_tcb i f s) = tn_curr_run_task s"
  "tn_enable_switch_context (upd_tcb i f s) = tn_enable_switch_context s"
  "tn_context_switch_request (upd_tcb i f s) = tn_context_switch_request s"
  "tn_int_counter (upd_tcb i f s) = tn_int_counter s"
  "tn_ready_to_run_bmp (upd_tcb i f s) = tn_ready_to_run_bmp s"
  "tn_idle_count (upd_tcb i f s) = tn_idle_count s"
  "cpsr (upd_tcb i f s) = cpsr s"
  "addr_tn_task_exit (upd_tcb i f s) = addr_tn_task_exit s"
  by (simp_all add: upd_tcb_def)

lemma upd_sem_sel [simp]:
  "sem (upd_sem i f s) j = (if j = i then f (sem s i) else sem s j)"
  "qh (upd_sem i f s) = qh s"
  "mem (upd_sem i f s) = mem s"
  "tcb (upd_sem i f s) = tcb s"
  "event (upd_sem i f s) = event s"
  "dque (upd_sem i f s) = dque s"
  "fmp (upd_sem i f s) = fmp s"
  "mutex (upd_sem i f s) = mutex s"
  "tn_created_tasks_qty (upd_sem i f s) = tn_created_tasks_qty s"
  "tn_tslice_ticks (upd_sem i f s) = tn_tslice_ticks s"
  "tn_system_state (upd_sem i f s) = tn_system_state s"
  "tn_next_task_to_run (upd_sem i f s) = tn_next_task_to_run s"
  "tn_curr_run_task (upd_sem i f s) = tn_curr_run_task s"
  "tn_enable_switch_context (upd_sem i f s) = tn_enable_switch_context s"
  "tn_context_switch_request (upd_sem i f s) = tn_context_switch_request s"
  "tn_int_counter (upd_sem i f s) = tn_int_counter s"
  "tn_ready_to_run_bmp (upd_sem i f s) = tn_ready_to_run_bmp s"
  "tn_idle_count (upd_sem i f s) = tn_idle_count s"
  "cpsr (upd_sem i f s) = cpsr s"
  "addr_tn_task_exit (upd_sem i f s) = addr_tn_task_exit s"
  by (simp_all add: upd_sem_def)

lemma upd_event_sel [simp]:
  "event (upd_event i f s) j = (if j = i then f (event s i) else event s j)"
  "qh (upd_event i f s) = qh s"
  "mem (upd_event i f s) = mem s"
  "tcb (upd_event i f s) = tcb s"
  "sem (upd_event i f s) = sem s"
  "dque (upd_event i f s) = dque s"
  "fmp (upd_event i f s) = fmp s"
  "mutex (upd_event i f s) = mutex s"
  "tn_created_tasks_qty (upd_event i f s) = tn_created_tasks_qty s"
  "tn_tslice_ticks (upd_event i f s) = tn_tslice_ticks s"
  "tn_system_state (upd_event i f s) = tn_system_state s"
  "tn_next_task_to_run (upd_event i f s) = tn_next_task_to_run s"
  "tn_curr_run_task (upd_event i f s) = tn_curr_run_task s"
  "tn_enable_switch_context (upd_event i f s) = tn_enable_switch_context s"
  "tn_context_switch_request (upd_event i f s) = tn_context_switch_request s"
  "tn_int_counter (upd_event i f s) = tn_int_counter s"
  "tn_ready_to_run_bmp (upd_event i f s) = tn_ready_to_run_bmp s"
  "tn_idle_count (upd_event i f s) = tn_idle_count s"
  "cpsr (upd_event i f s) = cpsr s"
  "addr_tn_task_exit (upd_event i f s) = addr_tn_task_exit s"
  by (simp_all add: upd_event_def)

lemma upd_dque_sel [simp]:
  "dque (upd_dque i f s) j = (if j = i then f (dque s i) else dque s j)"
  "qh (upd_dque i f s) = qh s"
  "mem (upd_dque i f s) = mem s"
  "tcb (upd_dque i f s) = tcb s"
  "sem (upd_dque i f s) = sem s"
  "event (upd_dque i f s) = event s"
  "fmp (upd_dque i f s) = fmp s"
  "mutex (upd_dque i f s) = mutex s"
  "tn_created_tasks_qty (upd_dque i f s) = tn_created_tasks_qty s"
  "tn_tslice_ticks (upd_dque i f s) = tn_tslice_ticks s"
  "tn_system_state (upd_dque i f s) = tn_system_state s"
  "tn_next_task_to_run (upd_dque i f s) = tn_next_task_to_run s"
  "tn_curr_run_task (upd_dque i f s) = tn_curr_run_task s"
  "tn_enable_switch_context (upd_dque i f s) = tn_enable_switch_context s"
  "tn_context_switch_request (upd_dque i f s) = tn_context_switch_request s"
  "tn_int_counter (upd_dque i f s) = tn_int_counter s"
  "tn_ready_to_run_bmp (upd_dque i f s) = tn_ready_to_run_bmp s"
  "tn_idle_count (upd_dque i f s) = tn_idle_count s"
  "cpsr (upd_dque i f s) = cpsr s"
  "addr_tn_task_exit (upd_dque i f s) = addr_tn_task_exit s"
  by (simp_all add: upd_dque_def)

lemma upd_fmp_sel [simp]:
  "fmp (upd_fmp i f s) j = (if j = i then f (fmp s i) else fmp s j)"
  "qh (upd_fmp i f s) = qh s"
  "mem (upd_fmp i f s) = mem s"
  "tcb (upd_fmp i f s) = tcb s"
  "sem (upd_fmp i f s) = sem s"
  "event (upd_fmp i f s) = event s"
  "dque (upd_fmp i f s) = dque s"
  "mutex (upd_fmp i f s) = mutex s"
  "tn_created_tasks_qty (upd_fmp i f s) = tn_created_tasks_qty s"
  "tn_tslice_ticks (upd_fmp i f s) = tn_tslice_ticks s"
  "tn_system_state (upd_fmp i f s) = tn_system_state s"
  "tn_next_task_to_run (upd_fmp i f s) = tn_next_task_to_run s"
  "tn_curr_run_task (upd_fmp i f s) = tn_curr_run_task s"
  "tn_enable_switch_context (upd_fmp i f s) = tn_enable_switch_context s"
  "tn_context_switch_request (upd_fmp i f s) = tn_context_switch_request s"
  "tn_int_counter (upd_fmp i f s) = tn_int_counter s"
  "tn_ready_to_run_bmp (upd_fmp i f s) = tn_ready_to_run_bmp s"
  "tn_idle_count (upd_fmp i f s) = tn_idle_count s"
  "cpsr (upd_fmp i f s) = cpsr s"
  "addr_tn_task_exit (upd_fmp i f s) = addr_tn_task_exit s"
  by (simp_all add: upd_fmp_def)

lemma upd_mutex_sel [simp]:
  "mutex (upd_mutex i f s) j = (if j = i then f (mutex s i) else mutex s j)"
  "qh (upd_mutex i f s) = qh s"
  "mem (upd_mutex i f s) = mem s"
  "tcb (upd_mutex i f s) = tcb s"
  "sem (upd_mutex i f s) = sem s"
  "event (upd_mutex i f s) = event s"
  "dque (upd_mutex i f s) = dque s"
  "fmp (upd_mutex i f s) = fmp s"
  "tn_created_tasks_qty (upd_mutex i f s) = tn_created_tasks_qty s"
  "tn_tslice_ticks (upd_mutex i f s) = tn_tslice_ticks s"
  "tn_system_state (upd_mutex i f s) = tn_system_state s"
  "tn_next_task_to_run (upd_mutex i f s) = tn_next_task_to_run s"
  "tn_curr_run_task (upd_mutex i f s) = tn_curr_run_task s"
  "tn_enable_switch_context (upd_mutex i f s) = tn_enable_switch_context s"
  "tn_context_switch_request (upd_mutex i f s) = tn_context_switch_request s"
  "tn_int_counter (upd_mutex i f s) = tn_int_counter s"
  "tn_ready_to_run_bmp (upd_mutex i f s) = tn_ready_to_run_bmp s"
  "tn_idle_count (upd_mutex i f s) = tn_idle_count s"
  "cpsr (upd_mutex i f s) = cpsr s"
  "addr_tn_task_exit (upd_mutex i f s) = addr_tn_task_exit s"
  by (simp_all add: upd_mutex_def)

text \<open>Updates of the globals are kept outside updates of the objects.\<close>

lemma upd_global [simp]:
  "upd_tcb i ftcb (s\<lparr>qh := h\<rparr>) = (upd_tcb i ftcb s)\<lparr>qh := h\<rparr>"
  "upd_tcb i ftcb (s\<lparr>mem := m\<rparr>) = (upd_tcb i ftcb s)\<lparr>mem := m\<rparr>"
  "upd_tcb i ftcb (s\<lparr>tn_created_tasks_qty := c\<rparr>) = (upd_tcb i ftcb s)\<lparr>tn_created_tasks_qty := c\<rparr>"
  "upd_tcb i ftcb (s\<lparr>tn_next_task_to_run := n\<rparr>) = (upd_tcb i ftcb s)\<lparr>tn_next_task_to_run := n\<rparr>"
  "upd_tcb i ftcb (s\<lparr>tn_curr_run_task := n\<rparr>) = (upd_tcb i ftcb s)\<lparr>tn_curr_run_task := n\<rparr>"
  "upd_tcb i ftcb (s\<lparr>tn_context_switch_request := c\<rparr>) = (upd_tcb i ftcb s)\<lparr>tn_context_switch_request := c\<rparr>"
  "upd_tcb i ftcb (s\<lparr>tn_ready_to_run_bmp := w\<rparr>) = (upd_tcb i ftcb s)\<lparr>tn_ready_to_run_bmp := w\<rparr>"
  "upd_tcb i ftcb (s\<lparr>cpsr := w\<rparr>) = (upd_tcb i ftcb s)\<lparr>cpsr := w\<rparr>"
  "upd_sem i fsem (s\<lparr>qh := h\<rparr>) = (upd_sem i fsem s)\<lparr>qh := h\<rparr>"
  "upd_sem i fsem (s\<lparr>mem := m\<rparr>) = (upd_sem i fsem s)\<lparr>mem := m\<rparr>"
  "upd_sem i fsem (s\<lparr>tn_created_tasks_qty := c\<rparr>) = (upd_sem i fsem s)\<lparr>tn_created_tasks_qty := c\<rparr>"
  "upd_sem i fsem (s\<lparr>tn_next_task_to_run := n\<rparr>) = (upd_sem i fsem s)\<lparr>tn_next_task_to_run := n\<rparr>"
  "upd_sem i fsem (s\<lparr>tn_curr_run_task := n\<rparr>) = (upd_sem i fsem s)\<lparr>tn_curr_run_task := n\<rparr>"
  "upd_sem i fsem (s\<lparr>tn_context_switch_request := c\<rparr>) = (upd_sem i fsem s)\<lparr>tn_context_switch_request := c\<rparr>"
  "upd_sem i fsem (s\<lparr>tn_ready_to_run_bmp := w\<rparr>) = (upd_sem i fsem s)\<lparr>tn_ready_to_run_bmp := w\<rparr>"
  "upd_sem i fsem (s\<lparr>cpsr := w\<rparr>) = (upd_sem i fsem s)\<lparr>cpsr := w\<rparr>"
  "upd_event i fevent (s\<lparr>qh := h\<rparr>) = (upd_event i fevent s)\<lparr>qh := h\<rparr>"
  "upd_event i fevent (s\<lparr>mem := m\<rparr>) = (upd_event i fevent s)\<lparr>mem := m\<rparr>"
  "upd_event i fevent (s\<lparr>tn_created_tasks_qty := c\<rparr>) = (upd_event i fevent s)\<lparr>tn_created_tasks_qty := c\<rparr>"
  "upd_event i fevent (s\<lparr>tn_next_task_to_run := n\<rparr>) = (upd_event i fevent s)\<lparr>tn_next_task_to_run := n\<rparr>"
  "upd_event i fevent (s\<lparr>tn_curr_run_task := n\<rparr>) = (upd_event i fevent s)\<lparr>tn_curr_run_task := n\<rparr>"
  "upd_event i fevent (s\<lparr>tn_context_switch_request := c\<rparr>) = (upd_event i fevent s)\<lparr>tn_context_switch_request := c\<rparr>"
  "upd_event i fevent (s\<lparr>tn_ready_to_run_bmp := w\<rparr>) = (upd_event i fevent s)\<lparr>tn_ready_to_run_bmp := w\<rparr>"
  "upd_event i fevent (s\<lparr>cpsr := w\<rparr>) = (upd_event i fevent s)\<lparr>cpsr := w\<rparr>"
  "upd_dque i fdque (s\<lparr>qh := h\<rparr>) = (upd_dque i fdque s)\<lparr>qh := h\<rparr>"
  "upd_dque i fdque (s\<lparr>mem := m\<rparr>) = (upd_dque i fdque s)\<lparr>mem := m\<rparr>"
  "upd_dque i fdque (s\<lparr>tn_created_tasks_qty := c\<rparr>) = (upd_dque i fdque s)\<lparr>tn_created_tasks_qty := c\<rparr>"
  "upd_dque i fdque (s\<lparr>tn_next_task_to_run := n\<rparr>) = (upd_dque i fdque s)\<lparr>tn_next_task_to_run := n\<rparr>"
  "upd_dque i fdque (s\<lparr>tn_curr_run_task := n\<rparr>) = (upd_dque i fdque s)\<lparr>tn_curr_run_task := n\<rparr>"
  "upd_dque i fdque (s\<lparr>tn_context_switch_request := c\<rparr>) = (upd_dque i fdque s)\<lparr>tn_context_switch_request := c\<rparr>"
  "upd_dque i fdque (s\<lparr>tn_ready_to_run_bmp := w\<rparr>) = (upd_dque i fdque s)\<lparr>tn_ready_to_run_bmp := w\<rparr>"
  "upd_dque i fdque (s\<lparr>cpsr := w\<rparr>) = (upd_dque i fdque s)\<lparr>cpsr := w\<rparr>"
  "upd_fmp i ffmp (s\<lparr>qh := h\<rparr>) = (upd_fmp i ffmp s)\<lparr>qh := h\<rparr>"
  "upd_fmp i ffmp (s\<lparr>mem := m\<rparr>) = (upd_fmp i ffmp s)\<lparr>mem := m\<rparr>"
  "upd_fmp i ffmp (s\<lparr>tn_created_tasks_qty := c\<rparr>) = (upd_fmp i ffmp s)\<lparr>tn_created_tasks_qty := c\<rparr>"
  "upd_fmp i ffmp (s\<lparr>tn_next_task_to_run := n\<rparr>) = (upd_fmp i ffmp s)\<lparr>tn_next_task_to_run := n\<rparr>"
  "upd_fmp i ffmp (s\<lparr>tn_curr_run_task := n\<rparr>) = (upd_fmp i ffmp s)\<lparr>tn_curr_run_task := n\<rparr>"
  "upd_fmp i ffmp (s\<lparr>tn_context_switch_request := c\<rparr>) = (upd_fmp i ffmp s)\<lparr>tn_context_switch_request := c\<rparr>"
  "upd_fmp i ffmp (s\<lparr>tn_ready_to_run_bmp := w\<rparr>) = (upd_fmp i ffmp s)\<lparr>tn_ready_to_run_bmp := w\<rparr>"
  "upd_fmp i ffmp (s\<lparr>cpsr := w\<rparr>) = (upd_fmp i ffmp s)\<lparr>cpsr := w\<rparr>"
  "upd_mutex i fmutex (s\<lparr>qh := h\<rparr>) = (upd_mutex i fmutex s)\<lparr>qh := h\<rparr>"
  "upd_mutex i fmutex (s\<lparr>mem := m\<rparr>) = (upd_mutex i fmutex s)\<lparr>mem := m\<rparr>"
  "upd_mutex i fmutex (s\<lparr>tn_created_tasks_qty := c\<rparr>) = (upd_mutex i fmutex s)\<lparr>tn_created_tasks_qty := c\<rparr>"
  "upd_mutex i fmutex (s\<lparr>tn_next_task_to_run := n\<rparr>) = (upd_mutex i fmutex s)\<lparr>tn_next_task_to_run := n\<rparr>"
  "upd_mutex i fmutex (s\<lparr>tn_curr_run_task := n\<rparr>) = (upd_mutex i fmutex s)\<lparr>tn_curr_run_task := n\<rparr>"
  "upd_mutex i fmutex (s\<lparr>tn_context_switch_request := c\<rparr>) = (upd_mutex i fmutex s)\<lparr>tn_context_switch_request := c\<rparr>"
  "upd_mutex i fmutex (s\<lparr>tn_ready_to_run_bmp := w\<rparr>) = (upd_mutex i fmutex s)\<lparr>tn_ready_to_run_bmp := w\<rparr>"
  "upd_mutex i fmutex (s\<lparr>cpsr := w\<rparr>) = (upd_mutex i fmutex s)\<lparr>cpsr := w\<rparr>"
  by (simp_all add: upd_tcb_def upd_sem_def upd_event_def upd_dque_def upd_fmp_def upd_mutex_def)

text \<open>Successive updates of one object, and updates that agree on it.\<close>

lemma upd_upd:
  "upd_tcb i ftcb (upd_tcb i gtcb s) = upd_tcb i (\<lambda>x. ftcb (gtcb x)) s"
  "upd_sem i fsem (upd_sem i gsem s) = upd_sem i (\<lambda>x. fsem (gsem x)) s"
  "upd_event i fevent (upd_event i gevent s) = upd_event i (\<lambda>x. fevent (gevent x)) s"
  "upd_dque i fdque (upd_dque i gdque s) = upd_dque i (\<lambda>x. fdque (gdque x)) s"
  "upd_fmp i ffmp (upd_fmp i gfmp s) = upd_fmp i (\<lambda>x. ffmp (gfmp x)) s"
  "upd_mutex i fmutex (upd_mutex i gmutex s) = upd_mutex i (\<lambda>x. fmutex (gmutex x)) s"
  by (simp_all add: upd_tcb_def upd_sem_def upd_event_def upd_dque_def upd_fmp_def upd_mutex_def)

lemma upd_cong:
  "ftcb (tcb s i) = gtcb (tcb s i) \<Longrightarrow> upd_tcb i ftcb s = upd_tcb i gtcb s"
  "fsem (sem s i) = gsem (sem s i) \<Longrightarrow> upd_sem i fsem s = upd_sem i gsem s"
  "fevent (event s i) = gevent (event s i) \<Longrightarrow> upd_event i fevent s = upd_event i gevent s"
  "fdque (dque s i) = gdque (dque s i) \<Longrightarrow> upd_dque i fdque s = upd_dque i gdque s"
  "ffmp (fmp s i) = gfmp (fmp s i) \<Longrightarrow> upd_fmp i ffmp s = upd_fmp i gfmp s"
  "fmutex (mutex s i) = gmutex (mutex s i) \<Longrightarrow> upd_mutex i fmutex s = upd_mutex i gmutex s"
  by (simp_all add: upd_tcb_def upd_sem_def upd_event_def upd_dque_def upd_fmp_def upd_mutex_def)

text \<open>A pointer computed by subtracting a field offset: the result is a structure only if the pointer
  points to that field. On any other address the C code would compute an address outside all
  structures; the model stops there.\<close>

definition get_task_by_timer_queque :: "qptr \<Rightarrow> tptr option" where
  "get_task_by_timer_queque que =
     (case que of None \<Rightarrow> Some None | Some (TimerQ t) \<Rightarrow> Some (Some t) | Some _ \<Rightarrow> None)"

definition get_task_by_tsk_queue :: "qptr \<Rightarrow> tptr option" where
  "get_task_by_tsk_queue que =
     (case que of None \<Rightarrow> Some None | Some (TaskQ t) \<Rightarrow> Some (Some t) | Some _ \<Rightarrow> None)"

definition get_task_by_block_queque :: "qptr \<Rightarrow> tptr option" where
  "get_task_by_block_queque que =
     (case que of None \<Rightarrow> Some None | Some (BlockQ t) \<Rightarrow> Some (Some t) | Some _ \<Rightarrow> None)"

definition get_mutex_by_mutex_queque :: "qptr \<Rightarrow> optr option" where
  "get_mutex_by_mutex_queque que =
     (case que of None \<Rightarrow> Some None | Some (MutexQ m) \<Rightarrow> Some (Some m) | Some _ \<Rightarrow> None)"

definition get_mutex_by_lock_mutex_queque :: "qptr \<Rightarrow> optr option" where
  "get_mutex_by_lock_mutex_queque que =
     (case que of None \<Rightarrow> Some None | Some (LockMutexQ m) \<Rightarrow> Some (Some m) | Some _ \<Rightarrow> None)"

definition get_mutex_by_wait_queque :: "qptr \<Rightarrow> optr option" where
  "get_mutex_by_wait_queque que =
     (case que of None \<Rightarrow> Some None | Some (MutexWaitQ m) \<Rightarrow> Some (Some m) | Some _ \<Rightarrow> None)"

lemma get_task_simps [simp]:
  "get_task_by_timer_queque (Some (TimerQ t)) = Some (Some t)"
  "get_task_by_tsk_queue (Some (TaskQ t)) = Some (Some t)"
  "get_task_by_block_queque (Some (BlockQ t)) = Some (Some t)"
  "get_mutex_by_mutex_queque (Some (MutexQ m)) = Some (Some m)"
  "get_mutex_by_lock_mutex_queque (Some (LockMutexQ m)) = Some (Some m)"
  "get_mutex_by_wait_queque (Some (MutexWaitQ m)) = Some (Some m)"
  by (simp_all add: get_task_by_timer_queque_def get_task_by_tsk_queue_def
    get_task_by_block_queque_def get_mutex_by_mutex_queque_def
    get_mutex_by_lock_mutex_queque_def get_mutex_by_wait_queque_def)

text \<open>\<open>&tn_ready_list[priority]\<close>: the array has \<open>TN_NUM_PRIORITY\<close> elements.\<close>

definition ready_list :: "int \<Rightarrow> qaddr option" where
  "ready_list p = (if 0 \<le> p \<and> p < TN_NUM_PRIORITY then Some (ReadyList p) else None)"

section \<open>Processor primitives (tn_port_asm.s)\<close>

definition tn_cpu_save_sr :: "kernel \<Rightarrow> u32 \<times> kernel" where
  "tn_cpu_save_sr s = (cpsr s, s\<lparr>cpsr := cpsr s OR 0xC0\<rparr>)"

definition tn_cpu_restore_sr :: "u32 \<Rightarrow> kernel \<Rightarrow> kernel" where
  "tn_cpu_restore_sr sr s = s\<lparr>cpsr := (cpsr s AND NOT 0xFF) OR (sr AND 0xFF)\<rparr>"

definition tn_chk_irq_disabled :: "kernel \<Rightarrow> u32" where
  "tn_chk_irq_disabled s = cpsr s AND 0x80"

text \<open>\<open>ffs_asm\<close>: isolate the lowest bit, multiply by 0x0450FBAF, look the top six bits up.\<close>

definition ffs_table :: "nat list" where
  "ffs_table =
    [ 0,  1,  2, 13,  3,  7,  0, 14,
      4,  0,  8,  0,  0,  0,  0, 15,
     11,  5,  0,  0,  9,  0,  0, 26,
      0,  0,  0,  0,  0, 22, 28, 16,
     32, 12,  6,  0,  0,  0,  0,  0,
     10,  0,  0, 25,  0,  0, 21, 27,
     31,  0,  0,  0,  0, 24,  0, 20,
     30,  0, 23, 19, 29, 18, 17,  0]"

definition ffs_asm :: "u32 \<Rightarrow> nat" where
  "ffs_asm val =
     (let r0 = val AND - val
      in if r0 = 0 then 0
         else let r0 = r0 OR push_bit 4 r0;
                  r0 = r0 OR push_bit 6 r0;
                  r0 = push_bit 16 r0 - r0
              in ffs_table ! unat (drop_bit 26 r0))"

text \<open>The switch itself. The comparisons of \<^verbatim>\<open>tn_switch_context\<close> are between the addresses of
  the two variables, so it always loads the stack pointer of the next task; with a null
  \<open>tn_next_task_to_run\<close> it reads through a null pointer. Interrupts are enabled at its end.\<close>

definition tn_switch_context :: "kernel \<Rightarrow> kernel option" where
  "tn_switch_context s =
     do {
       t \<leftarrow> tn_next_task_to_run s;
       Some (s\<lparr>tn_curr_run_task := Some t, cpsr := cpsr s AND NOT 0xC0\<rparr>)
     }"

text \<open>\<open>tn_start_exe\<close> marks the system as running and switches without saving a context.\<close>

definition tn_start_exe :: "kernel \<Rightarrow> kernel option" where
  "tn_start_exe s = tn_switch_context (s\<lparr>tn_system_state := TN_ST_STATE_RUNNING\<rparr>)"

text \<open>\<open>tn_cpu_irq_isr\<close> around an interrupt handler, which runs with IRQs disabled.\<close>

definition tn_cpu_irq_isr :: "(kernel \<Rightarrow> kernel option) \<Rightarrow> kernel \<Rightarrow> kernel option" where
  "tn_cpu_irq_isr irq_handler s =
     do {
       let sr = cpsr s;
       let s1 = s\<lparr>tn_int_counter := tn_int_counter s + 1, cpsr := cpsr s OR 0x80\<rparr>;
       s2 \<leftarrow> irq_handler s1;
       let s3 = s2\<lparr>tn_int_counter := tn_int_counter s2 - 1\<rparr>;
       (if tn_int_counter s3 \<noteq> 0 \<or> tn_context_switch_request s3 = 0
        then Some (s3\<lparr>cpsr := sr\<rparr>)
        else tn_switch_context (s3\<lparr>tn_context_switch_request := 0\<rparr>))
     }"

section \<open>Context checks (macros of tn.h)\<close>

definition check_int_context :: "kernel \<Rightarrow> bool" where
  "check_int_context s \<longleftrightarrow>
     tn_int_counter s > 1 \<or>
     tn_chk_irq_disabled s \<noteq> 0 \<and> tn_system_state s \<noteq> TN_ST_STATE_RUNNING"

definition check_non_int_context :: "kernel \<Rightarrow> bool" where
  "check_non_int_context s \<longleftrightarrow>
     tn_int_counter s > 0 \<or>
     tn_chk_irq_disabled s \<noteq> 0 \<and> tn_system_state s = TN_ST_STATE_RUNNING"

section \<open>Outcome of a kernel call\<close>

text \<open>A call either returns, with its return code and what it stored through an output pointer
  (\<open>None\<close>: nothing), or it ends in \<open>tn_switch_context()\<close> and goes on when its task runs again;
  the continuation names the rest of the call.\<close>

datatype cont =
    RetNoErr                 \<comment> \<open>\<open>return TERR_NO_ERR\<close>\<close>
  | RetNoErrOut u32          \<comment> \<open>\<open>return TERR_NO_ERR\<close>; the word was stored through the output pointer\<close>
  | RetWaitRc                \<comment> \<open>\<open>return tn_curr_run_task->task_wait_rc\<close>\<close>
  | RetDataElem              \<comment> \<open>store \<open>data_elem\<close>, return \<open>task_wait_rc\<close>\<close>
  | RetEventPattern          \<comment> \<open>store \<open>ewait_pattern\<close> on success, return \<open>task_wait_rc\<close>\<close>
  | SemDeleteLoop oid u32    \<comment> \<open>go on deleting; the word is \<open>tn_save_status_reg\<close>\<close>
  | EventDeleteLoop oid u32
  | DqueDeleteSend oid u32
  | DqueDeleteRecv oid u32
  | FmpDeleteLoop oid u32
  | MutexDeleteLoop oid u32

datatype outcome = Done int "u32 option" | Switch cont | Exited

text \<open>\<open>Exited\<close>: the call was \<^verbatim>\<open>tn_task_exit\<close>, which does not return to its caller.\<close>

abbreviation ret :: "int \<Rightarrow> outcome" where "ret rc \<equiv> Done rc None"

lemmas kernel_prim_defs = tn_cpu_save_sr_def tn_cpu_restore_sr_def tn_chk_irq_disabled_def

end
