(* ===== verification/TN_Port.thy ===== *)
theory TN_Port
  imports TN_Kernel
begin

text \<open>
  The processor specific routines of \<^verbatim>\<open>TNKernel/tn_port.c\<close>: the initial stack frame of a task and,
  at the level of 32-bit addresses, the routines that go from a queue field to the structure that
  contains it. The typed versions of the latter in \<open>TN_Kernel\<close> are shown to be these address
  computations under the structure layout of \<^verbatim>\<open>tn.h\<close>.
\<close>

section \<open>The initial stack frame\<close>

text \<open>\<open>*stk = v; stk--;\<close> for the values in turn; a stack cell is one word, four bytes.\<close>

fun store_down :: "u32 \<Rightarrow> u32 list \<Rightarrow> (u32 \<Rightarrow> u32) \<Rightarrow> (u32 \<Rightarrow> u32)" where
  "store_down stk [] m = m"
| "store_down stk (v # vs) m = store_down (stk - 4) vs (m(stk := v))"

definition init_frame :: "u32 \<Rightarrow> u32 \<Rightarrow> u32 \<Rightarrow> u32 list" where
  "init_frame task_func exit_addr param =
     [task_func, exit_addr,
      0x12121212, 0x11111111, 0x10101010, 0x09090909, 0x08080808, 0x07070707,
      0x06060606, 0x05050505, 0x04040404, 0x03030303, 0x02020202, 0x01010101,
      param, 0x13, 0x13]"

definition tn_stack_init :: "u32 \<Rightarrow> u32 \<Rightarrow> u32 \<Rightarrow> kernel \<Rightarrow> u32 \<times> kernel" where
  "tn_stack_init task_func stack_start param s =
     (stack_start - 4 * 16,
      s\<lparr>mem := store_down stack_start
          (init_frame task_func (addr_tn_task_exit s) param) (mem s)\<rparr>)"

lemma length_init_frame [simp]: "length (init_frame f x p) = 17"
  by (simp add: init_frame_def)

lemma store_down_other:
  "(\<And>k. k < length vs \<Longrightarrow> a \<noteq> stk - 4 * of_nat k) \<Longrightarrow> store_down stk vs m a = m a"
proof (induction vs arbitrary: stk m)
  case Nil
  then show ?case by simp
next
  case (Cons v vs)
  have "a \<noteq> stk" using Cons.prems [of 0] by simp
  moreover have "a \<noteq> (stk - 4) - 4 * of_nat k" if "k < length vs" for k
    using Cons.prems [of "Suc k"] that by (simp add: algebra_simps)
  ultimately show ?case using Cons.IH [of "stk - 4" "m(stk := v)"] by (simp add: fun_upd_def)
qed

lemma store_down_cell:
  assumes "k < length vs" and "length vs < 2 ^ 30"
  shows "store_down stk vs m (stk - 4 * of_nat k) = vs ! k"
  using assms
proof (induction vs arbitrary: stk m k)
  case Nil
  then show ?case by simp
next
  case (Cons v vs)
  show ?case
  proof (cases k)
    case 0
    have "stk \<noteq> (stk - 4) - 4 * of_nat j" if "j < length vs" for j
    proof
      assume "stk = (stk - 4) - 4 * of_nat j"
      then have "(of_nat (4 * Suc j) :: u32) = 0" by (simp add: algebra_simps)
      then have "2 ^ 32 dvd 4 * Suc j"
        by (simp only: word_of_nat_eq_0_iff len_of_numeral_defs) simp
      then have "2 ^ 32 \<le> 4 * Suc j" by (rule dvd_imp_le) simp
      with that Cons.prems(2) show False by simp
    qed
    then show ?thesis using 0 by (simp add: store_down_other)
  next
    case (Suc j)
    have "stk - 4 * of_nat k = (stk - 4) - 4 * of_nat j"
      using Suc by (simp add: algebra_simps)
    moreover have "store_down (stk - 4) vs (m(stk := v)) (stk - 4 - 4 * of_nat j) = vs ! j"
      by (rule Cons.IH) (use Cons.prems Suc in auto)
    ultimately show ?thesis by (metis Suc nth_Cons_Suc store_down.simps(2))
  qed
qed

text \<open>The frame as \<^verbatim>\<open>tn_switch_context_exit\<close> pops it from the stack pointer upwards:
  SPSR, CPSR, r0 to r12, lr, pc.\<close>

definition pop_frame :: "u32 \<Rightarrow> (u32 \<Rightarrow> u32) \<Rightarrow> u32 list" where
  "pop_frame stk m = map (\<lambda>k. m (stk + 4 * of_nat k)) [0..<17]"

lemma pop_store_frame:
  assumes "length vs = 17"
  shows "pop_frame (st - 4 * 16) (store_down st vs m) = rev vs"
proof (rule nth_equalityI)
  show "length (pop_frame (st - 4 * 16) (store_down st vs m)) = length (rev vs)"
    using assms by (simp add: pop_frame_def)
  fix k assume "k < length (pop_frame (st - 4 * 16) (store_down st vs m))"
  then have k: "k < 17" by (simp add: pop_frame_def)
  have "st - 4 * 16 + 4 * of_nat k = st - 4 * of_nat (16 - k)"
    using k by (simp add: algebra_simps)
  then show "pop_frame (st - 4 * 16) (store_down st vs m) ! k = rev vs ! k"
    using k assms store_down_cell [of "16 - k" vs st m]
    by (simp add: pop_frame_def rev_nth algebra_simps)
qed

text \<open>C27. The stack frame that \<^verbatim>\<open>tn_stack_init\<close> builds is the one the context switch pops: the
  task starts at its function (pc) with its parameter in r0, returns into \<^verbatim>\<open>tn_task_exit\<close> (lr), and
  runs in supervisor mode with both interrupts enabled (CPSR and SPSR 0x13).\<close>

theorem stack_init_roundtrip:
  "case tn_stack_init f st p s of (stk, s') \<Rightarrow>
     pop_frame stk (mem s') =
       [0x13, 0x13, p, 0x01010101, 0x02020202, 0x03030303, 0x04040404, 0x05050505, 0x06060606,
        0x07070707, 0x08080808, 0x09090909, 0x10101010, 0x11111111, 0x12121212,
        addr_tn_task_exit s, f]"
proof -
  have "pop_frame (st - 4 * 16) (store_down st (init_frame f (addr_tn_task_exit s) p) (mem s)) =
      rev (init_frame f (addr_tn_task_exit s) p)"
    by (rule pop_store_frame) simp
  then show ?thesis
    by (simp add: tn_stack_init_def) (simp add: init_frame_def)
qed

section \<open>From a queue field to its structure\<close>

text \<open>Byte offsets of the queue fields in \<open>TN_TCB\<close> and \<open>TN_MUTEX\<close>; \<open>sizeof(CDLL_QUEUE)\<close> is 8 and
  \<open>sizeof(void*)\<close> is 4.\<close>

fun field_offset :: "qaddr \<Rightarrow> u32" where
  "field_offset (TaskQ t) = 4"
| "field_offset (TimerQ t) = 12"
| "field_offset (BlockQ t) = 20"
| "field_offset (CreateQ t) = 28"
| "field_offset (TaskMutexQ t) = 36"
| "field_offset (MutexWaitQ m) = 0"
| "field_offset (MutexQ m) = 8"
| "field_offset (LockMutexQ m) = 16"
| "field_offset _ = 0"

definition get_task_by_timer_queque_w :: "u32 \<Rightarrow> u32" where
  "get_task_by_timer_queque_w que = (if que = 0 then 0 else que - 4 - 4 * (8 div 4))"

definition get_task_by_tsk_queue_w :: "u32 \<Rightarrow> u32" where
  "get_task_by_tsk_queue_w que = (if que = 0 then 0 else que - 4)"

definition get_task_by_block_queque_w :: "u32 \<Rightarrow> u32" where
  "get_task_by_block_queque_w que = (if que = 0 then 0 else que - 4 - 4 * push_bit 1 (8 div 4))"

definition get_mutex_by_mutex_queque_w :: "u32 \<Rightarrow> u32" where
  "get_mutex_by_mutex_queque_w que = (if que = 0 then 0 else que - 4 * (8 div 4))"

definition get_mutex_by_lock_mutex_queque_w :: "u32 \<Rightarrow> u32" where
  "get_mutex_by_lock_mutex_queque_w que = (if que = 0 then 0 else que - 4 * push_bit 1 (8 div 4))"

definition get_mutex_by_wait_queque_w :: "u32 \<Rightarrow> u32" where
  "get_mutex_by_wait_queque_w que = (if que = 0 then 0 else que)"

text \<open>Where the linker places the structures: \<open>tbase\<close> and \<open>mbase\<close> give the address of each task
  control block and mutex.\<close>

fun qaddr_word :: "(tid \<Rightarrow> u32) \<Rightarrow> (oid \<Rightarrow> u32) \<Rightarrow> qaddr \<Rightarrow> u32" where
  "qaddr_word tbase mbase (TaskQ t) = tbase t + field_offset (TaskQ t)"
| "qaddr_word tbase mbase (TimerQ t) = tbase t + field_offset (TimerQ t)"
| "qaddr_word tbase mbase (BlockQ t) = tbase t + field_offset (BlockQ t)"
| "qaddr_word tbase mbase (CreateQ t) = tbase t + field_offset (CreateQ t)"
| "qaddr_word tbase mbase (TaskMutexQ t) = tbase t + field_offset (TaskMutexQ t)"
| "qaddr_word tbase mbase (MutexWaitQ m) = mbase m + field_offset (MutexWaitQ m)"
| "qaddr_word tbase mbase (MutexQ m) = mbase m + field_offset (MutexQ m)"
| "qaddr_word tbase mbase (LockMutexQ m) = mbase m + field_offset (LockMutexQ m)"
| "qaddr_word tbase mbase _ = 0"

lemmas get_by_queue_w_defs =
  get_task_by_timer_queque_w_def get_task_by_tsk_queue_w_def get_task_by_block_queque_w_def
  get_mutex_by_mutex_queque_w_def get_mutex_by_lock_mutex_queque_w_def
  get_mutex_by_wait_queque_w_def

lemmas get_by_queue_defs =
  get_task_by_timer_queque_def get_task_by_tsk_queue_def get_task_by_block_queque_def
  get_mutex_by_mutex_queque_def get_mutex_by_lock_mutex_queque_def get_mutex_by_wait_queque_def

text \<open>Wherever the structures lie, the pointer arithmetic of the six routines of \<^verbatim>\<open>tn_port.c\<close>
  recovers the address of the structure from the address of its queue field: it computes what the
  typed routines, which the rest of the model uses, return.\<close>

theorem container_routines_agree:
  assumes "qaddr_word tbase mbase q \<noteq> 0"
  shows "(get_task_by_tsk_queue (Some q) = Some (Some t) \<longrightarrow>
      get_task_by_tsk_queue_w (qaddr_word tbase mbase q) = tbase t) \<and>
    (get_task_by_timer_queque (Some q) = Some (Some t) \<longrightarrow>
      get_task_by_timer_queque_w (qaddr_word tbase mbase q) = tbase t) \<and>
    (get_task_by_block_queque (Some q) = Some (Some t) \<longrightarrow>
      get_task_by_block_queque_w (qaddr_word tbase mbase q) = tbase t) \<and>
    (get_mutex_by_mutex_queque (Some q) = Some (Some m) \<longrightarrow>
      get_mutex_by_mutex_queque_w (qaddr_word tbase mbase q) = mbase m) \<and>
    (get_mutex_by_lock_mutex_queque (Some q) = Some (Some m) \<longrightarrow>
      get_mutex_by_lock_mutex_queque_w (qaddr_word tbase mbase q) = mbase m) \<and>
    (get_mutex_by_wait_queque (Some q) = Some (Some m) \<longrightarrow>
      get_mutex_by_wait_queque_w (qaddr_word tbase mbase q) = mbase m)"
  using assms by (cases q) (auto simp: get_by_queue_defs get_by_queue_w_defs)

theorem container_routines_agree_witness:
  "get_task_by_block_queque (Some (BlockQ 2)) = Some (Some 2) \<and>
   get_task_by_block_queque_w (qaddr_word (\<lambda>t. 0x40000000 + 0x80 * of_nat t) (\<lambda>_. 0) (BlockQ 2)) =
     0x40000100"
  using container_routines_agree
    [of "\<lambda>t. 0x40000000 + 0x80 * of_nat t" "\<lambda>_. 0" "BlockQ 2" 2 0] by simp

section \<open>Find first set\<close>

text \<open>\<open>val AND - val\<close> isolates the lowest set bit.\<close>

lemma odd_uminus_bit: "odd (v :: u32) \<Longrightarrow> bit (- v) j \<longleftrightarrow> j < 32 \<and> (j = 0 \<or> \<not> bit v j)"
proof -
  assume "odd v"
  then have "NOT v AND 1 = 0"
    by (intro bit_word_eqI) (auto simp: bit_simps bit_0)
  then have "- v = NOT v OR 1"
    by (simp add: minus_eq_not_plus_1 disjunctive_add_eq_or)
  then show ?thesis
    using \<open>odd v\<close> by (auto simp: bit_simps bit_0 dest: bit_imp_le_length)
qed

lemma isolate_lowest_bit:
  assumes "bit (w :: u32) n" and "\<And>i. i < n \<Longrightarrow> \<not> bit w i"
  shows "w AND - w = 2 ^ n"
proof -
  have n: "n < 32" using assms(1) by (auto dest: bit_imp_le_length)
  define v where "v = drop_bit n w"
  have "take_bit n w = 0"
    by (rule bit_word_eqI) (use assms(2) in \<open>auto simp: bit_take_bit_iff\<close>)
  then have w: "w = push_bit n v"
    using bits_ident [of n w] by (simp add: v_def)
  have "odd v" using assms(1) by (simp add: v_def even_drop_bit_iff_not_bit)
  have "- w = push_bit n (- v)" by (simp add: w push_bit_eq_mult)
  then have eq: "w AND - w = push_bit n v AND push_bit n (- v)" using w by simp
  have "bit (push_bit n v AND push_bit n (- v)) i \<longleftrightarrow> i = n" if "i < 32" for i
    using that n odd_uminus_bit [OF \<open>odd v\<close>, of "i - n"] \<open>odd v\<close>
    by (cases "i = n") (auto simp: bit_and_iff bit_push_bit_iff bit_0)
  then show ?thesis
    unfolding eq using n by (intro bit_word_eqI) (simp add: bit_exp_iff)
qed

lemma ffs_table_lookup:
  "n < 32 \<Longrightarrow> (let r0 = (2 ^ n :: u32) OR push_bit 4 (2 ^ n); r0 = r0 OR push_bit 6 r0;
      r0 = push_bit 16 r0 - r0 in ffs_table ! unat (drop_bit 26 r0)) = Suc n"
proof -
  have "list_all (\<lambda>n. (let r0 = (2 ^ n :: u32) OR push_bit 4 (2 ^ n); r0 = r0 OR push_bit 6 r0;
      r0 = push_bit 16 r0 - r0 in ffs_table ! unat (drop_bit 26 r0)) = Suc n) [0..<32]"
    by (simp add: ffs_table_def Let_def upt_rec)
  then show "n < 32 \<Longrightarrow> ?thesis" by (simp add: list_all_iff)
qed

lemma ffs_asm_0 [simp]: "ffs_asm 0 = 0"
  by (simp add: ffs_asm_def)

lemma ffs_asm_least:
  assumes "w \<noteq> 0"
  shows "ffs_asm w = Suc (LEAST n. bit w n)"
proof -
  let ?n = "LEAST n. bit w n"
  have ex: "\<exists>n. bit w n" using assms by (auto simp: bit_eq_iff)
  have n: "bit w ?n" by (rule LeastI_ex) (rule ex)
  have "w AND - w = 2 ^ ?n"
    by (rule isolate_lowest_bit [OF n]) (rule not_less_Least)
  moreover have "?n < 32" using n by (auto dest: bit_imp_le_length)
  moreover have "(2 ^ ?n :: u32) \<noteq> 0" using \<open>?n < 32\<close> by simp
  ultimately show ?thesis
    using assms ffs_table_lookup [of ?n] by (simp add: ffs_asm_def Let_def)
qed

text \<open>C28. The assembler \<open>ffs_asm\<close>, a multiplicative hash of the isolated bit and a table of 64
  entries, returns 0 for 0 and otherwise the position of the lowest set bit, counted from 1.\<close>

theorem ffs_asm_correct: "ffs_asm w = (if w = 0 then 0 else Suc (LEAST n. bit w n))"
  by (cases "w = 0") (simp_all add: ffs_asm_least)

end
