(* ===== verification/TN_Sched.thy ===== *)
theory TN_Sched
  imports TN_Port
begin

text \<open>
  The scheduler: the routines of \<^verbatim>\<open>TNKernel/tn_tasks.c\<close> that move a task between the ready
  lists and the wait queues and that choose the task to run, with
  \<^verbatim>\<open>find_max_blocked_priority\<close> of \<^verbatim>\<open>tn_mutex.c\<close>, which two of them call.\<close>

section \<open>Routines\<close>

definition find_next_task_to_run :: "kernel \<Rightarrow> kernel option" where
  "find_next_task_to_run s =
     do {
       let tmp = int (ffs_asm (tn_ready_to_run_bmp s)) - 1;
       que \<leftarrow> ready_list tmp;
       t \<leftarrow> get_task_by_tsk_queue (q_next (qh s que));
       Some (s\<lparr>tn_next_task_to_run := t\<rparr>)
     }"

definition task_to_non_runnable :: "tid \<Rightarrow> kernel \<Rightarrow> kernel option" where
  "task_to_non_runnable task s =
     do {
       let prio = priority (tcb s task);
       que \<leftarrow> ready_list prio;
       s \<leftarrow> upd_qh (queue_remove_entry (TaskQ task)) s;
       (if is_queue_empty que (qh s) then
          let s = s\<lparr>tn_ready_to_run_bmp := tn_ready_to_run_bmp s AND NOT (push_bit (nat prio) 1)\<rparr> in
          if tn_ready_to_run_bmp s = 0 then Some (s\<lparr>tn_next_task_to_run := None\<rparr>)
          else find_next_task_to_run s
        else if tn_next_task_to_run s = Some task then
          do {
            t \<leftarrow> get_task_by_tsk_queue (q_next (qh s que));
            Some (s\<lparr>tn_next_task_to_run := t\<rparr>)
          }
        else Some s)
     }"

definition task_to_runnable :: "tid \<Rightarrow> kernel \<Rightarrow> kernel option" where
  "task_to_runnable task s =
     do {
       let prio = priority (tcb s task);
       let s = upd_tcb task (\<lambda>t. t\<lparr>task_state := TSK_STATE_RUNNABLE, pwait_queue := None\<rparr>) s;
       que \<leftarrow> ready_list prio;
       s \<leftarrow> upd_qh (queue_add_tail que (TaskQ task)) s;
       let s = s\<lparr>tn_ready_to_run_bmp := tn_ready_to_run_bmp s OR push_bit (nat prio) 1\<rparr>;
       Some (case tn_next_task_to_run s of
               None \<Rightarrow> s\<lparr>tn_next_task_to_run := Some task\<rparr>
             | Some nt \<Rightarrow> if prio < priority (tcb s nt) then s\<lparr>tn_next_task_to_run := Some task\<rparr> else s)
     }"

text \<open>\<open>change_running_task_priority\<close> returns 0 or the value of \<open>tn_enable_switch_context\<close>.\<close>

definition change_running_task_priority :: "tid \<Rightarrow> int \<Rightarrow> kernel \<Rightarrow> (int \<times> kernel) option" where
  "change_running_task_priority task new_priority s =
     do {
       let old_priority = priority (tcb s task);
       que \<leftarrow> ready_list old_priority;
       s \<leftarrow> upd_qh (queue_remove_entry (TaskQ task)) s;
       let s = (if is_queue_empty que (qh s)
                then s\<lparr>tn_ready_to_run_bmp := tn_ready_to_run_bmp s AND NOT (push_bit (nat old_priority) 1)\<rparr>
                else s);
       let s = upd_tcb task (\<lambda>t. t\<lparr>priority := new_priority\<rparr>) s;
       new_que \<leftarrow> ready_list new_priority;
       s \<leftarrow> upd_qh (queue_add_tail new_que (TaskQ task)) s;
       let s = s\<lparr>tn_ready_to_run_bmp := tn_ready_to_run_bmp s OR push_bit (nat new_priority) 1\<rparr>;
       (if tn_next_task_to_run s = Some task then
          if new_priority \<ge> old_priority then
            do {
              s \<leftarrow> find_next_task_to_run s;
              Some (if tn_next_task_to_run s \<noteq> Some task then tn_enable_switch_context s else 0, s)
            }
          else Some (0, s)
        else
          do {
            nt \<leftarrow> tn_next_task_to_run s;
            Some (if new_priority < priority (tcb s nt)
                  then (tn_enable_switch_context s, s\<lparr>tn_next_task_to_run := Some task\<rparr>)
                  else (0, s))
          })
     }"

text \<open>The loop over the tasks that wait for a mutex. It starts at an entry and ends at the entry
  whose \<open>next\<close> is the head.\<close>

partial_function (option) max_blocked_loop ::
    "qaddr \<Rightarrow> qptr \<Rightarrow> int \<Rightarrow> kernel \<Rightarrow> int option" where
  "max_blocked_loop que curr_que prio s =
     do {
       task \<leftarrow> get_task_by_tsk_queue curr_que;
       t \<leftarrow> task;
       c \<leftarrow> curr_que;
       (if q_next (qh s c) = Some que
        then Some (if priority (tcb s t) < prio then priority (tcb s t) else prio)
        else max_blocked_loop que (q_next (qh s c))
               (if priority (tcb s t) < prio then priority (tcb s t) else prio) s)
     }"

definition find_max_blocked_priority :: "oid \<Rightarrow> int \<Rightarrow> kernel \<Rightarrow> int option" where
  "find_max_blocked_priority m ref_priority s =
     (if m_attr (mutex s m) = TN_MUTEX_ATTR_INHERIT \<or> m_attr (mutex s m) = TN_MUTEX_ATTR_CEILING then
        if \<not> is_queue_empty (MutexWaitQ m) (qh s)
        then max_blocked_loop (MutexWaitQ m) (q_next (qh s (MutexWaitQ m))) ref_priority s
        else Some ref_priority
      else Some ref_priority)"

definition waits_for_mutex :: "tn_tcb \<Rightarrow> bool" where
  "waits_for_mutex t \<longleftrightarrow>
     task_wait_reason t = TSK_WAIT_REASON_MUTEX_I \<or>
     task_wait_reason t = TSK_WAIT_REASON_MUTEX_C \<or>
     task_wait_reason t = TSK_WAIT_REASON_MUTEX_C_BLK"

text \<open>\<open>set_current_priority\<close>: at the end of a chain of blocked tasks the code changes the priority
  of the task it was called with, \<open>task\<close>, not of the task it has reached. A chain that leads
  back to itself is followed for ever.\<close>

partial_function (option) set_priority_loop ::
    "tid \<Rightarrow> tid \<Rightarrow> int \<Rightarrow> kernel \<Rightarrow> (int \<times> kernel) option" where
  "set_priority_loop task curr_task new_priority s =
     (if priority (tcb s curr_task) = new_priority then Some (0, s)
      else if task_state (tcb s curr_task) = TSK_STATE_RUNNABLE
      then change_running_task_priority curr_task new_priority s
      else if has_bits (task_state (tcb s curr_task)) TSK_STATE_WAIT then
        if waits_for_mutex (tcb s curr_task) then
          do {
            mp \<leftarrow> get_mutex_by_wait_queque (pwait_queue (tcb s curr_task));
            nxt \<leftarrow> (if task_wait_reason (tcb s curr_task) = TSK_WAIT_REASON_MUTEX_C_BLK
                     then Some (blk_task (tcb s curr_task))
                     else do { m \<leftarrow> mp; Some (holder (mutex s m)) });
            np \<leftarrow> (if priority (tcb s curr_task) < new_priority
                    then do { m \<leftarrow> mp; c \<leftarrow> nxt;
                              find_max_blocked_priority m (base_priority (tcb s c)) s }
                    else Some new_priority);
            c \<leftarrow> nxt;
            set_priority_loop task c np s
          }
        else Some (0, upd_tcb task (\<lambda>t. t\<lparr>priority := new_priority\<rparr>) s)
      else Some (0, upd_tcb task (\<lambda>t. t\<lparr>priority := new_priority\<rparr>) s))"

definition set_current_priority :: "tid \<Rightarrow> int \<Rightarrow> kernel \<Rightarrow> (int \<times> kernel) option" where
  "set_current_priority task prio s = set_priority_loop task task prio s"

text \<open>\<open>task_wait_complete\<close>. The wait reason is cleared before it is compared with
  \<open>TSK_WAIT_REASON_MUTEX_C_BLK\<close>, as in the code.\<close>

definition task_wait_complete :: "tptr \<Rightarrow> kernel \<Rightarrow> (bool \<times> kernel) option" where
  "task_wait_complete tp s =
     (case tp of
        None \<Rightarrow> Some (False, s)
      | Some task \<Rightarrow>
          do {
            let fl_mutex = waits_for_mutex (tcb s task);
            let t_que = (if fl_mutex then pwait_queue (tcb s task) else None);
            let s = upd_tcb task (\<lambda>t. t\<lparr>task_wait_reason := 0, pwait_queue := None,
                                        task_wait_rc := TERR_NO_ERR\<rparr>) s;
            s \<leftarrow> (if tick_count (tcb s task) \<noteq> TN_WAIT_INFINITE
                   then upd_qh (queue_remove_entry (TimerQ task)) s else Some s);
            let s = upd_tcb task (\<lambda>t. t\<lparr>tick_count := TN_WAIT_INFINITE\<rparr>) s;
            (rc, s) \<leftarrow>
              (if \<not> has_bits (task_state (tcb s task)) TSK_STATE_SUSPEND
               then do { s \<leftarrow> task_to_runnable task s; Some (True, s) }
               else Some (False, upd_tcb task (\<lambda>t. t\<lparr>task_state := TSK_STATE_SUSPEND\<rparr>) s));
            (if fl_mutex then
               do {
                 mp \<leftarrow> get_mutex_by_wait_queque t_que;
                 tmp_task \<leftarrow> (if task_wait_reason (tcb s task) = TSK_WAIT_REASON_MUTEX_C_BLK
                              then Some (blk_task (tcb s task))
                              else do { m \<leftarrow> mp; Some (holder (mutex s m)) });
                 (case tmp_task of
                    None \<Rightarrow> Some (rc, s)
                  | Some tt \<Rightarrow>
                      if priority (tcb s tt) \<noteq> base_priority (tcb s tt) \<and>
                         priority (tcb s tt) = priority (tcb s task)
                      then do {
                        m \<leftarrow> mp;
                        curr_priority \<leftarrow> find_max_blocked_priority m (base_priority (tcb s tt)) s;
                        (r, s) \<leftarrow> set_current_priority tt curr_priority s;
                        Some (r \<noteq> 0 \<or> rc, s)
                      }
                      else Some (rc, s))
               }
             else Some (rc, s))
          })"

definition task_curr_to_wait_action :: "qptr \<Rightarrow> u32 \<Rightarrow> u32 \<Rightarrow> kernel \<Rightarrow> kernel option" where
  "task_curr_to_wait_action wait_que wait_reason timeout s =
     do {
       curr \<leftarrow> tn_curr_run_task s;
       s \<leftarrow> task_to_non_runnable curr s;
       let s = upd_tcb curr (\<lambda>t. t\<lparr>task_state := TSK_STATE_WAIT, task_wait_reason := wait_reason,
                                   tick_count := timeout\<rparr>) s;
       s \<leftarrow> (case wait_que of
               None \<Rightarrow> Some s
             | Some que \<Rightarrow>
                 do {
                   s \<leftarrow> upd_qh (queue_add_tail que (TaskQ curr)) s;
                   Some (upd_tcb curr (\<lambda>t. t\<lparr>pwait_queue := Some que\<rparr>) s)
                 });
       (if timeout \<noteq> TN_WAIT_INFINITE
        then upd_qh (queue_add_tail TimeoutList (TimerQ curr)) s else Some s)
     }"

definition task_set_dormant_state :: "tid \<Rightarrow> kernel \<Rightarrow> kernel" where
  "task_set_dormant_state task s =
     upd_tcb task (\<lambda>t. t\<lparr>pwait_queue := None, blk_task := None, priority := base_priority t,
         task_state := TSK_STATE_DORMANT, task_wait_reason := 0, task_wait_rc := TERR_NO_ERR,
         ewait_pattern := 0, ewait_mode := 0, data_elem := 0, tick_count := TN_WAIT_INFINITE,
         wakeup_count := 0, suspend_count := 0, tslice_count := 0\<rparr>)
       (s\<lparr>qh := queue_reset (BlockQ task) (queue_reset (TaskMutexQ task)
                 (queue_reset (CreateQ task) (queue_reset (TimerQ task)
                   (queue_reset (TaskQ task) (qh s)))))\<rparr>)"

end
