(* ===== verification/TN_Inv.thy ===== *)
theory TN_Inv
  imports TN_Sched
begin

text \<open>
  The invariant of the scheduler and what the routines of \<open>TN_Sched\<close> do to it.

  \<open>placed h H L P\<close> says that the heap \<open>h\<close> carries the lists \<open>L\<close> under the heads \<open>H\<close> and that
  \<open>P\<close> gives for every queue field the queue it is in. \<open>ready_ok\<close> adds what the ready lists and
  the bit map have to do with each other, \<open>next_ok\<close> that \<open>tn_next_task_to_run\<close> is a task of the
  highest priority that is ready. \<open>home s\<close> is the place every queue field of a task has to be in
  according to the fields of its control block, and \<open>kernel_ok\<close> is the invariant of the whole
  kernel between two calls: the lists are where \<open>home\<close> says.
\<close>

section \<open>Queues and places\<close>

definition placed :: "qheap \<Rightarrow> qaddr set \<Rightarrow> (qaddr \<Rightarrow> qaddr list) \<Rightarrow> (qaddr \<Rightarrow> qptr) \<Rightarrow> bool" where
  "placed h H L P \<longleftrightarrow> lists_ok h H L \<and> (\<forall>q\<in>H. \<forall>e. e \<in> set (L q) \<longleftrightarrow> P e = Some q)"

lemma placed_lists_ok: "placed h H L P \<Longrightarrow> lists_ok h H L"
  by (simp add: placed_def)

lemma placed_iff: "placed h H L P \<Longrightarrow> q \<in> H \<Longrightarrow> e \<in> set (L q) \<longleftrightarrow> P e = Some q"
  by (simp add: placed_def)

lemma placed_empty: "placed h H L P \<Longrightarrow> q \<in> H \<Longrightarrow> is_queue_empty q h \<longleftrightarrow> L q = []"
  by (rule wq.isempty_iff [OF placed_lists_ok])

lemma placed_loose: "placed h H L P \<Longrightarrow> P e = None \<Longrightarrow> \<not> queued H L e"
  by (auto simp: placed_def queued_def)

lemma placed_add_tail:
  assumes "placed h H L P" and "q \<in> H" and "e \<notin> H" and "P e = None"
  shows "\<exists>h'. queue_add_tail q e h = Some h' \<and> placed h' H (L(q := L q @ [e])) (P(e := Some q))"
proof -
  obtain h' where "queue_add_tail q e h = Some h'" "lists_ok h' H (L(q := L q @ [e]))"
    using wq.enq_rep [OF placed_lists_ok [OF assms(1)] assms(2)] assms placed_loose by blast
  then show ?thesis using assms by (auto simp: placed_def)
qed

lemma placed_remove_entry:
  assumes "placed h H L P" and "q \<in> H" and "P e = Some q"
  shows "\<exists>h'. queue_remove_entry e h = Some h' \<and>
    placed h' H (L(q := remove1 e (L q))) (P(e := None))"
proof -
  have e: "e \<in> set (L q)" using assms placed_iff by blast
  obtain h' where "queue_remove_entry e h = Some h'" "lists_ok h' H (L(q := remove1 e (L q)))"
    using wq.unlink_rep [OF placed_lists_ok [OF assms(1)] assms(2) e] by blast
  moreover have "distinct (L q)" using lists_ok_distinct [OF placed_lists_ok] assms by blast
  ultimately show ?thesis using assms by (auto simp: placed_def)
qed

lemma placed_remove_head:
  assumes "placed h H L P" and "q \<in> H" and "L q = e # zs"
  shows "\<exists>h'. queue_remove_head (Some q) h = Some (Some e, h') \<and>
    placed h' H (L(q := zs)) (P(e := None)) \<and> P e = Some q"
proof -
  obtain h' where "queue_remove_head (Some q) h = Some (Some e, h')" "lists_ok h' H (L(q := zs))"
    using wq.deq_rep [OF placed_lists_ok [OF assms(1)] assms(2,3)] by blast
  moreover have "x \<in> set zs \<longleftrightarrow> P x = Some q \<and> x \<noteq> e" for x
    using lists_ok_distinct [OF placed_lists_ok [OF assms(1)] assms(2)]
      placed_iff [OF assms(1,2), of x] assms(3) by auto
  moreover have "P e = Some q" using placed_iff [OF assms(1,2), of e] assms(3) by simp
  ultimately show ?thesis
    using assms(1) by (auto simp: placed_def)
qed

lemma placed_reset_entry:
  "placed h H L P \<Longrightarrow> e \<notin> H \<Longrightarrow> P e = None \<Longrightarrow> placed (queue_reset e h) H L P"
  using lists_ok_reset_entry placed_loose unfolding placed_def by blast

lemma placed_reset_new:
  assumes "placed h H L P" and "q \<notin> H" and "P q = None" and "\<And>e. P e \<noteq> Some q"
  shows "placed (queue_reset q h) (insert q H) (L(q := [])) P"
proof -
  have "lists_ok (queue_reset q h) (insert q H) (L(q := []))"
    using assms placed_loose by (intro lists_ok_reset_new placed_lists_ok) auto
  then show ?thesis using assms by (auto simp: placed_def)
qed

text \<open>A family of lists gives up one head.\<close>

lemma placed_drop_head:
  "placed h H L P \<Longrightarrow> H' \<subseteq> H \<Longrightarrow> placed h H' L P"
  unfolding placed_def lists_ok_def by blast

lemma placed_next:
  "placed h H L P \<Longrightarrow> q \<in> H \<Longrightarrow> L q = e # es \<Longrightarrow> q_next (h q) = Some e"
  using cdll_next [OF lists_ok_cdll [OF placed_lists_ok]] by fastforce

lemma placed_next_entry:
  "placed h H L P \<Longrightarrow> q \<in> H \<Longrightarrow> L q = ys @ e # zs \<Longrightarrow> q_next (h e) = Some (hd (zs @ [q]))"
  using cdll_next_entry [of h q ys e zs] lists_ok_cdll [OF placed_lists_ok] by fastforce

lemma placed_distinct: "placed h H L P \<Longrightarrow> q \<in> H \<Longrightarrow> distinct (L q)"
  by (rule lists_ok_distinct [OF placed_lists_ok])

section \<open>The heads in use and the place of a task\<close>

text \<open>\<open>do_unlock_mutex\<close> unlinks \<open>lock_mutex_queue\<close> of every mutex, also of a mutex with priority
  inheritance, which never is in the list of locked mutexes. That has no effect because the cell
  still points to itself: it is counted as the head of an empty list here.\<close>

definition is_task :: "kernel \<Rightarrow> tid \<Rightarrow> bool" where
  "is_task s t \<longleftrightarrow> id_task (tcb s t) = TN_ID_TASK"

fun is_head :: "kernel \<Rightarrow> qaddr \<Rightarrow> bool" where
  "is_head s (ReadyList p) \<longleftrightarrow> 0 \<le> p \<and> p < TN_NUM_PRIORITY"
| "is_head s CreateQueue \<longleftrightarrow> True"
| "is_head s TimeoutList \<longleftrightarrow> True"
| "is_head s LockedMutexes \<longleftrightarrow> True"
| "is_head s BlockedTasks \<longleftrightarrow> True"
| "is_head s (TaskMutexQ t) \<longleftrightarrow> is_task s t"
| "is_head s (SemWaitQ i) \<longleftrightarrow> id_sem (sem s i) = TN_ID_SEMAPHORE"
| "is_head s (EventWaitQ i) \<longleftrightarrow> id_event (event s i) = TN_ID_EVENT"
| "is_head s (DqueSendQ i) \<longleftrightarrow> id_dque (dque s i) = TN_ID_DATAQUEUE"
| "is_head s (DqueRecvQ i) \<longleftrightarrow> id_dque (dque s i) = TN_ID_DATAQUEUE"
| "is_head s (FmpWaitQ i) \<longleftrightarrow> id_fmp (fmp s i) = TN_ID_FSMEMORYPOOL"
| "is_head s (MutexWaitQ i) \<longleftrightarrow> id_mutex (mutex s i) = TN_ID_MUTEX"
| "is_head s (LockMutexQ i) \<longleftrightarrow> id_mutex (mutex s i) = TN_ID_MUTEX \<and> m_attr (mutex s i) = TN_MUTEX_ATTR_INHERIT"
| "is_head s _ \<longleftrightarrow> False"

definition heads :: "kernel \<Rightarrow> qaddr set" where
  "heads s = {q. is_head s q}"

lemma in_heads: "q \<in> heads s \<longleftrightarrow> is_head s q"
  by (simp add: heads_def)

lemma heads_simps [simp]:
  "ReadyList p \<in> heads s \<longleftrightarrow> 0 \<le> p \<and> p < TN_NUM_PRIORITY"
  "CreateQueue \<in> heads s" "TimeoutList \<in> heads s" "LockedMutexes \<in> heads s"
  "BlockedTasks \<in> heads s"
  "TaskQ t \<notin> heads s" "TimerQ t \<notin> heads s" "BlockQ t \<notin> heads s" "CreateQ t \<notin> heads s"
  "MutexQ i \<notin> heads s"
  "LockMutexQ i \<in> heads s \<longleftrightarrow> id_mutex (mutex s i) = TN_ID_MUTEX \<and> m_attr (mutex s i) = TN_MUTEX_ATTR_INHERIT"
  "TaskMutexQ t \<in> heads s \<longleftrightarrow> is_task s t"
  "SemWaitQ i \<in> heads s \<longleftrightarrow> id_sem (sem s i) = TN_ID_SEMAPHORE"
  "EventWaitQ i \<in> heads s \<longleftrightarrow> id_event (event s i) = TN_ID_EVENT"
  "DqueSendQ i \<in> heads s \<longleftrightarrow> id_dque (dque s i) = TN_ID_DATAQUEUE"
  "DqueRecvQ i \<in> heads s \<longleftrightarrow> id_dque (dque s i) = TN_ID_DATAQUEUE"
  "FmpWaitQ i \<in> heads s \<longleftrightarrow> id_fmp (fmp s i) = TN_ID_FSMEMORYPOOL"
  "MutexWaitQ i \<in> heads s \<longleftrightarrow> id_mutex (mutex s i) = TN_ID_MUTEX"
  by (simp_all add: in_heads)

lemma heads_cong:
  assumes "\<And>t. id_task (tcb s' t) = id_task (tcb s t)" and "\<And>i. id_sem (sem s' i) = id_sem (sem s i)"
    and "\<And>i. id_event (event s' i) = id_event (event s i)"
    and "\<And>i. id_dque (dque s' i) = id_dque (dque s i)"
    and "\<And>i. id_fmp (fmp s' i) = id_fmp (fmp s i)"
    and "\<And>i. id_mutex (mutex s' i) = id_mutex (mutex s i)"
    and "\<And>i. m_attr (mutex s' i) = m_attr (mutex s i)"
  shows "heads s' = heads s"
proof -
  have "is_head s' q \<longleftrightarrow> is_head s q" for q
    by (cases q) (simp_all add: is_task_def assms)
  then show ?thesis by (simp add: heads_def)
qed

text \<open>Updates that leave the identification fields alone.\<close>

lemma heads_upd [simp]:
  "heads (s\<lparr>qh := h\<rparr>) = heads s"
  "heads (s\<lparr>mem := m\<rparr>) = heads s"
  "heads (s\<lparr>tn_ready_to_run_bmp := b\<rparr>) = heads s"
  "heads (s\<lparr>tn_next_task_to_run := n\<rparr>) = heads s"
  "heads (s\<lparr>tn_curr_run_task := n\<rparr>) = heads s"
  "heads (s\<lparr>tn_context_switch_request := i\<rparr>) = heads s"
  "heads (s\<lparr>tn_created_tasks_qty := qt\<rparr>) = heads s"
  "heads (s\<lparr>tn_int_counter := ic\<rparr>) = heads s"
  "heads (s\<lparr>tn_system_state := x\<rparr>) = heads s"
  "heads (s\<lparr>tn_tslice_ticks := ts\<rparr>) = heads s"
  "heads (s\<lparr>cpsr := w\<rparr>) = heads s"
  by (rule heads_cong; simp)+

lemma heads_upd_obj [simp]:
  "id_task (ftcb (tcb s t)) = id_task (tcb s t) \<Longrightarrow> heads (upd_tcb t ftcb s) = heads s"
  "id_sem (fsem (sem s i)) = id_sem (sem s i) \<Longrightarrow> heads (upd_sem i fsem s) = heads s"
  "id_event (fevent (event s i)) = id_event (event s i) \<Longrightarrow> heads (upd_event i fevent s) = heads s"
  "id_dque (fdque (dque s i)) = id_dque (dque s i) \<Longrightarrow> heads (upd_dque i fdque s) = heads s"
  "id_fmp (ffmp (fmp s i)) = id_fmp (fmp s i) \<Longrightarrow> heads (upd_fmp i ffmp s) = heads s"
  "id_mutex (fmutex (mutex s i)) = id_mutex (mutex s i) \<Longrightarrow>
     m_attr (fmutex (mutex s i)) = m_attr (mutex s i) \<Longrightarrow> heads (upd_mutex i fmutex s) = heads s"
  by (rule heads_cong; simp)+

lemma is_task_upd [simp]:
  "is_task (s\<lparr>qh := h\<rparr>) = is_task s"
  "is_task (s\<lparr>mem := m\<rparr>) = is_task s"
  "is_task (s\<lparr>tn_ready_to_run_bmp := b\<rparr>) = is_task s"
  "is_task (s\<lparr>tn_next_task_to_run := n\<rparr>) = is_task s"
  "is_task (s\<lparr>tn_curr_run_task := n\<rparr>) = is_task s"
  "is_task (s\<lparr>tn_context_switch_request := i\<rparr>) = is_task s"
  "is_task (s\<lparr>tn_created_tasks_qty := qt\<rparr>) = is_task s"
  "is_task (s\<lparr>tn_int_counter := ic\<rparr>) = is_task s"
  "is_task (s\<lparr>tn_system_state := x\<rparr>) = is_task s"
  "is_task (s\<lparr>tn_tslice_ticks := ts\<rparr>) = is_task s"
  "is_task (s\<lparr>cpsr := w\<rparr>) = is_task s"
  "is_task (upd_sem j fsem s) = is_task s"
  "is_task (upd_event j fevent s) = is_task s"
  "is_task (upd_dque j fdque s) = is_task s"
  "is_task (upd_fmp j ffmp s) = is_task s"
  "is_task (upd_mutex j fmutex s) = is_task s"
  "id_task (ftcb (tcb s t)) = id_task (tcb s t) \<Longrightarrow> is_task (upd_tcb t ftcb s) = is_task s"
  by (auto simp: is_task_def fun_eq_iff)

text \<open>A head that comes or goes.\<close>

lemma heads_insertI: "(\<And>q. is_head s' q \<longleftrightarrow> is_head s q \<or> q = w) \<Longrightarrow> heads s' = insert w (heads s)"
  by (auto simp: heads_def)

lemma heads_removeI: "(\<And>q. is_head s' q \<longleftrightarrow> is_head s q \<and> q \<noteq> w) \<Longrightarrow> heads s' = heads s - {w}"
  by (auto simp: heads_def)

text \<open>The reasons a task can have to be in a queue.\<close>

fun wait_reasons :: "qaddr \<Rightarrow> u32 set" where
  "wait_reasons (SemWaitQ i) = {TSK_WAIT_REASON_SEM}"
| "wait_reasons (EventWaitQ i) = {TSK_WAIT_REASON_EVENT}"
| "wait_reasons (DqueSendQ i) = {TSK_WAIT_REASON_DQUE_WSEND}"
| "wait_reasons (DqueRecvQ i) = {TSK_WAIT_REASON_DQUE_WRECEIVE}"
| "wait_reasons (FmpWaitQ i) = {TSK_WAIT_REASON_WFIXMEM}"
| "wait_reasons (MutexWaitQ i) =
     {TSK_WAIT_REASON_MUTEX_C, TSK_WAIT_REASON_MUTEX_C_BLK, TSK_WAIT_REASON_MUTEX_I}"
| "wait_reasons _ = {}"

section \<open>The ready lists\<close>

definition ready_ok :: "kernel \<Rightarrow> (qaddr \<Rightarrow> qaddr list) \<Rightarrow> (qaddr \<Rightarrow> qptr) \<Rightarrow> bool" where
  "ready_ok s L P \<longleftrightarrow>
     placed (qh s) (heads s) L P \<and>
     (\<forall>p. 0 \<le> p \<and> p < TN_NUM_PRIORITY \<longrightarrow>
        (bit (tn_ready_to_run_bmp s) (nat p) \<longleftrightarrow> L (ReadyList p) \<noteq> [])) \<and>
     (\<forall>p. 0 \<le> p \<and> p < TN_NUM_PRIORITY \<longrightarrow>
        (\<forall>e \<in> set (L (ReadyList p)). \<exists>t. e = TaskQ t \<and> priority (tcb s t) = p))"

definition next_ok :: "kernel \<Rightarrow> (qaddr \<Rightarrow> qaddr list) \<Rightarrow> (qaddr \<Rightarrow> qptr) \<Rightarrow> bool" where
  "next_ok s L P \<longleftrightarrow>
     (case tn_next_task_to_run s of
        None \<Rightarrow> \<forall>p. 0 \<le> p \<and> p < TN_NUM_PRIORITY \<longrightarrow> L (ReadyList p) = []
      | Some t \<Rightarrow>
          0 \<le> priority (tcb s t) \<and> priority (tcb s t) < TN_NUM_PRIORITY \<and>
          P (TaskQ t) = Some (ReadyList (priority (tcb s t))) \<and>
          (\<forall>p. 0 \<le> p \<and> p < priority (tcb s t) \<longrightarrow> L (ReadyList p) = []))"

lemma ready_placed: "ready_ok s L P \<Longrightarrow> placed (qh s) (heads s) L P"
  and ready_bmp: "ready_ok s L P \<Longrightarrow> 0 \<le> p \<Longrightarrow> p < TN_NUM_PRIORITY \<Longrightarrow>
    bit (tn_ready_to_run_bmp s) (nat p) \<longleftrightarrow> L (ReadyList p) \<noteq> []"
  and ready_entry: "ready_ok s L P \<Longrightarrow> 0 \<le> p \<Longrightarrow> p < TN_NUM_PRIORITY \<Longrightarrow> e \<in> set (L (ReadyList p)) \<Longrightarrow>
    \<exists>t. e = TaskQ t \<and> priority (tcb s t) = p"
  by (simp_all add: ready_ok_def)

text \<open>What happens outside the ready lists leaves them as they are.\<close>

lemma ready_other:
  assumes "ready_ok s L P" and "placed h' (heads s) L' P'"
    and "\<And>p. 0 \<le> p \<Longrightarrow> p < TN_NUM_PRIORITY \<Longrightarrow> L' (ReadyList p) = L (ReadyList p)"
  shows "ready_ok (s\<lparr>qh := h'\<rparr>) L' P'"
  using assms by (simp add: ready_ok_def)

lemma ready_upd_tcb:
  assumes "ready_ok s L P" and "id_task (f (tcb s t)) = id_task (tcb s t)"
    and "priority (f (tcb s t)) = priority (tcb s t) \<or> (\<forall>p. P (TaskQ t) \<noteq> Some (ReadyList p))"
  shows "ready_ok (upd_tcb t f s) L P"
proof -
  have "priority (tcb (upd_tcb t f s) u) = p"
    if "0 \<le> p" "p < TN_NUM_PRIORITY" "TaskQ u \<in> set (L (ReadyList p))" for u p
    using ready_entry [OF assms(1) that] placed_iff [OF ready_placed [OF assms(1)], of "ReadyList p" "TaskQ u"]
      assms(3) that by auto
  then show ?thesis
    using assms by (fastforce simp: ready_ok_def)
qed

lemma ready_ok_next_upd [simp]: "ready_ok (s\<lparr>tn_next_task_to_run := n\<rparr>) L P = ready_ok s L P"
  by (simp add: ready_ok_def)

lemma ready_bmp_0: "ready_ok s L P \<Longrightarrow> tn_ready_to_run_bmp s = 0 \<longleftrightarrow>
    (\<forall>p. 0 \<le> p \<and> p < TN_NUM_PRIORITY \<longrightarrow> L (ReadyList p) = [])"
proof -
  assume r: "ready_ok s L P"
  have "(\<forall>i<32. \<not> bit (tn_ready_to_run_bmp s) i) \<longleftrightarrow> (\<forall>p. 0 \<le> p \<and> p < TN_NUM_PRIORITY \<longrightarrow> \<not> bit (tn_ready_to_run_bmp s) (nat p))"
    by (metis nat_int nat_less_iff of_nat_0_le_iff of_nat_less_iff of_nat_numeral)
  then show ?thesis using ready_bmp [OF r] by (simp add: u32_eq_0_iff)
qed

text \<open>The head of a ready list that is not empty.\<close>

lemma ready_list_head:
  assumes r: "ready_ok s L P" and p: "0 \<le> p" "p < TN_NUM_PRIORITY" and ne: "L (ReadyList p) \<noteq> []"
  shows "\<exists>t. q_next (qh s (ReadyList p)) = Some (TaskQ t) \<and> priority (tcb s t) = p \<and>
    P (TaskQ t) = Some (ReadyList p) \<and> TaskQ t = hd (L (ReadyList p))"
proof -
  obtain e es where L: "L (ReadyList p) = e # es" using ne by (cases "L (ReadyList p)") auto
  have "P e = Some (ReadyList p)"
    using placed_iff [OF ready_placed [OF r], of "ReadyList p" e] p L by simp
  then show ?thesis
    using ready_entry [OF r p, of e] placed_next [OF ready_placed [OF r] _ L] p L by auto
qed

lemma find_next_ok:
  assumes r: "ready_ok s L P" and b: "tn_ready_to_run_bmp s \<noteq> 0"
  shows "\<exists>t. find_next_task_to_run s = Some (s\<lparr>tn_next_task_to_run := Some t\<rparr>) \<and>
    next_ok (s\<lparr>tn_next_task_to_run := Some t\<rparr>) L P"
proof -
  let ?n = "LEAST n. bit (tn_ready_to_run_bmp s) n"
  have ex: "\<exists>n. bit (tn_ready_to_run_bmp s) n" using b by (auto simp: bit_eq_iff)
  have n: "bit (tn_ready_to_run_bmp s) ?n" by (rule LeastI_ex) (rule ex)
  then have n32: "?n < 32" by (auto dest: bit_imp_le_length)
  then have "L (ReadyList (int ?n)) \<noteq> []" using ready_bmp [OF r, of "int ?n"] n by simp
  then obtain t where t: "q_next (qh s (ReadyList (int ?n))) = Some (TaskQ t)"
    "priority (tcb s t) = int ?n" "P (TaskQ t) = Some (ReadyList (int ?n))"
    using ready_list_head [OF r, of "int ?n"] n32 by auto
  have low: "L (ReadyList p) = []" if "0 \<le> p" "p < int ?n" for p
    using ready_bmp [OF r, of p] not_less_Least [of "nat p" "bit (tn_ready_to_run_bmp s)"] that n32
    by auto
  show ?thesis
    using t low n32 b
    by (auto simp: find_next_task_to_run_def ffs_asm_least Let_def ready_list_def next_ok_def)
qed

text \<open>A task leaves its ready list, or enters the one of its priority.\<close>

lemma ready_remove:
  assumes r: "ready_ok s L P" and p: "0 \<le> p" "p < TN_NUM_PRIORITY" and t: "P (TaskQ t) = Some (ReadyList p)"
  defines "L' \<equiv> L(ReadyList p := remove1 (TaskQ t) (L (ReadyList p)))"
  shows "\<exists>h'. queue_remove_entry (TaskQ t) (qh s) = Some h' \<and>
    (is_queue_empty (ReadyList p) h' \<longleftrightarrow> L' (ReadyList p) = []) \<and>
    ready_ok (s\<lparr>qh := h', tn_ready_to_run_bmp := if L' (ReadyList p) = []
                then tn_ready_to_run_bmp s AND NOT (push_bit (nat p) 1)
                else tn_ready_to_run_bmp s\<rparr>) L' (P(TaskQ t := None))"
proof -
  obtain h' where h': "queue_remove_entry (TaskQ t) (qh s) = Some h'"
    "placed h' (heads s) L' (P(TaskQ t := None))"
    unfolding L'_def using placed_remove_entry [OF ready_placed [OF r] _ t] p by auto
  moreover have "is_queue_empty (ReadyList p) h' \<longleftrightarrow> L' (ReadyList p) = []"
    using placed_empty [OF h'(2)] p by simp
  moreover have "ready_ok (s\<lparr>qh := h', tn_ready_to_run_bmp := if L' (ReadyList p) = []
                then tn_ready_to_run_bmp s AND NOT (push_bit (nat p) 1)
                else tn_ready_to_run_bmp s\<rparr>) L' (P(TaskQ t := None))"
    unfolding ready_ok_def
  proof (intro conjI allI impI ballI, goal_cases)
    case 1 show ?case using h'(2) by simp
  next
    case (2 q)
    have "L (ReadyList p) \<noteq> []"
      using placed_iff [OF ready_placed [OF r], of "ReadyList p" "TaskQ t"] p t by auto
    then show ?case
      using 2 p ready_bmp [OF r, of q] bit_clear_bmp [of "nat p" "tn_ready_to_run_bmp s" "nat q"]
      by (auto simp: push_bit_of_1 L'_def nat_eq_iff)
  next
    case (3 q e)
    then have "e \<in> set (L (ReadyList q))"
      using set_remove1_subset [of "TaskQ t" "L (ReadyList p)"] by (auto simp: L'_def split: if_splits)
    then show ?case using ready_entry [OF r, of q e] 3 by simp
  qed
  ultimately show ?thesis by blast
qed

lemma ready_insert:
  assumes r: "ready_ok s L P" and p: "0 \<le> p" "p < TN_NUM_PRIORITY" and t: "P (TaskQ t) = None"
    and prio: "priority (tcb s t) = p"
  shows "\<exists>h'. queue_add_tail (ReadyList p) (TaskQ t) (qh s) = Some h' \<and>
    ready_ok (s\<lparr>qh := h', tn_ready_to_run_bmp := tn_ready_to_run_bmp s OR push_bit (nat p) 1\<rparr>)
      (L(ReadyList p := L (ReadyList p) @ [TaskQ t])) (P(TaskQ t := Some (ReadyList p)))"
proof -
  obtain h' where "queue_add_tail (ReadyList p) (TaskQ t) (qh s) = Some h'"
    "placed h' (heads s) (L(ReadyList p := L (ReadyList p) @ [TaskQ t])) (P(TaskQ t := Some (ReadyList p)))"
    using placed_add_tail [OF ready_placed [OF r], of "ReadyList p" "TaskQ t"] p t by auto
  then show ?thesis
    using r p prio bit_set_bmp [of "nat p" "tn_ready_to_run_bmp s"]
    by (auto simp: ready_ok_def push_bit_of_1)
qed

section \<open>The routines of the scheduler\<close>

definition sched_ok :: "kernel \<Rightarrow> (qaddr \<Rightarrow> qaddr list) \<Rightarrow> (qaddr \<Rightarrow> qptr) \<Rightarrow> bool" where
  "sched_ok s L P \<longleftrightarrow> ready_ok s L P \<and> next_ok s L P"

lemma task_to_non_runnable_ok:
  assumes ok: "sched_ok s L P" and p: "0 \<le> p" "p < TN_NUM_PRIORITY"
    and prio: "priority (tcb s t) = p" and t: "P (TaskQ t) = Some (ReadyList p)"
  defines "L' \<equiv> L(ReadyList p := remove1 (TaskQ t) (L (ReadyList p)))"
  shows "\<exists>h b n. task_to_non_runnable t s =
      Some (s\<lparr>qh := h, tn_ready_to_run_bmp := b, tn_next_task_to_run := n\<rparr>) \<and>
    sched_ok (s\<lparr>qh := h, tn_ready_to_run_bmp := b, tn_next_task_to_run := n\<rparr>) L' (P(TaskQ t := None))"
proof -
  have r: "ready_ok s L P" and n: "next_ok s L P" using ok by (simp_all add: sched_ok_def)
  let ?b = "if L' (ReadyList p) = [] then tn_ready_to_run_bmp s AND NOT (push_bit (nat p) 1)
            else tn_ready_to_run_bmp s"
  obtain h' where h': "queue_remove_entry (TaskQ t) (qh s) = Some h'"
    "is_queue_empty (ReadyList p) h' \<longleftrightarrow> L' (ReadyList p) = []"
    and r': "ready_ok (s\<lparr>qh := h', tn_ready_to_run_bmp := ?b\<rparr>) L' (P(TaskQ t := None))"
    using ready_remove [OF r p t] unfolding L'_def by blast
  let ?s = "s\<lparr>qh := h', tn_ready_to_run_bmp := ?b\<rparr>"
  note run = task_to_non_runnable_def prio ready_list_def p upd_qh_def h' Let_def
  have Lp: "L (ReadyList p) \<noteq> []"
    using placed_iff [OF ready_placed [OF r], of "ReadyList p" "TaskQ t"] p t by auto
  obtain u where u: "tn_next_task_to_run s = Some u"
    using n Lp p by (auto simp: next_ok_def split: option.splits)
  show ?thesis
  proof (cases "L' (ReadyList p) = []")
    case True
    show ?thesis
    proof (cases "?b = 0")
      case True
      with \<open>L' (ReadyList p) = []\<close> have "next_ok (?s\<lparr>tn_next_task_to_run := None\<rparr>) L' (P(TaskQ t := None))"
        using ready_bmp_0 [OF r'] by (simp add: next_ok_def)
      with True \<open>L' (ReadyList p) = []\<close> r' show ?thesis
        by (auto simp: run sched_ok_def intro!: exI)
    next
      case False
      with r' obtain v where "find_next_task_to_run ?s = Some (?s\<lparr>tn_next_task_to_run := Some v\<rparr>)"
        "next_ok (?s\<lparr>tn_next_task_to_run := Some v\<rparr>) L' (P(TaskQ t := None))"
        using find_next_ok [OF r'] by auto
      with False \<open>L' (ReadyList p) = []\<close> r' show ?thesis
        by (auto simp: run sched_ok_def intro!: exI)
    qed
  next
    case False
    show ?thesis
    proof (cases "u = t")
      case True
      obtain v where v: "q_next (h' (ReadyList p)) = Some (TaskQ v)" "priority (tcb s v) = p"
        "(P(TaskQ t := None)) (TaskQ v) = Some (ReadyList p)"
        using ready_list_head [OF r' p False] by auto
      have "next_ok (?s\<lparr>tn_next_task_to_run := Some v\<rparr>) L' (P(TaskQ t := None))"
        using n u True v p prio by (auto simp: next_ok_def L'_def)
      with v \<open>L' (ReadyList p) \<noteq> []\<close> True u r' show ?thesis
        by (auto simp: run sched_ok_def intro!: exI [of _ h'] exI [of _ "tn_ready_to_run_bmp s"] exI [of _ "Some v"])
    next
      case False
      have "next_ok (?s\<lparr>tn_next_task_to_run := Some u\<rparr>) L' (P(TaskQ t := None))"
        using n u False p Lp by (auto simp: next_ok_def L'_def)
      with \<open>L' (ReadyList p) \<noteq> []\<close> False u h' r' show ?thesis
        by (auto simp: run sched_ok_def intro!: exI [of _ h'] exI [of _ "tn_ready_to_run_bmp s"] exI [of _ "Some u"])
    qed
  qed
qed

lemma next_same: "tn_next_task_to_run s = n \<Longrightarrow> s\<lparr>tn_next_task_to_run := n\<rparr> = s"
  by simp

lemma bmp_same: "tn_ready_to_run_bmp s = b \<Longrightarrow> s\<lparr>tn_ready_to_run_bmp := b\<rparr> = s"
  by simp

lemma qh_same: "qh s = h \<Longrightarrow> s\<lparr>qh := h\<rparr> = s"
  by simp

lemma task_to_runnable_ok:
  assumes ok: "sched_ok s L P" and p: "0 \<le> p" "p < TN_NUM_PRIORITY"
    and prio: "priority (tcb s t) = p" and t: "P (TaskQ t) = None"
  defines "L' \<equiv> L(ReadyList p := L (ReadyList p) @ [TaskQ t])"
    and "f \<equiv> (\<lambda>t. t\<lparr>task_state := TSK_STATE_RUNNABLE, pwait_queue := None\<rparr>)"
  shows "\<exists>h b n. task_to_runnable t s =
      Some ((upd_tcb t f s)\<lparr>qh := h, tn_ready_to_run_bmp := b, tn_next_task_to_run := n\<rparr>) \<and>
    sched_ok ((upd_tcb t f s)\<lparr>qh := h, tn_ready_to_run_bmp := b, tn_next_task_to_run := n\<rparr>)
      L' (P(TaskQ t := Some (ReadyList p)))"
proof -
  have r: "ready_ok s L P" and n: "next_ok s L P" using ok by (simp_all add: sched_ok_def)
  let ?b = "tn_ready_to_run_bmp s OR push_bit (nat p) 1"
  have r1: "ready_ok (upd_tcb t f s) L P" using r by (rule ready_upd_tcb) (simp_all add: f_def)
  obtain h' where h': "queue_add_tail (ReadyList p) (TaskQ t) (qh s) = Some h'"
    and r': "ready_ok ((upd_tcb t f s)\<lparr>qh := h', tn_ready_to_run_bmp := ?b\<rparr>) L' (P(TaskQ t := Some (ReadyList p)))"
    using ready_insert [OF r1 p t] prio unfolding L'_def by (auto simp: f_def)
  let ?n = "case tn_next_task_to_run s of None \<Rightarrow> Some t
    | Some nt \<Rightarrow> if p < priority (tcb s nt) then Some t else Some nt"
  have "task_to_runnable t s =
      Some ((upd_tcb t f s)\<lparr>qh := h', tn_ready_to_run_bmp := ?b, tn_next_task_to_run := ?n\<rparr>)"
    using h' p prio
    by (cases "tn_next_task_to_run s")
      (simp_all add: task_to_runnable_def ready_list_def upd_qh_def Let_def f_def next_same)
  moreover have "next_ok ((upd_tcb t f s)\<lparr>qh := h', tn_ready_to_run_bmp := ?b, tn_next_task_to_run := ?n\<rparr>)
      L' (P(TaskQ t := Some (ReadyList p)))"
    using n p prio t
    by (cases "tn_next_task_to_run s") (auto simp: next_ok_def L'_def f_def)
  ultimately show ?thesis using r' unfolding sched_ok_def ready_ok_next_upd by blast
qed

lemma change_running_task_priority_ok:
  assumes ok: "sched_ok s L P" and p: "0 \<le> p" "p < TN_NUM_PRIORITY" and q: "0 \<le> q" "q < TN_NUM_PRIORITY"
    and prio: "priority (tcb s t) = p" and t: "P (TaskQ t) = Some (ReadyList p)"
  defines "L1 \<equiv> L(ReadyList p := remove1 (TaskQ t) (L (ReadyList p)))"
  defines "L' \<equiv> L1(ReadyList q := L1 (ReadyList q) @ [TaskQ t])"
    and "f \<equiv> (\<lambda>t. t\<lparr>priority := q\<rparr>)"
  shows "\<exists>rc h b n. change_running_task_priority t q s =
      Some (rc, (upd_tcb t f s)\<lparr>qh := h, tn_ready_to_run_bmp := b, tn_next_task_to_run := n\<rparr>) \<and>
    sched_ok ((upd_tcb t f s)\<lparr>qh := h, tn_ready_to_run_bmp := b, tn_next_task_to_run := n\<rparr>)
      L' (P(TaskQ t := Some (ReadyList q)))"
proof -
  have r: "ready_ok s L P" and n: "next_ok s L P" using ok by (simp_all add: sched_ok_def)
  let ?b = "if L1 (ReadyList p) = [] then tn_ready_to_run_bmp s AND NOT (push_bit (nat p) 1)
            else tn_ready_to_run_bmp s"
  obtain h1 where h1: "queue_remove_entry (TaskQ t) (qh s) = Some h1"
    "is_queue_empty (ReadyList p) h1 \<longleftrightarrow> L1 (ReadyList p) = []"
    and r1: "ready_ok (s\<lparr>qh := h1, tn_ready_to_run_bmp := ?b\<rparr>) L1 (P(TaskQ t := None))"
    using ready_remove [OF r p t] unfolding L1_def by blast
  have r2: "ready_ok (upd_tcb t f (s\<lparr>qh := h1, tn_ready_to_run_bmp := ?b\<rparr>)) L1 (P(TaskQ t := None))"
    using r1 by (rule ready_upd_tcb) (simp_all add: f_def)
  let ?s1 = "upd_tcb t f (s\<lparr>qh := h1, tn_ready_to_run_bmp := ?b\<rparr>)"
  let ?b2 = "?b OR push_bit (nat q) 1"
  obtain h' where h': "queue_add_tail (ReadyList q) (TaskQ t) h1 = Some h'"
    and r': "ready_ok (?s1\<lparr>qh := h', tn_ready_to_run_bmp := ?b2\<rparr>) L' (P(TaskQ t := Some (ReadyList q)))"
    using ready_insert [OF r2 q, of t] unfolding L'_def by (auto simp: f_def)
  have s1: "?s1\<lparr>qh := h', tn_ready_to_run_bmp := ?b2\<rparr> = (upd_tcb t f s)\<lparr>qh := h', tn_ready_to_run_bmp := ?b2\<rparr>"
    by (simp add: upd_tcb_def)
  let ?s = "(upd_tcb t f s)\<lparr>qh := h', tn_ready_to_run_bmp := ?b2\<rparr>"
  note run = change_running_task_priority_def prio ready_list_def p q upd_qh_def h1 h' Let_def f_def [symmetric] s1
  have Lp: "L (ReadyList p) \<noteq> []"
    using placed_iff [OF ready_placed [OF r], of "ReadyList p" "TaskQ t"] p t by auto
  obtain u where u: "tn_next_task_to_run s = Some u"
    using n Lp p by (auto simp: next_ok_def split: option.splits)
  have c: "change_running_task_priority t q s =
    (if u = t then
       if p \<le> q then
         do {
           s \<leftarrow> find_next_task_to_run ?s;
           Some (if tn_next_task_to_run s \<noteq> Some t then tn_enable_switch_context s else 0, s)
         }
       else Some (0, ?s)
     else if q < priority (tcb s u)
       then Some (tn_enable_switch_context s, ?s\<lparr>tn_next_task_to_run := Some t\<rparr>)
       else Some (0, ?s))"
    using h1 h' u by (simp add: run)
  have low: "L (ReadyList i) = []" if "0 \<le> i" "i < priority (tcb s u)" for i
    using n u that by (simp add: next_ok_def)
  have uq: "P (TaskQ u) = Some (ReadyList (priority (tcb s u)))"
    "0 \<le> priority (tcb s u)" "priority (tcb s u) < TN_NUM_PRIORITY"
    using n u by (simp_all add: next_ok_def)
  show ?thesis
  proof (cases "u = t \<and> p \<le> q")
    case True
    have "?b2 \<noteq> 0"
      using ready_bmp [OF r', of q] q by (auto simp: L'_def)
    then obtain v where v: "find_next_task_to_run ?s = Some (?s\<lparr>tn_next_task_to_run := Some v\<rparr>)"
      "next_ok (?s\<lparr>tn_next_task_to_run := Some v\<rparr>) L' (P(TaskQ t := Some (ReadyList q)))"
      using find_next_ok [OF r' [unfolded s1]] by auto
    have "change_running_task_priority t q s =
        Some (if v \<noteq> t then tn_enable_switch_context s else 0, ?s\<lparr>tn_next_task_to_run := Some v\<rparr>)"
      using c v(1) True by simp
    then show ?thesis
      unfolding sched_ok_def using v(2) r' [unfolded s1] unfolding ready_ok_next_upd by blast
  next
    case False
    let ?n = "if u = t \<or> q < priority (tcb s u) then t else u"
    have "next_ok (?s\<lparr>tn_next_task_to_run := Some ?n\<rparr>) L' (P(TaskQ t := Some (ReadyList q)))"
      using False low uq q p prio by (auto simp: next_ok_def f_def L'_def L1_def)
    moreover have "change_running_task_priority t q s =
        Some (if u \<noteq> t \<and> q < priority (tcb s u) then tn_enable_switch_context s else 0,
          ?s\<lparr>tn_next_task_to_run := Some ?n\<rparr>)"
      using c False u by (auto simp: next_same)
    ultimately show ?thesis
      unfolding sched_ok_def using r' [unfolded s1] unfolding ready_ok_next_upd by blast
  qed
qed

text \<open>\<open>task_wait_complete\<close> for a task that did not wait for a mutex, after its queue field was taken
  off the wait queue.\<close>

definition complete_tcb :: "tn_tcb \<Rightarrow> tn_tcb" where
  "complete_tcb t = t\<lparr>task_wait_reason := 0, pwait_queue := None, task_wait_rc := TERR_NO_ERR,
     tick_count := TN_WAIT_INFINITE,
     task_state := if has_bits (task_state t) TSK_STATE_SUSPEND then TSK_STATE_SUSPEND else TSK_STATE_RUNNABLE\<rparr>"

definition complete_lists :: "tid \<Rightarrow> tn_tcb \<Rightarrow> (qaddr \<Rightarrow> qaddr list) \<Rightarrow> qaddr \<Rightarrow> qaddr list" where
  "complete_lists t x L =
     (let L1 = L(TimeoutList := remove1 (TimerQ t) (L TimeoutList))
      in if has_bits (task_state x) TSK_STATE_SUSPEND then L1
         else L1(ReadyList (priority x) := L1 (ReadyList (priority x)) @ [TaskQ t]))"

definition timer_home :: "tn_tcb \<Rightarrow> qptr" where
  "timer_home x = (if tick_count x \<noteq> TN_WAIT_INFINITE then Some TimeoutList else None)"

lemma task_wait_complete_ok:
  assumes ok: "sched_ok s L P" and prio: "0 \<le> priority (tcb s t)" "priority (tcb s t) < TN_NUM_PRIORITY"
    and t: "P (TaskQ t) = None" and tm: "P (TimerQ t) = timer_home (tcb s t)"
    and nm: "\<not> waits_for_mutex (tcb s t)"
  defines "susp \<equiv> has_bits (task_state (tcb s t)) TSK_STATE_SUSPEND"
  shows "\<exists>h b n. task_wait_complete (Some t) s =
      Some (\<not> susp, (upd_tcb t complete_tcb s)\<lparr>qh := h, tn_ready_to_run_bmp := b, tn_next_task_to_run := n\<rparr>) \<and>
    sched_ok ((upd_tcb t complete_tcb s)\<lparr>qh := h, tn_ready_to_run_bmp := b, tn_next_task_to_run := n\<rparr>)
      (complete_lists t (tcb s t) L)
      (P(TimerQ t := None, TaskQ t := if susp then None else Some (ReadyList (priority (tcb s t)))))"
proof -
  let ?L1 = "L(TimeoutList := remove1 (TimerQ t) (L TimeoutList))"
  let ?P1 = "P(TimerQ t := None)"
  let ?f = "\<lambda>x. x\<lparr>task_wait_reason := 0, pwait_queue := None, task_wait_rc := TERR_NO_ERR, tick_count := TN_WAIT_INFINITE\<rparr>"
  have r: "ready_ok s L P" and n: "next_ok s L P" using ok by (simp_all add: sched_ok_def)
  have "\<exists>h1. (if tick_count (tcb s t) \<noteq> TN_WAIT_INFINITE then queue_remove_entry (TimerQ t) (qh s) else Some (qh s)) = Some h1 \<and>
      placed h1 (heads s) ?L1 ?P1"
  proof (cases "tick_count (tcb s t) = TN_WAIT_INFINITE")
    case True
    then have "P (TimerQ t) = None" using tm by (simp add: timer_home_def)
    moreover from this have "TimerQ t \<notin> set (L TimeoutList)"
      using placed_iff [OF ready_placed [OF r], of TimeoutList] by simp
    ultimately show ?thesis
      using True ready_placed [OF r] by (simp add: remove1_idem fun_upd_idem)
  next
    case False
    then show ?thesis
      using placed_remove_entry [OF ready_placed [OF r], of TimeoutList "TimerQ t"] tm
      by (simp add: timer_home_def)
  qed
  then obtain h1 where h1: "(if tick_count (tcb s t) \<noteq> TN_WAIT_INFINITE then queue_remove_entry (TimerQ t) (qh s) else Some (qh s)) = Some h1"
    and pl: "placed h1 (heads s) ?L1 ?P1" by blast
  let ?s1 = "(upd_tcb t ?f s)\<lparr>qh := h1\<rparr>"
  have r1: "ready_ok ?s1 ?L1 ?P1"
    using ready_other [of "upd_tcb t ?f s" L P h1 ?L1 ?P1] ready_upd_tcb [OF r, of ?f t] pl t by simp
  have "next_ok ?s1 ?L1 ?P1"
    using n by (auto simp: next_ok_def split: option.splits)
  with r1 have ok1: "sched_ok ?s1 ?L1 ?P1" by (simp add: sched_ok_def)
  have eq1: "task_wait_complete (Some t) s =
      (if \<not> susp then do { s \<leftarrow> task_to_runnable t ?s1; Some (True, s) }
       else Some (False, upd_tcb t (\<lambda>t. t\<lparr>task_state := TSK_STATE_SUSPEND\<rparr>) ?s1))"
    using h1 nm
    by (cases "tick_count (tcb s t) = TN_WAIT_INFINITE")
      (auto simp: task_wait_complete_def upd_qh_def Let_def susp_def upd_upd qh_same)
  show ?thesis
  proof (cases susp)
    case True
    let ?s2 = "upd_tcb t complete_tcb s\<lparr>qh := h1\<rparr>"
    have "upd_tcb t (\<lambda>x. (?f x)\<lparr>task_state := TSK_STATE_SUSPEND\<rparr>) s = upd_tcb t complete_tcb s"
      using True by (intro upd_cong) (simp add: complete_tcb_def susp_def)
    then have s2: "upd_tcb t (\<lambda>t. t\<lparr>task_state := TSK_STATE_SUSPEND\<rparr>) ?s1 = ?s2"
      by (simp add: upd_upd)
    have "ready_ok ?s2 ?L1 ?P1"
      unfolding s2 [symmetric] using r1 by (rule ready_upd_tcb) simp_all
    moreover have "next_ok ?s2 ?L1 ?P1"
      using \<open>next_ok ?s1 ?L1 ?P1\<close> unfolding s2 [symmetric] by (auto simp: next_ok_def split: option.splits)
    ultimately have "sched_ok (?s2\<lparr>tn_ready_to_run_bmp := tn_ready_to_run_bmp s,
        tn_next_task_to_run := tn_next_task_to_run s\<rparr>) (complete_lists t (tcb s t) L) ?P1"
      using True by (simp add: sched_ok_def bmp_same next_same complete_lists_def susp_def)
    moreover have "?P1 = P(TimerQ t := None, TaskQ t := None)"
      using t by (simp add: fun_upd_idem)
    moreover have "task_wait_complete (Some t) s = Some (\<not> susp, ?s2\<lparr>tn_ready_to_run_bmp :=
        tn_ready_to_run_bmp s, tn_next_task_to_run := tn_next_task_to_run s\<rparr>)"
      unfolding eq1 s2 using True by (simp add: bmp_same next_same)
    ultimately show ?thesis using True by auto
  next
    case False
    let ?p = "priority (tcb s t)"
    obtain h b n where run: "task_to_runnable t ?s1 =
        Some ((upd_tcb t (\<lambda>t. t\<lparr>task_state := TSK_STATE_RUNNABLE, pwait_queue := None\<rparr>) ?s1)
                \<lparr>qh := h, tn_ready_to_run_bmp := b, tn_next_task_to_run := n\<rparr>)"
      and ok2: "sched_ok ((upd_tcb t (\<lambda>t. t\<lparr>task_state := TSK_STATE_RUNNABLE, pwait_queue := None\<rparr>) ?s1)
                \<lparr>qh := h, tn_ready_to_run_bmp := b, tn_next_task_to_run := n\<rparr>)
          (?L1(ReadyList ?p := ?L1 (ReadyList ?p) @ [TaskQ t])) (?P1(TaskQ t := Some (ReadyList ?p)))"
      using task_to_runnable_ok [OF ok1 prio, of t] t by auto
    have "upd_tcb t (\<lambda>x. (?f x)\<lparr>task_state := TSK_STATE_RUNNABLE, pwait_queue := None\<rparr>) s =
        upd_tcb t complete_tcb s"
      using False by (intro upd_cong) (simp add: complete_tcb_def susp_def)
    then have s2: "upd_tcb t (\<lambda>t. t\<lparr>task_state := TSK_STATE_RUNNABLE, pwait_queue := None\<rparr>) ?s1 =
        upd_tcb t complete_tcb s\<lparr>qh := h1\<rparr>"
      by (simp add: upd_upd)
    show ?thesis
      using ok2 False unfolding eq1 run s2 by (auto simp: complete_lists_def susp_def Let_def)
  qed
qed

end
