(* ===== verification/TN_Kinv.thy ===== *)
theory TN_Kinv
  imports TN_Inv
begin

text \<open>
  The invariant of the kernel between two calls, \<open>kernel_ok\<close>, and the two ways in which the
  kernel objects use the scheduler: the running task goes into a wait queue
  (\<open>task_curr_to_wait_action\<close>), and the first task of a wait queue is woken up
  (\<open>queue_remove_head\<close> followed by \<open>task_wait_complete\<close>).
\<close>

section \<open>Where a task has to be\<close>

definition task_home :: "tn_tcb \<Rightarrow> qptr" where
  "task_home x = (if task_state x = TSK_STATE_RUNNABLE then Some (ReadyList (priority x)) else pwait_queue x)"

definition block_home :: "tn_tcb \<Rightarrow> qptr" where
  "block_home x = (if task_wait_reason x = TSK_WAIT_REASON_MUTEX_C_BLK then Some BlockedTasks else None)"

definition mutex_home :: "tn_mutex \<Rightarrow> qptr" where
  "mutex_home x = (if id_mutex x = TN_ID_MUTEX then map_option TaskMutexQ (holder x) else None)"

definition lock_home :: "tn_mutex \<Rightarrow> qptr" where
  "lock_home x = (if id_mutex x = TN_ID_MUTEX \<and> holder x \<noteq> None \<and> m_attr x = TN_MUTEX_ATTR_CEILING
                  then Some LockedMutexes else None)"

fun home :: "kernel \<Rightarrow> qaddr \<Rightarrow> qptr" where
  "home s (TaskQ t) = (if is_task s t then task_home (tcb s t) else None)"
| "home s (TimerQ t) = (if is_task s t then timer_home (tcb s t) else None)"
| "home s (BlockQ t) = (if is_task s t then block_home (tcb s t) else None)"
| "home s (CreateQ t) = (if is_task s t then Some CreateQueue else None)"
| "home s (MutexQ m) = mutex_home (mutex s m)"
| "home s (LockMutexQ m) = lock_home (mutex s m)"
| "home s _ = None"

definition task_fields_ok :: "kernel \<Rightarrow> tn_tcb \<Rightarrow> bool" where
  "task_fields_ok s x \<longleftrightarrow>
     0 \<le> priority x \<and> priority x < TN_NUM_PRIORITY \<and>
     0 \<le> base_priority x \<and> base_priority x < TN_NUM_PRIORITY \<and>
     (if task_state x = TSK_STATE_WAIT \<or> task_state x = TSK_STATE_WAITSUSP
      then (case pwait_queue x of
              None \<Rightarrow> task_wait_reason x = TSK_WAIT_REASON_SLEEP
            | Some q \<Rightarrow> q \<in> heads s \<and> task_wait_reason x \<in> wait_reasons q)
      else task_state x \<in> {TSK_STATE_RUNNABLE, TSK_STATE_SUSPEND, TSK_STATE_DORMANT} \<and>
           pwait_queue x = None \<and> task_wait_reason x = 0 \<and> tick_count x = TN_WAIT_INFINITE)"

definition kernel_ok :: "kernel \<Rightarrow> (qaddr \<Rightarrow> qaddr list) \<Rightarrow> bool" where
  "kernel_ok s L \<longleftrightarrow>
     sched_ok s L (home s) \<and>
     (\<forall>t. is_task s t \<longrightarrow> task_fields_ok s (tcb s t)) \<and>
     (\<forall>m. id_mutex (mutex s m) = TN_ID_MUTEX \<longrightarrow>
        m_attr (mutex s m) \<in> {TN_MUTEX_ATTR_CEILING, TN_MUTEX_ATTR_INHERIT} \<and>
        (\<forall>t. holder (mutex s m) = Some t \<longrightarrow> is_task s t))"

text \<open>The running task, in a call from a task.\<close>

definition curr_ok :: "kernel \<Rightarrow> bool" where
  "curr_ok s \<longleftrightarrow> (\<exists>t. tn_curr_run_task s = Some t \<and> is_task s t \<and>
                     task_state (tcb s t) = TSK_STATE_RUNNABLE)"

lemma kernel_sched: "kernel_ok s L \<Longrightarrow> sched_ok s L (home s)"
  and kernel_task: "kernel_ok s L \<Longrightarrow> is_task s t \<Longrightarrow> task_fields_ok s (tcb s t)"
  and kernel_mutex: "kernel_ok s L \<Longrightarrow> id_mutex (mutex s m) = TN_ID_MUTEX \<Longrightarrow>
    m_attr (mutex s m) \<in> {TN_MUTEX_ATTR_CEILING, TN_MUTEX_ATTR_INHERIT} \<and>
    (\<forall>t. holder (mutex s m) = Some t \<longrightarrow> is_task s t)"
  by (simp_all add: kernel_ok_def)

lemma sched_placed: "sched_ok s L P \<Longrightarrow> placed (qh s) (heads s) L P"
  by (simp add: sched_ok_def ready_ok_def)

lemma kernel_placed: "kernel_ok s L \<Longrightarrow> placed (qh s) (heads s) L (home s)"
  by (blast dest: kernel_sched sched_placed)

lemma kernel_empty: "kernel_ok s L \<Longrightarrow> q \<in> heads s \<Longrightarrow> is_queue_empty q (qh s) \<longleftrightarrow> L q = []"
  by (rule placed_empty [OF kernel_placed])

lemma kernel_entry: "kernel_ok s L \<Longrightarrow> q \<in> heads s \<Longrightarrow> e \<in> set (L q) \<longleftrightarrow> home s e = Some q"
  by (rule placed_iff [OF kernel_placed])

lemma home_upd [simp]:
  "home (s\<lparr>qh := h\<rparr>) = home s"
  "home (s\<lparr>mem := m\<rparr>) = home s"
  "home (s\<lparr>tn_ready_to_run_bmp := b\<rparr>) = home s"
  "home (s\<lparr>tn_next_task_to_run := n\<rparr>) = home s"
  "home (s\<lparr>tn_curr_run_task := n\<rparr>) = home s"
  "home (s\<lparr>tn_context_switch_request := i\<rparr>) = home s"
  "home (s\<lparr>cpsr := w\<rparr>) = home s"
  "home (s\<lparr>tn_created_tasks_qty := qt\<rparr>) = home s"
  "home (s\<lparr>tn_int_counter := ic\<rparr>) = home s"
  "home (s\<lparr>tn_system_state := x\<rparr>) = home s"
  "home (s\<lparr>tn_tslice_ticks := ts\<rparr>) = home s"
  "home (upd_sem j fsem s) = home s"
  "home (upd_event j fevent s) = home s"
  "home (upd_dque j fdque s) = home s"
  "home (upd_fmp j ffmp s) = home s"
  by (rule ext, rename_tac a, case_tac a; simp)+

lemma home_upd_tcb:
  assumes "is_task s t" and "id_task (f (tcb s t)) = id_task (tcb s t)"
  shows "home (upd_tcb t f s) = (home s)(TaskQ t := task_home (f (tcb s t)),
           TimerQ t := timer_home (f (tcb s t)), BlockQ t := block_home (f (tcb s t)))"
proof
  fix e
  show "home (upd_tcb t f s) e = ((home s)(TaskQ t := task_home (f (tcb s t)),
           TimerQ t := timer_home (f (tcb s t)), BlockQ t := block_home (f (tcb s t)))) e"
    using assms by (cases e) auto
qed

lemma task_fields_cong: "heads s' = heads s \<Longrightarrow> task_fields_ok s' = task_fields_ok s"
  by (simp add: fun_eq_iff task_fields_ok_def split: option.splits)

text \<open>The entries of the wait queues are tasks that wait.\<close>

lemma wait_queue_entry:
  assumes ok: "kernel_ok s L" and q: "q \<in> heads s" "wait_reasons q \<noteq> {}" and e: "e \<in> set (L q)"
  shows "\<exists>t. e = TaskQ t \<and> is_task s t \<and> pwait_queue (tcb s t) = Some q \<and>
    task_wait_reason (tcb s t) \<in> wait_reasons q \<and>
    (task_state (tcb s t) = TSK_STATE_WAIT \<or> task_state (tcb s t) = TSK_STATE_WAITSUSP)"
proof -
  have h: "home s e = Some q" using kernel_entry [OF ok q(1)] e by simp
  show ?thesis
  proof (cases e)
    case (TaskQ t)
    then have "is_task s t" "task_home (tcb s t) = Some q" using h by (simp_all split: if_splits)
    then show ?thesis
      using kernel_task [OF ok, of t] q TaskQ
      by (auto simp: task_home_def task_fields_ok_def split: if_splits)
  qed (use h q in \<open>auto simp: timer_home_def block_home_def mutex_home_def lock_home_def split: if_splits\<close>)
qed

lemma runnable_home:
  assumes "kernel_ok s L" and "is_task s t" and "task_state (tcb s t) = TSK_STATE_RUNNABLE"
  shows "home s (TaskQ t) = Some (ReadyList (priority (tcb s t)))"
    and "0 \<le> priority (tcb s t)" and "priority (tcb s t) < TN_NUM_PRIORITY"
    and "home s (TimerQ t) = None"
  using assms kernel_task [OF assms(1,2)]
  by (simp_all add: task_home_def timer_home_def task_fields_ok_def)

section \<open>Going to wait\<close>

lemma sched_upd_tcb:
  assumes "sched_ok s L P" and "id_task (f (tcb s t)) = id_task (tcb s t)"
    and "priority (f (tcb s t)) = priority (tcb s t)"
  shows "sched_ok (upd_tcb t f s) L P"
proof -
  have "ready_ok (upd_tcb t f s) L P" using assms by (auto simp: sched_ok_def intro: ready_upd_tcb)
  moreover have "next_ok (upd_tcb t f s) L P"
    using assms by (auto simp: sched_ok_def next_ok_def split: option.splits)
  ultimately show ?thesis by (simp add: sched_ok_def)
qed

lemma sched_other:
  assumes "sched_ok s L P" and "placed h' (heads s) L' P'"
    and "\<And>p. 0 \<le> p \<Longrightarrow> p < TN_NUM_PRIORITY \<Longrightarrow> L' (ReadyList p) = L (ReadyList p)"
  shows "sched_ok (s\<lparr>qh := h'\<rparr>) L' P'"
proof -
  have "P' (TaskQ u) = Some (ReadyList p)"
    if "P (TaskQ u) = Some (ReadyList p)" "0 \<le> p" "p < TN_NUM_PRIORITY" for u p
    using placed_iff [OF sched_placed [OF assms(1)], of "ReadyList p" "TaskQ u"]
      placed_iff [OF assms(2), of "ReadyList p" "TaskQ u"] assms(3) that by simp
  then have "next_ok (s\<lparr>qh := h'\<rparr>) L' P'"
    using assms(1,3) by (auto simp: sched_ok_def next_ok_def split: option.splits)
  then show ?thesis
    using ready_other [of s L P h' L' P'] assms by (simp add: sched_ok_def)
qed

definition wait_tcb :: "qptr \<Rightarrow> u32 \<Rightarrow> u32 \<Rightarrow> tn_tcb \<Rightarrow> tn_tcb" where
  "wait_tcb wait_que reason timeout x = x\<lparr>task_state := TSK_STATE_WAIT, task_wait_reason := reason,
     tick_count := timeout,
     pwait_queue := (case wait_que of None \<Rightarrow> pwait_queue x | Some q \<Rightarrow> Some q)\<rparr>"

definition wait_lists :: "tid \<Rightarrow> int \<Rightarrow> qptr \<Rightarrow> u32 \<Rightarrow> (qaddr \<Rightarrow> qaddr list) \<Rightarrow> qaddr \<Rightarrow> qaddr list" where
  "wait_lists t p wait_que timeout L =
     (let L1 = L(ReadyList p := remove1 (TaskQ t) (L (ReadyList p)));
          L2 = (case wait_que of None \<Rightarrow> L1 | Some q \<Rightarrow> L1(q := L1 q @ [TaskQ t]))
      in if timeout = TN_WAIT_INFINITE then L2 else L2(TimeoutList := L2 TimeoutList @ [TimerQ t]))"

lemma task_curr_to_wait_action_ok:
  fixes wait_que :: qptr and reason timeout :: u32
  assumes ok: "sched_ok s L P" and c: "tn_curr_run_task s = Some t"
    and p: "priority (tcb s t) = p" "0 \<le> p" "p < TN_NUM_PRIORITY"
    and t: "P (TaskQ t) = Some (ReadyList p)" and tm: "P (TimerQ t) = None"
    and q: "\<And>q. wait_que = Some q \<Longrightarrow> q \<in> heads s \<and> q \<noteq> TimeoutList \<and> (\<forall>p. q \<noteq> ReadyList p)"
  defines "P' \<equiv> P(TaskQ t := wait_que, TimerQ t := if timeout = TN_WAIT_INFINITE then None else Some TimeoutList)"
  shows "\<exists>h b n. task_curr_to_wait_action wait_que reason timeout s =
      Some ((upd_tcb t (wait_tcb wait_que reason timeout) s)
        \<lparr>qh := h, tn_ready_to_run_bmp := b, tn_next_task_to_run := n\<rparr>) \<and>
    sched_ok ((upd_tcb t (wait_tcb wait_que reason timeout) s)
        \<lparr>qh := h, tn_ready_to_run_bmp := b, tn_next_task_to_run := n\<rparr>)
      (wait_lists t p wait_que timeout L) P'"
proof -
  let ?L1 = "L(ReadyList p := remove1 (TaskQ t) (L (ReadyList p)))"
  let ?P1 = "P(TaskQ t := None)"
  obtain h b n where run: "task_to_non_runnable t s =
      Some (s\<lparr>qh := h, tn_ready_to_run_bmp := b, tn_next_task_to_run := n\<rparr>)"
    and ok1: "sched_ok (s\<lparr>qh := h, tn_ready_to_run_bmp := b, tn_next_task_to_run := n\<rparr>) ?L1 ?P1"
    using task_to_non_runnable_ok [OF ok p(2,3,1) t] by blast
  let ?u = "upd_tcb t (wait_tcb wait_que reason timeout) s"
  let ?s1 = "?u\<lparr>qh := h, tn_ready_to_run_bmp := b, tn_next_task_to_run := n\<rparr>"
  have ok1': "sched_ok ?s1 ?L1 ?P1"
    using sched_upd_tcb [OF ok1, of "wait_tcb wait_que reason timeout" t] by (simp add: wait_tcb_def)
  have hd: "heads ?s1 = heads s" by (simp add: wait_tcb_def)
  let ?L2 = "case wait_que of None \<Rightarrow> ?L1 | Some q \<Rightarrow> ?L1(q := ?L1 q @ [TaskQ t])"
  let ?P2 = "P(TaskQ t := wait_que)"
  have "\<exists>h2. (case wait_que of None \<Rightarrow> Some h | Some q \<Rightarrow> queue_add_tail q (TaskQ t) h) = Some h2 \<and>
      placed h2 (heads s) ?L2 ?P2"
  proof (cases wait_que)
    case None
    then show ?thesis using sched_placed [OF ok1] by simp
  next
    case (Some q)
    then show ?thesis using placed_add_tail [OF sched_placed [OF ok1], of q "TaskQ t"] q by auto
  qed
  then obtain h2 where h2: "(case wait_que of None \<Rightarrow> Some h | Some q \<Rightarrow> queue_add_tail q (TaskQ t) h) = Some h2"
    and pl2: "placed h2 (heads s) ?L2 ?P2" by blast
  let ?L3 = "if timeout = TN_WAIT_INFINITE then ?L2 else ?L2(TimeoutList := ?L2 TimeoutList @ [TimerQ t])"
  have "\<exists>h3. (if timeout = TN_WAIT_INFINITE then Some h2 else queue_add_tail TimeoutList (TimerQ t) h2) = Some h3 \<and>
      placed h3 (heads s) ?L3 P'"
  proof (cases "timeout = TN_WAIT_INFINITE")
    case True
    then show ?thesis using pl2 tm by (simp add: P'_def fun_upd_idem)
  next
    case False
    then show ?thesis using placed_add_tail [OF pl2, of TimeoutList "TimerQ t"] tm by (simp add: P'_def)
  qed
  then obtain h3 where h3: "(if timeout = TN_WAIT_INFINITE then Some h2 else queue_add_tail TimeoutList (TimerQ t) h2) = Some h3"
    and pl3: "placed h3 (heads s) ?L3 P'" by blast
  have "wait_que \<noteq> Some (ReadyList p')" for p' using q by blast
  then have "?L3 (ReadyList p') = ?L1 (ReadyList p')" for p'
    by (cases wait_que) auto
  then have ok3: "sched_ok (?s1\<lparr>qh := h3\<rparr>) ?L3 P'"
    using pl3 hd by (intro sched_other [OF ok1']) simp_all
  have L3: "?L3 = wait_lists t p wait_que timeout L" by (simp add: wait_lists_def Let_def)
  have s3: "?s1\<lparr>qh := h3\<rparr> = ?u\<lparr>qh := h3, tn_ready_to_run_bmp := b, tn_next_task_to_run := n\<rparr>" by simp
  have "task_curr_to_wait_action wait_que reason timeout s =
      Some (?u\<lparr>qh := h3, tn_ready_to_run_bmp := b, tn_next_task_to_run := n\<rparr>)"
    using h2 h3
    by (cases wait_que; cases "timeout = TN_WAIT_INFINITE")
      (simp_all add: task_curr_to_wait_action_def c run upd_qh_def upd_upd Let_def, simp_all add: wait_tcb_def [abs_def])
  with ok3 [unfolded s3 L3] show ?thesis by blast
qed

section \<open>Frame lemmas of the invariant\<close>

text \<open>The fields of a task control block the invariant looks at.\<close>

definition same_sched_fields :: "tn_tcb \<Rightarrow> tn_tcb \<Rightarrow> bool" where
  "same_sched_fields x y \<longleftrightarrow>
     id_task x = id_task y \<and> priority x = priority y \<and> base_priority x = base_priority y \<and>
     task_state x = task_state y \<and> pwait_queue x = pwait_queue y \<and>
     task_wait_reason x = task_wait_reason y \<and> tick_count x = tick_count y"

lemma task_fields_same:
  "same_sched_fields x y \<Longrightarrow> task_fields_ok s x = task_fields_ok s y"
  by (simp add: task_fields_ok_def same_sched_fields_def split: option.split)

lemma home_upd_tcb_same:
  assumes "same_sched_fields (f (tcb s t)) (tcb s t)"
  shows "home (upd_tcb t f s) = home s"
proof
  fix e
  show "home (upd_tcb t f s) e = home s e"
    using assms
    by (cases e) (auto simp: is_task_def same_sched_fields_def task_home_def timer_home_def block_home_def)
qed

lemma kernel_upd_tcb:
  assumes "kernel_ok s L" and f: "same_sched_fields (f (tcb s t)) (tcb s t)"
  shows "kernel_ok (upd_tcb t f s) L"
proof -
  have id: "id_task (f (tcb s t)) = id_task (tcb s t)" "priority (f (tcb s t)) = priority (tcb s t)"
    using f by (simp_all add: same_sched_fields_def)
  then have h: "heads (upd_tcb t f s) = heads s" by simp
  show ?thesis
    using assms id
    by (simp add: kernel_ok_def home_upd_tcb_same sched_upd_tcb task_fields_cong [OF h] task_fields_same)
qed

lemma sched_ok_objs [simp]:
  "id_sem (fsem (sem s i)) = id_sem (sem s i) \<Longrightarrow> sched_ok (upd_sem i fsem s) L P = sched_ok s L P"
  "id_event (fevent (event s i)) = id_event (event s i) \<Longrightarrow> sched_ok (upd_event i fevent s) L P = sched_ok s L P"
  "id_dque (fdque (dque s i)) = id_dque (dque s i) \<Longrightarrow> sched_ok (upd_dque i fdque s) L P = sched_ok s L P"
  "id_fmp (ffmp (fmp s i)) = id_fmp (fmp s i) \<Longrightarrow> sched_ok (upd_fmp i ffmp s) L P = sched_ok s L P"
  "sched_ok (s\<lparr>mem := m\<rparr>) L P = sched_ok s L P"
  "sched_ok (s\<lparr>cpsr := w\<rparr>) L P = sched_ok s L P"
  "sched_ok (s\<lparr>tn_curr_run_task := n\<rparr>) L P = sched_ok s L P"
  "sched_ok (s\<lparr>tn_context_switch_request := c\<rparr>) L P = sched_ok s L P"
  "sched_ok (s\<lparr>tn_created_tasks_qty := qt\<rparr>) L P = sched_ok s L P"
  "sched_ok (s\<lparr>tn_int_counter := ic\<rparr>) L P = sched_ok s L P"
  "sched_ok (s\<lparr>tn_system_state := x\<rparr>) L P = sched_ok s L P"
  "sched_ok (s\<lparr>tn_tslice_ticks := ts\<rparr>) L P = sched_ok s L P"
  by (simp_all add: sched_ok_def ready_ok_def next_ok_def cong: option.case_cong)

lemma kernel_ok_objs [simp]:
  "id_sem (fsem (sem s i)) = id_sem (sem s i) \<Longrightarrow> kernel_ok (upd_sem i fsem s) L = kernel_ok s L"
  "id_event (fevent (event s i)) = id_event (event s i) \<Longrightarrow> kernel_ok (upd_event i fevent s) L = kernel_ok s L"
  "id_dque (fdque (dque s i)) = id_dque (dque s i) \<Longrightarrow> kernel_ok (upd_dque i fdque s) L = kernel_ok s L"
  "id_fmp (ffmp (fmp s i)) = id_fmp (fmp s i) \<Longrightarrow> kernel_ok (upd_fmp i ffmp s) L = kernel_ok s L"
  "kernel_ok (s\<lparr>mem := m\<rparr>) L = kernel_ok s L"
  "kernel_ok (s\<lparr>cpsr := w\<rparr>) L = kernel_ok s L"
  "kernel_ok (s\<lparr>tn_curr_run_task := n\<rparr>) L = kernel_ok s L"
  "kernel_ok (s\<lparr>tn_context_switch_request := c\<rparr>) L = kernel_ok s L"
  "kernel_ok (s\<lparr>tn_created_tasks_qty := qt\<rparr>) L = kernel_ok s L"
  "kernel_ok (s\<lparr>tn_int_counter := ic\<rparr>) L = kernel_ok s L"
  "kernel_ok (s\<lparr>tn_system_state := x\<rparr>) L = kernel_ok s L"
  "kernel_ok (s\<lparr>tn_tslice_ticks := ts\<rparr>) L = kernel_ok s L"
  by (simp_all add: kernel_ok_def task_fields_ok_def cong: option.case_cong)

section \<open>The running task waits\<close>

text \<open>\<open>h0\<close> is the heap when the task starts to wait: a task that the ceiling protocol blocks is in the
  list of blocked tasks already.\<close>

definition blocked_home :: "u32 \<Rightarrow> qptr" where
  "blocked_home reason = (if reason = TSK_WAIT_REASON_MUTEX_C_BLK then Some BlockedTasks else None)"

lemma block_ok_at:
  assumes ok: "kernel_ok s L" and t: "is_task s t" "task_state (tcb s t) = TSK_STATE_RUNNABLE"
      "tn_curr_run_task s = Some t"
    and q: "case wait_que of None \<Rightarrow> reason = TSK_WAIT_REASON_SLEEP
            | Some q \<Rightarrow> q \<in> heads s \<and> reason \<in> wait_reasons q"
    and sch0: "sched_ok (s\<lparr>qh := h0\<rparr>) L0 ((home s)(BlockQ t := blocked_home reason))"
  shows "\<exists>h b n. task_curr_to_wait_action wait_que reason timeout (s\<lparr>qh := h0\<rparr>) =
      Some ((upd_tcb t (wait_tcb wait_que reason timeout) s)
        \<lparr>qh := h, tn_ready_to_run_bmp := b, tn_next_task_to_run := n\<rparr>) \<and>
    kernel_ok ((upd_tcb t (wait_tcb wait_que reason timeout) s)
        \<lparr>qh := h, tn_ready_to_run_bmp := b, tn_next_task_to_run := n\<rparr>)
      (wait_lists t (priority (tcb s t)) wait_que timeout L0)"
proof -
  note rh = runnable_home [OF ok t(1,2)]
  have tf: "task_fields_ok s (tcb s t)" using kernel_task [OF ok t(1)] .
  have pw: "pwait_queue (tcb s t) = None" "task_wait_reason (tcb s t) = 0"
    using tf t(2) by (simp_all add: task_fields_ok_def)
  let ?P = "(home s)(BlockQ t := blocked_home reason, TaskQ t := wait_que,
    TimerQ t := if timeout = TN_WAIT_INFINITE then None else Some TimeoutList)"
  have wq: "q \<in> heads (s\<lparr>qh := h0\<rparr>) \<and> q \<noteq> TimeoutList \<and> (\<forall>p. q \<noteq> ReadyList p)" if "wait_que = Some q" for q
    using q that by auto
  have rh0: "tn_curr_run_task (s\<lparr>qh := h0\<rparr>) = Some t"
    "priority (tcb (s\<lparr>qh := h0\<rparr>) t) = priority (tcb s t)"
    "((home s)(BlockQ t := blocked_home reason)) (TaskQ t) = Some (ReadyList (priority (tcb s t)))"
    "((home s)(BlockQ t := blocked_home reason)) (TimerQ t) = None"
    using t(3) rh(1,4) by (simp_all del: home.simps)
  have u: "upd_tcb t f (s\<lparr>qh := h0\<rparr>)\<lparr>qh := h\<rparr> = upd_tcb t f s\<lparr>qh := h\<rparr>" for f h by simp
  obtain h b n where run: "task_curr_to_wait_action wait_que reason timeout (s\<lparr>qh := h0\<rparr>) =
      Some ((upd_tcb t (wait_tcb wait_que reason timeout) s)
        \<lparr>qh := h, tn_ready_to_run_bmp := b, tn_next_task_to_run := n\<rparr>)"
    and sch: "sched_ok ((upd_tcb t (wait_tcb wait_que reason timeout) s)
        \<lparr>qh := h, tn_ready_to_run_bmp := b, tn_next_task_to_run := n\<rparr>)
      (wait_lists t (priority (tcb s t)) wait_que timeout L0) ?P"
    using task_curr_to_wait_action_ok [OF sch0 rh0(1,2) rh(2,3) rh0(3,4) wq, unfolded u] by blast
  let ?s = "(upd_tcb t (wait_tcb wait_que reason timeout) s)
        \<lparr>qh := h, tn_ready_to_run_bmp := b, tn_next_task_to_run := n\<rparr>"
  have "home ?s = ?P"
    using t(1) pw
    by (auto simp: home_upd_tcb wait_tcb_def task_home_def timer_home_def block_home_def blocked_home_def
        fun_upd_idem fun_eq_iff split: option.splits)
  moreover have hd: "heads ?s = heads s" by (simp add: wait_tcb_def)
  moreover have "task_fields_ok s (wait_tcb wait_que reason timeout (tcb s t))"
    using tf q pw by (auto simp: task_fields_ok_def wait_tcb_def split: option.splits)
  ultimately have "kernel_ok ?s (wait_lists t (priority (tcb s t)) wait_que timeout L0)"
    using sch ok by (auto simp: kernel_ok_def task_fields_cong [OF hd] wait_tcb_def)
  with run show ?thesis by blast
qed

text \<open>Every other wait starts with the lists as they are.\<close>

lemma unblocked_home:
  assumes ok: "kernel_ok s L" and t: "is_task s t" "task_state (tcb s t) = TSK_STATE_RUNNABLE"
    and nb: "reason \<noteq> TSK_WAIT_REASON_MUTEX_C_BLK"
  shows "(home s)(BlockQ t := blocked_home reason) = home s"
  using kernel_task [OF ok t(1)] t nb
  by (auto simp: fun_eq_iff blocked_home_def block_home_def task_fields_ok_def)

section \<open>A waiting task is woken up\<close>

text \<open>The wait of a task is completed, after its queue field was taken off the wait queue.\<close>

lemma complete_ok:
  assumes ok: "kernel_ok s L" and t: "is_task s t"
    and w: "task_state (tcb s t) = TSK_STATE_WAIT \<or> task_state (tcb s t) = TSK_STATE_WAITSUSP"
    and nm: "\<not> waits_for_mutex (tcb s t)"
    and pl: "placed h1 (heads s) L1 ((home s)(TaskQ t := None))"
    and L1: "\<And>p. 0 \<le> p \<Longrightarrow> p < TN_NUM_PRIORITY \<Longrightarrow> L1 (ReadyList p) = L (ReadyList p)"
  shows "\<exists>h b n. task_wait_complete (Some t) (s\<lparr>qh := h1\<rparr>) =
      Some (task_state (tcb s t) = TSK_STATE_WAIT,
        (upd_tcb t complete_tcb s)\<lparr>qh := h, tn_ready_to_run_bmp := b, tn_next_task_to_run := n\<rparr>) \<and>
    kernel_ok ((upd_tcb t complete_tcb s)\<lparr>qh := h, tn_ready_to_run_bmp := b, tn_next_task_to_run := n\<rparr>)
      (complete_lists t (tcb s t) L1)"
proof -
  let ?P = "(home s)(TaskQ t := None)"
  let ?s = "s\<lparr>qh := h1\<rparr>"
  have sch: "sched_ok ?s L1 ?P" by (rule sched_other [OF kernel_sched [OF ok] pl L1])
  have tf: "task_fields_ok s (tcb s t)" using kernel_task [OF ok t] .
  have susp: "has_bits (task_state (tcb s t)) TSK_STATE_SUSPEND \<longleftrightarrow> task_state (tcb s t) \<noteq> TSK_STATE_WAIT"
    using w by (auto simp: has_bits_def)
  have e: "0 \<le> priority (tcb ?s t)" "priority (tcb ?s t) < TN_NUM_PRIORITY" "?P (TaskQ t) = None"
    "?P (TimerQ t) = timer_home (tcb ?s t)" "\<not> waits_for_mutex (tcb ?s t)"
    using tf nm t by (simp_all add: task_fields_ok_def)
  have eq: "upd_tcb t complete_tcb ?s\<lparr>qh := h\<rparr> = upd_tcb t complete_tcb s\<lparr>qh := h\<rparr>"
    "tcb ?s t = tcb s t" for h by simp_all
  obtain h b n where run: "task_wait_complete (Some t) ?s =
      Some (task_state (tcb s t) = TSK_STATE_WAIT,
        (upd_tcb t complete_tcb s)\<lparr>qh := h, tn_ready_to_run_bmp := b, tn_next_task_to_run := n\<rparr>)"
    and sch': "sched_ok ((upd_tcb t complete_tcb s)\<lparr>qh := h, tn_ready_to_run_bmp := b, tn_next_task_to_run := n\<rparr>)
      (complete_lists t (tcb s t) L1)
      (?P(TimerQ t := None, TaskQ t := if task_state (tcb s t) \<noteq> TSK_STATE_WAIT then None
            else Some (ReadyList (priority (tcb s t)))))"
    using task_wait_complete_ok [OF sch e, unfolded eq susp not_not] by blast
  let ?s' = "(upd_tcb t complete_tcb s)\<lparr>qh := h, tn_ready_to_run_bmp := b, tn_next_task_to_run := n\<rparr>"
  have "home ?s' = ?P(TimerQ t := None, TaskQ t := if task_state (tcb s t) \<noteq> TSK_STATE_WAIT then None
            else Some (ReadyList (priority (tcb s t))))"
    using t nm susp
    by (auto simp: home_upd_tcb complete_tcb_def task_home_def timer_home_def block_home_def
        waits_for_mutex_def fun_eq_iff)
  moreover have hd: "heads ?s' = heads s" by (simp add: complete_tcb_def)
  moreover have "task_fields_ok s (complete_tcb (tcb s t))"
    using tf by (auto simp: task_fields_ok_def complete_tcb_def)
  ultimately have "kernel_ok ?s' (complete_lists t (tcb s t) L1)"
    using sch' ok by (auto simp: kernel_ok_def task_fields_cong [OF hd] complete_tcb_def)
  with run show ?thesis by blast
qed

section \<open>Switching the context\<close>

lemma next_ok_runnable:
  assumes ok: "kernel_ok s L" and n: "tn_next_task_to_run s = Some t"
  shows "is_task s t" and "task_state (tcb s t) = TSK_STATE_RUNNABLE"
    and "\<And>u. is_task s u \<Longrightarrow> task_state (tcb s u) = TSK_STATE_RUNNABLE \<Longrightarrow>
           priority (tcb s t) \<le> priority (tcb s u)"
proof -
  have p: "0 \<le> priority (tcb s t)" "priority (tcb s t) < TN_NUM_PRIORITY"
    "home s (TaskQ t) = Some (ReadyList (priority (tcb s t)))"
    and low: "\<And>p. 0 \<le> p \<Longrightarrow> p < priority (tcb s t) \<Longrightarrow> L (ReadyList p) = []"
    using kernel_sched [OF ok] n by (auto simp: sched_ok_def next_ok_def)
  show t: "is_task s t" using p(3) by (simp split: if_splits)
  show "task_state (tcb s t) = TSK_STATE_RUNNABLE"
  proof (rule ccontr)
    assume "task_state (tcb s t) \<noteq> TSK_STATE_RUNNABLE"
    then have "pwait_queue (tcb s t) = Some (ReadyList (priority (tcb s t)))"
      using p(3) t by (simp add: task_home_def)
    then show False using kernel_task [OF ok t] by (auto simp: task_fields_ok_def split: if_splits)
  qed
  fix u assume u: "is_task s u" "task_state (tcb s u) = TSK_STATE_RUNNABLE"
  have "L (ReadyList (priority (tcb s u))) \<noteq> []"
    using kernel_entry [OF ok, of "ReadyList (priority (tcb s u))" "TaskQ u"] runnable_home [OF ok u] by auto
  then show "priority (tcb s t) \<le> priority (tcb s u)"
    using low [of "priority (tcb s u)"] runnable_home [OF ok u] by fastforce
qed

lemma next_ok_None:
  assumes ok: "kernel_ok s L" and n: "tn_next_task_to_run s = None" and u: "is_task s u"
  shows "task_state (tcb s u) \<noteq> TSK_STATE_RUNNABLE"
proof
  assume r: "task_state (tcb s u) = TSK_STATE_RUNNABLE"
  have "L (ReadyList (priority (tcb s u))) \<noteq> []"
    using kernel_entry [OF ok, of "ReadyList (priority (tcb s u))" "TaskQ u"] runnable_home [OF ok u r] by auto
  then show False
    using kernel_sched [OF ok] n runnable_home [OF ok u r] by (auto simp: sched_ok_def next_ok_def)
qed

lemma switch_ok:
  assumes ok: "kernel_ok s L" and n: "tn_next_task_to_run s = Some t"
  shows "\<exists>s'. tn_switch_context s = Some s' \<and> s' = s\<lparr>tn_curr_run_task := Some t, cpsr := cpsr s AND NOT 0xC0\<rparr> \<and>
    kernel_ok s' L \<and> curr_ok s'"
  using next_ok_runnable(1,2) [OF ok n] ok n by (simp add: tn_switch_context_def curr_ok_def)

end
