(* ===== verification/TN_Call.thy ===== *)
theory TN_Call
  imports TN_Kinv
begin

text \<open>
  What the service calls of the kernel have in common. A call checks its parameters and its
  context, disables the interrupts (\<open>tn_disable_interrupt\<close>), works on the lists, and leaves in one
  of two ways: \<open>leave\<close> restores the interrupts and returns, \<open>leave_switch\<close> restores them and calls
  \<open>tn_switch_context\<close>. A call from an interrupt handler asks for the switch instead of making
  it (\<open>tn_context_switch_request = TRUE\<close>).

  The locale \<open>wait_object\<close> is the interface between the scheduler and a kernel object that has
  a wait queue: the object names its queue and its wait reason, and gets the lemmas on going to
  wait and waking up. The theories of the objects interpret it.
\<close>

section \<open>Entering and leaving a call\<close>

definition leave :: "u32 \<Rightarrow> int \<Rightarrow> kernel \<Rightarrow> (outcome \<times> kernel) option" where
  "leave sr rc s = Some (ret rc, tn_cpu_restore_sr sr s)"

definition leave_switch :: "u32 \<Rightarrow> cont \<Rightarrow> kernel \<Rightarrow> (outcome \<times> kernel) option" where
  "leave_switch sr c s =
     do {
       let s = tn_cpu_restore_sr sr s;
       s \<leftarrow> tn_switch_context s;
       Some (Switch c, s)
     }"

text \<open>\<open>que = queue_remove_head(&obj->wait_queue); task = get_task_by_tsk_queue(que);\<close>\<close>

definition dequeue_task :: "qaddr \<Rightarrow> kernel \<Rightarrow> (tptr \<times> kernel) option" where
  "dequeue_task q s =
     do {
       (que, h) \<leftarrow> queue_remove_head (Some q) (qh s);
       task \<leftarrow> get_task_by_tsk_queue que;
       Some (task, s\<lparr>qh := h\<rparr>)
     }"

text \<open>\<open>if(tn_chk_irq_disabled() == 0) tn_disable_interrupt();\<close>, as the delete calls have it.\<close>

definition disable_if_enabled :: "u32 \<Rightarrow> kernel \<Rightarrow> u32 \<times> kernel" where
  "disable_if_enabled sr s = (if tn_chk_irq_disabled s = 0 then tn_cpu_save_sr s else (sr, s))"

definition request_switch :: "kernel \<Rightarrow> kernel" where
  "request_switch s = s\<lparr>tn_context_switch_request := 1\<rparr>"

text \<open>A call enters with interrupts as the caller has them and leaves with the same status: the
  status register read by \<open>tn_cpu_save_sr\<close> is put back by \<open>tn_cpu_restore_sr\<close>.\<close>

lemma mask_roundtrip:
  assumes "k AND m = k"
  shows "((c OR k) AND NOT m) OR (c AND m) = (c :: u32)"
proof (rule bit_word_eqI)
  fix n assume "n < LENGTH(32)"
  moreover have "bit k n \<Longrightarrow> bit m n" using assms by (metis bit_and_iff)
  ultimately show "bit (((c OR k) AND NOT m) OR (c AND m)) n = bit c n"
    by (auto simp: bit_and_iff bit_or_iff bit_not_iff)
qed

lemma restore_sr_eq: "cpsr s = c OR 0xC0 \<Longrightarrow> tn_cpu_restore_sr c s = s\<lparr>cpsr := c\<rparr>"
  using mask_roundtrip [of "0xC0" "0xFF" c] by (simp add: tn_cpu_restore_sr_def)

lemma save_sr_eq: "tn_cpu_save_sr s = (cpsr s, s\<lparr>cpsr := cpsr s OR 0xC0\<rparr>)"
  by (simp add: tn_cpu_save_sr_def)

lemma leave_eq: "cpsr s = c OR 0xC0 \<Longrightarrow> leave c rc s = Some (ret rc, s\<lparr>cpsr := c\<rparr>)"
  by (simp add: leave_def restore_sr_eq)

text \<open>Some task other than the running one is ready. The idle task guarantees it.\<close>

definition other_ready :: "kernel \<Rightarrow> bool" where
  "other_ready s \<longleftrightarrow> (\<exists>u. is_task s u \<and> tn_curr_run_task s \<noteq> Some u \<and>
                           task_state (tcb s u) = TSK_STATE_RUNNABLE)"

lemma leave_switch_ok:
  assumes ok: "kernel_ok s L" and u: "is_task s u" "task_state (tcb s u) = TSK_STATE_RUNNABLE"
    and c: "cpsr s = c OR 0xC0"
  shows "\<exists>n. tn_next_task_to_run s = Some n \<and>
    leave_switch c k s = Some (Switch k, s\<lparr>tn_curr_run_task := Some n, cpsr := c AND NOT 0xC0\<rparr>) \<and>
    kernel_ok (s\<lparr>tn_curr_run_task := Some n, cpsr := c AND NOT 0xC0\<rparr>) L \<and>
    curr_ok (s\<lparr>tn_curr_run_task := Some n, cpsr := c AND NOT 0xC0\<rparr>)"
proof -
  obtain n where n: "tn_next_task_to_run s = Some n"
    using next_ok_None [OF ok _ u(1)] u(2) by (cases "tn_next_task_to_run s") auto
  then show ?thesis
    using next_ok_runnable(1,2) [OF ok n] ok
    by (simp add: leave_switch_def restore_sr_eq [OF c] tn_switch_context_def curr_ok_def)
qed

section \<open>Deleting an object that has waiting tasks\<close>

text \<open>The loop the delete calls share: \<open>while(!is_queue_empty(&obj->wait_queue)) { ... }\<close>, then
  the code \<open>fin\<close> after it. The switch in the loop gives the processor to the task that was woken
  up; \<open>k\<close> is the continuation that goes on with the loop.\<close>

partial_function (option) delete_waiters ::
    "qaddr \<Rightarrow> (u32 \<Rightarrow> cont) \<Rightarrow> (u32 \<Rightarrow> kernel \<Rightarrow> (outcome \<times> kernel) option) \<Rightarrow> u32 \<Rightarrow> kernel \<Rightarrow>
     (outcome \<times> kernel) option" where
  "delete_waiters q k fin sr s =
     (if \<not> is_queue_empty q (qh s) then
        case disable_if_enabled sr s of (sr, s) \<Rightarrow>
        do {
          (task, s) \<leftarrow> dequeue_task q s;
          (sw, s) \<leftarrow> task_wait_complete task s;
          (if sw then
             do {
               t \<leftarrow> task;
               leave_switch sr (k sr) (upd_tcb t (\<lambda>x. x\<lparr>task_wait_rc := TERR_DLT\<rparr>) s)
             }
           else delete_waiters q k fin sr s)
        }
      else fin sr s)"

section \<open>Lists after a wait or a wake-up\<close>

definition wait_head :: "qaddr \<Rightarrow> bool" where
  "wait_head q \<longleftrightarrow> wait_reasons q \<noteq> {}"

lemma wait_head_simps [simp]:
  "wait_head (SemWaitQ i)" "wait_head (EventWaitQ i)" "wait_head (DqueSendQ i)"
  "wait_head (DqueRecvQ i)" "wait_head (FmpWaitQ i)" "wait_head (MutexWaitQ i)"
  by (simp_all add: wait_head_def)

lemma complete_lists_wait [simp]: "wait_head q \<Longrightarrow> complete_lists t x L q = L q"
  by (auto simp: complete_lists_def Let_def wait_head_def)

lemma wait_lists_wait [simp]: "wait_head q \<Longrightarrow> wait_lists t p (Some q') timeout L q =
    (if q = q' then L q @ [TaskQ t] else L q)"
  by (auto simp: wait_lists_def Let_def wait_head_def)

lemma wait_lists_sleep [simp]: "wait_head q \<Longrightarrow> wait_lists t p None timeout L q = L q"
  by (auto simp: wait_lists_def Let_def wait_head_def)

section \<open>Objects that come and go\<close>

lemma home_wait_head:
  assumes ok: "kernel_ok s L" and q: "q \<notin> heads s" "wait_head q"
  shows "home s e \<noteq> Some q"
proof
  assume h: "home s e = Some q"
  show False
  proof (cases e)
    case (TaskQ t)
    then have t: "is_task s t" "task_home (tcb s t) = Some q" using h by (simp_all split: if_splits)
    then show False
      using kernel_task [OF ok t(1)] q
      by (auto simp: task_home_def task_fields_ok_def wait_head_def split: if_splits)
  qed (use h q in \<open>auto simp: timer_home_def block_home_def mutex_home_def lock_home_def wait_head_def
         split: if_splits\<close>)
qed

text \<open>A new object: its wait queue becomes the head of an empty list.\<close>

lemma kernel_new_head:
  assumes ok: "kernel_ok s L" and q: "q \<notin> heads s" "wait_head q"
    and hd: "heads s' = insert q (heads s)" and qh': "qh s' = queue_reset q (qh s)"
    and same: "tcb s' = tcb s" "home s' = home s"
      "tn_ready_to_run_bmp s' = tn_ready_to_run_bmp s" "tn_next_task_to_run s' = tn_next_task_to_run s"
    and mut: "\<And>m t. id_mutex (mutex s' m) = TN_ID_MUTEX \<Longrightarrow>
        m_attr (mutex s' m) \<in> {TN_MUTEX_ATTR_CEILING, TN_MUTEX_ATTR_INHERIT} \<and>
        (holder (mutex s' m) = Some t \<longrightarrow> is_task s t)"
  shows "kernel_ok s' (L(q := []))"
proof -
  have nr: "ReadyList p \<noteq> q" for p using q(2) by (auto simp: wait_head_def)
  have "home s q = None" using q(2) by (cases q) (auto simp: wait_head_def)
  then have pl: "placed (queue_reset q (qh s)) (insert q (heads s)) (L(q := [])) (home s)"
    using home_wait_head [OF ok q] by (intro placed_reset_new kernel_placed [OF ok] q(1))
  have "sched_ok s' (L(q := [])) (home s')"
    using kernel_sched [OF ok] pl nr
    by (simp add: sched_ok_def ready_ok_def next_ok_def hd qh' same del: home.simps cong: option.case_cong)
  moreover have "task_fields_ok s' x" if "task_fields_ok s x" for x
    using that hd by (auto simp: task_fields_ok_def split: option.splits if_splits)
  moreover have "is_task s' = is_task s" by (simp add: fun_eq_iff is_task_def same)
  ultimately show ?thesis
    using ok mut by (auto simp: kernel_ok_def same)
qed

text \<open>An object without waiting tasks goes.\<close>

lemma kernel_drop_head:
  assumes ok: "kernel_ok s L" and q: "q \<in> heads s" "wait_head q" "L q = []"
    and hd: "heads s' = heads s - {q}" and qh': "qh s' = qh s"
    and same: "tcb s' = tcb s" "home s' = home s"
      "tn_ready_to_run_bmp s' = tn_ready_to_run_bmp s" "tn_next_task_to_run s' = tn_next_task_to_run s"
    and mut: "\<And>m. id_mutex (mutex s' m) = TN_ID_MUTEX \<Longrightarrow> mutex s' m = mutex s m"
  shows "kernel_ok s' L"
proof -
  have it: "is_task s' = is_task s" by (simp add: fun_eq_iff is_task_def same)
  have nr: "q \<noteq> ReadyList p" for p using q(2) by (auto simp: wait_head_def)
  have pl: "placed (qh s) (heads s') L (home s)"
    by (rule placed_drop_head [OF kernel_placed [OF ok]]) (simp add: hd)
  have "sched_ok s' L (home s')"
    using kernel_sched [OF ok] pl
    by (simp add: sched_ok_def ready_ok_def next_ok_def hd qh' same cong: option.case_cong)
  moreover have "task_fields_ok s' (tcb s t)" if t: "is_task s t" for t
  proof -
    have "pwait_queue (tcb s t) \<noteq> Some q \<or> task_state (tcb s t) = TSK_STATE_RUNNABLE"
      using kernel_entry [OF ok q(1), of "TaskQ t"] q(3) t by (auto simp: task_home_def split: if_splits)
    then show ?thesis
      using kernel_task [OF ok t]
      by (cases "task_state (tcb s t) = TSK_STATE_RUNNABLE"; cases "pwait_queue (tcb s t)";
          simp add: task_fields_ok_def hd split: if_split_asm; blast)
  qed
  moreover have "m_attr (mutex s' m) \<in> {TN_MUTEX_ATTR_CEILING, TN_MUTEX_ATTR_INHERIT} \<and>
      (\<forall>t. holder (mutex s' m) = Some t \<longrightarrow> is_task s t)" if "id_mutex (mutex s' m) = TN_ID_MUTEX" for m
  proof -
    have e: "mutex s' m = mutex s m" by (rule mut [OF that])
    show ?thesis using that unfolding e by (rule kernel_mutex [OF ok])
  qed
  ultimately show ?thesis
    by (simp add: kernel_ok_def it same)
qed

section \<open>The interface of an object with a wait queue\<close>

text \<open>The kernel objects and the settings of the system, which the scheduler does not touch.\<close>

definition same_objects :: "kernel \<Rightarrow> kernel \<Rightarrow> bool" where
  "same_objects s s' \<longleftrightarrow>
     sem s' = sem s \<and> event s' = event s \<and> dque s' = dque s \<and> fmp s' = fmp s \<and> mutex s' = mutex s \<and>
     mem s' = mem s \<and> tn_int_counter s' = tn_int_counter s \<and> tn_system_state s' = tn_system_state s \<and>
     tn_enable_switch_context s' = tn_enable_switch_context s \<and>
     tn_created_tasks_qty s' = tn_created_tasks_qty s \<and> tn_tslice_ticks s' = tn_tslice_ticks s \<and>
     tn_context_switch_request s' = tn_context_switch_request s \<and>
     addr_tn_task_exit s' = addr_tn_task_exit s"

text \<open>The heads that are not part of the scheduler itself.\<close>

definition plain_head :: "qaddr \<Rightarrow> bool" where
  "plain_head q \<longleftrightarrow> q \<noteq> TimeoutList \<and> (\<forall>p. q \<noteq> ReadyList p)"

lemma plain_head_simps [simp]:
  "plain_head (TaskMutexQ t)" "plain_head LockedMutexes" "plain_head BlockedTasks" "plain_head CreateQueue"
  "wait_head q \<Longrightarrow> plain_head q"
  by (auto simp: plain_head_def wait_head_def)

lemma plain_lists [simp]:
  "plain_head q \<Longrightarrow> complete_lists t x L q = L q"
  "plain_head q \<Longrightarrow> wait_lists t p w timeout L q = (if w = Some q then L q @ [TaskQ t] else L q)"
  by (auto simp: complete_lists_def wait_lists_def Let_def plain_head_def split: option.split)

text \<open>The running task goes to the tail of a queue, or to sleep, and the next task runs.\<close>

lemma block_switch_at:
  assumes ok: "kernel_ok s L" and c: "curr_ok s" and o: "other_ready s"
    and q: "case wait_que of None \<Rightarrow> reason = TSK_WAIT_REASON_SLEEP
            | Some q \<Rightarrow> q \<in> heads s \<and> reason \<in> wait_reasons q"
    and sch: "sched_ok (s\<lparr>qh := h0\<rparr>) L0 ((home s)(BlockQ t := blocked_home reason))"
    and sr: "cpsr s = sr OR 0xC0" and t: "tn_curr_run_task s = Some t"
  shows "\<exists>s1 s' L'. task_curr_to_wait_action wait_que reason timeout (s\<lparr>qh := h0\<rparr>) = Some s1 \<and>
    leave_switch sr k s1 = Some (Switch k, s') \<and> kernel_ok s' L' \<and> curr_ok s' \<and>
    tcb s' = (tcb s)(t := wait_tcb wait_que reason timeout (tcb s t)) \<and> same_objects s s' \<and>
    tn_curr_run_task s' \<noteq> Some t \<and> cpsr s' = sr AND NOT 0xC0 \<and>
    (\<forall>q. plain_head q \<longrightarrow> L' q = (if wait_que = Some q then L0 q @ [TaskQ t] else L0 q))"
proof -
  have it: "is_task s t" "task_state (tcb s t) = TSK_STATE_RUNNABLE" using c t by (simp_all add: curr_ok_def)
  obtain h b n where run: "task_curr_to_wait_action wait_que reason timeout (s\<lparr>qh := h0\<rparr>) =
      Some ((upd_tcb t (wait_tcb wait_que reason timeout) s)
        \<lparr>qh := h, tn_ready_to_run_bmp := b, tn_next_task_to_run := n\<rparr>)"
    and ok': "kernel_ok ((upd_tcb t (wait_tcb wait_que reason timeout) s)
        \<lparr>qh := h, tn_ready_to_run_bmp := b, tn_next_task_to_run := n\<rparr>)
      (wait_lists t (priority (tcb s t)) wait_que timeout L0)"
    using block_ok_at [OF ok it t q sch, where timeout = timeout] by blast
  let ?s = "(upd_tcb t (wait_tcb wait_que reason timeout) s)
        \<lparr>qh := h, tn_ready_to_run_bmp := b, tn_next_task_to_run := n\<rparr>"
  obtain u where u: "is_task s u" "u \<noteq> t" "task_state (tcb s u) = TSK_STATE_RUNNABLE"
    using o t by (auto simp: other_ready_def)
  then have u': "is_task ?s u" "task_state (tcb ?s u) = TSK_STATE_RUNNABLE"
    by (simp_all add: wait_tcb_def)
  have sr': "cpsr ?s = sr OR 0xC0" using sr by simp
  obtain m where m: "leave_switch sr k ?s = Some (Switch k, ?s\<lparr>tn_curr_run_task := Some m, cpsr := sr AND NOT 0xC0\<rparr>)"
    "kernel_ok (?s\<lparr>tn_curr_run_task := Some m, cpsr := sr AND NOT 0xC0\<rparr>)
      (wait_lists t (priority (tcb s t)) wait_que timeout L0)"
    "curr_ok (?s\<lparr>tn_curr_run_task := Some m, cpsr := sr AND NOT 0xC0\<rparr>)"
    using leave_switch_ok [OF ok' u' sr', of k] by blast
  have "m \<noteq> t" using m(3) by (auto simp: curr_ok_def wait_tcb_def)
  moreover have "tcb (?s\<lparr>tn_curr_run_task := Some m, cpsr := sr AND NOT 0xC0\<rparr>) =
      (tcb s)(t := wait_tcb wait_que reason timeout (tcb s t))"
    by (simp add: fun_eq_iff)
  moreover have "same_objects s (?s\<lparr>tn_curr_run_task := Some m, cpsr := sr AND NOT 0xC0\<rparr>)"
    by (simp add: same_objects_def fun_eq_iff)
  ultimately show ?thesis
    using run m
    by (intro exI [of _ ?s] exI [of _ "?s\<lparr>tn_curr_run_task := Some m, cpsr := sr AND NOT 0xC0\<rparr>"]
        exI [of _ "wait_lists t (priority (tcb s t)) wait_que timeout L0"]) simp
qed

lemma block_switch:
  assumes ok: "kernel_ok s L" and c: "curr_ok s" and o: "other_ready s"
    and q: "case wait_que of None \<Rightarrow> reason = TSK_WAIT_REASON_SLEEP
            | Some q \<Rightarrow> q \<in> heads s \<and> reason \<in> wait_reasons q"
    and nb: "reason \<noteq> TSK_WAIT_REASON_MUTEX_C_BLK"
    and sr: "cpsr s = sr OR 0xC0" and t: "tn_curr_run_task s = Some t"
  shows "\<exists>s1 s' L'. task_curr_to_wait_action wait_que reason timeout s = Some s1 \<and>
    leave_switch sr k s1 = Some (Switch k, s') \<and> kernel_ok s' L' \<and> curr_ok s' \<and>
    tcb s' = (tcb s)(t := wait_tcb wait_que reason timeout (tcb s t)) \<and> same_objects s s' \<and>
    tn_curr_run_task s' \<noteq> Some t \<and> cpsr s' = sr AND NOT 0xC0 \<and>
    (\<forall>q. plain_head q \<longrightarrow> L' q = (if wait_que = Some q then L q @ [TaskQ t] else L q))"
proof -
  have it: "is_task s t" "task_state (tcb s t) = TSK_STATE_RUNNABLE" using c t by (simp_all add: curr_ok_def)
  have sch: "sched_ok (s\<lparr>qh := qh s\<rparr>) L ((home s)(BlockQ t := blocked_home reason))"
    using kernel_sched [OF ok] unblocked_home [OF ok it nb] by simp
  show ?thesis using block_switch_at [OF ok c o q sch sr t, of timeout k] unfolding qh_same [OF refl] .
qed

locale wait_object =
  fixes wq :: "oid \<Rightarrow> qaddr" and reason :: u32 and live :: "kernel \<Rightarrow> oid \<Rightarrow> bool"
  assumes live_head: "live s i \<Longrightarrow> wq i \<in> heads s"
    and reason_wq: "wait_reasons (wq i) = {reason}"
    and not_mutex: "wq i \<noteq> MutexWaitQ m"
    and not_blocked: "reason \<noteq> TSK_WAIT_REASON_MUTEX_C_BLK"
    and live_objects: "same_objects s s' \<Longrightarrow> live s' i = live s i"
begin

lemma wait_head_wq: "wait_head (wq i)"
  by (simp add: wait_head_def reason_wq)

text \<open>The running task goes to the tail of the queue and the next task runs.\<close>

lemma wait_switch:
  assumes ok: "kernel_ok s L" and c: "curr_ok s" and o: "other_ready s" and l: "live s i"
    and sr: "cpsr s = sr OR 0xC0" and t: "tn_curr_run_task s = Some t"
  shows "\<exists>s1 s' L'. task_curr_to_wait_action (Some (wq i)) reason timeout s = Some s1 \<and>
    leave_switch sr k s1 = Some (Switch k, s') \<and> kernel_ok s' L' \<and> curr_ok s' \<and>
    tcb s' = (tcb s)(t := wait_tcb (Some (wq i)) reason timeout (tcb s t)) \<and> same_objects s s' \<and>
    tn_curr_run_task s' \<noteq> Some t \<and> cpsr s' = sr AND NOT 0xC0 \<and>
    (\<forall>q. wait_head q \<longrightarrow> L' q = (if q = wq i then L q @ [TaskQ t] else L q))"
proof -
  have q: "case Some (wq i) of None \<Rightarrow> reason = TSK_WAIT_REASON_SLEEP
            | Some q \<Rightarrow> q \<in> heads s \<and> reason \<in> wait_reasons q"
    using live_head [OF l] reason_wq [of i] by simp
  from block_switch [OF ok c o q not_blocked sr t, of timeout k] obtain s1 s' L' where
    "task_curr_to_wait_action (Some (wq i)) reason timeout s = Some s1"
    "leave_switch sr k s1 = Some (Switch k, s')" "kernel_ok s' L'" "curr_ok s'"
    "tcb s' = (tcb s)(t := wait_tcb (Some (wq i)) reason timeout (tcb s t))" "same_objects s s'"
    "tn_curr_run_task s' \<noteq> Some t" "cpsr s' = sr AND NOT 0xC0"
    "\<forall>q. plain_head q \<longrightarrow> L' q = (if Some (wq i) = Some q then L q @ [TaskQ t] else L q)" by blast
  then show ?thesis
    by (intro exI [of _ s1] exI [of _ s'] exI [of _ L']) auto
qed

text \<open>A task of the queue is released, after its queue field was taken off. The call may store
  something in its control block first (a message, a block, the event pattern).\<close>

lemma complete_with:
  assumes ok: "kernel_ok s L" and l: "live s i" and e: "TaskQ t \<in> set (L (wq i))"
    and pl: "placed h1 (heads s) (L(wq i := remove1 (TaskQ t) (L (wq i)))) ((home s)(TaskQ t := None))"
    and f: "same_sched_fields (f (tcb s t)) (tcb s t)"
  shows "\<exists>s' L'. task_wait_complete (Some t) (upd_tcb t f (s\<lparr>qh := h1\<rparr>)) =
      Some (task_state (tcb s t) = TSK_STATE_WAIT, s') \<and> is_task s t \<and>
    (task_state (tcb s t) = TSK_STATE_WAIT \<or> task_state (tcb s t) = TSK_STATE_WAITSUSP) \<and>
    pwait_queue (tcb s t) = Some (wq i) \<and> task_wait_reason (tcb s t) = reason \<and>
    kernel_ok s' L' \<and> tcb s' = (tcb s)(t := complete_tcb (f (tcb s t))) \<and> same_objects s s' \<and>
    tn_curr_run_task s' = tn_curr_run_task s \<and> cpsr s' = cpsr s \<and>
    (task_state (tcb s t) = TSK_STATE_WAIT \<longrightarrow> is_task s' t \<and> task_state (tcb s' t) = TSK_STATE_RUNNABLE) \<and>
    (\<forall>q. wait_head q \<longrightarrow> L' q = (if q = wq i then remove1 (TaskQ t) (L q) else L q))"
proof -
  let ?s = "upd_tcb t f s"
  have tcb: "tcb ?s t = f (tcb s t)" "id_task (f (tcb s t)) = id_task (tcb s t)"
    "task_state (f (tcb s t)) = task_state (tcb s t)" "priority (f (tcb s t)) = priority (tcb s t)"
    "task_wait_reason (f (tcb s t)) = task_wait_reason (tcb s t)"
    using f by (simp_all add: same_sched_fields_def)
  have wr: "wait_reasons (wq i) \<noteq> {}" using reason_wq by simp
  have t: "is_task s t" "pwait_queue (tcb s t) = Some (wq i)" "task_wait_reason (tcb s t) = reason"
    "task_state (tcb s t) = TSK_STATE_WAIT \<or> task_state (tcb s t) = TSK_STATE_WAITSUSP"
    using wait_queue_entry [OF ok live_head [OF l] wr e] reason_wq [of i] by auto
  have nm: "\<not> waits_for_mutex (tcb ?s t)"
  proof -
    have "reason \<in> wait_reasons (wq i)" by (simp add: reason_wq)
    then show ?thesis
      using not_mutex [of i] t(3) tcb by (cases "wq i") (auto simp: waits_for_mutex_def)
  qed
  have pl': "placed h1 (heads ?s) (L(wq i := remove1 (TaskQ t) (L (wq i)))) ((home ?s)(TaskQ t := None))"
    using pl tcb(2) home_upd_tcb_same [where f = f and t = t, OF f] by simp
  have rl: "(L(wq i := remove1 (TaskQ t) (L (wq i)))) (ReadyList p) = L (ReadyList p)" for p
  proof -
    have "wq i \<noteq> ReadyList p" proof assume "wq i = ReadyList p" with wr show False by simp qed
    then show ?thesis by simp
  qed
  have w: "task_state (tcb ?s t) = TSK_STATE_WAIT \<or> task_state (tcb ?s t) = TSK_STATE_WAITSUSP" and it: "is_task ?s t"
    using t tcb by simp_all
  from complete_ok [OF kernel_upd_tcb [where f = f and t = t, OF ok f] it w nm pl' rl]
  obtain h b n where run: "task_wait_complete (Some t) (?s\<lparr>qh := h1\<rparr>) =
      Some (task_state (tcb ?s t) = TSK_STATE_WAIT,
        (upd_tcb t complete_tcb ?s)\<lparr>qh := h, tn_ready_to_run_bmp := b, tn_next_task_to_run := n\<rparr>)"
    and ok': "kernel_ok ((upd_tcb t complete_tcb ?s)\<lparr>qh := h, tn_ready_to_run_bmp := b, tn_next_task_to_run := n\<rparr>)
      (complete_lists t (tcb ?s t) (L(wq i := remove1 (TaskQ t) (L (wq i)))))" by blast
  let ?s' = "(upd_tcb t complete_tcb ?s)\<lparr>qh := h, tn_ready_to_run_bmp := b, tn_next_task_to_run := n\<rparr>"
  have "has_bits (task_state (tcb s t)) TSK_STATE_SUSPEND \<longleftrightarrow> task_state (tcb s t) \<noteq> TSK_STATE_WAIT"
    using t(4) by auto
  then have "task_state (tcb s t) = TSK_STATE_WAIT \<longrightarrow> is_task ?s' t \<and> task_state (tcb ?s' t) = TSK_STATE_RUNNABLE"
    using t(1) tcb by (simp add: complete_tcb_def is_task_def)
  moreover have "same_objects s ?s'" by (simp add: same_objects_def fun_eq_iff)
  moreover have "tcb ?s' = (tcb s)(t := complete_tcb (f (tcb s t)))" by (simp add: fun_eq_iff)
  moreover have "complete_lists t (tcb ?s t) (L(wq i := remove1 (TaskQ t) (L (wq i)))) q =
      (if q = wq i then remove1 (TaskQ t) (L q) else L q)" if "wait_head q" for q
    using that by simp
  ultimately show ?thesis
    using run ok' t tcb
    by (intro exI [of _ ?s'] exI [of _ "complete_lists t (tcb ?s t) (L(wq i := remove1 (TaskQ t) (L (wq i))))"]) simp
qed

lemma release_entry:
  assumes ok: "kernel_ok s L" and l: "live s i" and e: "TaskQ t \<in> set (L (wq i))"
    and f: "same_sched_fields (f (tcb s t)) (tcb s t)"
  shows "\<exists>h1 s' L'. queue_remove_entry (TaskQ t) (qh s) = Some h1 \<and>
    task_wait_complete (Some t) (upd_tcb t f (s\<lparr>qh := h1\<rparr>)) = Some (task_state (tcb s t) = TSK_STATE_WAIT, s') \<and>
    is_task s t \<and> (task_state (tcb s t) = TSK_STATE_WAIT \<or> task_state (tcb s t) = TSK_STATE_WAITSUSP) \<and>
    kernel_ok s' L' \<and> tcb s' = (tcb s)(t := complete_tcb (f (tcb s t))) \<and> same_objects s s' \<and>
    tn_curr_run_task s' = tn_curr_run_task s \<and> cpsr s' = cpsr s \<and>
    (task_state (tcb s t) = TSK_STATE_WAIT \<longrightarrow> is_task s' t \<and> task_state (tcb s' t) = TSK_STATE_RUNNABLE) \<and>
    (\<forall>q. wait_head q \<longrightarrow> L' q = (if q = wq i then remove1 (TaskQ t) (L q) else L q))"
proof -
  have "home s (TaskQ t) = Some (wq i)" using kernel_entry [OF ok live_head [OF l]] e by blast
  from placed_remove_entry [OF kernel_placed [OF ok] live_head [OF l] this] obtain h1 where
    "queue_remove_entry (TaskQ t) (qh s) = Some h1"
    "placed h1 (heads s) (L(wq i := remove1 (TaskQ t) (L (wq i)))) ((home s)(TaskQ t := None))" by blast
  with complete_with [where f = f and t = t, OF ok l e this(2) f] show ?thesis by blast
qed

lemma wake_first_with:
  assumes ok: "kernel_ok s L" and l: "live s i" and L: "L (wq i) = e # es"
    and f: "\<And>t. same_sched_fields (f (tcb s t)) (tcb s t)"
  shows "\<exists>t h1 s' L'. e = TaskQ t \<and> is_task s t \<and> dequeue_task (wq i) s = Some (Some t, s\<lparr>qh := h1\<rparr>) \<and>
    task_wait_complete (Some t) (upd_tcb t f (s\<lparr>qh := h1\<rparr>)) = Some (task_state (tcb s t) = TSK_STATE_WAIT, s') \<and>
    (task_state (tcb s t) = TSK_STATE_WAIT \<or> task_state (tcb s t) = TSK_STATE_WAITSUSP) \<and>
    kernel_ok s' L' \<and> tcb s' = (tcb s)(t := complete_tcb (f (tcb s t))) \<and> same_objects s s' \<and>
    tn_curr_run_task s' = tn_curr_run_task s \<and> cpsr s' = cpsr s \<and>
    (task_state (tcb s t) = TSK_STATE_WAIT \<longrightarrow> is_task s' t \<and> task_state (tcb s' t) = TSK_STATE_RUNNABLE) \<and>
    (\<forall>q. wait_head q \<longrightarrow> L' q = (if q = wq i then es else L q))"
proof -
  have wr: "wait_reasons (wq i) \<noteq> {}" using reason_wq by simp
  obtain t where t: "e = TaskQ t"
    using wait_queue_entry [OF ok live_head [OF l] wr, of e] L by auto
  from placed_remove_head [OF kernel_placed [OF ok] live_head [OF l] L [unfolded t]] obtain h1 where h1:
    "queue_remove_head (Some (wq i)) (qh s) = Some (Some (TaskQ t), h1)"
    "placed h1 (heads s) (L(wq i := es)) ((home s)(TaskQ t := None))" by blast
  have d: "dequeue_task (wq i) s = Some (Some t, s\<lparr>qh := h1\<rparr>)"
    using h1(1) by (simp add: dequeue_task_def)
  have rm: "remove1 (TaskQ t) (L (wq i)) = es" using L t by simp
  have e: "TaskQ t \<in> set (L (wq i))" using L t by simp
  have pl: "placed h1 (heads s) (L(wq i := remove1 (TaskQ t) (L (wq i)))) ((home s)(TaskQ t := None))"
    using h1(2) rm by simp
  obtain s' L' where c: "task_wait_complete (Some t) (upd_tcb t f (s\<lparr>qh := h1\<rparr>)) =
      Some (task_state (tcb s t) = TSK_STATE_WAIT, s')" "is_task s t"
    "task_state (tcb s t) = TSK_STATE_WAIT \<or> task_state (tcb s t) = TSK_STATE_WAITSUSP"
    "kernel_ok s' L'" "tcb s' = (tcb s)(t := complete_tcb (f (tcb s t)))" "same_objects s s'"
    "tn_curr_run_task s' = tn_curr_run_task s" "cpsr s' = cpsr s"
    "task_state (tcb s t) = TSK_STATE_WAIT \<longrightarrow> is_task s' t \<and> task_state (tcb s' t) = TSK_STATE_RUNNABLE"
    "\<forall>q. wait_head q \<longrightarrow> L' q = (if q = wq i then remove1 (TaskQ t) (L q) else L q)"
    using complete_with [where f = f and t = t, OF ok l e pl f [of t]] by blast
  have "\<forall>q. wait_head q \<longrightarrow> L' q = (if q = wq i then es else L q)" using c(10) rm by simp
  with t d c(1-9) show ?thesis by blast
qed

text \<open>The first task of the queue is woken up. If it was not suspended as well it is now ready, so
  that there is a task to switch to.\<close>

lemma wake_first:
  assumes ok: "kernel_ok s L" and l: "live s i" and L: "L (wq i) = e # es"
  shows "\<exists>t s1 s' L'. e = TaskQ t \<and> is_task s t \<and>
    (task_state (tcb s t) = TSK_STATE_WAIT \<or> task_state (tcb s t) = TSK_STATE_WAITSUSP) \<and>
    dequeue_task (wq i) s = Some (Some t, s1) \<and>
    task_wait_complete (Some t) s1 = Some (task_state (tcb s t) = TSK_STATE_WAIT, s') \<and>
    kernel_ok s' L' \<and> tcb s' = (tcb s)(t := complete_tcb (tcb s t)) \<and> same_objects s s' \<and>
    tn_curr_run_task s' = tn_curr_run_task s \<and> cpsr s' = cpsr s \<and>
    (task_state (tcb s t) = TSK_STATE_WAIT \<longrightarrow> is_task s' t \<and> task_state (tcb s' t) = TSK_STATE_RUNNABLE) \<and>
    (\<forall>q. wait_head q \<longrightarrow> L' q = (if q = wq i then es else L q))"
proof -
  have id: "upd_tcb t (\<lambda>x. x) s' = s'" for t s' by (simp add: upd_tcb_def)
  have f: "same_sched_fields ((\<lambda>x. x) (tcb s t)) (tcb s t)" for t by (simp add: same_sched_fields_def)
  show ?thesis using wake_first_with [where f = "\<lambda>x. x", OF ok l L f, unfolded id] by blast
qed

end

text \<open>After a wake-up: the switch to a task that is ready, or the return. The status register at the end is the one at
  the entry, or has both interrupts enabled after a switch.\<close>

definition irq_kept :: "u32 \<Rightarrow> kernel \<Rightarrow> bool" where
  "irq_kept c s' \<longleftrightarrow> cpsr s' = c \<or> cpsr s' = c AND NOT 0xC0"

lemma irq_kept_simps [simp]:
  "irq_kept (cpsr s) s"
  "irq_kept c (upd_tcb t f s) = irq_kept c s"
  "irq_kept c (upd_sem i fsem s) = irq_kept c s"
  by (simp_all add: irq_kept_def)

lemma leave_out:
  assumes ok: "kernel_ok s L" and t: "sw \<longrightarrow> is_task s t \<and> task_state (tcb s t) = TSK_STATE_RUNNABLE"
    and c: "cpsr s = c OR 0xC0"
  shows "\<exists>s'. (if sw then leave_switch c k s else Some (out, tn_cpu_restore_sr c s)) = Some (if sw then Switch k else out, s') \<and>
    kernel_ok s' L \<and> tcb s' = tcb s \<and> same_objects s s' \<and>
    (if sw then curr_ok s' else cpsr s' = c \<and> tn_curr_run_task s' = tn_curr_run_task s) \<and> irq_kept c s'"
  using leave_switch_ok [OF ok, of t c k] t c ok
  by (cases sw) (auto simp: same_objects_def restore_sr_eq irq_kept_def)

lemma leave_either:
  assumes ok: "kernel_ok s L" and t: "sw \<longrightarrow> is_task s t \<and> task_state (tcb s t) = TSK_STATE_RUNNABLE"
    and c: "cpsr s = c OR 0xC0"
  shows "\<exists>s'. (if sw then leave_switch c k s else leave c rc s) = Some (if sw then Switch k else ret rc, s') \<and>
    kernel_ok s' L \<and> tcb s' = tcb s \<and> same_objects s s' \<and>
    (if sw then curr_ok s' else cpsr s' = c \<and> tn_curr_run_task s' = tn_curr_run_task s) \<and> irq_kept c s'"
  using leave_out [OF ok t c, of k "ret rc"] by (simp only: leave_def)

lemma same_objects_refl: "same_objects s s"
  by (simp add: same_objects_def)

lemma same_objects_trans: "same_objects s s' \<Longrightarrow> same_objects s' s'' \<Longrightarrow> same_objects s s''"
  by (simp add: same_objects_def)

lemma same_objects_upd [simp]:
  "same_objects s (s'\<lparr>cpsr := c\<rparr>) = same_objects s s'"
  "same_objects (s\<lparr>cpsr := c\<rparr>) s' = same_objects s s'"
  "same_objects s (upd_tcb t f s') = same_objects s s'"
  by (simp_all add: same_objects_def)

text \<open>The end of a call from a task that wakes up the first task of a queue: the switch if that task is
  ready now, and the return otherwise. The end of a call from an interrupt asks for a switch.\<close>

context wait_object
begin

lemma wake_finish:
  assumes ok: "kernel_ok s L" and l: "live s i" and L: "L (wq i) = e # es" and c: "cpsr s = sr OR 0xC0"
    and f: "\<And>t. same_sched_fields (f (tcb s t)) (tcb s t)"
  shows "\<exists>t h1 s2 s' L'. e = TaskQ t \<and> is_task s t \<and> dequeue_task (wq i) s = Some (Some t, s\<lparr>qh := h1\<rparr>) \<and>
    task_wait_complete (Some t) (upd_tcb t f (s\<lparr>qh := h1\<rparr>)) = Some (task_state (tcb s t) = TSK_STATE_WAIT, s2) \<and>
    (if task_state (tcb s t) = TSK_STATE_WAIT then leave_switch sr k s2 else Some (out, tn_cpu_restore_sr sr s2)) =
      Some (if task_state (tcb s t) = TSK_STATE_WAIT then Switch k else out, s') \<and>
    kernel_ok s' L' \<and> tcb s' = (tcb s)(t := complete_tcb (f (tcb s t))) \<and> same_objects s s' \<and>
    (if task_state (tcb s t) = TSK_STATE_WAIT then curr_ok s'
     else cpsr s' = sr \<and> tn_curr_run_task s' = tn_curr_run_task s) \<and>
    (\<forall>q. wait_head q \<longrightarrow> L' q = (if q = wq i then es else L q)) \<and> irq_kept sr s'"
proof -
  obtain t h1 s2 L' where w: "e = TaskQ t" "is_task s t" "dequeue_task (wq i) s = Some (Some t, s\<lparr>qh := h1\<rparr>)"
    "task_wait_complete (Some t) (upd_tcb t f (s\<lparr>qh := h1\<rparr>)) = Some (task_state (tcb s t) = TSK_STATE_WAIT, s2)"
    "kernel_ok s2 L'" "tcb s2 = (tcb s)(t := complete_tcb (f (tcb s t)))" "same_objects s s2"
    "tn_curr_run_task s2 = tn_curr_run_task s" "cpsr s2 = cpsr s"
    "task_state (tcb s t) = TSK_STATE_WAIT \<longrightarrow> is_task s2 t \<and> task_state (tcb s2 t) = TSK_STATE_RUNNABLE"
    "\<forall>q. wait_head q \<longrightarrow> L' q = (if q = wq i then es else L q)"
    using wake_first_with [OF ok l L f] by blast
  have c2: "cpsr s2 = sr OR 0xC0" using w(9) c by simp
  obtain s' where s': "(if task_state (tcb s t) = TSK_STATE_WAIT then leave_switch sr k s2 else Some (out, tn_cpu_restore_sr sr s2)) =
      Some (if task_state (tcb s t) = TSK_STATE_WAIT then Switch k else out, s')"
    "kernel_ok s' L'" "tcb s' = tcb s2" "same_objects s2 s'"
    "if task_state (tcb s t) = TSK_STATE_WAIT then curr_ok s' else cpsr s' = sr \<and> tn_curr_run_task s' = tn_curr_run_task s2" "irq_kept sr s'"
    using leave_out [OF w(5,10) c2, of k out] by blast
  have so: "same_objects s s'" using w(7) s'(4) by (simp add: same_objects_def)
  have cu: "if task_state (tcb s t) = TSK_STATE_WAIT then curr_ok s'
     else cpsr s' = sr \<and> tn_curr_run_task s' = tn_curr_run_task s" using s'(5) w(8) by simp
  show ?thesis
    using w(1-4) s'(1,2) s'(3) [unfolded w(6)] so cu w(11) s'(6) by blast
qed

lemma wake_leave:
  assumes ok: "kernel_ok s L" and l: "live s i" and L: "L (wq i) = e # es" and c: "cpsr s = sr OR 0xC0"
    and f: "\<And>t. same_sched_fields (f (tcb s t)) (tcb s t)"
  shows "\<exists>t h1 s2 s' L'. e = TaskQ t \<and> is_task s t \<and> dequeue_task (wq i) s = Some (Some t, s\<lparr>qh := h1\<rparr>) \<and>
    task_wait_complete (Some t) (upd_tcb t f (s\<lparr>qh := h1\<rparr>)) = Some (task_state (tcb s t) = TSK_STATE_WAIT, s2) \<and>
    (if task_state (tcb s t) = TSK_STATE_WAIT then leave_switch sr k s2 else leave sr rc s2) =
      Some (if task_state (tcb s t) = TSK_STATE_WAIT then Switch k else ret rc, s') \<and>
    kernel_ok s' L' \<and> tcb s' = (tcb s)(t := complete_tcb (f (tcb s t))) \<and> same_objects s s' \<and>
    (if task_state (tcb s t) = TSK_STATE_WAIT then curr_ok s'
     else cpsr s' = sr \<and> tn_curr_run_task s' = tn_curr_run_task s) \<and>
    (\<forall>q. wait_head q \<longrightarrow> L' q = (if q = wq i then es else L q)) \<and> irq_kept sr s'"
  using wake_finish [where f = f and out = "ret rc", OF ok l L c f] by (simp only: leave_def)


end

section \<open>The loop of the delete calls\<close>

text \<open>Either the interrupts are enabled, or they were disabled by this call; in both cases
  \<open>entry_sr\<close> is the status register that the end of the loop puts back.\<close>

definition sr_ok :: "u32 \<Rightarrow> kernel \<Rightarrow> bool" where
  "sr_ok sr s \<longleftrightarrow> tn_chk_irq_disabled s = 0 \<or> cpsr s = sr OR 0xC0"

definition entry_sr :: "u32 \<Rightarrow> kernel \<Rightarrow> u32" where
  "entry_sr sr s = (if tn_chk_irq_disabled s = 0 then cpsr s else sr)"

lemma irq_off: "cpsr s = c OR 0xC0 \<Longrightarrow> tn_chk_irq_disabled s \<noteq> 0"
proof -
  have "bit ((c OR 0xC0) AND 0x80) 7" by (simp add: bit_and_iff bit_or_iff bit_numeral_rec)
  then have "(c OR 0xC0) AND 0x80 \<noteq> 0" by (metis bit_0_eq bot_apply bot_bool_def)
  then show "cpsr s = c OR 0xC0 \<Longrightarrow> tn_chk_irq_disabled s \<noteq> 0" by (simp add: tn_chk_irq_disabled_def)
qed

lemma disable_if_enabled_ok:
  assumes "sr_ok sr s"
  shows "disable_if_enabled sr s = (entry_sr sr s, s\<lparr>cpsr := entry_sr sr s OR 0xC0\<rparr>)"
proof (cases "tn_chk_irq_disabled s = 0")
  case True
  then show ?thesis by (simp add: disable_if_enabled_def save_sr_eq entry_sr_def)
next
  case False
  then have "cpsr s = sr OR 0xC0" using assms by (simp add: sr_ok_def)
  then have "s\<lparr>cpsr := sr OR 0xC0\<rparr> = s" by simp
  with False show ?thesis by (simp add: disable_if_enabled_def entry_sr_def)
qed

text \<open>What the loop does to a waiting task.\<close>

definition made_ready :: "tn_tcb \<Rightarrow> bool" where
  "made_ready x \<longleftrightarrow> task_state x = TSK_STATE_RUNNABLE \<and> task_wait_rc x = TERR_DLT"

definition kept_suspended :: "tn_tcb \<Rightarrow> bool" where
  "kept_suspended x \<longleftrightarrow> task_state x = TSK_STATE_SUSPEND \<and> task_wait_rc x = TERR_NO_ERR"

context wait_object
begin

text \<open>The tasks at the front that are suspended as well stay suspended. The first one that is not
  gets the return code \<open>TERR_DLT\<close> and the processor is given away; the queue is shorter then. If
  there is none, the loop ends with an empty queue.\<close>

lemma delete_waiters_ok:
  "kernel_ok s L \<Longrightarrow> live s i \<Longrightarrow> sr_ok sr s \<Longrightarrow> L (wq i) = ws \<Longrightarrow>
   (\<exists>sr' s' L'. delete_waiters (wq i) k fin sr s = fin sr' s' \<and> kernel_ok s' L' \<and> sr_ok sr' s' \<and>
      entry_sr sr' s' = entry_sr sr s \<and>
      same_objects s s' \<and> (\<forall>q. wait_head q \<longrightarrow> L' q = (if q = wq i then [] else L q)) \<and>
      (\<forall>t. TaskQ t \<in> set ws \<longrightarrow> task_state (tcb s t) = TSK_STATE_WAITSUSP \<and> kept_suspended (tcb s' t)) \<and>
      (\<forall>u. TaskQ u \<notin> set ws \<longrightarrow> tcb s' u = tcb s u)) \<or>
   (\<exists>pre t post s' L'. ws = pre @ TaskQ t # post \<and>
      delete_waiters (wq i) k fin sr s = Some (Switch (k (entry_sr sr s)), s') \<and> kernel_ok s' L' \<and> curr_ok s' \<and>
      same_objects s s' \<and> (\<forall>q. wait_head q \<longrightarrow> L' q = (if q = wq i then post else L q)) \<and>
      (\<forall>u. TaskQ u \<in> set pre \<longrightarrow> task_state (tcb s u) = TSK_STATE_WAITSUSP \<and> kept_suspended (tcb s' u)) \<and>
      task_state (tcb s t) = TSK_STATE_WAIT \<and> made_ready (tcb s' t) \<and>
      (\<forall>u. TaskQ u \<notin> set (pre @ [TaskQ t]) \<longrightarrow> tcb s' u = tcb s u))"
proof (induction ws arbitrary: s L sr)
  case Nil
  then have "is_queue_empty (wq i) (qh s)" using kernel_empty [OF Nil(1) live_head [OF Nil(2)]] by simp
  then have "delete_waiters (wq i) k fin sr s = fin sr s" by (subst delete_waiters.simps) simp
  then show ?case using Nil same_objects_refl by (intro disjI1) (auto intro!: exI [of _ L])
next
  case (Cons e es)
  have ne: "\<not> is_queue_empty (wq i) (qh s)"
    using kernel_empty [OF Cons.prems(1) live_head [OF Cons.prems(2)]] Cons.prems(4) by simp
  define sr' where "sr' = entry_sr sr s"
  have sr': "disable_if_enabled sr s = (sr', s\<lparr>cpsr := sr' OR 0xC0\<rparr>)"
    unfolding sr'_def by (rule disable_if_enabled_ok [OF Cons.prems(3)])
  let ?s = "s\<lparr>cpsr := sr' OR 0xC0\<rparr>"
  have ok: "kernel_ok ?s L" using Cons.prems(1) by simp
  have l: "live ?s i" using live_objects [of s ?s i] Cons.prems(2) same_objects_refl by simp
  obtain t s1 s2 L2 where w: "e = TaskQ t" "is_task ?s t"
    "task_state (tcb ?s t) = TSK_STATE_WAIT \<or> task_state (tcb ?s t) = TSK_STATE_WAITSUSP"
    "dequeue_task (wq i) ?s = Some (Some t, s1)"
    "task_wait_complete (Some t) s1 = Some (task_state (tcb ?s t) = TSK_STATE_WAIT, s2)"
    "kernel_ok s2 L2" "tcb s2 = (tcb ?s)(t := complete_tcb (tcb ?s t))" "same_objects ?s s2"
    "cpsr s2 = cpsr ?s"
    "task_state (tcb ?s t) = TSK_STATE_WAIT \<longrightarrow> is_task s2 t \<and> task_state (tcb s2 t) = TSK_STATE_RUNNABLE"
    "\<forall>q. wait_head q \<longrightarrow> L2 q = (if q = wq i then es else L q)"
    using wake_first [OF ok l Cons.prems(4)] by blast
  have step: "delete_waiters (wq i) k fin sr s =
      (if task_state (tcb s t) = TSK_STATE_WAIT
       then leave_switch sr' (k sr') (upd_tcb t (\<lambda>x. x\<lparr>task_wait_rc := TERR_DLT\<rparr>) s2)
       else delete_waiters (wq i) k fin sr' s2)"
    using ne sr' w(4,5) by (subst delete_waiters.simps) simp
  have c2: "cpsr s2 = sr' OR 0xC0" using w(9) by simp
  show ?case
  proof (cases "task_state (tcb s t) = TSK_STATE_WAIT")
    case True
    let ?s3 = "upd_tcb t (\<lambda>x. x\<lparr>task_wait_rc := TERR_DLT\<rparr>) s2"
    have ok3: "kernel_ok ?s3 L2" by (rule kernel_upd_tcb [OF w(6)]) (simp add: same_sched_fields_def)
    have t3: "is_task ?s3 t" "task_state (tcb ?s3 t) = TSK_STATE_RUNNABLE" using w(10) True by simp_all
    obtain s' where s': "leave_switch sr' (k sr') ?s3 = Some (Switch (k sr'), s')" "kernel_ok s' L2"
      "tcb s' = tcb ?s3" "same_objects ?s3 s'" "curr_ok s'"
      using leave_either [OF ok3, of True t sr' "k sr'"] t3 c2 by auto
    have "same_objects s s'" using s'(4) w(8) by (simp add: same_objects_def)
    with s' w(1,7,11) t3 True step show ?thesis
      by (intro disjI2 exI [of _ "[]"] exI [of _ t] exI [of _ es] exI [of _ s'] exI [of _ L2])
        (simp add: sr'_def made_ready_def)
  next
    case False
    have l2: "live s2 i" using live_objects [OF w(8)] l by simp
    have sr2: "sr_ok sr' s2" "entry_sr sr' s2 = entry_sr sr s"
      using c2 irq_off [OF c2] by (simp_all add: sr_ok_def entry_sr_def sr'_def)
    have e2: "L2 (wq i) = es" using w(11) wait_head_wq by simp
    have same: "same_objects s s2" using w(8) by simp
    have ws: "task_state (tcb s t) = TSK_STATE_WAITSUSP" using w(3) False by simp
    have st: "kept_suspended (tcb s2 t)"
      using w(7) ws by (simp add: complete_tcb_def kept_suspended_def)
    have "distinct (L (wq i))"
      by (rule lists_ok_distinct [OF placed_lists_ok [OF kernel_placed [OF Cons.prems(1)]] live_head [OF Cons.prems(2)]])
    then have te: "TaskQ t \<notin> set es" using Cons.prems(4) w(1) by simp
    have tcb2: "tcb s2 u = tcb s u" if "TaskQ u \<notin> set (e # es)" for u using w(1,7) that by auto
    have tcb3: "tcb s2 u = tcb s u" if "u \<noteq> t" for u using w(7) that by auto
    have tu: "u \<noteq> t" if "TaskQ u \<in> set es" for u using te that by auto
    have dl: "delete_waiters (wq i) k fin sr s = delete_waiters (wq i) k fin sr' s2" using step False by simp
    from Cons.IH [OF w(6) l2 sr2(1) e2, unfolded sr2(2)] show ?thesis
    proof (elim disjE exE conjE)
      fix sr3 s3 L3
      assume "delete_waiters (wq i) k fin sr' s2 = fin sr3 s3" "kernel_ok s3 L3" "sr_ok sr3 s3"
        "entry_sr sr3 s3 = entry_sr sr s" "same_objects s2 s3"
        "\<forall>q. wait_head q \<longrightarrow> L3 q = (if q = wq i then [] else L2 q)"
        "\<forall>t. TaskQ t \<in> set es \<longrightarrow> task_state (tcb s2 t) = TSK_STATE_WAITSUSP \<and> kept_suspended (tcb s3 t)"
        "\<forall>u. TaskQ u \<notin> set es \<longrightarrow> tcb s3 u = tcb s2 u"
      with dl same_objects_trans [OF same] te ws st w(1,11) tcb2 tcb3 tu show ?thesis
        by (intro disjI1 exI [of _ sr3] exI [of _ s3] exI [of _ L3]) simp
    next
      fix pre u post s3 L3
      assume "es = pre @ TaskQ u # post" "delete_waiters (wq i) k fin sr' s2 = Some (Switch (k (entry_sr sr s)), s3)"
        "kernel_ok s3 L3" "curr_ok s3" "same_objects s2 s3"
        "\<forall>q. wait_head q \<longrightarrow> L3 q = (if q = wq i then post else L2 q)"
        "\<forall>u. TaskQ u \<in> set pre \<longrightarrow> task_state (tcb s2 u) = TSK_STATE_WAITSUSP \<and> kept_suspended (tcb s3 u)"
        "task_state (tcb s2 u) = TSK_STATE_WAIT" "made_ready (tcb s3 u)"
        "\<forall>v. TaskQ v \<notin> set (pre @ [TaskQ u]) \<longrightarrow> tcb s3 v = tcb s2 v"
      with dl same_objects_trans [OF same] te ws st w(1,11) tcb2 tcb3 tu show ?thesis
        by (intro disjI2 exI [of _ "e # pre"] exI [of _ u] exI [of _ post] exI [of _ s3] exI [of _ L3]) simp
    qed
  qed
qed

end

text \<open>An object that a delete call can take away: \<open>clear\<close> is what the call does to it after the
  last task has left the queue.\<close>

locale deletable_object = wait_object wq reason live for wq reason live +
  fixes clear :: "oid \<Rightarrow> kernel \<Rightarrow> kernel"
  assumes clear_heads: "live s i \<Longrightarrow> heads (clear i s) = heads s - {wq i}"
    and clear_rest: "qh (clear i s) = qh s" "tcb (clear i s) = tcb s" "home (clear i s) = home s"
      "tn_ready_to_run_bmp (clear i s) = tn_ready_to_run_bmp s"
      "tn_next_task_to_run (clear i s) = tn_next_task_to_run s"
      "mutex (clear i s) = mutex s" "cpsr (clear i s) = cpsr s" "clear i (s\<lparr>cpsr := c\<rparr>) = (clear i s)\<lparr>cpsr := c\<rparr>"
begin

lemma delete_object:
  fixes k :: "u32 \<Rightarrow> cont"
  assumes ok: "kernel_ok s L" and l: "live s i" and sr: "sr_ok sr s"
  defines "m \<equiv> delete_waiters (wq i) k
    (\<lambda>sr s. case disable_if_enabled sr s of (sr, s) \<Rightarrow> leave sr TERR_NO_ERR (clear i s)) sr s"
  shows "(\<exists>s' s1 L'. m = Some (ret TERR_NO_ERR, s') \<and> kernel_ok s' L' \<and> s' = (clear i s1)\<lparr>cpsr := entry_sr sr s\<rparr> \<and>
      same_objects s s1 \<and> (\<forall>q. wait_head q \<longrightarrow> L' q = (if q = wq i then [] else L q)) \<and>
      (\<forall>t. TaskQ t \<in> set (L (wq i)) \<longrightarrow> task_state (tcb s t) = TSK_STATE_WAITSUSP \<and> kept_suspended (tcb s' t))) \<or>
   (\<exists>pre t post s' L'. L (wq i) = pre @ TaskQ t # post \<and>
      m = Some (Switch (k (entry_sr sr s)), s') \<and> kernel_ok s' L' \<and> curr_ok s' \<and>
      same_objects s s' \<and> (\<forall>q. wait_head q \<longrightarrow> L' q = (if q = wq i then post else L q)) \<and>
      (\<forall>u. TaskQ u \<in> set pre \<longrightarrow> task_state (tcb s u) = TSK_STATE_WAITSUSP \<and> kept_suspended (tcb s' u)) \<and>
      task_state (tcb s t) = TSK_STATE_WAIT \<and> made_ready (tcb s' t))"
proof -
  let ?fin = "\<lambda>sr s. case disable_if_enabled sr s of (sr, s) \<Rightarrow> leave sr TERR_NO_ERR (clear i s)"
  from delete_waiters_ok [OF ok l sr refl, of k ?fin] show ?thesis
  proof (elim disjE exE conjE)
    fix sr1 s1 L1
    assume a: "delete_waiters (wq i) k ?fin sr s = ?fin sr1 s1" "kernel_ok s1 L1" "sr_ok sr1 s1"
      "entry_sr sr1 s1 = entry_sr sr s" "same_objects s s1"
      "\<forall>q. wait_head q \<longrightarrow> L1 q = (if q = wq i then [] else L q)"
      "\<forall>t. TaskQ t \<in> set (L (wq i)) \<longrightarrow> task_state (tcb s t) = TSK_STATE_WAITSUSP \<and> kept_suspended (tcb s1 t)"
    let ?s' = "(clear i s1)\<lparr>cpsr := entry_sr sr s\<rparr>"
    have l1: "live s1 i" using live_objects [OF a(5)] l by simp
    have "m = Some (ret TERR_NO_ERR, ?s')"
      using a(1) disable_if_enabled_ok [OF a(3)] a(4) leave_eq [of "clear i (s1\<lparr>cpsr := entry_sr sr s OR 0xC0\<rparr>)" "entry_sr sr s"]
      by (simp add: m_def clear_rest)
    moreover have "kernel_ok ?s' L1"
      using wait_head_wq a(6)
      by (intro kernel_drop_head [OF a(2) live_head [OF l1]]) (simp_all add: clear_heads [OF l1] clear_rest)
    ultimately show ?thesis using a
      by (intro disjI1 exI [of _ ?s'] exI [of _ s1] exI [of _ L1]) (simp add: clear_rest)
  next
    fix pre t post s' L'
    assume "L (wq i) = pre @ TaskQ t # post" "delete_waiters (wq i) k ?fin sr s = Some (Switch (k (entry_sr sr s)), s')"
      "kernel_ok s' L'" "curr_ok s'" "same_objects s s'" "\<forall>q. wait_head q \<longrightarrow> L' q = (if q = wq i then post else L q)"
      "\<forall>u. TaskQ u \<in> set pre \<longrightarrow> task_state (tcb s u) = TSK_STATE_WAITSUSP \<and> kept_suspended (tcb s' u)"
      "task_state (tcb s t) = TSK_STATE_WAIT" "made_ready (tcb s' t)"
    then show ?thesis unfolding m_def
      by (intro disjI2 exI [of _ pre] exI [of _ t] exI [of _ post] exI [of _ s'] exI [of _ L']) simp
  qed
qed

end

lemma upd_tcb_id [simp]: "upd_tcb t (\<lambda>x. x) s = s"
  by (simp add: upd_tcb_def)

lemma same_fields_id [simp]: "same_sched_fields x x"
  by (simp add: same_sched_fields_def)

lemma upd_tcb_ready:
  assumes f: "same_sched_fields (f (tcb s t)) (tcb s t)"
  shows "curr_ok (upd_tcb t f s) = curr_ok s" "other_ready (upd_tcb t f s) = other_ready s"
proof -
  have id: "id_task (f (tcb s t)) = id_task (tcb s t)" "task_state (f (tcb s t)) = task_state (tcb s t)"
    using f by (simp_all add: same_sched_fields_def)
  then have st: "task_state (if u = t then f (tcb s t) else tcb s u) = task_state (tcb s u)" for u by simp
  show "curr_ok (upd_tcb t f s) = curr_ok s" "other_ready (upd_tcb t f s) = other_ready s"
    by (simp_all add: curr_ok_def other_ready_def id st del: if_split cong: conj_cong)
qed

lemma ready_objs [simp]:
  "curr_ok (s\<lparr>cpsr := w\<rparr>) = curr_ok s" "other_ready (s\<lparr>cpsr := w\<rparr>) = other_ready s"
  "curr_ok (s\<lparr>mem := m\<rparr>) = curr_ok s" "other_ready (s\<lparr>mem := m\<rparr>) = other_ready s"
  "curr_ok (upd_sem i fsem s) = curr_ok s" "other_ready (upd_sem i fsem s) = other_ready s"
  "curr_ok (upd_event i fev s) = curr_ok s" "other_ready (upd_event i fev s) = other_ready s"
  "curr_ok (upd_dque i fdq s) = curr_ok s" "other_ready (upd_dque i fdq s) = other_ready s"
  "curr_ok (upd_fmp i ffm s) = curr_ok s" "other_ready (upd_fmp i ffm s) = other_ready s"
  by (simp_all add: curr_ok_def other_ready_def)

text \<open>A queue field is in one list only, and the field of the running task is in no wait queue.\<close>

lemma kernel_entry_unique:
  "kernel_ok s L \<Longrightarrow> q \<in> heads s \<Longrightarrow> q' \<in> heads s \<Longrightarrow> e \<in> set (L q) \<Longrightarrow> e \<in> set (L q') \<Longrightarrow> q = q'"
  using kernel_entry by fastforce

lemma ready_not_waiting:
  assumes "kernel_ok s L" and "task_state (tcb s t) = TSK_STATE_RUNNABLE" and "q \<in> heads s" and "wait_head q"
  shows "TaskQ t \<notin> set (L q)"
  using wait_queue_entry [OF assms(1,3)] assms(2,4) by (force simp: wait_head_def)

lemma dequeue_qh:
  assumes d: "dequeue_task q s = Some (t, s\<lparr>qh := h\<rparr>)" and q: "qh s' = qh s"
  shows "dequeue_task q s' = Some (t, s'\<lparr>qh := h\<rparr>)"
proof -
  have "h' = h" if "s\<lparr>qh := h'\<rparr> = s\<lparr>qh := h\<rparr>" for h' using arg_cong [OF that, of qh] by simp
  then show ?thesis
    using d q by (auto simp: dequeue_task_def bind_eq_Some_conv)
qed

end
