(* ===== verification/TN_Mutex.thy ===== *)
theory TN_Mutex
  imports TN_Call
begin

text \<open>
  Mutexes, \<^verbatim>\<open>TNKernel/tn_mutex.c\<close>: the priority inheritance and the priority ceiling protocol.
  The routines come first (\<^verbatim>\<open>tn_tasks.c\<close> calls \<open>do_unlock_mutex\<close> when a task exits or is
  terminated), then the five service calls. \<^verbatim>\<open>find_max_blocked_priority\<close> is in \<open>TN_Sched\<close>.

  The loops over lists start at the successor of the head without looking whether it is the head
  itself, as in the code; on an empty list the head is then taken for an entry, and the model
  stops there.
\<close>

section \<open>Routines\<close>

text \<open>Does the locked mutex \<open>m\<close> keep \<open>curr_task\<close> from locking a ceiling mutex?\<close>

definition blocks_lock :: "tptr \<Rightarrow> oid \<Rightarrow> kernel \<Rightarrow> bool option" where
  "blocks_lock curr_task m s =
     (if m_attr (mutex s m) = TN_MUTEX_ATTR_CEILING \<and> holder (mutex s m) \<noteq> curr_task
      then do { t \<leftarrow> curr_task; Some (ceil_priority (mutex s m) < priority (tcb s t)) }
      else Some False)"

partial_function (option) enable_lock_loop ::
    "tptr \<Rightarrow> qptr \<Rightarrow> bool \<Rightarrow> int \<Rightarrow> tptr \<Rightarrow> kernel \<Rightarrow> (bool \<times> tptr) option" where
  "enable_lock_loop curr_task curr_que result prio res_t s =
     do {
       mp \<leftarrow> get_mutex_by_lock_mutex_queque curr_que;
       m \<leftarrow> mp;
       c \<leftarrow> curr_que;
       b \<leftarrow> blocks_lock curr_task m s;
       (if q_next (qh s c) = Some LockedMutexes
        then Some (result \<and> \<not> b,
               if b \<and> ceil_priority (mutex s m) > prio then holder (mutex s m) else res_t)
        else enable_lock_loop curr_task (q_next (qh s c)) (result \<and> \<not> b)
               (if b \<and> ceil_priority (mutex s m) > prio then ceil_priority (mutex s m) else prio)
               (if b \<and> ceil_priority (mutex s m) > prio then holder (mutex s m) else res_t) s)
     }"

text \<open>The result and what is stored in \<open>*blk_task\<close>.\<close>

definition enable_lock_mutex :: "tptr \<Rightarrow> kernel \<Rightarrow> (bool \<times> tptr) option" where
  "enable_lock_mutex curr_task s =
     (if is_queue_empty LockedMutexes (qh s) then Some (True, None)
      else enable_lock_loop curr_task (q_next (qh s LockedMutexes)) True 0 None s)"

text \<open>Lock procedure: enter the mutex in the lists of its holder and of the system.\<close>

definition include_mutex :: "tid \<Rightarrow> oid \<Rightarrow> kernel \<Rightarrow> kernel option" where
  "include_mutex t m s =
     do {
       s \<leftarrow> upd_qh (queue_add_tail (TaskMutexQ t) (MutexQ m)) s;
       upd_qh (queue_add_tail LockedMutexes (LockMutexQ m)) s
     }"

definition try_lock_mutex :: "tid \<Rightarrow> kernel \<Rightarrow> (bool \<times> kernel) option" where
  "try_lock_mutex task s =
     do {
       mp \<leftarrow> get_mutex_by_wait_queque (pwait_queue (tcb s task));
       m \<leftarrow> mp;
       (if holder (mutex s m) = None then
          do {
            (en, blk) \<leftarrow> enable_lock_mutex (Some task) s;
            (if en then
               do {
                 s \<leftarrow> upd_qh (queue_remove_entry (TaskQ task)) s;
                 s \<leftarrow> upd_qh (queue_remove_entry (BlockQ task)) s;
                 (sw, s) \<leftarrow> task_wait_complete (Some task) s;
                 let s = upd_mutex m (\<lambda>x. x\<lparr>holder := Some task\<rparr>) s;
                 let s = upd_tcb task (\<lambda>x. x\<lparr>blk_task := None\<rparr>) s;
                 s \<leftarrow> include_mutex task m s;
                 Some (sw, s)
               }
             else Some (False, s))
          }
        else Some (False, s))
     }"

partial_function (option) remove_blocked_loop :: "qaddr \<Rightarrow> qptr \<Rightarrow> qheap \<Rightarrow> qheap option" where
  "remove_blocked_loop task_block_que curr_que h =
     (if curr_que = Some task_block_que then queue_remove_entry task_block_que h
      else do {
        c \<leftarrow> curr_que;
        (if q_next (h c) = Some BlockedTasks then Some h
         else remove_blocked_loop task_block_que (q_next (h c)) h)
      })"

definition remove_task_from_blocked_list :: "tid \<Rightarrow> kernel \<Rightarrow> kernel option" where
  "remove_task_from_blocked_list task s =
     upd_qh (\<lambda>h. remove_blocked_loop (BlockQ task) (q_next (h BlockedTasks)) h) s"

text \<open>The three loops of \<open>do_unlock_mutex\<close>: over the mutexes the running task still holds, over the
  tasks that wait for the mutex, over the blocked tasks of the system.\<close>

partial_function (option) held_loop :: "tid \<Rightarrow> qptr \<Rightarrow> int \<Rightarrow> kernel \<Rightarrow> int option" where
  "held_loop me curr_que pr s =
     do {
       mp \<leftarrow> get_mutex_by_mutex_queque curr_que;
       m \<leftarrow> mp;
       c \<leftarrow> curr_que;
       pr' \<leftarrow> find_max_blocked_priority m pr s;
       (if q_next (qh s c) = Some (TaskMutexQ me) then Some pr'
        else held_loop me (q_next (qh s c)) pr' s)
     }"

partial_function (option) hi_pri_loop :: "oid \<Rightarrow> qptr \<Rightarrow> tptr \<Rightarrow> int \<Rightarrow> kernel \<Rightarrow> tptr option" where
  "hi_pri_loop m curr_que hi_pri_task prio s =
     do {
       task \<leftarrow> get_task_by_tsk_queue curr_que;
       t \<leftarrow> task;
       c \<leftarrow> curr_que;
       (if q_next (qh s c) = Some (MutexWaitQ m)
        then Some (if priority (tcb s t) < prio then Some t else hi_pri_task)
        else hi_pri_loop m (q_next (qh s c))
               (if priority (tcb s t) < prio then Some t else hi_pri_task)
               (if priority (tcb s t) < prio then priority (tcb s t) else prio) s)
     }"

partial_function (option) try_blocked_loop ::
    "tptr \<Rightarrow> qptr \<Rightarrow> bool \<Rightarrow> kernel \<Rightarrow> (bool \<times> kernel) option" where
  "try_blocked_loop hi_pri_task curr_que need s =
     do {
       tmp_task \<leftarrow> get_task_by_block_queque curr_que;
       t \<leftarrow> tmp_task;
       c \<leftarrow> curr_que;
       (sw, s) \<leftarrow> (if tmp_task \<noteq> hi_pri_task then try_lock_mutex t s else Some (False, s));
       (if q_next (qh s c) = Some BlockedTasks then Some (need \<or> sw, s)
        else try_blocked_loop hi_pri_task (q_next (qh s c)) (need \<or> sw) s)
     }"

text \<open>First part: the running task gives the mutex back and takes the priority it now has.\<close>

definition unlock_priority :: "oid \<Rightarrow> tid \<Rightarrow> kernel \<Rightarrow> (bool \<times> kernel) option" where
  "unlock_priority m me s =
     (if is_queue_empty (TaskMutexQ me) (qh s) then
        do {
          (rc, s) \<leftarrow> set_current_priority me (base_priority (tcb s me)) s;
          Some (rc \<noteq> 0, s)
        }
      else if m_attr (mutex s m) = TN_MUTEX_ATTR_INHERIT \<or> m_attr (mutex s m) = TN_MUTEX_ATTR_CEILING then
        do {
          pr \<leftarrow> held_loop me (q_next (qh s (TaskMutexQ me))) (base_priority (tcb s me)) s;
          (if pr \<noteq> priority (tcb s me)
           then do { (rc, s) \<leftarrow> set_current_priority me pr s; Some (rc \<noteq> 0, s) }
           else Some (False, s))
        }
      else Some (False, s))"

text \<open>Second part: the mutex goes to a waiting task, if there is one that may lock it. The result
  holds \<open>hi_pri_task\<close>, which the third part uses.\<close>

definition hand_over :: "oid \<Rightarrow> tid \<Rightarrow> bool \<Rightarrow> kernel \<Rightarrow> (tptr \<times> bool \<times> kernel) option" where
  "hand_over m me need s =
     (if is_queue_empty (MutexWaitQ m) (qh s)
      then Some (Some me, need, upd_mutex m (\<lambda>x. x\<lparr>holder := None\<rparr>) s)
      else if m_attr (mutex s m) = TN_MUTEX_ATTR_CEILING then
        do {
          hi \<leftarrow> hi_pri_loop m (q_next (qh s (MutexWaitQ m))) None (TN_NUM_PRIORITY - 1) s;
          (en, blk) \<leftarrow> enable_lock_mutex hi s;
          h \<leftarrow> hi;
          (if en then
             do {
               s \<leftarrow> upd_qh (queue_remove_entry (TaskQ h)) s;
               s \<leftarrow> remove_task_from_blocked_list h s;
               (sw, s) \<leftarrow> task_wait_complete (Some h) s;
               let s = upd_mutex m (\<lambda>x. x\<lparr>holder := Some h\<rparr>) s;
               let s = upd_tcb h (\<lambda>x. x\<lparr>blk_task := None\<rparr>) s;
               s \<leftarrow> include_mutex h m s;
               Some (hi, need \<or> sw, s)
             }
           else
             do {
               found \<leftarrow> queue_contains_entry BlockedTasks (BlockQ h) (qh s);
               (if \<not> found then
                  do {
                    s \<leftarrow> upd_qh (queue_add_tail BlockedTasks (BlockQ h)) s;
                    Some (hi, need, upd_tcb h (\<lambda>x. x\<lparr>task_wait_reason := TSK_WAIT_REASON_MUTEX_C_BLK,
                                                    blk_task := blk\<rparr>) s)
                  }
                else Some (hi, need, s))
             })
        }
      else if m_attr (mutex s m) = TN_MUTEX_ATTR_INHERIT then
        do {
          (task, s) \<leftarrow> dequeue_task (MutexWaitQ m) s;
          (sw, s) \<leftarrow> task_wait_complete task s;
          let s = upd_mutex m (\<lambda>x. x\<lparr>holder := task\<rparr>) s;
          t \<leftarrow> task;
          s \<leftarrow> upd_qh (queue_add_tail (TaskMutexQ t) (MutexQ m)) s;
          Some (None, need \<or> sw, s)
        }
      else Some (None, need, s))"

definition do_unlock_mutex :: "oid \<Rightarrow> kernel \<Rightarrow> (bool \<times> kernel) option" where
  "do_unlock_mutex m s =
     do {
       s \<leftarrow> upd_qh (queue_remove_entry (MutexQ m)) s;
       s \<leftarrow> upd_qh (queue_remove_entry (LockMutexQ m)) s;
       curr \<leftarrow> tn_curr_run_task s;
       (need, s) \<leftarrow> unlock_priority m curr s;
       (hi, need, s) \<leftarrow> hand_over m curr need s;
       (if holder (mutex s m) = None \<and> m_attr (mutex s m) = TN_MUTEX_ATTR_CEILING
        then try_blocked_loop hi (q_next (qh s BlockedTasks)) need s
        else Some (need, s))
     }"

section \<open>Service calls\<close>

definition tn_mutex_create :: "optr \<Rightarrow> int \<Rightarrow> int \<Rightarrow> kernel \<Rightarrow> (outcome \<times> kernel) option" where
  "tn_mutex_create mp attribute ceil s =
     (case mp of
        None \<Rightarrow> Some (ret TERR_WRONG_PARAM, s)
      | Some m \<Rightarrow>
          if id_mutex (mutex s m) \<noteq> 0 then Some (ret TERR_WRONG_PARAM, s)
          else if attribute \<noteq> TN_MUTEX_ATTR_CEILING \<and> attribute \<noteq> TN_MUTEX_ATTR_INHERIT
          then Some (ret TERR_WRONG_PARAM, s)
          else if attribute = TN_MUTEX_ATTR_CEILING \<and> (ceil < 1 \<or> ceil > TN_NUM_PRIORITY - 2)
          then Some (ret TERR_WRONG_PARAM, s)
          else
            let s = s\<lparr>qh := queue_reset (LockMutexQ m) (queue_reset (MutexQ m)
                              (queue_reset (MutexWaitQ m) (qh s)))\<rparr> in
            Some (ret TERR_NO_ERR,
              upd_mutex m (\<lambda>x. x\<lparr>m_attr := attribute, holder := None, ceil_priority := ceil,
                                cnt := 0, id_mutex := TN_ID_MUTEX\<rparr>) s))"

partial_function (option) mutex_delete_loop :: "oid \<Rightarrow> u32 \<Rightarrow> kernel \<Rightarrow> (outcome \<times> kernel) option" where
  "mutex_delete_loop m sr s =
     (if \<not> is_queue_empty (MutexWaitQ m) (qh s) then
        case disable_if_enabled sr s of (sr, s) \<Rightarrow>
        do {
          (task, s) \<leftarrow> dequeue_task (MutexWaitQ m) s;
          t \<leftarrow> task;
          s \<leftarrow> remove_task_from_blocked_list t s;
          (sw, s) \<leftarrow> task_wait_complete task s;
          (if sw
           then leave_switch sr (MutexDeleteLoop m sr) (upd_tcb t (\<lambda>x. x\<lparr>task_wait_rc := TERR_DLT\<rparr>) s)
           else mutex_delete_loop m sr s)
        }
      else
        case disable_if_enabled sr s of (sr, s) \<Rightarrow>
        do {
          s \<leftarrow> (if holder (mutex s m) \<noteq> None
                then do {
                  s \<leftarrow> upd_qh (queue_remove_entry (MutexQ m)) s;
                  upd_qh (queue_remove_entry (LockMutexQ m)) s
                }
                else Some s);
          leave sr TERR_NO_ERR (upd_mutex m (\<lambda>x. x\<lparr>id_mutex := 0\<rparr>) s)
        })"

definition tn_mutex_delete :: "optr \<Rightarrow> kernel \<Rightarrow> (outcome \<times> kernel) option" where
  "tn_mutex_delete mp s =
     (case mp of
        None \<Rightarrow> Some (ret TERR_WRONG_PARAM, s)
      | Some m \<Rightarrow>
          if id_mutex (mutex s m) \<noteq> TN_ID_MUTEX then Some (ret TERR_NOEXS, s)
          else if check_non_int_context s then Some (ret TERR_WCONTEXT, s)
          else mutex_delete_loop m 0 s)"

text \<open>The running task inherits its priority to the task that blocks it.\<close>

definition inherit_priority :: "tid \<Rightarrow> tid \<Rightarrow> kernel \<Rightarrow> kernel option" where
  "inherit_priority me blk s =
     (if priority (tcb s me) < priority (tcb s blk)
      then do { (rc, s) \<leftarrow> set_current_priority blk (priority (tcb s me)) s; Some s }
      else Some s)"

definition tn_mutex_lock :: "optr \<Rightarrow> u32 \<Rightarrow> kernel \<Rightarrow> (outcome \<times> kernel) option" where
  "tn_mutex_lock mp timeout s =
     (case mp of
        None \<Rightarrow> Some (ret TERR_WRONG_PARAM, s)
      | Some m \<Rightarrow>
          if timeout = 0 then Some (ret TERR_WRONG_PARAM, s)
          else if id_mutex (mutex s m) \<noteq> TN_ID_MUTEX then Some (ret TERR_NOEXS, s)
          else if check_non_int_context s then Some (ret TERR_WCONTEXT, s)
          else do {
            let (sr, s) = tn_cpu_save_sr s;
            (if tn_curr_run_task s = holder (mutex s m) then leave sr TERR_ILUSE s
             else do {
               curr \<leftarrow> tn_curr_run_task s;
               (if m_attr (mutex s m) = TN_MUTEX_ATTR_CEILING \<and>
                   base_priority (tcb s curr) < ceil_priority (mutex s m)
                then leave sr TERR_ILUSE s
                else if m_attr (mutex s m) = TN_MUTEX_ATTR_CEILING then
                  (case holder (mutex s m) of
                     None \<Rightarrow>
                       do {
                         (en, blk) \<leftarrow> enable_lock_mutex (Some curr) s;
                         (if en then
                            do {
                              let s = upd_mutex m (\<lambda>x. x\<lparr>holder := Some curr\<rparr>) s;
                              let s = upd_tcb curr (\<lambda>x. x\<lparr>blk_task := None\<rparr>) s;
                              s \<leftarrow> include_mutex curr m s;
                              leave sr TERR_NO_ERR s
                            }
                          else
                            do {
                              s \<leftarrow> (case blk of None \<Rightarrow> Some s | Some b \<Rightarrow> inherit_priority curr b s);
                              s \<leftarrow> upd_qh (queue_add_tail BlockedTasks (BlockQ curr)) s;
                              let s = upd_tcb curr (\<lambda>x. x\<lparr>blk_task := blk\<rparr>) s;
                              s \<leftarrow> task_curr_to_wait_action (Some (MutexWaitQ m)) TSK_WAIT_REASON_MUTEX_C_BLK timeout s;
                              leave_switch sr RetWaitRc s
                            })
                       }
                   | Some h \<Rightarrow>
                       do {
                         s \<leftarrow> inherit_priority curr h s;
                         s \<leftarrow> task_curr_to_wait_action (Some (MutexWaitQ m)) TSK_WAIT_REASON_MUTEX_C timeout s;
                         leave_switch sr RetWaitRc s
                       })
                else if m_attr (mutex s m) = TN_MUTEX_ATTR_INHERIT then
                  (case holder (mutex s m) of
                     None \<Rightarrow>
                       do {
                         let s = upd_mutex m (\<lambda>x. x\<lparr>holder := Some curr\<rparr>) s;
                         s \<leftarrow> upd_qh (queue_add_tail (TaskMutexQ curr) (MutexQ m)) s;
                         leave sr TERR_NO_ERR s
                       }
                   | Some h \<Rightarrow>
                       do {
                         s \<leftarrow> inherit_priority curr h s;
                         s \<leftarrow> task_curr_to_wait_action (Some (MutexWaitQ m)) TSK_WAIT_REASON_MUTEX_I timeout s;
                         leave_switch sr RetWaitRc s
                       })
                else leave sr TERR_NO_ERR s)
             })
          })"

definition tn_mutex_lock_polling :: "optr \<Rightarrow> kernel \<Rightarrow> (outcome \<times> kernel) option" where
  "tn_mutex_lock_polling mp s =
     (case mp of
        None \<Rightarrow> Some (ret TERR_WRONG_PARAM, s)
      | Some m \<Rightarrow>
          if id_mutex (mutex s m) \<noteq> TN_ID_MUTEX then Some (ret TERR_NOEXS, s)
          else if check_non_int_context s then Some (ret TERR_WCONTEXT, s)
          else do {
            let (sr, s) = tn_cpu_save_sr s;
            (if tn_curr_run_task s = holder (mutex s m) then leave sr TERR_ILUSE s
             else do {
               curr \<leftarrow> tn_curr_run_task s;
               (if m_attr (mutex s m) = TN_MUTEX_ATTR_CEILING \<and>
                   base_priority (tcb s curr) < ceil_priority (mutex s m)
                then leave sr TERR_ILUSE s
                else if holder (mutex s m) = None then
                  if m_attr (mutex s m) = TN_MUTEX_ATTR_CEILING then
                    do {
                      (en, blk) \<leftarrow> enable_lock_mutex (Some curr) s;
                      (if en then
                         do {
                           let s = upd_mutex m (\<lambda>x. x\<lparr>holder := Some curr\<rparr>) s;
                           let s = upd_tcb curr (\<lambda>x. x\<lparr>blk_task := None\<rparr>) s;
                           s \<leftarrow> include_mutex curr m s;
                           leave sr TERR_NO_ERR s
                         }
                       else leave sr TERR_TIMEOUT s)
                    }
                  else if m_attr (mutex s m) = TN_MUTEX_ATTR_INHERIT then
                    do {
                      let s = upd_mutex m (\<lambda>x. x\<lparr>holder := Some curr\<rparr>) s;
                      s \<leftarrow> upd_qh (queue_add_tail (TaskMutexQ curr) (MutexQ m)) s;
                      leave sr TERR_NO_ERR s
                    }
                  else leave sr TERR_NO_ERR s
                else leave sr TERR_TIMEOUT s)
             })
          })"

definition tn_mutex_unlock :: "optr \<Rightarrow> kernel \<Rightarrow> (outcome \<times> kernel) option" where
  "tn_mutex_unlock mp s =
     (case mp of
        None \<Rightarrow> Some (ret TERR_WRONG_PARAM, s)
      | Some m \<Rightarrow>
          if id_mutex (mutex s m) \<noteq> TN_ID_MUTEX then Some (ret TERR_NOEXS, s)
          else if check_non_int_context s then Some (ret TERR_WCONTEXT, s)
          else do {
            let (sr, s) = tn_cpu_save_sr s;
            (if tn_curr_run_task s \<noteq> holder (mutex s m) \<or> holder (mutex s m) = None
             then leave sr TERR_ILUSE s
             else do {
               (need, s) \<leftarrow> do_unlock_mutex m s;
               (if need then leave_switch sr RetNoErr s else leave sr TERR_NO_ERR s)
             })
          })"

end
