(* ===== verification/TN_Tasks.thy ===== *)
theory TN_Tasks
  imports TN_Mutex
begin

text \<open>
  The task service calls of \<^verbatim>\<open>TNKernel/tn_tasks.c\<close>. A task is created dormant, activated,
  suspended and resumed, put to sleep and woken up, released from a wait, terminated and deleted;
  its priority can be changed.
\<close>

section \<open>Creation\<close>

text \<open>\<open>task_stack_start\<close> is the highest word of the stack; \<open>task_func\<close> and \<open>param\<close> are addresses.\<close>

definition tn_task_create ::
    "tptr \<Rightarrow> u32 \<Rightarrow> int \<Rightarrow> u32 \<Rightarrow> int \<Rightarrow> u32 \<Rightarrow> u32 \<Rightarrow> kernel \<Rightarrow> (outcome \<times> kernel) option" where
  "tn_task_create tp task_func prio task_stack_start task_stack_size param opt s =
     (if prio = 0 \<and> \<not> has_bits opt TN_TASK_TIMER \<or>
         prio = TN_NUM_PRIORITY - 1 \<and> \<not> has_bits opt TN_TASK_IDLE
      then Some (ret TERR_WRONG_PARAM, s)
      else if prio < 0 \<or> prio > TN_NUM_PRIORITY - 1 \<or> task_stack_size < TN_MIN_STACK_SIZE \<or>
         task_func = 0 \<or> tp = None \<or> task_stack_start = 0 \<or> id_task (tcb s (the tp)) \<noteq> 0
      then Some (ret TERR_WRONG_PARAM, s)
      else if check_non_int_context s then Some (ret TERR_WCONTEXT, s)
      else do {
        task \<leftarrow> tp;
        let (sr, s) = (if tn_system_state s = TN_ST_STATE_RUNNING then tn_cpu_save_sr s else (0, s));
        let s = upd_tcb task (\<lambda>t. t\<lparr>task_func_addr := task_func, task_func_param := param,
                  stk_start := task_stack_start, stk_size := task_stack_size, base_priority := prio,
                  activate_count := 0, id_task := TN_ID_TASK\<rparr>) s;
        let s = s\<lparr>mem := store_down (stk_start (tcb s task))
                  (replicate (nat (stk_size (tcb s task))) TN_FILL_STACK_VAL) (mem s)\<rparr>;
        let s = task_set_dormant_state task s;
        let (ptr_stack, s) = tn_stack_init (task_func_addr (tcb s task)) (stk_start (tcb s task))
                               (task_func_param (tcb s task)) s;
        let s = upd_tcb task (\<lambda>t. t\<lparr>task_stk := ptr_stack\<rparr>) s;
        s \<leftarrow> upd_qh (queue_add_tail CreateQueue (CreateQ task)) s;
        let s = s\<lparr>tn_created_tasks_qty := tn_created_tasks_qty s + 1\<rparr>;
        s \<leftarrow> (if has_bits opt TN_TASK_START_ON_CREATION then task_to_runnable task s else Some s);
        Some (ret TERR_NO_ERR,
          if tn_system_state s = TN_ST_STATE_RUNNING then tn_cpu_restore_sr sr s else s)
      })"

section \<open>Suspend and resume\<close>

text \<open>\<open>tn_enable_interrupt(); if(tn_next_task_to_run != tn_curr_run_task && tn_enable_switch_context
  != 0) tn_switch_context(); return TERR_NO_ERR;\<close>\<close>

definition leave_reschedule :: "u32 \<Rightarrow> kernel \<Rightarrow> (outcome \<times> kernel) option" where
  "leave_reschedule sr s =
     (if tn_next_task_to_run s \<noteq> tn_curr_run_task s \<and> tn_enable_switch_context s \<noteq> 0
      then leave_switch sr RetNoErr s else leave sr TERR_NO_ERR s)"

definition tn_task_suspend :: "tptr \<Rightarrow> kernel \<Rightarrow> (outcome \<times> kernel) option" where
  "tn_task_suspend tp s =
     (case tp of
        None \<Rightarrow> Some (ret TERR_WRONG_PARAM, s)
      | Some task \<Rightarrow>
          if id_task (tcb s task) \<noteq> TN_ID_TASK then Some (ret TERR_NOEXS, s)
          else if check_non_int_context s then Some (ret TERR_WCONTEXT, s)
          else do {
            let (sr, s) = tn_cpu_save_sr s;
            (if has_bits (task_state (tcb s task)) TSK_STATE_SUSPEND then leave sr TERR_OVERFLOW s
             else if has_bits (task_state (tcb s task)) TSK_STATE_DORMANT then leave sr TERR_WSTATE s
             else if tn_curr_run_task s = Some task \<and> tn_enable_switch_context s = 0
             then leave sr TERR_WCONTEXT s
             else if has_bits (task_state (tcb s task)) TSK_STATE_RUNNABLE then
               do {
                 let s = upd_tcb task (\<lambda>t. t\<lparr>task_state := TSK_STATE_SUSPEND\<rparr>) s;
                 s \<leftarrow> task_to_non_runnable task s;
                 leave_reschedule sr s
               }
             else leave sr TERR_NO_ERR
                    (upd_tcb task (\<lambda>t. t\<lparr>task_state := task_state t OR TSK_STATE_SUSPEND\<rparr>) s))
          })"

definition tn_task_resume :: "tptr \<Rightarrow> kernel \<Rightarrow> (outcome \<times> kernel) option" where
  "tn_task_resume tp s =
     (case tp of
        None \<Rightarrow> Some (ret TERR_WRONG_PARAM, s)
      | Some task \<Rightarrow>
          if id_task (tcb s task) \<noteq> TN_ID_TASK then Some (ret TERR_NOEXS, s)
          else if check_non_int_context s then Some (ret TERR_WCONTEXT, s)
          else do {
            let (sr, s) = tn_cpu_save_sr s;
            (if \<not> has_bits (task_state (tcb s task)) TSK_STATE_SUSPEND then leave sr TERR_WSTATE s
             else if \<not> has_bits (task_state (tcb s task)) TSK_STATE_WAIT then
               do { s \<leftarrow> task_to_runnable task s; leave_reschedule sr s }
             else leave sr TERR_NO_ERR
                    (upd_tcb task (\<lambda>t. t\<lparr>task_state := task_state t AND NOT TSK_STATE_SUSPEND\<rparr>) s))
          })"

section \<open>Sleep and wake-up\<close>

definition tn_task_sleep :: "u32 \<Rightarrow> kernel \<Rightarrow> (outcome \<times> kernel) option" where
  "tn_task_sleep timeout s =
     (if timeout = 0 then Some (ret TERR_WRONG_PARAM, s)
      else if check_non_int_context s then Some (ret TERR_WCONTEXT, s)
      else do {
        let (sr, s) = tn_cpu_save_sr s;
        curr \<leftarrow> tn_curr_run_task s;
        (if wakeup_count (tcb s curr) > 0
         then leave sr TERR_NO_ERR (upd_tcb curr (\<lambda>t. t\<lparr>wakeup_count := wakeup_count t - 1\<rparr>) s)
         else do {
           s \<leftarrow> task_curr_to_wait_action None TSK_WAIT_REASON_SLEEP timeout s;
           leave_switch sr RetNoErr s
         })
      })"

text \<open>A wake-up of a task that does not sleep is counted, in the control block of the task that
  calls, not of the task that is woken up, as in the code.\<close>

definition count_wakeup :: "kernel \<Rightarrow> (int \<times> kernel) option" where
  "count_wakeup s =
     do {
       curr \<leftarrow> tn_curr_run_task s;
       Some (if wakeup_count (tcb s curr) = 0
             then (TERR_NO_ERR, upd_tcb curr (\<lambda>t. t\<lparr>wakeup_count := wakeup_count t + 1\<rparr>) s)
             else (TERR_OVERFLOW, s))
     }"

definition tn_task_wakeup :: "tptr \<Rightarrow> kernel \<Rightarrow> (outcome \<times> kernel) option" where
  "tn_task_wakeup tp s =
     (case tp of
        None \<Rightarrow> Some (ret TERR_WRONG_PARAM, s)
      | Some task \<Rightarrow>
          if id_task (tcb s task) \<noteq> TN_ID_TASK then Some (ret TERR_NOEXS, s)
          else if check_non_int_context s then Some (ret TERR_WCONTEXT, s)
          else do {
            let (sr, s) = tn_cpu_save_sr s;
            (if has_bits (task_state (tcb s task)) TSK_STATE_DORMANT then leave sr TERR_WCONTEXT s
             else if has_bits (task_state (tcb s task)) TSK_STATE_WAIT \<and>
                     task_wait_reason (tcb s task) = TSK_WAIT_REASON_SLEEP then
               do {
                 (sw, s) \<leftarrow> task_wait_complete (Some task) s;
                 (if sw then leave_switch sr RetNoErr s else leave sr TERR_NO_ERR s)
               }
             else do { (rc, s) \<leftarrow> count_wakeup s; leave sr rc s })
          })"

definition tn_task_iwakeup :: "tptr \<Rightarrow> kernel \<Rightarrow> (outcome \<times> kernel) option" where
  "tn_task_iwakeup tp s =
     (case tp of
        None \<Rightarrow> Some (ret TERR_WRONG_PARAM, s)
      | Some task \<Rightarrow>
          if id_task (tcb s task) \<noteq> TN_ID_TASK then Some (ret TERR_NOEXS, s)
          else if check_int_context s then Some (ret TERR_WCONTEXT, s)
          else if has_bits (task_state (tcb s task)) TSK_STATE_DORMANT then Some (ret TERR_WCONTEXT, s)
          else if has_bits (task_state (tcb s task)) TSK_STATE_WAIT \<and>
                  task_wait_reason (tcb s task) = TSK_WAIT_REASON_SLEEP then
            do {
              (sw, s) \<leftarrow> task_wait_complete (Some task) s;
              Some (ret TERR_NO_ERR, if sw then request_switch s else s)
            }
          else do { (rc, s) \<leftarrow> count_wakeup s; Some (ret rc, s) })"

section \<open>Activation\<close>

definition count_activation :: "tid \<Rightarrow> kernel \<Rightarrow> int \<times> kernel" where
  "count_activation task s =
     (if activate_count (tcb s task) = 0
      then (TERR_NO_ERR, upd_tcb task (\<lambda>t. t\<lparr>activate_count := activate_count t + 1\<rparr>) s)
      else (TERR_OVERFLOW, s))"

definition tn_task_activate :: "tptr \<Rightarrow> kernel \<Rightarrow> (outcome \<times> kernel) option" where
  "tn_task_activate tp s =
     (case tp of
        None \<Rightarrow> Some (ret TERR_WRONG_PARAM, s)
      | Some task \<Rightarrow>
          if id_task (tcb s task) \<noteq> TN_ID_TASK then Some (ret TERR_NOEXS, s)
          else if check_non_int_context s then Some (ret TERR_WCONTEXT, s)
          else do {
            let (sr, s) = tn_cpu_save_sr s;
            (if has_bits (task_state (tcb s task)) TSK_STATE_DORMANT then
               do { s \<leftarrow> task_to_runnable task s; leave_reschedule sr s }
             else case count_activation task s of (rc, s) \<Rightarrow> leave sr rc s)
          })"

definition tn_task_iactivate :: "tptr \<Rightarrow> kernel \<Rightarrow> (outcome \<times> kernel) option" where
  "tn_task_iactivate tp s =
     (case tp of
        None \<Rightarrow> Some (ret TERR_WRONG_PARAM, s)
      | Some task \<Rightarrow>
          if id_task (tcb s task) \<noteq> TN_ID_TASK then Some (ret TERR_NOEXS, s)
          else if check_int_context s then Some (ret TERR_WCONTEXT, s)
          else if has_bits (task_state (tcb s task)) TSK_STATE_DORMANT then
            do {
              s \<leftarrow> task_to_runnable task s;
              Some (ret TERR_NO_ERR,
                if tn_next_task_to_run s \<noteq> tn_curr_run_task s \<and> tn_enable_switch_context s \<noteq> 0
                then request_switch s else s)
            }
          else case count_activation task s of (rc, s) \<Rightarrow> Some (ret rc, s))"

section \<open>Release from a wait\<close>

definition tn_task_release_wait :: "tptr \<Rightarrow> kernel \<Rightarrow> (outcome \<times> kernel) option" where
  "tn_task_release_wait tp s =
     (case tp of
        None \<Rightarrow> Some (ret TERR_WRONG_PARAM, s)
      | Some task \<Rightarrow>
          if id_task (tcb s task) \<noteq> TN_ID_TASK then Some (ret TERR_NOEXS, s)
          else if check_non_int_context s then Some (ret TERR_WCONTEXT, s)
          else do {
            let (sr, s) = tn_cpu_save_sr s;
            (if \<not> has_bits (task_state (tcb s task)) TSK_STATE_WAIT then leave sr TERR_WCONTEXT s
             else do {
               (sw, s) \<leftarrow> task_wait_complete (Some task) s;
               (if sw then leave_switch sr RetNoErr s else leave sr TERR_NO_ERR s)
             })
          })"

definition tn_task_irelease_wait :: "tptr \<Rightarrow> kernel \<Rightarrow> (outcome \<times> kernel) option" where
  "tn_task_irelease_wait tp s =
     (case tp of
        None \<Rightarrow> Some (ret TERR_WRONG_PARAM, s)
      | Some task \<Rightarrow>
          if id_task (tcb s task) \<noteq> TN_ID_TASK then Some (ret TERR_NOEXS, s)
          else if check_int_context s then Some (ret TERR_WCONTEXT, s)
          else if \<not> has_bits (task_state (tcb s task)) TSK_STATE_WAIT then Some (ret TERR_WCONTEXT, s)
          else do {
            (sw, s) \<leftarrow> task_wait_complete (Some task) s;
            Some (ret TERR_NO_ERR, if sw then request_switch s else s)
          })"

section \<open>Exit, terminate, delete\<close>

text \<open>\<open>while(!is_queue_empty(&(task->mutex_queue))) { ... do_unlock_mutex(mutex); }\<close>\<close>

partial_function (option) unlock_all :: "tid \<Rightarrow> kernel \<Rightarrow> kernel option" where
  "unlock_all task s =
     (if \<not> is_queue_empty (TaskMutexQ task) (qh s) then
        do {
          (que, h) \<leftarrow> queue_remove_head (Some (TaskMutexQ task)) (qh s);
          mp \<leftarrow> get_mutex_by_mutex_queque que;
          m \<leftarrow> mp;
          (sw, s) \<leftarrow> do_unlock_mutex m (s\<lparr>qh := h\<rparr>);
          unlock_all task s
        }
      else Some s)"

text \<open>\<open>task_set_dormant_state(task); ptr_stack = tn_stack_init(...); task->task_stk = ptr_stack;\<close>\<close>

definition make_dormant :: "tid \<Rightarrow> kernel \<Rightarrow> kernel" where
  "make_dormant task s =
     (let s = task_set_dormant_state task s;
          (ptr_stack, s) = tn_stack_init (task_func_addr (tcb s task)) (stk_start (tcb s task))
                             (task_func_param (tcb s task)) s
      in upd_tcb task (\<lambda>t. t\<lparr>task_stk := ptr_stack\<rparr>) s)"

definition tn_switch_context_exit :: "kernel \<Rightarrow> kernel option" where
  "tn_switch_context_exit s = tn_switch_context s"

definition tn_task_exit :: "int \<Rightarrow> kernel \<Rightarrow> (outcome \<times> kernel) option" where
  "tn_task_exit attr s =
     (if check_int_context s then Some (ret 0, s)
      else do {
        let (sr, s) = tn_cpu_save_sr s;
        curr \<leftarrow> tn_curr_run_task s;
        s \<leftarrow> unlock_all curr s;
        task \<leftarrow> tn_curr_run_task s;
        s \<leftarrow> task_to_non_runnable task s;
        let s = make_dormant task s;
        s \<leftarrow> (if activate_count (tcb s task) > 0
               then task_to_runnable task (upd_tcb task (\<lambda>t. t\<lparr>activate_count := activate_count t - 1\<rparr>) s)
               else Some s);
        s \<leftarrow> (if attr = TN_EXIT_AND_DELETE_TASK
               then do {
                 s \<leftarrow> upd_qh (queue_remove_entry (CreateQ task)) s;
                 Some (upd_tcb task (\<lambda>t. t\<lparr>id_task := 0\<rparr>)
                         (s\<lparr>tn_created_tasks_qty := tn_created_tasks_qty s - 1\<rparr>))
               }
               else Some s);
        s \<leftarrow> tn_switch_context_exit (tn_cpu_restore_sr sr s);
        Some (Exited, s)
      })"

definition tn_task_terminate :: "tptr \<Rightarrow> kernel \<Rightarrow> (outcome \<times> kernel) option" where
  "tn_task_terminate tp s =
     (case tp of
        None \<Rightarrow> Some (ret TERR_WRONG_PARAM, s)
      | Some task \<Rightarrow>
          if id_task (tcb s task) \<noteq> TN_ID_TASK then Some (ret TERR_NOEXS, s)
          else if check_non_int_context s then Some (ret TERR_WCONTEXT, s)
          else do {
            let (sr, s) = tn_cpu_save_sr s;
            (if task_state (tcb s task) = TSK_STATE_DORMANT \<or> tn_curr_run_task s = Some task
             then leave sr TERR_WCONTEXT s
             else do {
               s \<leftarrow> (if task_state (tcb s task) = TSK_STATE_RUNNABLE then task_to_non_runnable task s
                      else if has_bits (task_state (tcb s task)) TSK_STATE_WAIT then
                        do {
                          s \<leftarrow> upd_qh (queue_remove_entry (TaskQ task)) s;
                          blocked \<leftarrow> queue_contains_entry BlockedTasks (BlockQ task) (qh s);
                          s \<leftarrow> (if blocked then upd_qh (queue_remove_entry (BlockQ task)) s else Some s);
                          (if tick_count (tcb s task) \<noteq> TN_WAIT_INFINITE
                           then upd_qh (queue_remove_entry (TimerQ task)) s else Some s)
                        }
                      else Some s);
               s \<leftarrow> unlock_all task s;
               let s = make_dormant task s;
               (if activate_count (tcb s task) > 0 then
                  do {
                    s \<leftarrow> task_to_runnable task (upd_tcb task (\<lambda>t. t\<lparr>activate_count := activate_count t - 1\<rparr>) s);
                    leave_reschedule sr s
                  }
                else leave sr TERR_NO_ERR s)
             })
          })"

definition tn_task_delete :: "tptr \<Rightarrow> kernel \<Rightarrow> (outcome \<times> kernel) option" where
  "tn_task_delete tp s =
     (case tp of
        None \<Rightarrow> Some (ret TERR_WRONG_PARAM, s)
      | Some task \<Rightarrow>
          if id_task (tcb s task) \<noteq> TN_ID_TASK then Some (ret TERR_NOEXS, s)
          else if check_non_int_context s then Some (ret TERR_WCONTEXT, s)
          else do {
            let (sr, s) = tn_cpu_save_sr s;
            (if task_state (tcb s task) \<noteq> TSK_STATE_DORMANT then leave sr TERR_WCONTEXT s
             else do {
               s \<leftarrow> upd_qh (queue_remove_entry (CreateQ task)) s;
               leave sr TERR_NO_ERR (upd_tcb task (\<lambda>t. t\<lparr>id_task := 0\<rparr>)
                 (s\<lparr>tn_created_tasks_qty := tn_created_tasks_qty s - 1\<rparr>))
             })
          })"

section \<open>Change of priority\<close>

definition tn_task_change_priority :: "tptr \<Rightarrow> int \<Rightarrow> kernel \<Rightarrow> (outcome \<times> kernel) option" where
  "tn_task_change_priority tp new_priority s =
     (case tp of
        None \<Rightarrow> Some (ret TERR_WRONG_PARAM, s)
      | Some task \<Rightarrow>
          if id_task (tcb s task) \<noteq> TN_ID_TASK then Some (ret TERR_NOEXS, s)
          else if new_priority < 0 \<or> new_priority > TN_NUM_PRIORITY - 2 then Some (ret TERR_WRONG_PARAM, s)
          else if check_non_int_context s then Some (ret TERR_WCONTEXT, s)
          else do {
            let (sr, s) = tn_cpu_save_sr s;
            let np = (if new_priority = 0 then base_priority (tcb s task) else new_priority);
            (if task_state (tcb s task) = TSK_STATE_DORMANT then leave sr TERR_WCONTEXT s
             else if task_state (tcb s task) = TSK_STATE_RUNNABLE then
               do {
                 (rc, s) \<leftarrow> change_running_task_priority task np s;
                 (if rc \<noteq> 0 then leave_switch sr RetNoErr s else leave sr TERR_NO_ERR s)
               }
             else leave sr TERR_NO_ERR (upd_tcb task (\<lambda>t. t\<lparr>priority := np\<rparr>) s))
          })"

end
