(* ===== verification/TN_Demo.thy ===== *)
theory TN_Demo
  imports TN_Call
begin

text \<open>
  A concrete state of the kernel, with tasks in every state and objects with waiting tasks, on
  which the witnesses of the properties are evaluated. \<open>demo\<close> satisfies the invariant
  \<open>kernel_ok\<close> with the lists \<open>demo_lists\<close>.
\<close>

section \<open>A heap with given lists\<close>

definition self_heap :: qheap where
  "self_heap q = \<lparr>q_prev = Some q, q_next = Some q\<rparr>"

fun build :: "(qaddr \<times> qaddr list) list \<Rightarrow> qheap \<Rightarrow> qheap option" where
  "build [] h = Some h"
| "build ((q, xs) # ps) h = do { h \<leftarrow> enq_all queue_add_tail q xs h; build ps h }"

definition lists_of :: "(qaddr \<times> qaddr list) list \<Rightarrow> qaddr \<Rightarrow> qaddr list" where
  "lists_of ps q = (case map_of ps q of None \<Rightarrow> [] | Some xs \<Rightarrow> xs)"

lemma self_heap_ok: "lists_ok self_heap H (\<lambda>_. [])"
proof -
  have "cdll self_heap q []" for q
    using cdll_Nil_iff [of self_heap q] by (simp add: is_queue_empty_def self_heap_def)
  then show ?thesis by (simp add: lists_ok_def)
qed

lemma build_ok:
  assumes "lists_ok h H L" and "distinct (map fst ps)" and "distinct (concat (map snd ps))"
    and "\<And>q xs. (q, xs) \<in> set ps \<Longrightarrow> q \<in> H \<and> L q = []"
    and "\<And>e. e \<in> set (concat (map snd ps)) \<Longrightarrow> e \<notin> H \<and> \<not> queued H L e"
  shows "\<exists>h'. build ps h = Some h' \<and> lists_ok h' H (\<lambda>q. case map_of ps q of None \<Rightarrow> L q | Some xs \<Rightarrow> xs)"
  using assms
proof (induction ps arbitrary: h L)
  case Nil
  then show ?case by simp
next
  case (Cons p ps)
  obtain q xs where p: "p = (q, xs)" by (cases p)
  have q: "q \<in> H" "L q = []" using Cons.prems(4) p by auto
  have xs: "distinct xs" "\<And>e. e \<in> set xs \<Longrightarrow> e \<notin> H \<and> \<not> queued H L e"
    using Cons.prems(3,5) p by auto
  obtain h1 where h1: "enq_all queue_add_tail q xs h = Some h1" "lists_ok h1 H (L(q := xs))"
    using wq.enq_all_rep [OF Cons.prems(1) q(1) xs] q(2) by auto
  have "\<exists>h'. build ps h1 = Some h' \<and>
      lists_ok h' H (\<lambda>u. case map_of ps u of None \<Rightarrow> (L(q := xs)) u | Some ys \<Rightarrow> ys)"
  proof (rule Cons.IH [OF h1(2)])
    show "distinct (map fst ps)" "distinct (concat (map snd ps))" using Cons.prems(2,3) p by auto
    fix q' ys assume "(q', ys) \<in> set ps"
    then show "q' \<in> H \<and> (L(q := xs)) q' = []" using Cons.prems(2,4) p by force
  next
    fix e assume "e \<in> set (concat (map snd ps))"
    then show "e \<notin> H \<and> \<not> queued H (L(q := xs)) e"
      using Cons.prems(3,5) p by (auto simp: queued_def split: if_splits)
  qed
  moreover have "map_of ps q = None" using Cons.prems(2) p by (simp add: map_of_eq_None_iff)
  then have "(\<lambda>u. case map_of ps u of None \<Rightarrow> (L(q := xs)) u | Some ys \<Rightarrow> ys) =
      (\<lambda>u. case map_of (p # ps) u of None \<Rightarrow> L u | Some ys \<Rightarrow> ys)"
    using p by (auto simp: fun_eq_iff split: option.splits)
  ultimately show ?case using h1(1) p by simp
qed

section \<open>Tasks and objects\<close>

definition zero_tcb :: tn_tcb where
  "zero_tcb = \<lparr>task_stk = 0, pwait_queue = None, blk_task = None, stk_start = 0, stk_size = 0,
     task_func_addr = 0, task_func_param = 0, base_priority = 0, priority = 0, id_task = 0,
     task_state = 0, task_wait_reason = 0, task_wait_rc = 0, tick_count = 0, tslice_count = 0,
     ewait_pattern = 0, ewait_mode = 0, data_elem = 0, activate_count = 0, wakeup_count = 0,
     suspend_count = 0\<rparr>"

definition demo_task :: "int \<Rightarrow> u32 \<Rightarrow> u32 \<Rightarrow> qptr \<Rightarrow> tn_tcb" where
  "demo_task p st reason q = zero_tcb\<lparr>id_task := TN_ID_TASK, priority := p, base_priority := p,
     task_state := st, task_wait_reason := reason, pwait_queue := q, tick_count := TN_WAIT_INFINITE\<rparr>"

definition demo_tcb :: "tid \<Rightarrow> tn_tcb" where
  "demo_tcb = (\<lambda>_. zero_tcb)
     (0 := demo_task 0 TSK_STATE_WAIT TSK_WAIT_REASON_SLEEP None,
      1 := demo_task 31 TSK_STATE_RUNNABLE 0 None,
      2 := demo_task 5 TSK_STATE_RUNNABLE 0 None,
      3 := demo_task 7 TSK_STATE_WAIT TSK_WAIT_REASON_SEM (Some (SemWaitQ 0)),
      4 := (demo_task 8 TSK_STATE_WAIT TSK_WAIT_REASON_EVENT (Some (EventWaitQ 0)))
             \<lparr>ewait_pattern := 1, ewait_mode := TN_EVENT_WCOND_OR\<rparr>,
      5 := demo_task 9 TSK_STATE_WAIT TSK_WAIT_REASON_DQUE_WRECEIVE (Some (DqueRecvQ 0)),
      6 := (demo_task 10 TSK_STATE_WAIT TSK_WAIT_REASON_DQUE_WSEND (Some (DqueSendQ 1)))
             \<lparr>data_elem := 66\<rparr>,
      7 := demo_task 11 TSK_STATE_WAIT TSK_WAIT_REASON_WFIXMEM (Some (FmpWaitQ 0)),
      8 := (demo_task 12 TSK_STATE_WAIT TSK_WAIT_REASON_MUTEX_I (Some (MutexWaitQ 0)))
             \<lparr>tick_count := 100\<rparr>,
      9 := demo_task 6 TSK_STATE_SUSPEND 0 None,
      10 := demo_task 13 TSK_STATE_DORMANT 0 None)"

definition demo_lists_alist :: "(qaddr \<times> qaddr list) list" where
  "demo_lists_alist =
     [(ReadyList 31, [TaskQ 1]), (ReadyList 5, [TaskQ 2]),
      (CreateQueue, [CreateQ 0, CreateQ 1, CreateQ 2, CreateQ 3, CreateQ 4, CreateQ 5, CreateQ 6,
                     CreateQ 7, CreateQ 8, CreateQ 9, CreateQ 10]),
      (TimeoutList, [TimerQ 8]), (SemWaitQ 0, [TaskQ 3]), (EventWaitQ 0, [TaskQ 4]),
      (DqueRecvQ 0, [TaskQ 5]), (DqueSendQ 1, [TaskQ 6]), (FmpWaitQ 0, [TaskQ 7]),
      (MutexWaitQ 0, [TaskQ 8]), (TaskMutexQ 2, [MutexQ 0])]"

definition demo_lists :: "qaddr \<Rightarrow> qaddr list" where
  "demo_lists = lists_of demo_lists_alist"

definition demo :: kernel where
  "demo = \<lparr>qh = the (build demo_lists_alist self_heap),
     mem = (\<lambda>_. 0)(0x2000 := 65, 0x4000 := 0x4010),
     tcb = demo_tcb,
     sem = (\<lambda>_. \<lparr>count = 0, max_count = 0, id_sem = 0\<rparr>)
       (0 := \<lparr>count = 0, max_count = 2, id_sem = TN_ID_SEMAPHORE\<rparr>,
        1 := \<lparr>count = 1, max_count = 3, id_sem = TN_ID_SEMAPHORE\<rparr>),
     event = (\<lambda>_. \<lparr>e_attr = 0, pattern = 0, id_event = 0\<rparr>)
       (0 := \<lparr>e_attr = 5, pattern = 0, id_event = TN_ID_EVENT\<rparr>),
     dque = (\<lambda>_. \<lparr>data_fifo = 0, num_entries = 0, tail_cnt = 0, header_cnt = 0, id_dque = 0\<rparr>)
       (0 := \<lparr>data_fifo = 0x1000, num_entries = 4, tail_cnt = 0, header_cnt = 0, id_dque = TN_ID_DATAQUEUE\<rparr>,
        1 := \<lparr>data_fifo = 0x2000, num_entries = 2, tail_cnt = 0, header_cnt = 1, id_dque = TN_ID_DATAQUEUE\<rparr>),
     fmp = (\<lambda>_. \<lparr>block_size = 0, num_blocks = 0, start_addr = 0, free_list = 0, fblkcnt = 0, id_fmp = 0\<rparr>)
       (0 := \<lparr>block_size = 16, num_blocks = 2, start_addr = 0x3000, free_list = 0, fblkcnt = 0,
               id_fmp = TN_ID_FSMEMORYPOOL\<rparr>,
        1 := \<lparr>block_size = 16, num_blocks = 2, start_addr = 0x4000, free_list = 0x4000, fblkcnt = 2,
               id_fmp = TN_ID_FSMEMORYPOOL\<rparr>),
     mutex = (\<lambda>_. \<lparr>m_attr = 0, holder = None, ceil_priority = 0, cnt = 0, id_mutex = 0\<rparr>)
       (0 := \<lparr>m_attr = TN_MUTEX_ATTR_INHERIT, holder = Some 2, ceil_priority = 0, cnt = 0, id_mutex = TN_ID_MUTEX\<rparr>,
        1 := \<lparr>m_attr = TN_MUTEX_ATTR_CEILING, holder = None, ceil_priority = 4, cnt = 0, id_mutex = TN_ID_MUTEX\<rparr>),
     tn_created_tasks_qty = 11, tn_tslice_ticks = (\<lambda>_. 0), tn_system_state = TN_ST_STATE_RUNNING,
     tn_next_task_to_run = Some 2, tn_curr_run_task = Some 2, tn_enable_switch_context = 1,
     tn_context_switch_request = 0, tn_int_counter = 0, tn_ready_to_run_bmp = 0x80000020,
     tn_idle_count = 0, cpsr = 0x13, addr_tn_task_exit = 0x8000\<rparr>"

lemmas demo_defs = demo_def demo_tcb_def demo_task_def zero_tcb_def

lemma demo_head:
  "(q, xs) \<in> set demo_lists_alist \<Longrightarrow> q \<in> heads demo"
  by (auto simp: demo_lists_alist_def is_task_def demo_defs)

lemma demo_lists_ok: "lists_ok (qh demo) (heads demo) demo_lists"
proof -
  have "\<exists>h'. build demo_lists_alist self_heap = Some h' \<and>
      lists_ok h' (heads demo) (\<lambda>q. case map_of demo_lists_alist q of None \<Rightarrow> [] | Some xs \<Rightarrow> xs)"
  proof (rule build_ok [OF self_heap_ok])
    show "distinct (map fst demo_lists_alist)" "distinct (concat (map snd demo_lists_alist))"
      by (simp_all add: demo_lists_alist_def)
    show "q \<in> heads demo \<and> [] = []" if "(q, xs) \<in> set demo_lists_alist" for q xs
      using demo_head that by auto
    show "e \<notin> heads demo \<and> \<not> queued (heads demo) (\<lambda>_. []) e"
      if "e \<in> set (concat (map snd demo_lists_alist))" for e
      using that by (auto simp: demo_lists_alist_def queued_def)
  qed
  then show ?thesis by (auto simp: demo_def demo_lists_def lists_of_def [abs_def])
qed

lemma demo_placed: "placed (qh demo) (heads demo) demo_lists (home demo)"
  unfolding placed_def
proof (intro conjI ballI allI iffI)
  show "lists_ok (qh demo) (heads demo) demo_lists" by (rule demo_lists_ok)
next
  fix q e assume "e \<in> set (demo_lists q)"
  then show "home demo e = Some q"
    by (auto simp: demo_lists_def lists_of_def demo_lists_alist_def is_task_def demo_defs task_home_def
        timer_home_def mutex_home_def split: if_splits)
next
  fix q e assume q: "q \<in> heads demo" and h: "home demo e = Some q"
  show "e \<in> set (demo_lists q)"
  proof (cases e)
    case (TaskQ t)
    then have "is_task demo t" "task_home (demo_tcb t) = Some q" using h by (auto simp: demo_def split: if_splits)
    then show ?thesis
      unfolding TaskQ demo_lists_def lists_of_def demo_lists_alist_def is_task_def
      by (auto simp: demo_defs task_home_def split: if_splits)
  next
    case (TimerQ t)
    then have "is_task demo t" "timer_home (demo_tcb t) = Some q" using h by (auto simp: demo_def split: if_splits)
    then show ?thesis
      unfolding TimerQ demo_lists_def lists_of_def demo_lists_alist_def is_task_def
      by (auto simp: demo_defs timer_home_def split: if_splits)
  next
    case (CreateQ t)
    then have "is_task demo t" "q = CreateQueue" using h by (auto split: if_splits)
    then show ?thesis
      unfolding CreateQ demo_lists_def lists_of_def demo_lists_alist_def is_task_def
      by (auto simp: demo_defs split: if_splits)
  qed (use h in \<open>auto simp: demo_defs block_home_def mutex_home_def lock_home_def is_task_def
         demo_lists_def lists_of_def demo_lists_alist_def split: if_splits\<close>)
qed

lemma demo_bmp: "0 \<le> p \<Longrightarrow> p < 32 \<Longrightarrow> bit (0x80000020 :: u32) (nat p) \<longleftrightarrow> p = 5 \<or> p = 31"
proof -
  have "list_all (\<lambda>n. bit (0x80000020 :: u32) n \<longleftrightarrow> n = 5 \<or> n = 31) [0..<32]"
    by (simp add: upt_rec bit_numeral_rec)
  then have "bit (0x80000020 :: u32) n \<longleftrightarrow> n = 5 \<or> n = 31" if "n < 32" for n
    using that by (simp add: list_all_iff)
  then show "0 \<le> p \<Longrightarrow> p < 32 \<Longrightarrow> ?thesis" by (simp add: nat_less_iff nat_eq_iff)
qed

lemma demo_lists_ready: "demo_lists (ReadyList p) = (if p = 31 then [TaskQ 1] else if p = 5 then [TaskQ 2] else [])"
  by (simp add: demo_lists_def lists_of_def demo_lists_alist_def)

lemma demo_sched: "sched_ok demo demo_lists (home demo)"
proof -
  have "ready_ok demo demo_lists (home demo)"
    unfolding ready_ok_def
    using demo_placed demo_bmp
    by (auto simp: demo_lists_ready demo_def demo_tcb_def demo_task_def)
  moreover have "next_ok demo demo_lists (home demo)"
    by (auto simp: next_ok_def demo_lists_ready demo_defs is_task_def task_home_def)
  ultimately show ?thesis by (simp add: sched_ok_def)
qed

lemma demo_fields:
  assumes "is_task demo t"
  shows "task_fields_ok demo (tcb demo t)"
proof -
  have t: "t \<in> {0, 1, 2, 3, 4, 5, 6, 7, 8, 9, 10}"
    using assms by (auto simp: is_task_def demo_defs split: if_splits)
  have tcb: "tcb demo = demo_tcb" by (simp add: demo_def)
  have ids: "id_sem (sem demo 0) = TN_ID_SEMAPHORE" "id_event (event demo 0) = TN_ID_EVENT"
    "id_dque (dque demo 0) = TN_ID_DATAQUEUE" "id_dque (dque demo (Suc 0)) = TN_ID_DATAQUEUE"
    "id_fmp (fmp demo 0) = TN_ID_FSMEMORYPOOL" "id_mutex (mutex demo 0) = TN_ID_MUTEX"
    by (simp_all add: demo_def)
  show ?thesis
    using t unfolding tcb
    by (elim insertE; simp add: task_fields_ok_def demo_tcb_def demo_task_def zero_tcb_def ids)
qed

lemma demo_ok: "kernel_ok demo demo_lists"
  unfolding kernel_ok_def
  using demo_sched demo_fields
  by (auto simp: demo_defs is_task_def)

lemma demo_curr: "curr_ok demo" "other_ready demo" "tn_curr_run_task demo = Some 2"
  "\<not> check_non_int_context demo"
proof -
  show "curr_ok demo" by (simp add: curr_ok_def demo_defs is_task_def)
  show "other_ready demo"
    unfolding other_ready_def by (rule exI [of _ 1]) (simp add: demo_defs is_task_def)
  show "tn_curr_run_task demo = Some 2" by (simp add: demo_def)
  show "\<not> check_non_int_context demo"
    by (simp add: check_non_int_context_def demo_def tn_chk_irq_disabled_def)
qed

end
