(* ===== verification/TN_Mutex_Inv.thy ===== *)
theory TN_Mutex_Inv
  imports TN_Mutex TN_Demo
begin

text \<open>
  Correctness of the mutexes: what the routines compute (the highest priority among waiting tasks,
  the test of the ceiling protocol), the inheritance of a priority along a chain of blocked
  tasks, and the lock and unlock calls on a mutex with priority inheritance.
\<close>

section \<open>The invariant and the holder of a mutex\<close>

lemma home_upd_mutex:
  "home (upd_mutex m f s) = (home s)(MutexQ m := mutex_home (f (mutex s m)), LockMutexQ m := lock_home (f (mutex s m)))"
proof
  fix e
  show "home (upd_mutex m f s) e =
      ((home s)(MutexQ m := mutex_home (f (mutex s m)), LockMutexQ m := lock_home (f (mutex s m)))) e"
    by (cases e) auto
qed

lemma kernel_upd_mutex:
  assumes ok: "kernel_ok s L" and id: "id_mutex (mutex s m) = TN_ID_MUTEX"
    and f: "id_mutex (f (mutex s m)) = id_mutex (mutex s m)" "m_attr (f (mutex s m)) = m_attr (mutex s m)"
      "\<And>t. holder (f (mutex s m)) = Some t \<Longrightarrow> is_task s t"
    and pl: "placed h' (heads s) L' ((home s)(MutexQ m := mutex_home (f (mutex s m)), LockMutexQ m := lock_home (f (mutex s m))))"
    and rl: "\<And>p. L' (ReadyList p) = L (ReadyList p)"
  shows "kernel_ok ((upd_mutex m f s)\<lparr>qh := h'\<rparr>) L'"
proof -
  let ?s = "(upd_mutex m f s)\<lparr>qh := h'\<rparr>"
  have hd: "heads ?s = heads s" using f(1,2) by simp
  have "sched_ok (s\<lparr>qh := h'\<rparr>) L' (home ?s)"
    using sched_other [OF kernel_sched [OF ok] pl rl] by (simp add: home_upd_mutex)
  then have "sched_ok ?s L' (home ?s)"
    using f(1,2) by (simp add: sched_ok_def ready_ok_def next_ok_def cong: option.case_cong)
  moreover have "m_attr (mutex ?s n) \<in> {TN_MUTEX_ATTR_CEILING, TN_MUTEX_ATTR_INHERIT} \<and>
      (\<forall>t. holder (mutex ?s n) = Some t \<longrightarrow> is_task ?s t)" if n: "id_mutex (mutex ?s n) = TN_ID_MUTEX" for n
  proof (cases "n = m")
    case True
    then show ?thesis using kernel_mutex [OF ok id] f(2,3) by simp
  next
    case False
    then have "id_mutex (mutex s n) = TN_ID_MUTEX" using n by simp
    from kernel_mutex [OF ok this] False show ?thesis by simp
  qed
  ultimately show ?thesis
    using ok by (simp add: kernel_ok_def task_fields_cong [OF hd])
qed

section \<open>What the loops compute\<close>

text \<open>\<open>find_max_blocked_priority\<close>: the smallest number, that is the highest priority, among the tasks
  that wait for a mutex and the reference.\<close>

definition waiting_prios :: "kernel \<Rightarrow> qaddr list \<Rightarrow> int list" where
  "waiting_prios s es = map (\<lambda>e. case e of TaskQ t \<Rightarrow> priority (tcb s t) | _ \<Rightarrow> 0) es"

lemma max_blocked_loop_eq:
  assumes pl: "placed (qh s) H L P" and q: "q \<in> H" and tasks: "\<And>e. e \<in> set (L q) \<Longrightarrow> \<exists>t. e = TaskQ t"
  shows "L q = pre @ e # es \<Longrightarrow>
    max_blocked_loop q (Some e) prio s = Some (fold min (waiting_prios s (e # es)) prio)"
proof (induction es arbitrary: pre e prio)
  case Nil
  obtain t where t: "e = TaskQ t" using tasks [of e] Nil by auto
  have nx: "q_next (qh s e) = Some q" using placed_next_entry [OF pl q Nil] by simp
  show ?case using t nx
    by (subst max_blocked_loop.simps) (auto simp: get_task_by_tsk_queue_def waiting_prios_def min_def)
next
  case (Cons x xs)
  obtain t where t: "e = TaskQ t" using tasks [of e] Cons.prems by auto
  have nx: "q_next (qh s e) = Some x" using placed_next_entry [OF pl q Cons.prems] by simp
  have "x \<in> set (L q)" using Cons.prems by simp
  then have xq: "x \<noteq> q"
    using cdll_distinct [OF lists_ok_cdll [OF placed_lists_ok [OF pl] q]] by auto
  have ih: "max_blocked_loop q (Some x) p s = Some (fold min (waiting_prios s (x # xs)) p)" for p
    using Cons.IH [of "pre @ [e]" x p] Cons.prems by simp
  have "max_blocked_loop q (Some e) prio s = max_blocked_loop q (Some x) (min (priority (tcb s t)) prio) s"
    using t nx xq by (subst max_blocked_loop.simps) (simp add: get_task_by_tsk_queue_def min_def)
  then show ?case using ih t by (simp add: waiting_prios_def)
qed

lemma fold_min_Min: "fold min ps (p :: int) = Min (insert p (set ps))"
proof (induction ps arbitrary: p)
  case (Cons x xs)
  have "Min (insert (min x p) (set xs)) = Min (insert p (insert x (set xs)))"
    by (cases "xs = []") (simp_all add: min.assoc min.commute min.left_commute)
  then show ?case using Cons by simp
qed simp

lemma find_max_at:
  assumes pl: "placed (qh s) H L P" and q: "MutexWaitQ m \<in> H" and tasks: "\<And>e. e \<in> set (L (MutexWaitQ m)) \<Longrightarrow> \<exists>t. e = TaskQ t"
    and a: "m_attr (mutex s m) \<in> {TN_MUTEX_ATTR_CEILING, TN_MUTEX_ATTR_INHERIT}"
  shows "find_max_blocked_priority m ref s =
    Some (Min (insert ref {priority (tcb s t) | t. TaskQ t \<in> set (L (MutexWaitQ m))}))"
proof -
  have "set (waiting_prios s (L (MutexWaitQ m))) = {priority (tcb s t) | t. TaskQ t \<in> set (L (MutexWaitQ m))}"
    using tasks by (force simp: waiting_prios_def image_iff split: qaddr.splits)
  moreover have "find_max_blocked_priority m ref s = Some (fold min (waiting_prios s (L (MutexWaitQ m))) ref)"
  proof (cases "L (MutexWaitQ m)")
    case Nil
    then show ?thesis using placed_empty [OF pl q] by (simp add: find_max_blocked_priority_def waiting_prios_def)
  next
    case (Cons e es)
    have "q_next (qh s (MutexWaitQ m)) = Some e" by (rule placed_next [OF pl q Cons])
    then show ?thesis
      using max_blocked_loop_eq [OF pl q tasks, of "[]" e es ref] Cons placed_empty [OF pl q] a
      by (auto simp: find_max_blocked_priority_def)
  qed
  ultimately show ?thesis by (simp add: fold_min_Min)
qed

lemma mutex_waiter:
  assumes ok: "kernel_ok s L" and id: "id_mutex (mutex s m) = TN_ID_MUTEX" and e: "e \<in> set (L (MutexWaitQ m))"
  shows "\<exists>t. e = TaskQ t"
  using wait_queue_entry [OF ok _ _ e] id by auto

text \<open>\<open>find_max_blocked_priority\<close> is the highest priority among the tasks that wait for the mutex and
  the reference priority.\<close>

theorem find_max_blocked_priority_eq:
  assumes ok: "kernel_ok s L" and id: "id_mutex (mutex s m) = TN_ID_MUTEX"
  shows "find_max_blocked_priority m ref s =
    Some (Min (insert ref {priority (tcb s t) | t. TaskQ t \<in> set (L (MutexWaitQ m))}))"
  using find_max_at [OF kernel_placed [OF ok] _ mutex_waiter [OF ok id]] kernel_mutex [OF ok id] id by auto

theorem find_max_blocked_priority_eq_witness:
  "find_max_blocked_priority 0 20 demo = Some 12"
proof -
  have id: "id_mutex (mutex demo 0) = TN_ID_MUTEX" by (simp add: demo_def)
  have "{priority (tcb demo t) | t. TaskQ t \<in> set (demo_lists (MutexWaitQ 0))} = {12}"
    by (auto simp: demo_lists_def lists_of_def demo_lists_alist_def demo_def demo_tcb_def demo_task_def)
  with find_max_blocked_priority_eq [OF demo_ok id, of 20] show ?thesis by simp
qed

section \<open>The test of the ceiling protocol\<close>

text \<open>The ceiling mutexes that others hold and whose ceiling is above the priority of the task.\<close>

definition blockers :: "kernel \<Rightarrow> (qaddr \<Rightarrow> qaddr list) \<Rightarrow> tid \<Rightarrow> oid set" where
  "blockers s L t = {m. LockMutexQ m \<in> set (L LockedMutexes) \<and> holder (mutex s m) \<noteq> Some t \<and>
                        ceil_priority (mutex s m) < priority (tcb s t)}"

definition blocked_by :: "kernel \<Rightarrow> tid \<Rightarrow> qaddr \<Rightarrow> bool" where
  "blocked_by s t e = (case e of LockMutexQ m \<Rightarrow> holder (mutex s m) \<noteq> Some t \<and>
                        ceil_priority (mutex s m) < priority (tcb s t) | _ \<Rightarrow> False)"

lemma locked_entry:
  assumes ok: "kernel_ok s L" and e: "e \<in> set (L LockedMutexes)"
  shows "\<exists>m t. e = LockMutexQ m \<and> id_mutex (mutex s m) = TN_ID_MUTEX \<and> m_attr (mutex s m) = TN_MUTEX_ATTR_CEILING \<and>
    holder (mutex s m) = Some t"
proof -
  have h: "home s e = Some LockedMutexes" using kernel_entry [OF ok, of LockedMutexes e] e by simp
  show ?thesis
  proof (cases e)
    case (LockMutexQ m)
    then show ?thesis using h by (auto simp: lock_home_def split: if_splits)
  next
    case (TaskQ t)
    then have "is_task s t" "task_home (tcb s t) = Some LockedMutexes" using h by (simp_all split: if_splits)
    then have False using kernel_task [OF ok, of t] by (auto simp: task_home_def task_fields_ok_def split: if_splits)
    then show ?thesis ..
  qed (use h in \<open>auto simp: timer_home_def block_home_def mutex_home_def split: if_splits\<close>)
qed

definition best_blocker :: "kernel \<Rightarrow> tid \<Rightarrow> qaddr list \<Rightarrow> int \<Rightarrow> tptr \<Rightarrow> int \<Rightarrow> tptr \<Rightarrow> bool" where
  "best_blocker s t es prio0 blk0 prio blk \<longleftrightarrow>
     (blk = blk0 \<and> prio = prio0 \<or>
      (\<exists>m. LockMutexQ m \<in> set es \<and> blocked_by s t (LockMutexQ m) \<and> ceil_priority (mutex s m) = prio \<and>
           blk = holder (mutex s m))) \<and>
     prio0 \<le> prio \<and>
     (\<forall>m. LockMutexQ m \<in> set es \<and> blocked_by s t (LockMutexQ m) \<longrightarrow> ceil_priority (mutex s m) \<le> prio)"

lemma enable_lock_loop_eq:
  assumes ok: "kernel_ok s L"
  shows "L LockedMutexes = pre @ e # es \<Longrightarrow>
    \<exists>prio blk. enable_lock_loop (Some t) (Some e) r prio0 blk0 s =
       Some (r \<and> \<not> list_ex (blocked_by s t) (e # es), blk) \<and> best_blocker s t (e # es) prio0 blk0 prio blk"
proof (induction es arbitrary: pre e r prio0 blk0)
  case Nil
  obtain m u where m: "e = LockMutexQ m" "m_attr (mutex s m) = TN_MUTEX_ATTR_CEILING" "holder (mutex s m) = Some u"
    using locked_entry [OF ok, of e] Nil by auto
  have nx: "q_next (qh s e) = Some LockedMutexes"
    using placed_next_entry [OF kernel_placed [OF ok] _ Nil] by simp
  let ?b = "blocked_by s t e" and ?c = "ceil_priority (mutex s m)"
  have b: "blocks_lock (Some t) m s = Some ?b" using m by (simp add: blocks_lock_def blocked_by_def)
  have "enable_lock_loop (Some t) (Some e) r prio0 blk0 s =
      Some (r \<and> \<not> ?b, if ?b \<and> ?c > prio0 then holder (mutex s m) else blk0)"
    using m nx b by (subst enable_lock_loop.simps) (simp add: get_mutex_by_lock_mutex_queque_def)
  moreover have "best_blocker s t [e] prio0 blk0 (if ?b \<and> ?c > prio0 then ?c else prio0)
      (if ?b \<and> ?c > prio0 then holder (mutex s m) else blk0)"
    using m(1) by (auto simp: best_blocker_def)
  ultimately show ?case by auto
next
  case (Cons x xs)
  obtain m u where m: "e = LockMutexQ m" "m_attr (mutex s m) = TN_MUTEX_ATTR_CEILING" "holder (mutex s m) = Some u"
    using locked_entry [OF ok, of e] Cons.prems by auto
  have nx: "q_next (qh s e) = Some x"
    using placed_next_entry [OF kernel_placed [OF ok] _ Cons.prems] by simp
  have xq: "x \<noteq> LockedMutexes" using locked_entry [OF ok, of x] Cons.prems by auto
  let ?b = "blocked_by s t e" and ?c = "ceil_priority (mutex s m)"
  have b: "blocks_lock (Some t) m s = Some ?b" using m by (simp add: blocks_lock_def blocked_by_def)
  let ?p = "if ?b \<and> ?c > prio0 then ?c else prio0"
  let ?h = "if ?b \<and> ?c > prio0 then holder (mutex s m) else blk0"
  have step: "enable_lock_loop (Some t) (Some e) r prio0 blk0 s =
      enable_lock_loop (Some t) (Some x) (r \<and> \<not> ?b) ?p ?h s"
    using m nx xq b by (subst enable_lock_loop.simps) (simp add: get_mutex_by_lock_mutex_queque_def)
  have "L LockedMutexes = (pre @ [e]) @ x # xs" using Cons.prems by simp
  from Cons.IH [OF this, of "r \<and> \<not> ?b" ?p ?h] obtain prio blk where
    "enable_lock_loop (Some t) (Some x) (r \<and> \<not> ?b) ?p ?h s =
       Some ((r \<and> \<not> ?b) \<and> \<not> list_ex (blocked_by s t) (x # xs), blk)"
    and bb: "best_blocker s t (x # xs) ?p ?h prio blk" by blast
  moreover have "best_blocker s t (e # x # xs) prio0 blk0 prio blk"
    using bb m(1) unfolding best_blocker_def by (auto split: if_splits)
  ultimately show ?case unfolding step by auto
qed

text \<open>The ceilings that \<open>tn_mutex_create\<close> admits.\<close>

definition ceilings_ok :: "kernel \<Rightarrow> bool" where
  "ceilings_ok s \<longleftrightarrow>
     (\<forall>m. id_mutex (mutex s m) = TN_ID_MUTEX \<and> m_attr (mutex s m) = TN_MUTEX_ATTR_CEILING \<longrightarrow>
        1 \<le> ceil_priority (mutex s m) \<and> ceil_priority (mutex s m) \<le> TN_NUM_PRIORITY - 2)"

lemma enable_lock_mutex_eq:
  assumes ok: "kernel_ok s L" and c: "ceilings_ok s"
  shows "\<exists>b blk. enable_lock_mutex (Some t) s = Some (b, blk) \<and> (b \<longleftrightarrow> blockers s L t = {}) \<and> (b \<longrightarrow> blk = None) \<and>
    (\<not> b \<longrightarrow> (\<exists>m \<in> blockers s L t. blk = holder (mutex s m) \<and>
       (\<forall>n \<in> blockers s L t. ceil_priority (mutex s n) \<le> ceil_priority (mutex s m))))"
proof (cases "L LockedMutexes")
  case Nil
  then have "enable_lock_mutex (Some t) s = Some (True, None)" "blockers s L t = {}"
    using kernel_empty [OF ok, of LockedMutexes] by (simp_all add: enable_lock_mutex_def blockers_def)
  then show ?thesis by (intro exI [of _ True] exI [of _ None]) simp
next
  case (Cons e es)
  have nx: "q_next (qh s LockedMutexes) = Some e" by (rule placed_next [OF kernel_placed [OF ok] _ Cons]) simp
  have "L LockedMutexes = [] @ e # es" using Cons by simp
  from enable_lock_loop_eq [OF ok this, of t True 0 None] obtain prio blk where
    run: "enable_lock_loop (Some t) (Some e) True 0 None s = Some (\<not> list_ex (blocked_by s t) (e # es), blk)"
    and bb: "best_blocker s t (L LockedMutexes) 0 None prio blk" using Cons by auto
  have bl: "m \<in> blockers s L t \<longleftrightarrow> LockMutexQ m \<in> set (L LockedMutexes) \<and> blocked_by s t (LockMutexQ m)" for m
    by (auto simp: blockers_def blocked_by_def)
  have ex: "list_ex (blocked_by s t) (L LockedMutexes) \<longleftrightarrow> blockers s L t \<noteq> {}"
  proof
    assume "list_ex (blocked_by s t) (L LockedMutexes)"
    then obtain x where x: "x \<in> set (L LockedMutexes)" "blocked_by s t x" unfolding list_ex_iff by blast
    from x(2) obtain m where "x = LockMutexQ m" by (auto simp: blocked_by_def split: qaddr.splits)
    with x have "m \<in> blockers s L t" using bl [of m] by simp
    then show "blockers s L t \<noteq> {}" by blast
  next
    assume "blockers s L t \<noteq> {}"
    then obtain m where "m \<in> blockers s L t" by blast
    then show "list_ex (blocked_by s t) (L LockedMutexes)" using bl [of m] unfolding list_ex_iff by blast
  qed
  have pos: "1 \<le> ceil_priority (mutex s m)" if "m \<in> blockers s L t" for m
    using locked_entry [OF ok, of "LockMutexQ m"] c that by (auto simp: blockers_def ceilings_ok_def)
  have ex': "(\<not> list_ex (blocked_by s t) (e # es)) = (blockers s L t = {})"
    using ex unfolding Cons by blast
  have res: "enable_lock_mutex (Some t) s = Some (blockers s L t = {}, blk)"
    using run [unfolded ex'] nx Cons kernel_empty [OF ok, of LockedMutexes] by (simp add: enable_lock_mutex_def)
  show ?thesis
  proof (cases "blockers s L t = {}")
    case True
    then have "blk = None" using bb bl by (auto simp: best_blocker_def)
    with True res show ?thesis by (intro exI [of _ True] exI [of _ None]) simp
  next
    case False
    then obtain n where n: "n \<in> blockers s L t" by blast
    then have "0 < prio" using bb pos [OF n] bl [of n] by (auto simp: best_blocker_def)
    then obtain m where "m \<in> blockers s L t" "ceil_priority (mutex s m) = prio" "blk = holder (mutex s m)"
      using bb bl by (auto simp: best_blocker_def)
    moreover have "\<forall>n \<in> blockers s L t. ceil_priority (mutex s n) \<le> prio"
      using bb bl by (auto simp: best_blocker_def)
    ultimately show ?thesis using res False by (intro exI [of _ False] exI [of _ blk]) auto
  qed
qed

text \<open>The rule of the priority ceiling protocol: a task may lock if its priority is strictly higher, that is its
  number smaller, than the ceilings of all mutexes that other tasks hold.\<close>

definition above_ceilings :: "kernel \<Rightarrow> (qaddr \<Rightarrow> qaddr list) \<Rightarrow> tid \<Rightarrow> bool" where
  "above_ceilings s L t \<longleftrightarrow>
     (\<forall>m u. LockMutexQ m \<in> set (L LockedMutexes) \<and> holder (mutex s m) = Some u \<and> u \<noteq> t \<longrightarrow>
        priority (tcb s t) < ceil_priority (mutex s m))"

lemma above_ceilings_iff:
  assumes ok: "kernel_ok s L"
  shows "blockers s L t = {} \<and> \<not> above_ceilings s L t \<longleftrightarrow>
    blockers s L t = {} \<and> (\<exists>m. LockMutexQ m \<in> set (L LockedMutexes) \<and> holder (mutex s m) \<noteq> Some t \<and>
      ceil_priority (mutex s m) = priority (tcb s t))"
    "above_ceilings s L t \<Longrightarrow> blockers s L t = {}"
proof -
  have h: "\<exists>u. holder (mutex s m) = Some u" if "LockMutexQ m \<in> set (L LockedMutexes)" for m
    using locked_entry [OF ok that] by auto
  show "blockers s L t = {} \<and> \<not> above_ceilings s L t \<longleftrightarrow>
    blockers s L t = {} \<and> (\<exists>m. LockMutexQ m \<in> set (L LockedMutexes) \<and> holder (mutex s m) \<noteq> Some t \<and>
      ceil_priority (mutex s m) = priority (tcb s t))"
  proof (intro conj_cong refl)
    assume "blockers s L t = {}"
    then have b: "\<not> ceil_priority (mutex s m) < priority (tcb s t)"
      if "LockMutexQ m \<in> set (L LockedMutexes)" "holder (mutex s m) \<noteq> Some t" for m
      using that by (auto simp: blockers_def)
    show "\<not> above_ceilings s L t \<longleftrightarrow> (\<exists>m. LockMutexQ m \<in> set (L LockedMutexes) \<and> holder (mutex s m) \<noteq> Some t \<and>
        ceil_priority (mutex s m) = priority (tcb s t))"
      using b h unfolding above_ceilings_def by (metis linorder_less_linear option.inject)
  qed
  show "above_ceilings s L t \<Longrightarrow> blockers s L t = {}"
    using h by (fastforce simp: above_ceilings_def blockers_def)
qed

text \<open>C29. What \<open>enable_lock_mutex\<close> tests. The task may lock exactly if no other
  task holds a ceiling mutex whose ceiling is above the priority of the task. Otherwise the blocking
  task is the holder of one with the lowest ceiling among those. Compared with the priority ceiling
  protocol, which lets a task lock only if its priority is strictly higher than all those ceilings: what the
  protocol admits, the code admits; and what the code admits beyond that are exactly the cases in which the highest of the
  ceilings is equal to the priority of the task.\<close>

theorem enable_lock_is_ceiling_test:
  assumes ok: "kernel_ok s L" and c: "ceilings_ok s"
  shows "\<exists>b blk. enable_lock_mutex (Some t) s = Some (b, blk) \<and> (b \<longleftrightarrow> blockers s L t = {}) \<and> (b \<longrightarrow> blk = None) \<and>
    (\<not> b \<longrightarrow> (\<exists>m \<in> blockers s L t. blk = holder (mutex s m) \<and>
       (\<forall>n \<in> blockers s L t. ceil_priority (mutex s n) \<le> ceil_priority (mutex s m)))) \<and>
    (above_ceilings s L t \<longrightarrow> b) \<and>
    (b \<and> \<not> above_ceilings s L t \<longleftrightarrow>
       blockers s L t = {} \<and> (\<exists>m. LockMutexQ m \<in> set (L LockedMutexes) \<and> holder (mutex s m) \<noteq> Some t \<and>
         ceil_priority (mutex s m) = priority (tcb s t)))"
  using enable_lock_mutex_eq [OF ok c, of t] above_ceilings_iff [OF ok, of t] by auto

section \<open>Priority inheritance\<close>

text \<open>A ready task gets another priority: it moves to the tail of another ready list.\<close>

definition prio_tcb :: "int \<Rightarrow> tn_tcb \<Rightarrow> tn_tcb" where
  "prio_tcb p x = x\<lparr>priority := p\<rparr>"

lemma change_priority_kernel:
  assumes ok: "kernel_ok s L" and t: "is_task s t" "task_state (tcb s t) = TSK_STATE_RUNNABLE"
    and q: "0 \<le> q" "q < TN_NUM_PRIORITY"
  shows "\<exists>rc h b n L'. change_running_task_priority t q s =
      Some (rc, (upd_tcb t (prio_tcb q) s)\<lparr>qh := h, tn_ready_to_run_bmp := b, tn_next_task_to_run := n\<rparr>) \<and>
    kernel_ok ((upd_tcb t (prio_tcb q) s)\<lparr>qh := h, tn_ready_to_run_bmp := b, tn_next_task_to_run := n\<rparr>) L' \<and>
    (\<forall>q. (\<forall>p. q \<noteq> ReadyList p) \<longrightarrow> L' q = L q)"
proof -
  note rh = runnable_home [OF ok t]
  have f: "(\<lambda>t. t\<lparr>priority := q\<rparr>) = prio_tcb q" by (simp add: fun_eq_iff prio_tcb_def)
  let ?L1 = "L(ReadyList (priority (tcb s t)) := remove1 (TaskQ t) (L (ReadyList (priority (tcb s t)))))"
  let ?L' = "?L1(ReadyList q := ?L1 (ReadyList q) @ [TaskQ t])"
  obtain rc h b n where run: "change_running_task_priority t q s =
      Some (rc, (upd_tcb t (prio_tcb q) s)\<lparr>qh := h, tn_ready_to_run_bmp := b, tn_next_task_to_run := n\<rparr>)"
    and sch: "sched_ok ((upd_tcb t (prio_tcb q) s)\<lparr>qh := h, tn_ready_to_run_bmp := b, tn_next_task_to_run := n\<rparr>)
      ?L' ((home s)(TaskQ t := Some (ReadyList q)))"
    using change_running_task_priority_ok [OF kernel_sched [OF ok] rh(2,3) q refl rh(1), unfolded f] by blast
  let ?s = "(upd_tcb t (prio_tcb q) s)\<lparr>qh := h, tn_ready_to_run_bmp := b, tn_next_task_to_run := n\<rparr>"
  have "home ?s = (home s)(TaskQ t := Some (ReadyList q))"
    using t rh by (auto simp: home_upd_tcb prio_tcb_def task_home_def timer_home_def block_home_def fun_eq_iff)
  moreover have hd: "heads ?s = heads s" by (simp add: prio_tcb_def)
  moreover have "task_fields_ok s (prio_tcb q (tcb s t))"
    using kernel_task [OF ok t(1)] q t(2) by (simp add: task_fields_ok_def prio_tcb_def)
  ultimately have "kernel_ok ?s ?L'"
    using sch ok by (auto simp: kernel_ok_def task_fields_cong [OF hd] prio_tcb_def)
  with run show ?thesis by (intro exI conjI) auto
qed

text \<open>The task that the code follows from a waiting task: the task that blocks it, or the holder.\<close>

definition next_in_chain :: "kernel \<Rightarrow> oid \<Rightarrow> tid \<Rightarrow> tptr" where
  "next_in_chain s m t = (if task_wait_reason (tcb s t) = TSK_WAIT_REASON_MUTEX_C_BLK
                          then blk_task (tcb s t) else holder (mutex s m))"

text \<open>\<open>chain s p t u\<close>: from \<open>t\<close> a chain of tasks that wait for mutexes leads to the ready task \<open>u\<close>,
  and all of them have a lower priority than \<open>p\<close>.\<close>

inductive chain :: "kernel \<Rightarrow> int \<Rightarrow> tid \<Rightarrow> tid \<Rightarrow> bool" for s p where
  chain_end: "is_task s t \<Longrightarrow> task_state (tcb s t) = TSK_STATE_RUNNABLE \<Longrightarrow> p < priority (tcb s t) \<Longrightarrow> chain s p t t"
| chain_wait: "has_bits (task_state (tcb s t)) TSK_STATE_WAIT \<Longrightarrow> waits_for_mutex (tcb s t) \<Longrightarrow>
    pwait_queue (tcb s t) = Some (MutexWaitQ m) \<Longrightarrow> next_in_chain s m t = Some u \<Longrightarrow>
    p < priority (tcb s t) \<Longrightarrow> chain s p u v \<Longrightarrow> chain s p t v"

inductive_cases chain_waitE: "chain s p t u"

lemma chain_endpoint:
  assumes "chain s p t u"
  shows "is_task s u" and "task_state (tcb s u) = TSK_STATE_RUNNABLE" and "p < priority (tcb s u)"
  using assms by (induction rule: chain.induct) auto

lemma set_priority_chain:
  assumes "chain s p t u"
  shows "set_priority_loop task t p s = change_running_task_priority u p s"
  using assms
proof (induction rule: chain.induct)
  case (chain_end t)
  then show ?case by (subst set_priority_loop.simps) simp
next
  case (chain_wait t m u v)
  have nr: "task_state (tcb s t) \<noteq> TSK_STATE_RUNNABLE"
    using chain_wait.hyps(1) by (auto simp: has_bits_def)
  show ?case
    using chain_wait nr
    by (subst set_priority_loop.simps)
      (cases "task_wait_reason (tcb s t) = TSK_WAIT_REASON_MUTEX_C_BLK"; simp add: next_in_chain_def)
qed

lemma set_current_priority_chain:
  assumes ok: "kernel_ok s L" and ch: "chain s p t u" and p: "0 \<le> p"
  shows "\<exists>rc s' L'. set_current_priority t p s = Some (rc, s') \<and> kernel_ok s' L' \<and>
    tcb s' = (tcb s)(u := (tcb s u)\<lparr>priority := p\<rparr>) \<and> same_objects s s' \<and>
    tn_curr_run_task s' = tn_curr_run_task s \<and> cpsr s' = cpsr s \<and>
    (\<forall>q. (\<forall>i. q \<noteq> ReadyList i) \<longrightarrow> L' q = L q)"
proof -
  have pu: "p < TN_NUM_PRIORITY"
    using runnable_home(3) [OF ok chain_endpoint(1,2) [OF ch]] chain_endpoint(3) [OF ch] by simp
  obtain rc h b n L' where r: "change_running_task_priority u p s =
      Some (rc, (upd_tcb u (prio_tcb p) s)\<lparr>qh := h, tn_ready_to_run_bmp := b, tn_next_task_to_run := n\<rparr>)"
    "kernel_ok ((upd_tcb u (prio_tcb p) s)\<lparr>qh := h, tn_ready_to_run_bmp := b, tn_next_task_to_run := n\<rparr>) L'"
    "\<forall>q. (\<forall>i. q \<noteq> ReadyList i) \<longrightarrow> L' q = L q"
    using change_priority_kernel [OF ok chain_endpoint(1,2) [OF ch] p pu] by blast
  let ?s = "(upd_tcb u (prio_tcb p) s)\<lparr>qh := h, tn_ready_to_run_bmp := b, tn_next_task_to_run := n\<rparr>"
  have "tcb ?s = (tcb s)(u := (tcb s u)\<lparr>priority := p\<rparr>)" by (simp add: fun_eq_iff prio_tcb_def)
  moreover have "same_objects s ?s" by (simp add: same_objects_def fun_eq_iff)
  moreover have "set_current_priority t p s = Some (rc, ?s)"
    using r(1) set_priority_chain [OF ch] by (simp add: set_current_priority_def)
  ultimately show ?thesis
    using r(2,3) by (intro exI [of _ rc] exI [of _ ?s] exI [of _ L']) simp
qed

text \<open>C9. Priority inheritance is transitive: \<open>set_current_priority\<close>, called for the holder of a mutex,
  raises the ready task at the end of the chain of blocked tasks to the new priority. It returns, and
  keeps the invariant of the kernel; no other task changes.\<close>

theorem inheritance_reaches_ready_task:
  assumes ok: "kernel_ok s L" and ch: "chain s p t u" and p: "0 \<le> p"
  shows "\<exists>rc s' L'. set_current_priority t p s = Some (rc, s') \<and> kernel_ok s' L' \<and>
    tcb s' = (tcb s)(u := (tcb s u)\<lparr>priority := p\<rparr>) \<and> same_objects s s' \<and>
    tn_curr_run_task s' = tn_curr_run_task s \<and> cpsr s' = cpsr s \<and>
    (\<forall>q. (\<forall>i. q \<noteq> ReadyList i) \<longrightarrow> L' q = L q)"
  by (rule set_current_priority_chain [OF ok ch p])

theorem inheritance_reaches_ready_task_witness:
  "\<exists>rc s' L'. set_current_priority 8 3 demo = Some (rc, s') \<and> kernel_ok s' L' \<and>
    priority (tcb s' 2) = 3 \<and> priority (tcb s' 8) = 12"
proof -
  have "chain demo 3 2 2" by (intro chain_end) (simp_all add: is_task_def demo_defs)
  then have "chain demo 3 8 2"
    by (rule chain_wait [rotated -1, where m = 0])
      (simp_all add: demo_defs waits_for_mutex_def has_bits_def next_in_chain_def)
  from inheritance_reaches_ready_task [OF demo_ok this] obtain rc s' L' where
    "set_current_priority 8 3 demo = Some (rc, s')" "kernel_ok s' L'"
    "tcb s' = (tcb demo)(2 := (tcb demo 2)\<lparr>priority := 3\<rparr>)" by auto
  then show ?thesis by (intro exI [of _ rc] exI [of _ s'] exI [of _ L']) (simp add: demo_defs)
qed

section \<open>The task that inherits a priority\<close>

text \<open>A task that is not ready gets another priority: it stays where it is.\<close>

lemma kernel_prio_idle:
  assumes ok: "kernel_ok s L" and t: "is_task s t" "task_state (tcb s t) \<noteq> TSK_STATE_RUNNABLE"
    and q: "0 \<le> q" "q < TN_NUM_PRIORITY"
  shows "kernel_ok (upd_tcb t (prio_tcb q) s) L"
proof -
  have nr: "home s (TaskQ t) \<noteq> Some (ReadyList p)" for p
    using kernel_task [OF ok t(1)] t by (auto simp: task_home_def task_fields_ok_def split: if_splits)
  have r: "ready_ok (upd_tcb t (prio_tcb q) s) L (home s)"
    using kernel_sched [OF ok] nr by (intro ready_upd_tcb) (simp_all add: sched_ok_def prio_tcb_def)
  have "next_ok (upd_tcb t (prio_tcb q) s) L (home s)"
    using kernel_sched [OF ok] nr by (auto simp: sched_ok_def next_ok_def split: option.splits)
  with r have "sched_ok (upd_tcb t (prio_tcb q) s) L (home s)" by (simp add: sched_ok_def)
  moreover have "home (upd_tcb t (prio_tcb q) s) = home s"
    using t by (auto simp: home_upd_tcb prio_tcb_def task_home_def timer_home_def block_home_def fun_eq_iff)
  moreover have hd: "heads (upd_tcb t (prio_tcb q) s) = heads s" by (simp add: prio_tcb_def)
  moreover have "task_fields_ok s (prio_tcb q (tcb s t))"
    using kernel_task [OF ok t(1)] q by (auto simp: task_fields_ok_def prio_tcb_def split: option.splits if_splits)
  ultimately show ?thesis
    using ok by (auto simp: kernel_ok_def task_fields_cong [OF hd] prio_tcb_def)
qed

definition waits_mutex :: "kernel \<Rightarrow> tid \<Rightarrow> bool" where
  "waits_mutex s c \<longleftrightarrow> has_bits (task_state (tcb s c)) TSK_STATE_WAIT \<and> waits_for_mutex (tcb s c)"

text \<open>The chain of tasks from \<open>c\<close>, each of which waits for a mutex of the next, comes to an end.\<close>

inductive no_deadlock :: "kernel \<Rightarrow> tid \<Rightarrow> bool" for s where
  no_deadlock_end: "is_task s c \<Longrightarrow> \<not> waits_mutex s c \<Longrightarrow> no_deadlock s c"
| no_deadlock_wait: "is_task s c \<Longrightarrow> waits_mutex s c \<Longrightarrow> pwait_queue (tcb s c) = Some (MutexWaitQ m) \<Longrightarrow>
    next_in_chain s m c = Some n \<Longrightarrow> no_deadlock s n \<Longrightarrow> no_deadlock s c"

text \<open>Who gets the priority \<open>p\<close>, or what it has become on the way, when the chain from the task \<open>h\<close> has been followed to \<open>c\<close>:
  nobody, if \<open>c\<close> has that priority; \<open>c\<close>, if it is ready; the first task \<open>h\<close>, if \<open>c\<close> is not
  ready and does not wait for a mutex. Where a task on the way has a higher priority than \<open>p\<close>, the best of the
  waiting tasks and of the base priority of the holder goes on.\<close>

definition mutex_prios :: "kernel \<Rightarrow> (qaddr \<Rightarrow> qaddr list) \<Rightarrow> oid \<Rightarrow> int set" where
  "mutex_prios s L m = {priority (tcb s t) | t. TaskQ t \<in> set (L (MutexWaitQ m))}"

inductive heir :: "kernel \<Rightarrow> (qaddr \<Rightarrow> qaddr list) \<Rightarrow> tid \<Rightarrow> int \<Rightarrow> tid \<Rightarrow> (tid \<times> int) option \<Rightarrow> bool" for s L h where
  heir_same: "priority (tcb s c) = p \<Longrightarrow> heir s L h p c None"
| heir_ready: "priority (tcb s c) \<noteq> p \<Longrightarrow> task_state (tcb s c) = TSK_STATE_RUNNABLE \<Longrightarrow> heir s L h p c (Some (c, p))"
| heir_stop: "priority (tcb s c) \<noteq> p \<Longrightarrow> task_state (tcb s c) \<noteq> TSK_STATE_RUNNABLE \<Longrightarrow> \<not> waits_mutex s c \<Longrightarrow>
    heir s L h p c (Some (h, p))"
| heir_next: "priority (tcb s c) \<noteq> p \<Longrightarrow> waits_mutex s c \<Longrightarrow> pwait_queue (tcb s c) = Some (MutexWaitQ m) \<Longrightarrow>
    next_in_chain s m c = Some n \<Longrightarrow>
    heir s L h (if priority (tcb s c) < p then Min (insert (base_priority (tcb s n)) (mutex_prios s L m)) else p) n x \<Longrightarrow>
    heir s L h p c x"

inductive_cases heirE: "heir s L h p c x"

text \<open>The control blocks after the priority has been given.\<close>

definition given :: "(tid \<times> int) option \<Rightarrow> (tid \<Rightarrow> tn_tcb) \<Rightarrow> tid \<Rightarrow> tn_tcb" where
  "given x T = (case x of None \<Rightarrow> T | Some (u, p) \<Rightarrow> T(u := (T u)\<lparr>priority := p\<rparr>))"

lemma given_simps [simp]:
  "given None T = T" "given (Some (u, p)) T = T(u := (T u)\<lparr>priority := p\<rparr>)"
  by (simp_all add: given_def)

lemma given_fields [simp]:
  "id_task (given x T v) = id_task (T v)" "task_state (given x T v) = task_state (T v)"
  "task_wait_reason (given x T v) = task_wait_reason (T v)"
  by (cases x; auto simp: given_def)+

lemma waits_mutex_cpsr [simp]: "waits_mutex (s\<lparr>cpsr := c\<rparr>) = waits_mutex s"
  by (simp add: waits_mutex_def fun_eq_iff)

lemma no_deadlock_cpsr: "no_deadlock s c \<Longrightarrow> no_deadlock (s\<lparr>cpsr := w\<rparr>) c"
proof (induction rule: no_deadlock.induct)
  case (no_deadlock_wait c m n)
  have "next_in_chain (s\<lparr>cpsr := w\<rparr>) m c = next_in_chain s m c" by (simp add: next_in_chain_def)
  with no_deadlock_wait show ?case by (intro no_deadlock.no_deadlock_wait [of _ c m n]) simp_all
qed (auto intro: no_deadlock.intros)

lemma heir_cpsr: "heir (s\<lparr>cpsr := w\<rparr>) L h p c x \<Longrightarrow> heir s L h p c x"
proof (induction rule: heir.induct)
  case (heir_next c p m n x)
  have "next_in_chain (s\<lparr>cpsr := w\<rparr>) m c = next_in_chain s m c" "mutex_prios (s\<lparr>cpsr := w\<rparr>) L m = mutex_prios s L m"
    by (simp_all add: next_in_chain_def mutex_prios_def)
  with heir_next show ?case
    by (cases "priority (tcb s c) < p") (auto intro!: heir.heir_next [of _ c p m n])
qed (auto intro: heir.intros)

text \<open>The priority that goes on along the chain is one of the 32.\<close>

lemma mutex_prios_bounds:
  assumes ok: "kernel_ok s L" and id: "id_mutex (mutex s m) = TN_ID_MUTEX" and n: "is_task s n"
  shows "0 \<le> Min (insert (base_priority (tcb s n)) (mutex_prios s L m))"
    "Min (insert (base_priority (tcb s n)) (mutex_prios s L m)) < TN_NUM_PRIORITY" "finite (mutex_prios s L m)"
proof -
  have q: "p \<in> mutex_prios s L m \<Longrightarrow> 0 \<le> p \<and> p < TN_NUM_PRIORITY" for p
  proof -
    assume "p \<in> mutex_prios s L m"
    then obtain u where u: "TaskQ u \<in> set (L (MutexWaitQ m))" "p = priority (tcb s u)" by (auto simp: mutex_prios_def)
    have "is_task s u" using wait_queue_entry [OF ok _ _ u(1)] id by auto
    then show ?thesis using kernel_task [OF ok, of u] u(2) by (simp add: task_fields_ok_def)
  qed
  have "mutex_prios s L m = (\<lambda>u. priority (tcb s u)) ` (TaskQ -` set (L (MutexWaitQ m)))" by (auto simp: mutex_prios_def)
  then show fin: "finite (mutex_prios s L m)" by (simp add: finite_vimageI inj_def)
  have b: "0 \<le> base_priority (tcb s n)" "base_priority (tcb s n) < TN_NUM_PRIORITY"
    using kernel_task [OF ok n] by (simp_all add: task_fields_ok_def)
  show "0 \<le> Min (insert (base_priority (tcb s n)) (mutex_prios s L m))" using fin b q by simp
  have "Min (insert (base_priority (tcb s n)) (mutex_prios s L m)) \<le> base_priority (tcb s n)" using fin by simp
  then show "Min (insert (base_priority (tcb s n)) (mutex_prios s L m)) < TN_NUM_PRIORITY" using b(2) by linarith
qed

text \<open>\<open>set_current_priority\<close> follows the chain, ends, and gives the priority to that task.\<close>

lemma set_priority_heir:
  assumes ok: "kernel_ok s L" and h: "is_task s h"
  shows "no_deadlock s c \<Longrightarrow> 0 \<le> p \<Longrightarrow> p < TN_NUM_PRIORITY \<Longrightarrow> c = h \<or> task_state (tcb s h) \<noteq> TSK_STATE_RUNNABLE \<Longrightarrow>
    \<exists>x rc s' L'. heir s L h p c x \<and> set_priority_loop h c p s = Some (rc, s') \<and> kernel_ok s' L' \<and>
      tcb s' = given x (tcb s) \<and> same_objects s s' \<and> tn_curr_run_task s' = tn_curr_run_task s \<and> cpsr s' = cpsr s \<and>
      (\<forall>q. (\<forall>i. q \<noteq> ReadyList i) \<longrightarrow> L' q = L q)"
proof (induction arbitrary: p rule: no_deadlock.induct)
  case (no_deadlock_end c)
  consider (same) "priority (tcb s c) = p" | (ready) "priority (tcb s c) \<noteq> p" "task_state (tcb s c) = TSK_STATE_RUNNABLE"
    | (stop) "priority (tcb s c) \<noteq> p" "task_state (tcb s c) \<noteq> TSK_STATE_RUNNABLE" by blast
  then show ?case
  proof cases
    case same
    have "set_priority_loop h c p s = Some (0, s)" using same by (subst set_priority_loop.simps) simp
    with same ok show ?thesis
      by (intro exI [of _ None] exI [of _ 0] exI [of _ s] exI [of _ L]) (simp add: heir_same same_objects_refl)
  next
    case ready
    obtain rc h' b n L' where r: "change_running_task_priority c p s =
        Some (rc, (upd_tcb c (prio_tcb p) s)\<lparr>qh := h', tn_ready_to_run_bmp := b, tn_next_task_to_run := n\<rparr>)"
      "kernel_ok ((upd_tcb c (prio_tcb p) s)\<lparr>qh := h', tn_ready_to_run_bmp := b, tn_next_task_to_run := n\<rparr>) L'"
      "\<forall>q. (\<forall>i. q \<noteq> ReadyList i) \<longrightarrow> L' q = L q"
      using change_priority_kernel [OF ok no_deadlock_end(1) ready(2) no_deadlock_end(3,4)] by blast
    let ?s = "(upd_tcb c (prio_tcb p) s)\<lparr>qh := h', tn_ready_to_run_bmp := b, tn_next_task_to_run := n\<rparr>"
    have "set_priority_loop h c p s = Some (rc, ?s)" using ready r(1) by (subst set_priority_loop.simps) simp
    moreover have "tcb ?s = given (Some (c, p)) (tcb s)" by (simp add: fun_eq_iff prio_tcb_def)
    moreover have "same_objects s ?s" by (simp add: same_objects_def fun_eq_iff)
    ultimately show ?thesis using r(2,3) heir_ready [OF ready]
      by (intro exI [of _ "Some (c, p)"] exI [of _ rc] exI [of _ ?s] exI [of _ L']) simp
  next
    case stop
    have nr: "task_state (tcb s h) \<noteq> TSK_STATE_RUNNABLE" using stop no_deadlock_end(5) by auto
    have f: "(\<lambda>t. t\<lparr>priority := p\<rparr>) = prio_tcb p" by (simp add: fun_eq_iff prio_tcb_def)
    have "set_priority_loop h c p s = Some (0, upd_tcb h (prio_tcb p) s)"
      using stop no_deadlock_end(2) unfolding f [symmetric] waits_mutex_def by (subst set_priority_loop.simps) auto
    moreover have "kernel_ok (upd_tcb h (prio_tcb p) s) L" by (rule kernel_prio_idle [OF ok h nr no_deadlock_end(3,4)])
    moreover have "tcb (upd_tcb h (prio_tcb p) s) = given (Some (h, p)) (tcb s)" by (simp add: fun_eq_iff prio_tcb_def)
    moreover have "same_objects s (upd_tcb h (prio_tcb p) s)" by (simp add: same_objects_def fun_eq_iff)
    ultimately show ?thesis using heir_stop [OF stop no_deadlock_end(2)]
      by (intro exI [of _ "Some (h, p)"] exI [of _ 0] exI [of _ "upd_tcb h (prio_tcb p) s"] exI [of _ L]) simp
  qed
next
  case (no_deadlock_wait c m n)
  note c = no_deadlock_wait(1-4)
  have w: "has_bits (task_state (tcb s c)) TSK_STATE_WAIT" "waits_for_mutex (tcb s c)" using c(2) by (simp_all add: waits_mutex_def)
  then have nr: "task_state (tcb s c) \<noteq> TSK_STATE_RUNNABLE" by (auto simp: has_bits_def)
  have hr: "n = h \<or> task_state (tcb s h) \<noteq> TSK_STATE_RUNNABLE" using no_deadlock_wait(9) nr by auto
  show ?case
  proof (cases "priority (tcb s c) = p")
    case True
    have "set_priority_loop h c p s = Some (0, s)" using True by (subst set_priority_loop.simps) simp
    with True ok show ?thesis
      by (intro exI [of _ None] exI [of _ 0] exI [of _ s] exI [of _ L]) (simp add: heir_same same_objects_refl)
  next
    case False
    have id: "id_mutex (mutex s m) = TN_ID_MUTEX"
      using kernel_task [OF ok c(1)] c(3) nr by (auto simp: task_fields_ok_def split: if_splits)
    have n: "is_task s n" using no_deadlock_wait(5) by (auto elim: no_deadlock.cases)
    let ?p = "if priority (tcb s c) < p then Min (insert (base_priority (tcb s n)) (mutex_prios s L m)) else p"
    have fm: "find_max_blocked_priority m (base_priority (tcb s n)) s =
        Some (Min (insert (base_priority (tcb s n)) (mutex_prios s L m)))"
      using find_max_at [OF kernel_placed [OF ok] _ mutex_waiter [OF ok id]] kernel_mutex [OF ok id] id
      by (auto simp: mutex_prios_def)
    have step: "set_priority_loop h c p s = set_priority_loop h n ?p s"
      using False nr w c(3,4) fm
      by (subst set_priority_loop.simps)
        (cases "task_wait_reason (tcb s c) = TSK_WAIT_REASON_MUTEX_C_BLK"; simp add: next_in_chain_def)
    have p': "0 \<le> ?p" "?p < TN_NUM_PRIORITY" using mutex_prios_bounds [OF ok id n] no_deadlock_wait(7,8) by simp_all
    from no_deadlock_wait(6) [OF p' hr] show ?thesis
      unfolding step using heir_next [OF False c(2-4)] by blast
  qed
qed

text \<open>What \<open>inherit_priority\<close> does for the running task \<open>t\<close> and the task \<open>h\<close> in its way.\<close>

definition inherits :: "kernel \<Rightarrow> (qaddr \<Rightarrow> qaddr list) \<Rightarrow> tid \<Rightarrow> tid \<Rightarrow> (tid \<times> int) option \<Rightarrow> bool" where
  "inherits s L t h x \<longleftrightarrow>
     (if priority (tcb s t) < priority (tcb s h) then heir s L h (priority (tcb s t)) h x else x = None)"

lemma inherits_cpsr: "inherits (s\<lparr>cpsr := w\<rparr>) L t h x \<Longrightarrow> inherits s L t h x"
  using heir_cpsr by (auto simp: inherits_def split: if_splits)

section \<open>Lock\<close>

lemma mutex_heads:
  "kernel_ok s L \<Longrightarrow> id_mutex (mutex s m) = TN_ID_MUTEX \<Longrightarrow> holder (mutex s m) = Some t \<Longrightarrow> is_task s t"
  using kernel_mutex by blast

text \<open>A mutex without a holder gets one.\<close>

definition hold_lists :: "oid \<Rightarrow> tid \<Rightarrow> bool \<Rightarrow> (qaddr \<Rightarrow> qaddr list) \<Rightarrow> qaddr \<Rightarrow> qaddr list" where
  "hold_lists m t ceil L =
     (let L1 = L(TaskMutexQ t := L (TaskMutexQ t) @ [MutexQ m])
      in if ceil then L1(LockedMutexes := L1 LockedMutexes @ [LockMutexQ m]) else L1)"

lemma hold_inherit:
  assumes ok: "kernel_ok s L" and m: "id_mutex (mutex s m) = TN_ID_MUTEX" "m_attr (mutex s m) = TN_MUTEX_ATTR_INHERIT"
      "holder (mutex s m) = None" and t: "is_task s t"
  shows "\<exists>h. queue_add_tail (TaskMutexQ t) (MutexQ m) (qh s) = Some h \<and>
    kernel_ok ((upd_mutex m (\<lambda>x. x\<lparr>holder := Some t\<rparr>) s)\<lparr>qh := h\<rparr>) (hold_lists m t False L)"
proof -
  have h: "TaskMutexQ t \<in> heads s" using t by simp
  have e: "home s (MutexQ m) = None" using m by (simp add: mutex_home_def)
  obtain h' where h': "queue_add_tail (TaskMutexQ t) (MutexQ m) (qh s) = Some h'"
    "placed h' (heads s) (L(TaskMutexQ t := L (TaskMutexQ t) @ [MutexQ m])) ((home s)(MutexQ m := Some (TaskMutexQ t)))"
    using placed_add_tail [OF kernel_placed [OF ok] h _ e] by auto
  have lh: "home s (LockMutexQ m) = None" using m by (simp add: lock_home_def)
  have P: "(home s)(MutexQ m := mutex_home ((\<lambda>x. x\<lparr>holder := Some t\<rparr>) (mutex s m)),
      LockMutexQ m := lock_home ((\<lambda>x. x\<lparr>holder := Some t\<rparr>) (mutex s m))) = (home s)(MutexQ m := Some (TaskMutexQ t))"
    using m lh by (auto simp: fun_eq_iff mutex_home_def lock_home_def)
  have "kernel_ok ((upd_mutex m (\<lambda>x. x\<lparr>holder := Some t\<rparr>) s)\<lparr>qh := h'\<rparr>) (hold_lists m t False L)"
    using h'(2) t by (intro kernel_upd_mutex [OF ok m(1)]) (simp_all add: P hold_lists_def)
  with h'(1) show ?thesis by blast
qed

lemma hold_ceiling:
  assumes ok: "kernel_ok s L" and m: "id_mutex (mutex s m) = TN_ID_MUTEX" "m_attr (mutex s m) = TN_MUTEX_ATTR_CEILING"
      "holder (mutex s m) = None" and t: "is_task s t"
  shows "\<exists>s'. include_mutex t m (upd_mutex m (\<lambda>x. x\<lparr>holder := Some t\<rparr>) s) = Some s' \<and>
    (\<exists>h. s' = (upd_mutex m (\<lambda>x. x\<lparr>holder := Some t\<rparr>) s)\<lparr>qh := h\<rparr>) \<and> kernel_ok s' (hold_lists m t True L)"
proof -
  have h: "TaskMutexQ t \<in> heads s" using t by simp
  have e: "home s (MutexQ m) = None" using m by (simp add: mutex_home_def)
  obtain h1 where h1: "queue_add_tail (TaskMutexQ t) (MutexQ m) (qh s) = Some h1"
    "placed h1 (heads s) (L(TaskMutexQ t := L (TaskMutexQ t) @ [MutexQ m])) ((home s)(MutexQ m := Some (TaskMutexQ t)))"
    using placed_add_tail [OF kernel_placed [OF ok] h _ e] by auto
  have lh: "((home s)(MutexQ m := Some (TaskMutexQ t))) (LockMutexQ m) = None" using m by (simp add: lock_home_def)
  have nh: "LockMutexQ m \<notin> heads s" using m by simp
  let ?L1 = "L(TaskMutexQ t := L (TaskMutexQ t) @ [MutexQ m])"
  have lm: "LockedMutexes \<in> heads s" by simp
  have hl: "hold_lists m t True L = ?L1(LockedMutexes := ?L1 LockedMutexes @ [LockMutexQ m])"
    by (simp add: hold_lists_def Let_def)
  obtain h2 where h2: "queue_add_tail LockedMutexes (LockMutexQ m) h1 = Some h2"
    "placed h2 (heads s) (hold_lists m t True L)
       ((home s)(MutexQ m := Some (TaskMutexQ t), LockMutexQ m := Some LockedMutexes))"
    using placed_add_tail [OF h1(2) lm nh lh] unfolding hl by blast
  have P: "(home s)(MutexQ m := mutex_home ((\<lambda>x. x\<lparr>holder := Some t\<rparr>) (mutex s m)),
      LockMutexQ m := lock_home ((\<lambda>x. x\<lparr>holder := Some t\<rparr>) (mutex s m))) =
      (home s)(MutexQ m := Some (TaskMutexQ t), LockMutexQ m := Some LockedMutexes)"
    using m by (auto simp: fun_eq_iff mutex_home_def lock_home_def)
  let ?s = "(upd_mutex m (\<lambda>x. x\<lparr>holder := Some t\<rparr>) s)\<lparr>qh := h2\<rparr>"
  have "kernel_ok ?s (hold_lists m t True L)"
    using h2(2) t by (intro kernel_upd_mutex [OF ok m(1)]) (simp_all add: P hold_lists_def)
  moreover have "include_mutex t m (upd_mutex m (\<lambda>x. x\<lparr>holder := Some t\<rparr>) s) = Some ?s"
    using h1(1) h2(1) by (simp add: include_mutex_def upd_qh_def)
  ultimately show ?thesis by blast
qed

text \<open>The idle task holds a mutex whose ceiling is the priority of the running task: the code lets that task lock.\<close>

theorem enable_lock_is_ceiling_test_witness:
  "\<exists>s L. kernel_ok s L \<and> holder (mutex s 1) = Some 1 \<and> ceil_priority (mutex s 1) = priority (tcb s 2) \<and>
     enable_lock_mutex (Some 2) s = Some (True, None) \<and> \<not> above_ceilings s L 2"
proof -
  let ?f = "\<lambda>x. x\<lparr>ceil_priority := 5\<rparr>"
  let ?d = "upd_mutex 1 ?f demo"
  have m: "id_mutex (mutex demo 1) = TN_ID_MUTEX" "m_attr (mutex demo 1) = TN_MUTEX_ATTR_CEILING" "holder (mutex demo 1) = None"
    "ceilings_ok demo" by (simp_all add: demo_def ceilings_ok_def)
  have "home demo (MutexQ 1) = mutex_home (?f (mutex demo 1))" "home demo (LockMutexQ 1) = lock_home (?f (mutex demo 1))"
    using m by (simp_all add: mutex_home_def lock_home_def)
  then have P: "(home demo)(MutexQ 1 := mutex_home (?f (mutex demo 1)), LockMutexQ 1 := lock_home (?f (mutex demo 1))) = home demo"
    by (simp add: fun_eq_iff)
  have "kernel_ok (?d\<lparr>qh := qh demo\<rparr>) demo_lists"
    by (rule kernel_upd_mutex [OF demo_ok m(1)]) (use m(3) kernel_placed [OF demo_ok] P in simp_all)
  moreover have "?d\<lparr>qh := qh demo\<rparr> = ?d" by (simp add: upd_mutex_def)
  ultimately have ok: "kernel_ok ?d demo_lists" by metis
  have t: "is_task ?d 1" by (simp add: is_task_def demo_defs)
  have dm: "id_mutex (mutex ?d 1) = TN_ID_MUTEX" "m_attr (mutex ?d 1) = TN_MUTEX_ATTR_CEILING" "holder (mutex ?d 1) = None"
    using m by simp_all
  obtain s h where s: "s = (upd_mutex 1 (\<lambda>x. x\<lparr>holder := Some 1\<rparr>) ?d)\<lparr>qh := h\<rparr>" "kernel_ok s (hold_lists 1 1 True demo_lists)"
    using hold_ceiling [OF ok dm t] by blast
  let ?L = "hold_lists 1 1 True demo_lists"
  have L: "?L LockedMutexes = [LockMutexQ 1]" by (simp add: hold_lists_def demo_lists_def lists_of_def demo_lists_alist_def)
  have p: "priority (tcb s 2) = 5" by (simp add: s(1) demo_defs)
  have c: "ceil_priority (mutex s 1) = 5" "holder (mutex s 1) = Some 1" by (simp_all add: s(1))
  have ce: "ceilings_ok s" using m(4) by (auto simp: s(1) ceilings_ok_def)
  have "blockers s ?L 2 = {}" "\<not> above_ceilings s ?L 2" using L p c by (auto simp: blockers_def above_ceilings_def)
  with enable_lock_is_ceiling_test [OF s(2) ce, of 2] s(2) p c show ?thesis by (intro exI [of _ s] exI [of _ ?L]) auto
qed

text \<open>The caller's priority is inherited by the holder, or by the ready task at the end of its chain.\<close>

lemma prio_upd_ready:
  assumes c: "tn_curr_run_task s' = tn_curr_run_task s" and t: "tcb s' = given x (tcb s)"
  shows "curr_ok s' = curr_ok s" "other_ready s' = other_ready s"
proof -
  have "task_state (tcb s' v) = task_state (tcb s v)" "is_task s' v = is_task s v" for v
    using t by (simp_all add: is_task_def)
  then show "curr_ok s' = curr_ok s" "other_ready s' = other_ready s"
    using c by (simp_all add: curr_ok_def other_ready_def)
qed

lemma inherit_priority_ok:
  assumes ok: "kernel_ok s L" and t: "is_task s t" and nd: "no_deadlock s h"
  shows "\<exists>s' L' x. inherit_priority t h s = Some s' \<and> kernel_ok s' L' \<and> inherits s L t h x \<and> tcb s' = given x (tcb s) \<and>
    same_objects s s' \<and> tn_curr_run_task s' = tn_curr_run_task s \<and> cpsr s' = cpsr s \<and>
    (\<forall>q. (\<forall>i. q \<noteq> ReadyList i) \<longrightarrow> L' q = L q)"
proof (cases "priority (tcb s t) < priority (tcb s h)")
  case True
  have p: "0 \<le> priority (tcb s t)" "priority (tcb s t) < TN_NUM_PRIORITY"
    using kernel_task [OF ok t] by (simp_all add: task_fields_ok_def)
  have h: "is_task s h" using nd by (auto elim: no_deadlock.cases)
  from set_priority_heir [OF ok h nd p] True show ?thesis
    by (force simp: inherit_priority_def set_current_priority_def inherits_def)
next
  case False
  then show ?thesis
    using ok by (intro exI [of _ s] exI [of _ L] exI [of _ None]) (simp add: inherit_priority_def inherits_def same_objects_refl)
qed

lemma wait_lists_frame:
  assumes "\<And>q. wait_head q \<Longrightarrow> L' q = (if q = MutexWaitQ m then L1 q @ [TaskQ t] else L1 q)"
    and "\<forall>q. (\<forall>i. q \<noteq> ReadyList i) \<longrightarrow> L1 q = L q"
  shows "\<forall>q. wait_head q \<longrightarrow> L' q = (if q = MutexWaitQ m then L q @ [TaskQ t] else L q)"
proof (intro allI impI)
  fix q assume q: "wait_head q"
  then have "\<forall>i. q \<noteq> ReadyList i" by (auto simp: wait_head_def)
  then show "L' q = (if q = MutexWaitQ m then L q @ [TaskQ t] else L q)" using assms q by simp
qed

text \<open>The caller waits at the tail of the queue.\<close>

lemma lock_waits:
  assumes ok: "kernel_ok s L" and c: "curr_ok s" and o: "other_ready s" and t: "tn_curr_run_task s = Some t"
    and m: "id_mutex (mutex s m) = TN_ID_MUTEX" and h: "holder (mutex s m) = Some h"
    and r: "reason \<in> {TSK_WAIT_REASON_MUTEX_I, TSK_WAIT_REASON_MUTEX_C}"
    and nd: "no_deadlock s h"
    and sr: "cpsr s = sr OR 0xC0"
  shows "\<exists>s1 s2 s' L' x. inherit_priority t h s = Some s1 \<and>
    task_curr_to_wait_action (Some (MutexWaitQ m)) reason timeout s1 = Some s2 \<and>
    leave_switch sr RetWaitRc s2 = Some (Switch RetWaitRc, s') \<and> kernel_ok s' L' \<and> curr_ok s' \<and>
    same_objects s s' \<and> tn_curr_run_task s' \<noteq> Some t \<and>
    L' (MutexWaitQ m) = L (MutexWaitQ m) @ [TaskQ t] \<and> L' BlockedTasks = L BlockedTasks \<and>
    inherits s L t h x \<and>
    tcb s' = (given x (tcb s))(t := wait_tcb (Some (MutexWaitQ m)) reason timeout (given x (tcb s) t)) \<and>
    (\<forall>v. v \<noteq> t \<longrightarrow> task_wait_reason (tcb s' v) = task_wait_reason (tcb s v)) \<and>
    (\<forall>q. wait_head q \<longrightarrow> L' q = (if q = MutexWaitQ m then L q @ [TaskQ t] else L q))"
proof -
  have it: "is_task s t" using c t by (simp add: curr_ok_def)
  obtain s1 L1 x where i: "inherit_priority t h s = Some s1" "kernel_ok s1 L1" "tcb s1 = given x (tcb s)"
    "same_objects s s1" "tn_curr_run_task s1 = tn_curr_run_task s" "cpsr s1 = cpsr s"
    "\<forall>q. (\<forall>i. q \<noteq> ReadyList i) \<longrightarrow> L1 q = L q" "inherits s L t h x"
    using inherit_priority_ok [OF ok it nd] by blast
  have rd: "curr_ok s1 \<and> other_ready s1" using prio_upd_ready [OF i(5,3)] c o by simp
  have q: "case Some (MutexWaitQ m) of None \<Rightarrow> reason = TSK_WAIT_REASON_SLEEP
      | Some q \<Rightarrow> q \<in> heads s1 \<and> reason \<in> wait_reasons q"
    using m i(4) r by (auto simp: same_objects_def)
  have nb: "reason \<noteq> TSK_WAIT_REASON_MUTEX_C_BLK" using r by auto
  obtain s2 s' L' where w: "task_curr_to_wait_action (Some (MutexWaitQ m)) reason timeout s1 = Some s2"
    "leave_switch sr RetWaitRc s2 = Some (Switch RetWaitRc, s')" "kernel_ok s' L'" "curr_ok s'"
    "tcb s' = (tcb s1)(t := wait_tcb (Some (MutexWaitQ m)) reason timeout (tcb s1 t))" "same_objects s1 s'"
    "tn_curr_run_task s' \<noteq> Some t"
    "\<forall>q. plain_head q \<longrightarrow> L' q = (if Some (MutexWaitQ m) = Some q then L1 q @ [TaskQ t] else L1 q)"
    using block_switch [OF i(2) conjunct1 [OF rd] conjunct2 [OF rd] q nb, of sr t timeout RetWaitRc] sr i(5,6) t by auto
  have wl: "\<forall>q. wait_head q \<longrightarrow> L' q = (if q = MutexWaitQ m then L q @ [TaskQ t] else L q)"
    by (rule wait_lists_frame [OF _ i(7)]) (use w(8) in auto)
  then have "L' (MutexWaitQ m) = L (MutexWaitQ m) @ [TaskQ t]" by simp
  moreover have "\<forall>v. v \<noteq> t \<longrightarrow> task_wait_reason (tcb s' v) = task_wait_reason (tcb s v)"
    using w(5) i(3) by simp
  moreover have "L' BlockedTasks = L BlockedTasks" using w(8) i(7) by simp
  ultimately show ?thesis
    using i(1,3,8) w(1-7) wl same_objects_trans [OF i(4) w(6)]
    by (intro exI [of _ s1] exI [of _ s2] exI [of _ s'] exI [of _ L'] exI [of _ x]) simp
qed

text \<open>The ceiling protocol blocks the caller: it enters the list of blocked tasks as well.\<close>

lemma blocked_waits:
  assumes ok: "kernel_ok s L" and c: "curr_ok s" and o: "other_ready s" and t: "tn_curr_run_task s = Some t"
    and m: "id_mutex (mutex s m) = TN_ID_MUTEX"
    and nd: "no_deadlock s b"
    and sr: "cpsr s = sr OR 0xC0"
  shows "\<exists>s1 s2 s3 s' L' x. inherit_priority t b s = Some s1 \<and>
    upd_qh (queue_add_tail BlockedTasks (BlockQ t)) s1 = Some s2 \<and>
    task_curr_to_wait_action (Some (MutexWaitQ m)) TSK_WAIT_REASON_MUTEX_C_BLK timeout
      (upd_tcb t (\<lambda>x. x\<lparr>blk_task := Some b\<rparr>) s2) = Some s3 \<and>
    leave_switch sr RetWaitRc s3 = Some (Switch RetWaitRc, s') \<and> kernel_ok s' L' \<and> curr_ok s' \<and>
    same_objects s s' \<and> tn_curr_run_task s' \<noteq> Some t \<and>
    L' (MutexWaitQ m) = L (MutexWaitQ m) @ [TaskQ t] \<and> L' BlockedTasks = L BlockedTasks @ [BlockQ t] \<and>
    inherits s L t b x \<and>
    tcb s' = (given x (tcb s))(t := wait_tcb (Some (MutexWaitQ m)) TSK_WAIT_REASON_MUTEX_C_BLK timeout
      ((given x (tcb s) t)\<lparr>blk_task := Some b\<rparr>)) \<and>
    (\<forall>v. v \<noteq> t \<longrightarrow> task_wait_reason (tcb s' v) = task_wait_reason (tcb s v)) \<and>
    (\<forall>q. wait_head q \<longrightarrow> L' q = (if q = MutexWaitQ m then L q @ [TaskQ t] else L q))"
proof -
  have it: "is_task s t" using c t by (simp add: curr_ok_def)
  obtain s1 L1 x where i: "inherit_priority t b s = Some s1" "kernel_ok s1 L1" "tcb s1 = given x (tcb s)"
    "same_objects s s1" "tn_curr_run_task s1 = tn_curr_run_task s" "cpsr s1 = cpsr s"
    "\<forall>q. (\<forall>i. q \<noteq> ReadyList i) \<longrightarrow> L1 q = L q" "inherits s L t b x"
    using inherit_priority_ok [OF ok it nd] by blast
  have rd: "curr_ok s1 \<and> other_ready s1" using prio_upd_ready [OF i(5,3)] c o by simp
  have it1: "is_task s1 t" "task_state (tcb s1 t) = TSK_STATE_RUNNABLE"
    using rd i(5) t by (simp_all add: curr_ok_def)
  let ?f = "\<lambda>x. x\<lparr>blk_task := Some b\<rparr>"
  let ?u = "upd_tcb t ?f s1"
  have fs: "same_sched_fields (?f (tcb s1 t)) (tcb s1 t)" by (simp add: same_sched_fields_def)
  have oku: "kernel_ok ?u L1" by (rule kernel_upd_tcb [where f = ?f, OF i(2) fs])
  have bh: "home s1 (BlockQ t) = None"
    using kernel_task [OF i(2) it1(1)] it1 by (simp add: block_home_def task_fields_ok_def)
  obtain h where h: "queue_add_tail BlockedTasks (BlockQ t) (qh s1) = Some h"
    "placed h (heads s1) (L1(BlockedTasks := L1 BlockedTasks @ [BlockQ t])) ((home s1)(BlockQ t := Some BlockedTasks))"
    using placed_add_tail [OF kernel_placed [OF i(2)] _ _ bh, of BlockedTasks] by auto
  have pl: "placed h (heads ?u) (L1(BlockedTasks := L1 BlockedTasks @ [BlockQ t]))
      ((home ?u)(BlockQ t := blocked_home TSK_WAIT_REASON_MUTEX_C_BLK))"
    using h(2) home_upd_tcb_same [where f = ?f and t = t, OF fs] by (simp add: blocked_home_def)
  have sch: "sched_ok (?u\<lparr>qh := h\<rparr>) (L1(BlockedTasks := L1 BlockedTasks @ [BlockQ t]))
      ((home ?u)(BlockQ t := blocked_home TSK_WAIT_REASON_MUTEX_C_BLK))"
    by (rule sched_other [OF kernel_sched [OF oku] pl]) simp
  have q: "case Some (MutexWaitQ m) of None \<Rightarrow> TSK_WAIT_REASON_MUTEX_C_BLK = TSK_WAIT_REASON_SLEEP
      | Some q \<Rightarrow> q \<in> heads ?u \<and> TSK_WAIT_REASON_MUTEX_C_BLK \<in> wait_reasons q"
    using m i(4) by (simp add: same_objects_def)
  have pre: "curr_ok ?u" "other_ready ?u" "cpsr ?u = sr OR 0xC0" "tn_curr_run_task ?u = Some t"
    using rd sr i(5,6) t upd_tcb_ready [where f = ?f, OF fs] by simp_all
  obtain s3 s' L' where w: "task_curr_to_wait_action (Some (MutexWaitQ m)) TSK_WAIT_REASON_MUTEX_C_BLK timeout (?u\<lparr>qh := h\<rparr>) = Some s3"
    "leave_switch sr RetWaitRc s3 = Some (Switch RetWaitRc, s')" "kernel_ok s' L'" "curr_ok s'"
    "tcb s' = (tcb ?u)(t := wait_tcb (Some (MutexWaitQ m)) TSK_WAIT_REASON_MUTEX_C_BLK timeout (tcb ?u t))"
    "same_objects ?u s'" "tn_curr_run_task s' \<noteq> Some t"
    "\<forall>q. plain_head q \<longrightarrow> L' q = (if Some (MutexWaitQ m) = Some q
        then (L1(BlockedTasks := L1 BlockedTasks @ [BlockQ t])) q @ [TaskQ t]
        else (L1(BlockedTasks := L1 BlockedTasks @ [BlockQ t])) q)"
    using block_switch_at [OF oku pre(1,2) q sch pre(3,4), of timeout RetWaitRc] by blast
  have "upd_qh (queue_add_tail BlockedTasks (BlockQ t)) s1 = Some (s1\<lparr>qh := h\<rparr>)"
    using h(1) by (simp add: upd_qh_def)
  moreover have "upd_tcb t ?f (s1\<lparr>qh := h\<rparr>) = ?u\<lparr>qh := h\<rparr>" by simp
  moreover have "same_objects s s'" using i(4) w(6) by (simp add: same_objects_def)
  moreover have "L' (MutexWaitQ m) = L (MutexWaitQ m) @ [TaskQ t]" "L' BlockedTasks = L BlockedTasks @ [BlockQ t]"
    using w(8) i(7) by simp_all
  moreover have "tcb s' = (given x (tcb s))(t := wait_tcb (Some (MutexWaitQ m)) TSK_WAIT_REASON_MUTEX_C_BLK timeout
      ((given x (tcb s) t)\<lparr>blk_task := Some b\<rparr>))"
    using w(5) i(3) by (simp add: fun_eq_iff)
  moreover have "\<forall>v. v \<noteq> t \<longrightarrow> task_wait_reason (tcb s' v) = task_wait_reason (tcb s v)"
    using w(5) i(3) by simp
  moreover have "\<forall>q. wait_head q \<longrightarrow> L' q = (if q = MutexWaitQ m then L q @ [TaskQ t] else L q)"
    by (rule wait_lists_frame [OF _ i(7)]) (use w(8) in \<open>auto simp: wait_head_def\<close>)
  ultimately show ?thesis
    using i(1,8) w(1-4,7)
    by (intro exI [of _ s1] exI [of _ "s1\<lparr>qh := h\<rparr>"] exI [of _ s3] exI [of _ s'] exI [of _ L'] exI [of _ x]) simp
qed

text \<open>A task that waits for a mutex with priority inheritance has the wait reason of that protocol.\<close>

definition mutex_ok :: "kernel \<Rightarrow> (qaddr \<Rightarrow> qaddr list) \<Rightarrow> bool" where
  "mutex_ok s L \<longleftrightarrow>
     (\<forall>m u. id_mutex (mutex s m) = TN_ID_MUTEX \<and> m_attr (mutex s m) = TN_MUTEX_ATTR_INHERIT \<and>
        TaskQ u \<in> set (L (MutexWaitQ m)) \<longrightarrow> task_wait_reason (tcb s u) = TSK_WAIT_REASON_MUTEX_I)"

lemma mutex_ok_upd [simp]:
  "mutex_ok (s\<lparr>cpsr := c\<rparr>) L = mutex_ok s L"
  by (simp add: mutex_ok_def)

lemma mutex_ok_hold:
  assumes "mutex_ok s L"
  shows "mutex_ok ((upd_mutex m (\<lambda>x. x\<lparr>holder := Some t\<rparr>) (upd_tcb t (\<lambda>x. x\<lparr>blk_task := b\<rparr>) s))\<lparr>qh := h\<rparr>) (hold_lists m t c L)"
    "mutex_ok ((upd_mutex m (\<lambda>x. x\<lparr>holder := Some t\<rparr>) s)\<lparr>qh := h\<rparr>) (hold_lists m t c L)"
  using assms by (auto simp: mutex_ok_def hold_lists_def Let_def)

lemma mutex_ok_step:
  assumes mo: "mutex_ok s L" and mu: "mutex s' = mutex s" and ok: "kernel_ok s L" and run: "is_task s t" "task_state (tcb s t) = TSK_STATE_RUNNABLE"
    and r: "\<forall>v. v \<noteq> t \<longrightarrow> task_wait_reason (tcb s' v) = task_wait_reason (tcb s v)"
    and m: "id_mutex (mutex s m) = TN_ID_MUTEX \<and> m_attr (mutex s m) = TN_MUTEX_ATTR_INHERIT \<Longrightarrow> task_wait_reason (tcb s' t) = TSK_WAIT_REASON_MUTEX_I"
    and L': "\<forall>q. wait_head q \<longrightarrow> L' q = (if q = MutexWaitQ m then L q @ [TaskQ t] else L q)"
  shows "mutex_ok s' L'"
  unfolding mutex_ok_def mu
proof (intro allI impI, elim conjE)
  fix k u
  assume k: "id_mutex (mutex s k) = TN_ID_MUTEX" "m_attr (mutex s k) = TN_MUTEX_ATTR_INHERIT" "TaskQ u \<in> set (L' (MutexWaitQ k))"
  have nt: "TaskQ t \<notin> set (L (MutexWaitQ k))" using ready_not_waiting [OF ok run(2)] k(1) by simp
  show "task_wait_reason (tcb s' u) = TSK_WAIT_REASON_MUTEX_I"
  proof (cases "u = t")
    case True
    then have "k = m" using k(3) nt L' by (auto split: if_splits)
    then show ?thesis using m k(1,2) True by simp
  next
    case False
    then have "TaskQ u \<in> set (L (MutexWaitQ k))" using k(3) L' by (auto split: if_splits)
    then show ?thesis using mo k(1,2) False r by (simp add: mutex_ok_def)
  qed
qed

text \<open>The three ways through \<open>tn_mutex_lock\<close> that change the state: the mutex is held by another task,
  with either protocol; it is free and taken; it is free and the running task is blocked by a ceiling.\<close>

lemma lock_held:
  assumes ok: "kernel_ok s L" and mo: "mutex_ok s L" and id: "id_mutex (mutex s m) = TN_ID_MUTEX"
    and ctx: "\<not> check_non_int_context s" and c: "curr_ok s" and o: "other_ready s"
    and t: "tn_curr_run_task s = Some t" and tm: "timeout \<noteq> 0"
    and a: "m_attr (mutex s m) = TN_MUTEX_ATTR_INHERIT \<and> wr = TSK_WAIT_REASON_MUTEX_I \<or>
            m_attr (mutex s m) = TN_MUTEX_ATTR_CEILING \<and> wr = TSK_WAIT_REASON_MUTEX_C \<and>
              \<not> base_priority (tcb s t) < ceil_priority (mutex s m)"
    and h: "holder (mutex s m) = Some h" "h \<noteq> t"
    and nd: "no_deadlock s h"
  shows "\<exists>s' L' x. tn_mutex_lock (Some m) timeout s = Some (Switch RetWaitRc, s') \<and> kernel_ok s' L' \<and> mutex_ok s' L' \<and>
    curr_ok s' \<and> holder (mutex s' m) = Some h \<and> tn_curr_run_task s' \<noteq> Some t \<and>
    L' (MutexWaitQ m) = L (MutexWaitQ m) @ [TaskQ t] \<and> L' BlockedTasks = L BlockedTasks \<and>
    inherits s L t h x \<and>
    tcb s' = (given x (tcb s))(t := wait_tcb (Some (MutexWaitQ m)) wr timeout (given x (tcb s) t))"
proof -
  let ?s = "s\<lparr>cpsr := cpsr s OR 0xC0\<rparr>"
  have it: "is_task s t" using c t by (simp add: curr_ok_def)
  note enter = tn_mutex_lock_def id ctx tm save_sr_eq t
  have pre: "kernel_ok ?s L" "curr_ok ?s" "other_ready ?s" "tn_curr_run_task ?s = Some t"
    "id_mutex (mutex ?s m) = TN_ID_MUTEX" "cpsr ?s = cpsr s OR 0xC0"
    using ok c o t id by simp_all
  have h1: "holder (mutex ?s m) = Some h" and wr: "wr \<in> {TSK_WAIT_REASON_MUTEX_I, TSK_WAIT_REASON_MUTEX_C}"
    using h(1) a by auto
  obtain s1 s2 s' L' x where w: "inherit_priority t h ?s = Some s1"
    "task_curr_to_wait_action (Some (MutexWaitQ m)) wr timeout s1 = Some s2"
    "leave_switch (cpsr s) RetWaitRc s2 = Some (Switch RetWaitRc, s')" "kernel_ok s' L'" "curr_ok s'"
    "same_objects ?s s'" "tn_curr_run_task s' \<noteq> Some t" "L' (MutexWaitQ m) = L (MutexWaitQ m) @ [TaskQ t]"
    "L' BlockedTasks = L BlockedTasks"
    "inherits ?s L t h x"
    "tcb s' = (given x (tcb ?s))(t := wait_tcb (Some (MutexWaitQ m)) wr timeout (given x (tcb ?s) t))"
    "\<forall>v. v \<noteq> t \<longrightarrow> task_wait_reason (tcb s' v) = task_wait_reason (tcb ?s v)"
    "\<forall>q. wait_head q \<longrightarrow> L' q = (if q = MutexWaitQ m then L q @ [TaskQ t] else L q)"
    using lock_waits [OF pre(1-5) h1 wr no_deadlock_cpsr [OF nd] pre(6), of timeout] by blast
  have "tn_mutex_lock (Some m) timeout s = Some (Switch RetWaitRc, s')"
    using a w(1-3) h by (auto simp: enter)
  moreover have "holder (mutex s' m) = Some h" using w(6) h(1) by (simp add: same_objects_def)
  moreover have "mutex_ok s' L'"
    by (rule mutex_ok_step [OF mo _ ok it _ _ _ w(13)])
      (use w(6,11,12) c t a in \<open>auto simp: same_objects_def curr_ok_def wait_tcb_def\<close>)
  ultimately show ?thesis using w(4,5,7-9,11) inherits_cpsr [OF w(10)]
    by (intro exI [of _ s'] exI [of _ L'] exI [of _ x]) simp
qed


text \<open>The demonstration state in which the idle task, with the lowest priority, holds mutex 0.\<close>

definition demo_held :: kernel where
  "demo_held = (upd_mutex 0 (\<lambda>x. x\<lparr>holder := Some 1\<rparr>) demo)
     \<lparr>qh := the (do { h \<leftarrow> queue_remove_entry (MutexQ 0) (qh demo); queue_add_tail (TaskMutexQ 1) (MutexQ 0) h })\<rparr>"

definition demo_held_lists :: "qaddr \<Rightarrow> qaddr list" where
  "demo_held_lists = demo_lists(TaskMutexQ 2 := [], TaskMutexQ 1 := [MutexQ 0])"

lemma demo_tasks: "is_task demo 1" "is_task demo 2"
  by (simp_all add: is_task_def demo_defs)

lemma demo_held_ok: "kernel_ok demo_held demo_held_lists" "mutex_ok demo_held demo_held_lists"
proof -
  have L: "demo_lists (TaskMutexQ 2) = [MutexQ 0]" "demo_lists (TaskMutexQ (Suc 0)) = []" "demo_lists (MutexWaitQ 0) = [TaskQ 8]"
    "m \<noteq> 0 \<Longrightarrow> demo_lists (MutexWaitQ m) = []" for m
    by (simp_all add: demo_lists_def lists_of_def demo_lists_alist_def)
  have m: "id_mutex (mutex demo 0) = TN_ID_MUTEX" "m_attr (mutex demo 0) = TN_MUTEX_ATTR_INHERIT" "holder (mutex demo 0) = Some 2"
    by (simp_all add: demo_def)
  have e: "home demo (MutexQ 0) = Some (TaskMutexQ 2)" using m by (simp add: mutex_home_def)
  obtain h1 where h1: "queue_remove_entry (MutexQ 0) (qh demo) = Some h1"
    "placed h1 (heads demo) (demo_lists(TaskMutexQ 2 := [])) ((home demo)(MutexQ 0 := None))"
    using placed_remove_entry [OF kernel_placed [OF demo_ok] _ e] demo_tasks by (auto simp: L)
  obtain h2 where h2: "queue_add_tail (TaskMutexQ 1) (MutexQ 0) h1 = Some h2"
    "placed h2 (heads demo) demo_held_lists ((home demo)(MutexQ 0 := Some (TaskMutexQ 1)))"
    using placed_add_tail [OF h1(2), of "TaskMutexQ 1" "MutexQ 0"] demo_tasks by (auto simp: L demo_held_lists_def)
  have "home demo (LockMutexQ 0) = None" using m by (simp add: lock_home_def)
  then have P: "(home demo)(MutexQ 0 := mutex_home ((\<lambda>x. x\<lparr>holder := Some 1\<rparr>) (mutex demo 0)),
      LockMutexQ 0 := lock_home ((\<lambda>x. x\<lparr>holder := Some 1\<rparr>) (mutex demo 0))) = (home demo)(MutexQ 0 := Some (TaskMutexQ 1))"
    using m by (auto simp: fun_eq_iff mutex_home_def lock_home_def)
  have "demo_held = (upd_mutex 0 (\<lambda>x. x\<lparr>holder := Some 1\<rparr>) demo)\<lparr>qh := h2\<rparr>"
    by (simp add: demo_held_def h1(1) h2(1) [unfolded One_nat_def])
  moreover have "kernel_ok ((upd_mutex 0 (\<lambda>x. x\<lparr>holder := Some 1\<rparr>) demo)\<lparr>qh := h2\<rparr>) demo_held_lists"
    using h2(2) demo_tasks
    by (intro kernel_upd_mutex [OF demo_ok m(1)]) (simp_all add: P [unfolded One_nat_def] demo_held_lists_def)
  moreover have "mutex_ok demo_held demo_held_lists"
    unfolding mutex_ok_def demo_held_lists_def using L by (auto simp: demo_held_def demo_defs split: if_splits)
  ultimately show "kernel_ok demo_held demo_held_lists" "mutex_ok demo_held demo_held_lists" by simp_all
qed

lemma demo_held_curr: "curr_ok demo_held" "other_ready demo_held" "\<not> check_non_int_context demo_held"
    "tn_curr_run_task demo_held = Some 2"
proof -
  show "curr_ok demo_held" "tn_curr_run_task demo_held = Some 2"
    by (simp_all add: curr_ok_def demo_held_def demo_defs is_task_def)
  show "other_ready demo_held"
    unfolding other_ready_def by (rule exI [of _ 1]) (simp add: demo_held_def demo_defs is_task_def)
  show "\<not> check_non_int_context demo_held"
    using demo_curr(4) by (simp add: check_non_int_context_def demo_held_def tn_chk_irq_disabled_def)
qed


lemma ceilings_cpsr [simp]:
  "ceilings_ok (s\<lparr>cpsr := c\<rparr>) = ceilings_ok s" "blockers (s\<lparr>cpsr := c\<rparr>) = blockers s"
  by (simp_all add: ceilings_ok_def blockers_def fun_eq_iff)

lemma lock_free_ceiling:
  assumes ok: "kernel_ok s L" and mo: "mutex_ok s L" and id: "id_mutex (mutex s m) = TN_ID_MUTEX"
    and ctx: "\<not> check_non_int_context s" and c: "curr_ok s" and o: "other_ready s"
    and t: "tn_curr_run_task s = Some t" and tm: "timeout \<noteq> 0"
    and a: "m_attr (mutex s m) = TN_MUTEX_ATTR_CEILING" and cl: "ceilings_ok s"
    and free: "holder (mutex s m) = None" "blockers s L t = {}" "\<not> base_priority (tcb s t) < ceil_priority (mutex s m)"
  shows "\<exists>s' L'. tn_mutex_lock (Some m) timeout s = Some (ret TERR_NO_ERR, s') \<and> kernel_ok s' L' \<and> mutex_ok s' L' \<and>
    curr_ok s' \<and> holder (mutex s' m) = Some t \<and> cpsr s' = cpsr s \<and>
    L' (TaskMutexQ t) = L (TaskMutexQ t) @ [MutexQ m] \<and> L' LockedMutexes = L LockedMutexes @ [LockMutexQ m]"
proof -
  let ?s = "s\<lparr>cpsr := cpsr s OR 0xC0\<rparr>"
  have it: "is_task s t" using c t by (simp add: curr_ok_def)
  note enter = tn_mutex_lock_def id a ctx tm save_sr_eq t
  have pre: "kernel_ok ?s L" using ok by simp
  let ?f = "\<lambda>x. x\<lparr>blk_task := None\<rparr>"
  have fs: "same_sched_fields (?f (tcb ?s t)) (tcb ?s t)" by (simp add: same_sched_fields_def)
  have en: "enable_lock_mutex (Some t) ?s = Some (True, None)"
    using enable_lock_mutex_eq [OF pre, of t] cl free(2) by auto
  obtain s1 h where s1: "include_mutex t m (upd_mutex m (\<lambda>x. x\<lparr>holder := Some t\<rparr>) (upd_tcb t ?f ?s)) = Some s1"
    "s1 = (upd_mutex m (\<lambda>x. x\<lparr>holder := Some t\<rparr>) (upd_tcb t ?f ?s))\<lparr>qh := h\<rparr>" "kernel_ok s1 (hold_lists m t True L)"
    using hold_ceiling [OF kernel_upd_tcb [where f = ?f, OF pre fs], of m t] id a free(1) it by auto
  have comm: "upd_tcb t ?f (upd_mutex m (\<lambda>x. x\<lparr>holder := Some t\<rparr>) ?s) = upd_mutex m (\<lambda>x. x\<lparr>holder := Some t\<rparr>) (upd_tcb t ?f ?s)"
    by (simp add: upd_tcb_def upd_mutex_def)
  have "tn_mutex_lock (Some m) timeout s = Some (ret TERR_NO_ERR, s1\<lparr>cpsr := cpsr s\<rparr>)"
    using s1(1,2) en free comm by (simp add: enter leave_eq)
  moreover have "curr_ok (s1\<lparr>cpsr := cpsr s\<rparr>)" using c s1(2) t by (simp add: curr_ok_def)
  moreover have "kernel_ok (s1\<lparr>cpsr := cpsr s\<rparr>) (hold_lists m t True L)" using s1(3) by simp
  moreover have "holder (mutex s1 m) = Some t" by (simp add: s1(2))
  moreover have "mutex_ok s1 (hold_lists m t True L)"
    using mutex_ok_hold(1) [of ?s L] mo unfolding s1(2) by simp
  then have "mutex_ok (s1\<lparr>cpsr := cpsr s\<rparr>) (hold_lists m t True L)" by simp
  moreover have "hold_lists m t True L (TaskMutexQ t) = L (TaskMutexQ t) @ [MutexQ m]"
    "hold_lists m t True L LockedMutexes = L LockedMutexes @ [LockMutexQ m]" by (simp_all add: hold_lists_def)
  ultimately show ?thesis
    by (intro exI [of _ "s1\<lparr>cpsr := cpsr s\<rparr>"] exI [of _ "hold_lists m t True L"]) simp
qed

lemma lock_blocked_ceiling:
  assumes ok: "kernel_ok s L" and mo: "mutex_ok s L" and id: "id_mutex (mutex s m) = TN_ID_MUTEX"
    and ctx: "\<not> check_non_int_context s" and c: "curr_ok s" and o: "other_ready s"
    and t: "tn_curr_run_task s = Some t" and tm: "timeout \<noteq> 0"
    and a: "m_attr (mutex s m) = TN_MUTEX_ATTR_CEILING" and cl: "ceilings_ok s"
    and block: "holder (mutex s m) = None" "blockers s L t \<noteq> {}" "\<not> base_priority (tcb s t) < ceil_priority (mutex s m)"
    and nd: "\<forall>n \<in> blockers s L t. \<forall>h. holder (mutex s n) = Some h \<longrightarrow> no_deadlock s h"
  shows "\<exists>s' L' n h x. tn_mutex_lock (Some m) timeout s = Some (Switch RetWaitRc, s') \<and> kernel_ok s' L' \<and> mutex_ok s' L' \<and>
    curr_ok s' \<and> holder (mutex s' m) = None \<and> tn_curr_run_task s' \<noteq> Some t \<and>
    L' (MutexWaitQ m) = L (MutexWaitQ m) @ [TaskQ t] \<and> L' BlockedTasks = L BlockedTasks @ [BlockQ t] \<and>
    n \<in> blockers s L t \<and> holder (mutex s n) = Some h \<and> inherits s L t h x \<and>
    tcb s' = (given x (tcb s))(t := wait_tcb (Some (MutexWaitQ m)) TSK_WAIT_REASON_MUTEX_C_BLK timeout
      ((given x (tcb s) t)\<lparr>blk_task := Some h\<rparr>))"
proof -
  let ?s = "s\<lparr>cpsr := cpsr s OR 0xC0\<rparr>"
  have it: "is_task s t" using c t by (simp add: curr_ok_def)
  note enter = tn_mutex_lock_def id a ctx tm save_sr_eq t
  have pre: "kernel_ok ?s L" "curr_ok ?s" "other_ready ?s" "tn_curr_run_task ?s = Some t"
    "id_mutex (mutex ?s m) = TN_ID_MUTEX" "cpsr ?s = cpsr s OR 0xC0"
    using ok c o t id by simp_all
  obtain b blk where e: "enable_lock_mutex (Some t) ?s = Some (b, blk)" "b \<longleftrightarrow> blockers s L t = {}"
    "\<not> b \<longrightarrow> (\<exists>n \<in> blockers s L t. blk = holder (mutex s n))"
    using enable_lock_mutex_eq [OF pre(1), of t] cl by auto
  then obtain n where n: "enable_lock_mutex (Some t) ?s = Some (False, holder (mutex s n))" "n \<in> blockers s L t"
    using block(2) by auto
  obtain h where h: "holder (mutex s n) = Some h"
    using locked_entry [OF ok, of "LockMutexQ n"] n(2) by (auto simp: blockers_def)
  obtain s1 s2 s3 s' L' x where w: "inherit_priority t h ?s = Some s1"
    "upd_qh (queue_add_tail BlockedTasks (BlockQ t)) s1 = Some s2"
    "task_curr_to_wait_action (Some (MutexWaitQ m)) TSK_WAIT_REASON_MUTEX_C_BLK timeout
      (upd_tcb t (\<lambda>x. x\<lparr>blk_task := Some h\<rparr>) s2) = Some s3"
    "leave_switch (cpsr s) RetWaitRc s3 = Some (Switch RetWaitRc, s')" "kernel_ok s' L'" "curr_ok s'"
    "same_objects ?s s'" "tn_curr_run_task s' \<noteq> Some t" "L' (MutexWaitQ m) = L (MutexWaitQ m) @ [TaskQ t]"
    "L' BlockedTasks = L BlockedTasks @ [BlockQ t]"
    "inherits ?s L t h x"
    "tcb s' = (given x (tcb ?s))(t := wait_tcb (Some (MutexWaitQ m)) TSK_WAIT_REASON_MUTEX_C_BLK timeout
      ((given x (tcb ?s) t)\<lparr>blk_task := Some h\<rparr>))"
    "\<forall>v. v \<noteq> t \<longrightarrow> task_wait_reason (tcb s' v) = task_wait_reason (tcb ?s v)"
    "\<forall>q. wait_head q \<longrightarrow> L' q = (if q = MutexWaitQ m then L q @ [TaskQ t] else L q)"
    using blocked_waits [OF pre(1-5) no_deadlock_cpsr pre(6), of h timeout] nd n(2) h by blast
  have "tn_mutex_lock (Some m) timeout s = Some (Switch RetWaitRc, s')"
    using w(1-4) n(1) h block by (simp add: enter)
  moreover have "holder (mutex s' m) = None" using w(7) block by (simp add: same_objects_def)
  moreover have "mutex_ok s' L'"
    by (rule mutex_ok_step [OF mo _ ok it _ _ _ w(14)]) (use w(7,13) c t a in \<open>simp_all add: same_objects_def curr_ok_def\<close>)
  ultimately show ?thesis
    using w(5,6,8-10,12) inherits_cpsr [OF w(11)] n(2) h
    by (intro exI [of _ s'] exI [of _ L'] exI [of _ n] exI [of _ h] exI [of _ x]) simp
qed

text \<open>C15. \<open>tn_mutex_lock\<close> with the priority ceiling protocol. A task whose base priority is above the ceiling
  is refused, and so is the holder. A free mutex is given to the running task if no mutex that others
  hold has a ceiling above its priority; a ceiling equal to its priority does not hinder it. Otherwise the running task waits, and
  its priority is inherited, as in the other protocol, from the holder of the mutex or, if the mutex is free, from
  the holder of one that blocks it. The chains of these holders are assumed to come to an end.\<close>

theorem mutex_lock_ceiling:
  assumes ok: "kernel_ok s L" and mo: "mutex_ok s L" and id: "id_mutex (mutex s m) = TN_ID_MUTEX" and a: "m_attr (mutex s m) = TN_MUTEX_ATTR_CEILING"
    and cl: "ceilings_ok s" and ctx: "\<not> check_non_int_context s" and c: "curr_ok s" and o: "other_ready s"
    and t: "tn_curr_run_task s = Some t" and tm: "timeout \<noteq> 0"
    and nd: "\<And>n h. n = m \<or> n \<in> blockers s L t \<Longrightarrow> holder (mutex s n) = Some h \<Longrightarrow> no_deadlock s h"
  shows "\<exists>r s' L'. tn_mutex_lock (Some m) timeout s = Some (r, s') \<and> kernel_ok s' L' \<and> mutex_ok s' L' \<and> curr_ok s' \<and>
    (if holder (mutex s m) = Some t \<or> base_priority (tcb s t) < ceil_priority (mutex s m)
     then r = ret TERR_ILUSE \<and> s' = s
     else if holder (mutex s m) = None \<and> blockers s L t = {}
     then r = ret TERR_NO_ERR \<and> holder (mutex s' m) = Some t \<and> cpsr s' = cpsr s \<and>
          L' (TaskMutexQ t) = L (TaskMutexQ t) @ [MutexQ m] \<and> L' LockedMutexes = L LockedMutexes @ [LockMutexQ m]
     else r = Switch RetWaitRc \<and> holder (mutex s' m) = holder (mutex s m) \<and> tn_curr_run_task s' \<noteq> Some t \<and>
          L' (MutexWaitQ m) = L (MutexWaitQ m) @ [TaskQ t] \<and>
          L' BlockedTasks = L BlockedTasks @ (if holder (mutex s m) = None then [BlockQ t] else []) \<and>
          (\<exists>n h x. (if holder (mutex s m) = None then n \<in> blockers s L t else n = m) \<and> holder (mutex s n) = Some h \<and>
             inherits s L t h x \<and>
             tcb s' = (given x (tcb s))(t := if holder (mutex s m) = None
               then wait_tcb (Some (MutexWaitQ m)) TSK_WAIT_REASON_MUTEX_C_BLK timeout ((given x (tcb s) t)\<lparr>blk_task := Some h\<rparr>)
               else wait_tcb (Some (MutexWaitQ m)) TSK_WAIT_REASON_MUTEX_C timeout (given x (tcb s) t))))"
proof -
  consider (ill) "holder (mutex s m) = Some t \<or> base_priority (tcb s t) < ceil_priority (mutex s m)"
    | (free) "holder (mutex s m) = None" "blockers s L t = {}" "\<not> base_priority (tcb s t) < ceil_priority (mutex s m)"
    | (block) "holder (mutex s m) = None" "blockers s L t \<noteq> {}" "\<not> base_priority (tcb s t) < ceil_priority (mutex s m)"
    | (held) h where "holder (mutex s m) = Some h" "h \<noteq> t" "\<not> base_priority (tcb s t) < ceil_priority (mutex s m)"
    by (cases "holder (mutex s m)") auto
  then show ?thesis
  proof cases
    case ill
    then have "tn_mutex_lock (Some m) timeout s = Some (ret TERR_ILUSE, s)"
      by (auto simp: tn_mutex_lock_def id a ctx tm save_sr_eq t leave_eq)
    then show ?thesis using ok mo c ill by auto
  next
    case free
    then show ?thesis using lock_free_ceiling [OF ok mo id ctx c o t tm a cl free] by auto
  next
    case block
    have nd': "\<forall>n \<in> blockers s L t. \<forall>h. holder (mutex s n) = Some h \<longrightarrow> no_deadlock s h" using nd by blast
    obtain s' L' n h x where w: "tn_mutex_lock (Some m) timeout s = Some (Switch RetWaitRc, s')" "kernel_ok s' L'"
      "mutex_ok s' L'" "curr_ok s'" "holder (mutex s' m) = None" "tn_curr_run_task s' \<noteq> Some t"
      "L' (MutexWaitQ m) = L (MutexWaitQ m) @ [TaskQ t]" "L' BlockedTasks = L BlockedTasks @ [BlockQ t]"
      "n \<in> blockers s L t" "holder (mutex s n) = Some h" "inherits s L t h x"
      "tcb s' = (given x (tcb s))(t := wait_tcb (Some (MutexWaitQ m)) TSK_WAIT_REASON_MUTEX_C_BLK timeout
        ((given x (tcb s) t)\<lparr>blk_task := Some h\<rparr>))"
      using lock_blocked_ceiling [OF ok mo id ctx c o t tm a cl block nd'] by blast
    then show ?thesis
      using block by (intro exI [of _ "Switch RetWaitRc"] exI [of _ s'] exI [of _ L']) auto
  next
    case (held h)
    obtain s' L' x where w: "tn_mutex_lock (Some m) timeout s = Some (Switch RetWaitRc, s')" "kernel_ok s' L'" "mutex_ok s' L'"
      "curr_ok s'" "holder (mutex s' m) = Some h" "tn_curr_run_task s' \<noteq> Some t"
      "L' (MutexWaitQ m) = L (MutexWaitQ m) @ [TaskQ t]" "L' BlockedTasks = L BlockedTasks" "inherits s L t h x"
      "tcb s' = (given x (tcb s))(t := wait_tcb (Some (MutexWaitQ m)) TSK_WAIT_REASON_MUTEX_C timeout (given x (tcb s) t))"
      using lock_held [OF ok mo id ctx c o t tm _ held(1,2) nd [OF disjI1 [OF refl] held(1)], of TSK_WAIT_REASON_MUTEX_C] a held(3)
      by blast
    then show ?thesis
      using held by (intro exI [of _ "Switch RetWaitRc"] exI [of _ s'] exI [of _ L']) auto
  qed
qed

theorem mutex_lock_ceiling_witness:
  "\<exists>s' L'. tn_mutex_lock (Some 1) 70 demo_held = Some (ret TERR_NO_ERR, s') \<and> kernel_ok s' L' \<and>
     holder (mutex s' 1) = Some 2 \<and> L' LockedMutexes = [LockMutexQ 1]"
proof -
  have m: "id_mutex (mutex demo_held 1) = TN_ID_MUTEX" "m_attr (mutex demo_held 1) = TN_MUTEX_ATTR_CEILING"
    "holder (mutex demo_held 1) = None" "demo_held_lists LockedMutexes = []" "ceilings_ok demo_held"
    "\<not> base_priority (tcb demo_held 2) < ceil_priority (mutex demo_held 1)"
    by (simp_all add: demo_held_def demo_defs demo_held_lists_def demo_lists_def lists_of_def demo_lists_alist_def ceilings_ok_def)
  then have b: "blockers demo_held demo_held_lists 2 = {}" by (simp add: blockers_def)
  have "no_deadlock demo_held h"
    if "n = 1 \<or> n \<in> blockers demo_held demo_held_lists 2" "holder (mutex demo_held n) = Some h" for n h
    using that m(3) b by auto
  from mutex_lock_ceiling [OF demo_held_ok m(1,2,5) demo_held_curr(3,1,2,4) _ this, of 70] m b show ?thesis by auto
qed

end
