(* ===== verification/TN_Task_Inv.thy ===== *)
theory TN_Task_Inv
  imports TN_Tasks TN_Mutex_Inv
begin

text \<open>
  The service calls on tasks keep the invariant of the kernel: suspend and resume, sleep and
  wake-up, activation, change of priority, creation and deletion; and what each of them does to the
  state of the task.
\<close>

declare same_objects_refl [simp]

lemma plain_not_ready [simp]: "plain_head q \<Longrightarrow> (q = ReadyList p) = False"
  by (auto simp: plain_head_def)

section \<open>Tasks enter and leave the ready lists\<close>

lemma kernel_ok_at: "kernel_ok s (L(q := xs)) \<Longrightarrow> \<exists>L'. kernel_ok s L' \<and> L' q = xs"
  by (rule exI [of _ "L(q := xs)"]) simp

lemma task_states:
  assumes "kernel_ok s L" and "is_task s t"
  shows "task_state (tcb s t) \<in> {TSK_STATE_RUNNABLE, TSK_STATE_WAIT, TSK_STATE_SUSPEND, TSK_STATE_WAITSUSP, TSK_STATE_DORMANT}"
  using kernel_task [OF assms] by (auto simp: task_fields_ok_def split: if_splits)

text \<open>A ready task is taken out; \<open>f\<close> has set its new state, which is not a wait.\<close>

lemma leave_ready:
  assumes ok: "kernel_ok s L" and t: "is_task s t" "task_state (tcb s t) = TSK_STATE_RUNNABLE"
    and st: "st \<in> {TSK_STATE_SUSPEND, TSK_STATE_DORMANT}"
  shows "\<exists>h b n. task_to_non_runnable t (upd_tcb t (\<lambda>x. x\<lparr>task_state := st\<rparr>) s) =
      Some ((upd_tcb t (\<lambda>x. x\<lparr>task_state := st\<rparr>) s)\<lparr>qh := h, tn_ready_to_run_bmp := b, tn_next_task_to_run := n\<rparr>) \<and>
    kernel_ok ((upd_tcb t (\<lambda>x. x\<lparr>task_state := st\<rparr>) s)\<lparr>qh := h, tn_ready_to_run_bmp := b, tn_next_task_to_run := n\<rparr>)
      (L(ReadyList (priority (tcb s t)) := remove1 (TaskQ t) (L (ReadyList (priority (tcb s t))))))"
proof -
  let ?f = "\<lambda>x. x\<lparr>task_state := st\<rparr>"
  let ?u = "upd_tcb t ?f s"
  note rh = runnable_home [OF ok t]
  have sch: "sched_ok ?u L (home s)" by (rule sched_upd_tcb [OF kernel_sched [OF ok]]) simp_all
  have p: "priority (tcb ?u t) = priority (tcb s t)" by simp
  obtain h b n where run: "task_to_non_runnable t ?u =
      Some (?u\<lparr>qh := h, tn_ready_to_run_bmp := b, tn_next_task_to_run := n\<rparr>)"
    and sch': "sched_ok (?u\<lparr>qh := h, tn_ready_to_run_bmp := b, tn_next_task_to_run := n\<rparr>)
      (L(ReadyList (priority (tcb s t)) := remove1 (TaskQ t) (L (ReadyList (priority (tcb s t))))))
      ((home s)(TaskQ t := None))"
    using task_to_non_runnable_ok [OF sch rh(2,3) p rh(1)] by blast
  let ?s = "?u\<lparr>qh := h, tn_ready_to_run_bmp := b, tn_next_task_to_run := n\<rparr>"
  have tf: "pwait_queue (tcb s t) = None" "task_wait_reason (tcb s t) = 0" "tick_count (tcb s t) = TN_WAIT_INFINITE"
    using kernel_task [OF ok t(1)] t(2) by (simp_all add: task_fields_ok_def)
  have "home ?s = (home s)(TaskQ t := None)"
    using t(1) tf st rh(4)
    by (auto simp: home_upd_tcb task_home_def timer_home_def block_home_def fun_eq_iff)
  moreover have hd: "heads ?s = heads s" by simp
  moreover have "task_fields_ok s (?f (tcb s t))"
    using kernel_task [OF ok t(1)] t(2) st by (auto simp: task_fields_ok_def)
  ultimately have "kernel_ok ?s (L(ReadyList (priority (tcb s t)) := remove1 (TaskQ t) (L (ReadyList (priority (tcb s t))))))"
    using sch' ok by (auto simp: kernel_ok_def task_fields_cong [OF hd])
  with run show ?thesis by blast
qed

text \<open>A suspended or dormant task becomes ready.\<close>

definition ready_tcb :: "tn_tcb \<Rightarrow> tn_tcb" where
  "ready_tcb x = x\<lparr>task_state := TSK_STATE_RUNNABLE, pwait_queue := None\<rparr>"

lemma enter_ready:
  assumes ok: "kernel_ok s L" and t: "is_task s t" "task_state (tcb s t) \<in> {TSK_STATE_SUSPEND, TSK_STATE_DORMANT}"
  shows "\<exists>h b n. task_to_runnable t s =
      Some ((upd_tcb t ready_tcb s)\<lparr>qh := h, tn_ready_to_run_bmp := b, tn_next_task_to_run := n\<rparr>) \<and>
    kernel_ok ((upd_tcb t ready_tcb s)\<lparr>qh := h, tn_ready_to_run_bmp := b, tn_next_task_to_run := n\<rparr>)
      (L(ReadyList (priority (tcb s t)) := L (ReadyList (priority (tcb s t))) @ [TaskQ t]))"
proof -
  have f: "(\<lambda>t. t\<lparr>task_state := TSK_STATE_RUNNABLE, pwait_queue := None\<rparr>) = ready_tcb"
    by (simp add: fun_eq_iff ready_tcb_def)
  have tf: "pwait_queue (tcb s t) = None" "task_wait_reason (tcb s t) = 0" "tick_count (tcb s t) = TN_WAIT_INFINITE"
    "0 \<le> priority (tcb s t)" "priority (tcb s t) < TN_NUM_PRIORITY"
    using kernel_task [OF ok t(1)] t(2) by (auto simp: task_fields_ok_def)
  have th: "home s (TaskQ t) = None" using t tf by (auto simp: task_home_def)
  obtain h b n where run: "task_to_runnable t s =
      Some ((upd_tcb t ready_tcb s)\<lparr>qh := h, tn_ready_to_run_bmp := b, tn_next_task_to_run := n\<rparr>)"
    and sch: "sched_ok ((upd_tcb t ready_tcb s)\<lparr>qh := h, tn_ready_to_run_bmp := b, tn_next_task_to_run := n\<rparr>)
      (L(ReadyList (priority (tcb s t)) := L (ReadyList (priority (tcb s t))) @ [TaskQ t]))
      ((home s)(TaskQ t := Some (ReadyList (priority (tcb s t)))))"
    using task_to_runnable_ok [OF kernel_sched [OF ok] tf(4,5) refl th, unfolded f] by blast
  let ?s = "(upd_tcb t ready_tcb s)\<lparr>qh := h, tn_ready_to_run_bmp := b, tn_next_task_to_run := n\<rparr>"
  have "home ?s = (home s)(TaskQ t := Some (ReadyList (priority (tcb s t))))"
    using t(1) tf by (auto simp: home_upd_tcb ready_tcb_def task_home_def timer_home_def block_home_def fun_eq_iff)
  moreover have hd: "heads ?s = heads s" by (simp add: ready_tcb_def)
  moreover have "task_fields_ok s (ready_tcb (tcb s t))"
    using kernel_task [OF ok t(1)] t(2) by (auto simp: task_fields_ok_def ready_tcb_def)
  ultimately have "kernel_ok ?s (L(ReadyList (priority (tcb s t)) := L (ReadyList (priority (tcb s t))) @ [TaskQ t]))"
    using sch ok by (auto simp: kernel_ok_def task_fields_cong [OF hd] ready_tcb_def)
  with run show ?thesis by blast
qed

section \<open>The end of a call that may have changed the next task\<close>

lemma leave_reschedule_ok:
  assumes ok: "kernel_ok s L" and u: "is_task s u" "task_state (tcb s u) = TSK_STATE_RUNNABLE" and c: "cpsr s = c OR 0xC0"
  shows "\<exists>n s'. tn_next_task_to_run s = Some n \<and>
    leave_reschedule c s = Some (if tn_curr_run_task s \<noteq> Some n \<and> tn_enable_switch_context s \<noteq> 0 then Switch RetNoErr else ret TERR_NO_ERR, s') \<and>
    kernel_ok s' L \<and> tcb s' = tcb s \<and> same_objects s s' \<and>
    (if tn_curr_run_task s \<noteq> Some n \<and> tn_enable_switch_context s \<noteq> 0
     then curr_ok s' \<and> tn_curr_run_task s' = Some n else tn_curr_run_task s' = tn_curr_run_task s \<and> cpsr s' = c) \<and> irq_kept c s'"
proof -
  obtain n where n: "tn_next_task_to_run s = Some n"
    "leave_switch c RetNoErr s = Some (Switch RetNoErr, s\<lparr>tn_curr_run_task := Some n, cpsr := c AND NOT 0xC0\<rparr>)"
    "kernel_ok (s\<lparr>tn_curr_run_task := Some n, cpsr := c AND NOT 0xC0\<rparr>) L"
    "curr_ok (s\<lparr>tn_curr_run_task := Some n, cpsr := c AND NOT 0xC0\<rparr>)"
    using leave_switch_ok [OF ok u c, of RetNoErr] by blast
  show ?thesis
  proof (cases "tn_curr_run_task s \<noteq> Some n \<and> tn_enable_switch_context s \<noteq> 0")
    case True
    then have "leave_reschedule c s = leave_switch c RetNoErr s" using n(1) by (auto simp: leave_reschedule_def)
    with True n show ?thesis
      by (intro exI [of _ n] exI [of _ "s\<lparr>tn_curr_run_task := Some n, cpsr := c AND NOT 0xC0\<rparr>"])
        (simp add: same_objects_def irq_kept_def)
  next
    case False
    then have "leave_reschedule c s = leave c TERR_NO_ERR s" using n(1) by (auto simp: leave_reschedule_def)
    with False n(1) ok c show ?thesis
      by (intro exI [of _ n] exI [of _ "s\<lparr>cpsr := c\<rparr>"]) (simp add: leave_eq same_objects_def irq_kept_def)
  qed
qed

section \<open>Suspend and resume\<close>

text \<open>A change of the state of a task that waits between waiting and waiting suspended.\<close>

lemma kernel_waitsusp:
  assumes ok: "kernel_ok s L" and t: "is_task s t" "task_state (tcb s t) \<in> {TSK_STATE_WAIT, TSK_STATE_WAITSUSP}"
    and st: "st \<in> {TSK_STATE_WAIT, TSK_STATE_WAITSUSP}"
  shows "kernel_ok (upd_tcb t (\<lambda>x. x\<lparr>task_state := st\<rparr>) s) L"
proof -
  let ?f = "\<lambda>x. x\<lparr>task_state := st\<rparr>"
  have "sched_ok (upd_tcb t ?f s) L (home s)" by (rule sched_upd_tcb [OF kernel_sched [OF ok]]) simp_all
  moreover have "home (upd_tcb t ?f s) = home s"
    using t st by (auto simp: home_upd_tcb task_home_def timer_home_def block_home_def fun_eq_iff)
  moreover have hd: "heads (upd_tcb t ?f s) = heads s" by simp
  moreover have "task_fields_ok s (?f (tcb s t))"
    using kernel_task [OF ok t(1)] t(2) st by (auto simp: task_fields_ok_def split: option.splits)
  ultimately show ?thesis
    using ok by (auto simp: kernel_ok_def task_fields_cong [OF hd])
qed

lemma curr_ok_upd:
  assumes "tn_curr_run_task s \<noteq> Some u" "id_task (f (tcb s u)) = id_task (tcb s u)"
  shows "curr_ok (upd_tcb u f s) = curr_ok s"
  using assms by (cases "tn_curr_run_task s") (simp_all add: curr_ok_def)

definition suspended :: "kernel \<Rightarrow> tid \<Rightarrow> bool" where
  "suspended s t \<longleftrightarrow> task_state (tcb s t) \<in> {TSK_STATE_SUSPEND, TSK_STATE_WAITSUSP}"

lemma other_runnable:
  assumes "curr_ok s" "other_ready s"
  shows "\<exists>v. is_task s v \<and> v \<noteq> u \<and> task_state (tcb s v) = TSK_STATE_RUNNABLE"
  using assms by (auto simp: curr_ok_def other_ready_def)

lemma task_suspend_ok:
  assumes ok: "kernel_ok s L" and id: "is_task s u" and ctx: "\<not> check_non_int_context s"
    and c: "curr_ok s" and o: "other_ready s"
  shows "\<exists>r s' L'. tn_task_suspend (Some u) s = Some (r, s') \<and> kernel_ok s' L' \<and> curr_ok s' \<and>
    same_objects s s' \<and> irq_kept (cpsr s) s' \<and> (\<forall>q. plain_head q \<longrightarrow> L' q = L q) \<and>
    (if suspended s u then r = ret TERR_OVERFLOW \<and> s' = s
     else if task_state (tcb s u) = TSK_STATE_DORMANT then r = ret TERR_WSTATE \<and> s' = s
     else if tn_curr_run_task s = Some u \<and> tn_enable_switch_context s = 0 then r = ret TERR_WCONTEXT \<and> s' = s
     else if task_state (tcb s u) = TSK_STATE_RUNNABLE
     then tcb s' = (tcb s)(u := (tcb s u)\<lparr>task_state := TSK_STATE_SUSPEND\<rparr>) \<and>
          L' = L(ReadyList (priority (tcb s u)) := remove1 (TaskQ u) (L (ReadyList (priority (tcb s u))))) \<and>
          (tn_curr_run_task s = Some u \<longrightarrow> r = Switch RetNoErr \<and> tn_curr_run_task s' \<noteq> Some u)
     else r = ret TERR_NO_ERR \<and> s' = upd_tcb u (\<lambda>x. x\<lparr>task_state := TSK_STATE_WAITSUSP\<rparr>) s \<and> L' = L)"
proof -
  let ?s = "s\<lparr>cpsr := cpsr s OR 0xC0\<rparr>"
  let ?f = "\<lambda>st x. x\<lparr>task_state := st\<rparr>"
  have id': "id_task (tcb s u) = TN_ID_TASK" using id by (simp add: is_task_def)
  note enter = tn_task_suspend_def id' ctx save_sr_eq
  consider (susp) "suspended s u" | (dorm) "task_state (tcb s u) = TSK_STATE_DORMANT"
    | (dis) "tn_curr_run_task s = Some u" "tn_enable_switch_context s = 0" "task_state (tcb s u) = TSK_STATE_RUNNABLE"
    | (run) "\<not> (tn_curr_run_task s = Some u \<and> tn_enable_switch_context s = 0)" "task_state (tcb s u) = TSK_STATE_RUNNABLE"
    | (wait) "task_state (tcb s u) = TSK_STATE_WAIT"
    using task_states [OF ok id] by (auto simp: suspended_def)
  then show ?thesis
  proof cases
    case susp
    then have "tn_task_suspend (Some u) s = Some (ret TERR_OVERFLOW, s)"
      by (auto simp: enter suspended_def leave_eq)
    then show ?thesis using susp ok c by auto
  next
    case dorm
    then have "tn_task_suspend (Some u) s = Some (ret TERR_WSTATE, s)" by (simp add: enter leave_eq)
    then show ?thesis using dorm ok c by (auto simp: suspended_def)
  next
    case dis
    then have "tn_task_suspend (Some u) s = Some (ret TERR_WCONTEXT, s)" by (simp add: enter leave_eq)
    then show ?thesis using dis ok c by (auto simp: suspended_def)
  next
    case wait
    let ?s' = "upd_tcb u (?f TSK_STATE_WAITSUSP) s"
    have "upd_tcb u (\<lambda>t. t\<lparr>task_state := task_state t OR TSK_STATE_SUSPEND\<rparr>) s = ?s'"
      using wait by (intro upd_cong) simp
    then have "tn_task_suspend (Some u) s = Some (ret TERR_NO_ERR, ?s')"
      using wait c by (auto simp: enter leave_eq curr_ok_def)
    moreover have "kernel_ok ?s' L" using kernel_waitsusp [OF ok id] wait by simp
    moreover have nu: "tn_curr_run_task s \<noteq> Some u" using c wait by (auto simp: curr_ok_def)
    moreover have "curr_ok ?s'" using curr_ok_upd [of s u "?f TSK_STATE_WAITSUSP", OF nu] c by simp
    ultimately show ?thesis using wait by (auto simp: suspended_def)
  next
    case run
    let ?L' = "L(ReadyList (priority (tcb s u)) := remove1 (TaskQ u) (L (ReadyList (priority (tcb s u)))))"
    obtain h b n where r: "task_to_non_runnable u (upd_tcb u (?f TSK_STATE_SUSPEND) ?s) =
        Some ((upd_tcb u (?f TSK_STATE_SUSPEND) ?s)\<lparr>qh := h, tn_ready_to_run_bmp := b, tn_next_task_to_run := n\<rparr>)"
      "kernel_ok ((upd_tcb u (?f TSK_STATE_SUSPEND) ?s)\<lparr>qh := h, tn_ready_to_run_bmp := b, tn_next_task_to_run := n\<rparr>) ?L'"
      using leave_ready [of ?s L u TSK_STATE_SUSPEND] ok id run(2) by auto
    let ?s1 = "(upd_tcb u (?f TSK_STATE_SUSPEND) ?s)\<lparr>qh := h, tn_ready_to_run_bmp := b, tn_next_task_to_run := n\<rparr>"
    obtain v where v: "is_task s v" "v \<noteq> u" "task_state (tcb s v) = TSK_STATE_RUNNABLE"
      using other_runnable [OF c o] by blast
    have v1: "is_task ?s1 v" "task_state (tcb ?s1 v) = TSK_STATE_RUNNABLE" "cpsr ?s1 = cpsr s OR 0xC0" using v by simp_all
    obtain m s' where m: "tn_next_task_to_run ?s1 = Some m"
      "leave_reschedule (cpsr s) ?s1 = Some (if tn_curr_run_task ?s1 \<noteq> Some m \<and> tn_enable_switch_context ?s1 \<noteq> 0 then Switch RetNoErr else ret TERR_NO_ERR, s')"
      "kernel_ok s' ?L'" "tcb s' = tcb ?s1" "same_objects ?s1 s'"
      "if tn_curr_run_task ?s1 \<noteq> Some m \<and> tn_enable_switch_context ?s1 \<noteq> 0
       then curr_ok s' \<and> tn_curr_run_task s' = Some m else tn_curr_run_task s' = tn_curr_run_task ?s1 \<and> cpsr s' = cpsr s" "irq_kept (cpsr s) s'"
      using leave_reschedule_ok [OF r(2) v1] by blast
    have mu: "m \<noteq> u" using next_ok_runnable(2) [OF r(2) m(1)] by auto
    have t': "tcb s' = (tcb s)(u := (tcb s u)\<lparr>task_state := TSK_STATE_SUSPEND\<rparr>)" using m(4) by (simp add: fun_eq_iff)
    have fr: "same_objects s s'" "irq_kept (cpsr s) s'" using m(5,7) by (simp_all add: same_objects_def)
    have "curr_ok s'"
      using c m(6) mu run(1) t' by (auto simp: curr_ok_def is_task_def split: if_splits)
    moreover have "tn_task_suspend (Some u) s = Some (if tn_curr_run_task s \<noteq> Some m \<and> tn_enable_switch_context s \<noteq> 0 then Switch RetNoErr else ret TERR_NO_ERR, s')"
      using run r(1) m(2) by (auto simp: enter)
    ultimately show ?thesis
      using m(3,6) t' mu run fr
      by (intro exI [of _ "if tn_curr_run_task s \<noteq> Some m \<and> tn_enable_switch_context s \<noteq> 0 then Switch RetNoErr else ret TERR_NO_ERR"]
          exI [of _ s'] exI [of _ ?L']) (auto simp: suspended_def)
  qed
qed

text \<open>C17. \<open>tn_task_suspend\<close>: a second suspension and the suspension of a dormant task are refused, and so is that of
  the running task while switching is disabled. A ready task leaves the ready lists, and if it was the
  running task another one runs; a task that waits keeps its place in the queue and is
  suspended in addition.\<close>

theorem task_suspend_cases:
  assumes ok: "kernel_ok s L" and id: "is_task s u" and ctx: "\<not> check_non_int_context s"
    and c: "curr_ok s" and o: "other_ready s"
  shows "\<exists>r s' L'. tn_task_suspend (Some u) s = Some (r, s') \<and> kernel_ok s' L' \<and> curr_ok s' \<and>
    (if suspended s u then r = ret TERR_OVERFLOW \<and> s' = s
     else if task_state (tcb s u) = TSK_STATE_DORMANT then r = ret TERR_WSTATE \<and> s' = s
     else if tn_curr_run_task s = Some u \<and> tn_enable_switch_context s = 0 then r = ret TERR_WCONTEXT \<and> s' = s
     else if task_state (tcb s u) = TSK_STATE_RUNNABLE
     then tcb s' = (tcb s)(u := (tcb s u)\<lparr>task_state := TSK_STATE_SUSPEND\<rparr>) \<and>
          L' = L(ReadyList (priority (tcb s u)) := remove1 (TaskQ u) (L (ReadyList (priority (tcb s u))))) \<and>
          (tn_curr_run_task s = Some u \<longrightarrow> r = Switch RetNoErr \<and> tn_curr_run_task s' \<noteq> Some u)
     else r = ret TERR_NO_ERR \<and> s' = upd_tcb u (\<lambda>x. x\<lparr>task_state := TSK_STATE_WAITSUSP\<rparr>) s \<and> L' = L)"
  using task_suspend_ok [OF assms] by blast

theorem task_suspend_cases_witness:
  "\<exists>s' L'. tn_task_suspend (Some 2) demo = Some (Switch RetNoErr, s') \<and> kernel_ok s' L' \<and> curr_ok s' \<and>
     L' (ReadyList 5) = [] \<and> tn_curr_run_task s' \<noteq> Some 2"
proof -
  have "is_task demo 2" "task_state (tcb demo 2) = TSK_STATE_RUNNABLE" "priority (tcb demo 2) = 5" "tn_enable_switch_context demo = 1"
    by (simp_all add: is_task_def demo_defs)
  then show ?thesis
    using task_suspend_cases [OF demo_ok _ demo_curr(4,1,2), of 2] demo_curr(3)
    by (auto simp: suspended_def demo_lists_ready intro: kernel_ok_at)
qed

text \<open>Making a task ready in a call, which then may give the processor away.\<close>

lemma make_ready:
  assumes ok: "kernel_ok s L" and id: "is_task s u" and st: "task_state (tcb s u) \<in> {TSK_STATE_SUSPEND, TSK_STATE_DORMANT}"
    and c: "curr_ok s"
  shows "\<exists>s1 r s'. task_to_runnable u (s\<lparr>cpsr := cpsr s OR 0xC0\<rparr>) = Some s1 \<and>
    leave_reschedule (cpsr s) s1 = Some (r, s') \<and> r \<in> {Switch RetNoErr, ret TERR_NO_ERR} \<and>
    kernel_ok s' (L(ReadyList (priority (tcb s u)) := L (ReadyList (priority (tcb s u))) @ [TaskQ u])) \<and> curr_ok s' \<and>
    tcb s' = (tcb s)(u := ready_tcb (tcb s u)) \<and> same_objects s s' \<and> irq_kept (cpsr s) s'"
proof -
  let ?s = "s\<lparr>cpsr := cpsr s OR 0xC0\<rparr>"
  obtain t where t: "tn_curr_run_task s = Some t" "is_task s t" "task_state (tcb s t) = TSK_STATE_RUNNABLE"
    using c by (auto simp: curr_ok_def)
  let ?L' = "L(ReadyList (priority (tcb s u)) := L (ReadyList (priority (tcb s u))) @ [TaskQ u])"
  obtain h b n where r: "task_to_runnable u ?s =
      Some ((upd_tcb u ready_tcb ?s)\<lparr>qh := h, tn_ready_to_run_bmp := b, tn_next_task_to_run := n\<rparr>)"
    "kernel_ok ((upd_tcb u ready_tcb ?s)\<lparr>qh := h, tn_ready_to_run_bmp := b, tn_next_task_to_run := n\<rparr>) ?L'"
    using enter_ready [of ?s L u] ok id st by auto
  let ?s1 = "(upd_tcb u ready_tcb ?s)\<lparr>qh := h, tn_ready_to_run_bmp := b, tn_next_task_to_run := n\<rparr>"
  have u1: "is_task ?s1 u" "task_state (tcb ?s1 u) = TSK_STATE_RUNNABLE" "cpsr ?s1 = cpsr s OR 0xC0"
    using id by (simp_all add: ready_tcb_def)
  obtain m s' where m: "leave_reschedule (cpsr s) ?s1 = Some (if tn_curr_run_task ?s1 \<noteq> Some m \<and> tn_enable_switch_context ?s1 \<noteq> 0 then Switch RetNoErr else ret TERR_NO_ERR, s')"
    "kernel_ok s' ?L'" "tcb s' = tcb ?s1" "same_objects ?s1 s'"
    "if tn_curr_run_task ?s1 \<noteq> Some m \<and> tn_enable_switch_context ?s1 \<noteq> 0
     then curr_ok s' \<and> tn_curr_run_task s' = Some m else tn_curr_run_task s' = tn_curr_run_task ?s1 \<and> cpsr s' = cpsr s" "irq_kept (cpsr s) s'"
    using leave_reschedule_ok [OF r(2) u1] by blast
  have t': "tcb s' = (tcb s)(u := ready_tcb (tcb s u))" using m(3) by (simp add: fun_eq_iff)
  have tu: "t \<noteq> u" using t(3) st by auto
  have "curr_ok s'"
    using t tu m(5) t' by (auto simp: curr_ok_def is_task_def split: if_splits)
  moreover have "same_objects s s'" using m(4) by (simp add: same_objects_def)
  ultimately show ?thesis
    using r(1) m(1,2,6) t'
    by (intro exI [of _ ?s1] exI [of _ "if tn_curr_run_task ?s1 \<noteq> Some m \<and> tn_enable_switch_context ?s1 \<noteq> 0
          then Switch RetNoErr else ret TERR_NO_ERR"] exI [of _ s']) simp
qed

lemma task_resume_ok:
  assumes ok: "kernel_ok s L" and id: "is_task s u" and ctx: "\<not> check_non_int_context s" and c: "curr_ok s"
  shows "\<exists>r s' L'. tn_task_resume (Some u) s = Some (r, s') \<and> kernel_ok s' L' \<and> curr_ok s' \<and>
    same_objects s s' \<and> irq_kept (cpsr s) s' \<and> (\<forall>q. plain_head q \<longrightarrow> L' q = L q) \<and>
    (if \<not> suspended s u then r = ret TERR_WSTATE \<and> s' = s
     else if task_state (tcb s u) = TSK_STATE_SUSPEND
     then tcb s' = (tcb s)(u := ready_tcb (tcb s u)) \<and>
          L' = L(ReadyList (priority (tcb s u)) := L (ReadyList (priority (tcb s u))) @ [TaskQ u]) \<and>
          r \<in> {Switch RetNoErr, ret TERR_NO_ERR}
     else r = ret TERR_NO_ERR \<and> s' = upd_tcb u (\<lambda>x. x\<lparr>task_state := TSK_STATE_WAIT\<rparr>) s \<and> L' = L)"
proof -
  let ?s = "s\<lparr>cpsr := cpsr s OR 0xC0\<rparr>"
  let ?f = "\<lambda>st x. x\<lparr>task_state := st\<rparr>"
  have id': "id_task (tcb s u) = TN_ID_TASK" using id by (simp add: is_task_def)
  note enter = tn_task_resume_def id' ctx save_sr_eq
  obtain t where t: "tn_curr_run_task s = Some t" "is_task s t" "task_state (tcb s t) = TSK_STATE_RUNNABLE"
    using c by (auto simp: curr_ok_def)
  consider (no) "\<not> suspended s u" | (susp) "task_state (tcb s u) = TSK_STATE_SUSPEND"
    | (wait) "task_state (tcb s u) = TSK_STATE_WAITSUSP"
    by (auto simp: suspended_def)
  then show ?thesis
  proof cases
    case no
    then have "tn_task_resume (Some u) s = Some (ret TERR_WSTATE, s)"
      using task_states [OF ok id] by (auto simp: enter suspended_def leave_eq)
    then show ?thesis using no ok c by auto
  next
    case wait
    let ?s' = "upd_tcb u (?f TSK_STATE_WAIT) s"
    have nu: "tn_curr_run_task s \<noteq> Some u" using t wait by auto
    have "upd_tcb u (\<lambda>t. t\<lparr>task_state := task_state t AND NOT TSK_STATE_SUSPEND\<rparr>) s = ?s'"
      using wait by (intro upd_cong) simp
    then have "tn_task_resume (Some u) s = Some (ret TERR_NO_ERR, ?s')"
      using wait by (simp add: enter leave_eq)
    moreover have "kernel_ok ?s' L" using kernel_waitsusp [OF ok id] wait by simp
    moreover have "curr_ok ?s'" using curr_ok_upd [of s u "?f TSK_STATE_WAIT", OF nu] c by simp
    ultimately show ?thesis using wait by (auto simp: suspended_def)
  next
    case susp
    obtain s1 r s' where m: "task_to_runnable u ?s = Some s1" "leave_reschedule (cpsr s) s1 = Some (r, s')"
      "r \<in> {Switch RetNoErr, ret TERR_NO_ERR}"
      "kernel_ok s' (L(ReadyList (priority (tcb s u)) := L (ReadyList (priority (tcb s u))) @ [TaskQ u]))"
      "curr_ok s'" "tcb s' = (tcb s)(u := ready_tcb (tcb s u))" "same_objects s s'" "irq_kept (cpsr s) s'"
      using make_ready [OF ok id _ c] susp by auto
    have "tn_task_resume (Some u) s = Some (r, s')" using susp m(1,2) by (simp add: enter)
    with m(3-8) susp show ?thesis by (auto simp: suspended_def)
  qed
qed

text \<open>C31. \<open>tn_task_resume\<close> takes back a suspension: a suspended task becomes ready, behind the other tasks of its
  priority, and a task that also waits goes on waiting. Without a suspension it is refused.\<close>

theorem task_resume_cases:
  assumes ok: "kernel_ok s L" and id: "is_task s u" and ctx: "\<not> check_non_int_context s" and c: "curr_ok s"
  shows "\<exists>r s' L'. tn_task_resume (Some u) s = Some (r, s') \<and> kernel_ok s' L' \<and> curr_ok s' \<and>
    (if \<not> suspended s u then r = ret TERR_WSTATE \<and> s' = s
     else if task_state (tcb s u) = TSK_STATE_SUSPEND
     then tcb s' = (tcb s)(u := ready_tcb (tcb s u)) \<and>
          L' = L(ReadyList (priority (tcb s u)) := L (ReadyList (priority (tcb s u))) @ [TaskQ u]) \<and>
          r \<in> {Switch RetNoErr, ret TERR_NO_ERR}
     else r = ret TERR_NO_ERR \<and> s' = upd_tcb u (\<lambda>x. x\<lparr>task_state := TSK_STATE_WAIT\<rparr>) s \<and> L' = L)"
  using task_resume_ok [OF assms] by blast

theorem task_resume_cases_witness:
  "\<exists>r s' L'. tn_task_resume (Some 9) demo = Some (r, s') \<and> kernel_ok s' L' \<and> curr_ok s' \<and>
     L' (ReadyList 6) = [TaskQ 9] \<and> task_state (tcb s' 9) = TSK_STATE_RUNNABLE"
proof -
  have "is_task demo 9" "task_state (tcb demo 9) = TSK_STATE_SUSPEND" "priority (tcb demo 9) = 6"
    by (simp_all add: is_task_def demo_defs)
  then show ?thesis
    using task_resume_cases [OF demo_ok _ demo_curr(4,1), of 9]
    by (auto simp: suspended_def demo_lists_ready ready_tcb_def intro: kernel_ok_at)
qed

text \<open>C32. Suspending a task that waits and resuming it again gives back the very same state.\<close>

theorem suspend_resume_waiting:
  assumes id: "is_task s u" and w: "task_state (tcb s u) = TSK_STATE_WAIT" and ctx: "\<not> check_non_int_context s"
    and c: "tn_curr_run_task s \<noteq> Some u"
  shows "\<exists>s'. tn_task_suspend (Some u) s = Some (ret TERR_NO_ERR, s') \<and> task_state (tcb s' u) = TSK_STATE_WAITSUSP \<and>
    tn_task_resume (Some u) s' = Some (ret TERR_NO_ERR, s)"
proof -
  let ?s' = "upd_tcb u (\<lambda>x. x\<lparr>task_state := TSK_STATE_WAITSUSP\<rparr>) s"
  have id': "id_task (tcb s u) = TN_ID_TASK" using id by (simp add: is_task_def)
  have eq: "upd_tcb u (\<lambda>t. t\<lparr>task_state := task_state t OR TSK_STATE_SUSPEND\<rparr>) s = ?s'"
    using w by (intro upd_cong) simp
  have sus: "tn_task_suspend (Some u) s = Some (ret TERR_NO_ERR, ?s')"
    using w c eq by (simp add: tn_task_suspend_def id' ctx save_sr_eq leave_eq)
  have "(tcb s u)\<lparr>task_state := TSK_STATE_WAIT\<rparr> = tcb s u" using w by (cases "tcb s u") simp
  then have undo: "upd_tcb u (\<lambda>t. t\<lparr>task_state := task_state t AND NOT TSK_STATE_SUSPEND\<rparr>) ?s' = s"
    by (simp add: upd_tcb_def)
  have "check_non_int_context ?s' = check_non_int_context s"
    by (simp add: check_non_int_context_def tn_chk_irq_disabled_def)
  then have "tn_task_resume (Some u) ?s' = Some (ret TERR_NO_ERR, s)"
    using id' ctx undo by (simp add: tn_task_resume_def save_sr_eq leave_eq)
  with sus show ?thesis by (intro exI [of _ ?s']) simp
qed

theorem suspend_resume_waiting_witness:
  "\<exists>s'. tn_task_suspend (Some 3) demo = Some (ret TERR_NO_ERR, s') \<and> tn_task_resume (Some 3) s' = Some (ret TERR_NO_ERR, demo)"
proof -
  have "is_task demo 3" "task_state (tcb demo 3) = TSK_STATE_WAIT" "tn_curr_run_task demo \<noteq> Some 3"
    by (simp_all add: is_task_def demo_defs)
  then show ?thesis using suspend_resume_waiting [OF _ _ demo_curr(4), of 3] by auto
qed

section \<open>Sleep and wake-up\<close>

lemma task_sleep_ok:
  assumes ok: "kernel_ok s L" and ctx: "\<not> check_non_int_context s" and c: "curr_ok s" and o: "other_ready s"
    and t: "tn_curr_run_task s = Some t" and tm: "timeout \<noteq> 0"
  shows "\<exists>r s' L'. tn_task_sleep timeout s = Some (r, s') \<and> kernel_ok s' L' \<and> curr_ok s' \<and>
    same_objects s s' \<and> irq_kept (cpsr s) s' \<and> (\<forall>q. plain_head q \<longrightarrow> L' q = L q) \<and>
    (if wakeup_count (tcb s t) > 0
     then r = ret TERR_NO_ERR \<and> s' = upd_tcb t (\<lambda>x. x\<lparr>wakeup_count := wakeup_count x - 1\<rparr>) s
     else r = Switch RetNoErr \<and> tn_curr_run_task s' \<noteq> Some t \<and>
          tcb s' = (tcb s)(t := wait_tcb None TSK_WAIT_REASON_SLEEP timeout (tcb s t)))"
proof -
  let ?s = "s\<lparr>cpsr := cpsr s OR 0xC0\<rparr>"
  note enter = tn_task_sleep_def ctx save_sr_eq tm t
  show ?thesis
  proof (cases "wakeup_count (tcb s t) > 0")
    case True
    let ?f = "\<lambda>x. x\<lparr>wakeup_count := wakeup_count x - 1\<rparr>"
    have f: "same_sched_fields (?f (tcb s t)) (tcb s t)" by (simp add: same_sched_fields_def)
    have "tn_task_sleep timeout s = Some (ret TERR_NO_ERR, upd_tcb t ?f s)"
      using True by (simp add: enter leave_eq)
    then show ?thesis
      using True kernel_upd_tcb [where f = ?f, OF ok f] upd_tcb_ready(1) [where f = ?f, OF f] c by auto
  next
    case False
    have pre: "kernel_ok ?s L" "curr_ok ?s" "other_ready ?s" "cpsr ?s = cpsr s OR 0xC0" "tn_curr_run_task ?s = Some t"
      using ok c o t by simp_all
    have q: "case None of None \<Rightarrow> TSK_WAIT_REASON_SLEEP = TSK_WAIT_REASON_SLEEP
      | Some q \<Rightarrow> q \<in> heads ?s \<and> TSK_WAIT_REASON_SLEEP \<in> wait_reasons q" by simp
    obtain s1 s' L' where w: "task_curr_to_wait_action None TSK_WAIT_REASON_SLEEP timeout ?s = Some s1"
      "leave_switch (cpsr s) RetNoErr s1 = Some (Switch RetNoErr, s')" "kernel_ok s' L'" "curr_ok s'"
      "tcb s' = (tcb ?s)(t := wait_tcb None TSK_WAIT_REASON_SLEEP timeout (tcb ?s t))" "tn_curr_run_task s' \<noteq> Some t"
      "same_objects ?s s'" "cpsr s' = cpsr s AND NOT 0xC0" "\<forall>q. plain_head q \<longrightarrow> L' q = L q"
      using block_switch [OF pre(1-3) q _ pre(4,5), of timeout RetNoErr] by auto
    have "tn_task_sleep timeout s = Some (Switch RetNoErr, s')"
      using w(1,2) False by (simp add: enter)
    with w False show ?thesis by (auto simp: irq_kept_def)
  qed
qed

text \<open>C33. \<open>tn_task_sleep\<close> consumes a wake-up that was counted, and otherwise puts the running task to sleep, with
  its timeout, and gives the processor to another task.\<close>

theorem task_sleep_cases:
  assumes ok: "kernel_ok s L" and ctx: "\<not> check_non_int_context s" and c: "curr_ok s" and o: "other_ready s"
    and t: "tn_curr_run_task s = Some t" and tm: "timeout \<noteq> 0"
  shows "\<exists>r s' L'. tn_task_sleep timeout s = Some (r, s') \<and> kernel_ok s' L' \<and> curr_ok s' \<and>
    (if wakeup_count (tcb s t) > 0
     then r = ret TERR_NO_ERR \<and> s' = upd_tcb t (\<lambda>x. x\<lparr>wakeup_count := wakeup_count x - 1\<rparr>) s
     else r = Switch RetNoErr \<and> tn_curr_run_task s' \<noteq> Some t \<and>
          tcb s' = (tcb s)(t := wait_tcb None TSK_WAIT_REASON_SLEEP timeout (tcb s t)))"
  using task_sleep_ok [OF assms] by blast

theorem task_sleep_cases_witness:
  "\<exists>s' L'. tn_task_sleep 10 demo = Some (Switch RetNoErr, s') \<and> kernel_ok s' L' \<and>
     task_state (tcb s' 2) = TSK_STATE_WAIT \<and> tick_count (tcb s' 2) = 10"
proof -
  have "wakeup_count (tcb demo 2) = 0" by (simp add: demo_defs)
  then show ?thesis
    using task_sleep_cases [OF demo_ok demo_curr(4,1,2,3), of 10] by (auto simp: wait_tcb_def)
qed

text \<open>A task that sleeps is woken up; it is in no wait queue of an object.\<close>

lemma wake_sleeper:
  assumes ok: "kernel_ok s L" and t: "is_task s u"
    and w: "task_state (tcb s u) = TSK_STATE_WAIT \<or> task_state (tcb s u) = TSK_STATE_WAITSUSP"
    and r: "task_wait_reason (tcb s u) = TSK_WAIT_REASON_SLEEP"
  shows "\<exists>s'. task_wait_complete (Some u) s = Some (task_state (tcb s u) = TSK_STATE_WAIT, s') \<and>
    kernel_ok s' (complete_lists u (tcb s u) L) \<and> tcb s' = (tcb s)(u := complete_tcb (tcb s u)) \<and> same_objects s s' \<and>
    tn_curr_run_task s' = tn_curr_run_task s \<and> cpsr s' = cpsr s"
proof -
  have pw: "pwait_queue (tcb s u) = None"
  proof (cases "pwait_queue (tcb s u)")
    case (Some q)
    then have "TSK_WAIT_REASON_SLEEP \<in> wait_reasons q"
      using kernel_task [OF ok t] w r by (auto simp: task_fields_ok_def)
    then show ?thesis by (cases q) simp_all
  qed
  have nm: "\<not> waits_for_mutex (tcb s u)" using r by (simp add: waits_for_mutex_def)
  have "home s (TaskQ u) = None" using t w pw by (auto simp: task_home_def)
  then have pl: "placed (qh s) (heads s) L ((home s)(TaskQ u := None))"
    using kernel_placed [OF ok] by (simp add: fun_upd_idem)
  obtain h b n where c: "task_wait_complete (Some u) (s\<lparr>qh := qh s\<rparr>) = Some (task_state (tcb s u) = TSK_STATE_WAIT,
      (upd_tcb u complete_tcb s)\<lparr>qh := h, tn_ready_to_run_bmp := b, tn_next_task_to_run := n\<rparr>)"
    "kernel_ok ((upd_tcb u complete_tcb s)\<lparr>qh := h, tn_ready_to_run_bmp := b, tn_next_task_to_run := n\<rparr>)
      (complete_lists u (tcb s u) L)"
    using complete_ok [OF ok t w nm pl] by blast
  let ?s' = "(upd_tcb u complete_tcb s)\<lparr>qh := h, tn_ready_to_run_bmp := b, tn_next_task_to_run := n\<rparr>"
  have "same_objects s ?s'" by (simp add: same_objects_def fun_eq_iff)
  moreover have "tcb ?s' = (tcb s)(u := complete_tcb (tcb s u))" by (simp add: fun_eq_iff)
  ultimately show ?thesis using c by (intro exI [of _ ?s']) (simp add: qh_same)
qed

text \<open>A call that ends the sleep of another task, and gives the processor away if that task is ready then.\<close>

lemma end_sleep:
  assumes ok: "kernel_ok s L" and id: "is_task s u" and c: "curr_ok s"
    and w: "task_state (tcb s u) = TSK_STATE_WAIT \<or> task_state (tcb s u) = TSK_STATE_WAITSUSP"
    and r: "task_wait_reason (tcb s u) = TSK_WAIT_REASON_SLEEP"
  shows "\<exists>s1 s' L'. task_wait_complete (Some u) (s\<lparr>cpsr := cpsr s OR 0xC0\<rparr>) = Some (task_state (tcb s u) = TSK_STATE_WAIT, s1) \<and>
    (if task_state (tcb s u) = TSK_STATE_WAIT then leave_switch (cpsr s) RetNoErr s1 else leave (cpsr s) TERR_NO_ERR s1) =
      Some (if task_state (tcb s u) = TSK_STATE_WAIT then Switch RetNoErr else ret TERR_NO_ERR, s') \<and>
    kernel_ok s' L' \<and> curr_ok s' \<and> same_objects s s' \<and> irq_kept (cpsr s) s' \<and> (\<forall>q. plain_head q \<longrightarrow> L' q = L q) \<and>
    tcb s' = (tcb s)(u := complete_tcb (tcb s u))"
proof -
  let ?s = "s\<lparr>cpsr := cpsr s OR 0xC0\<rparr>"
  obtain s1 where s1: "task_wait_complete (Some u) ?s = Some (task_state (tcb ?s u) = TSK_STATE_WAIT, s1)"
    "kernel_ok s1 (complete_lists u (tcb ?s u) L)" "tcb s1 = (tcb ?s)(u := complete_tcb (tcb ?s u))" "same_objects ?s s1"
    "tn_curr_run_task s1 = tn_curr_run_task ?s" "cpsr s1 = cpsr ?s"
    using wake_sleeper [of ?s L u] ok id w r by auto
  have u1: "task_state (tcb s u) = TSK_STATE_WAIT \<longrightarrow> is_task s1 u \<and> task_state (tcb s1 u) = TSK_STATE_RUNNABLE"
    using id s1(3) by (simp add: is_task_def complete_tcb_def)
  have c1: "cpsr s1 = cpsr s OR 0xC0" using s1(6) by simp
  obtain s' where s': "(if task_state (tcb s u) = TSK_STATE_WAIT then leave_switch (cpsr s) RetNoErr s1 else leave (cpsr s) TERR_NO_ERR s1) =
      Some (if task_state (tcb s u) = TSK_STATE_WAIT then Switch RetNoErr else ret TERR_NO_ERR, s')"
    "kernel_ok s' (complete_lists u (tcb ?s u) L)" "tcb s' = tcb s1"
    "if task_state (tcb s u) = TSK_STATE_WAIT then curr_ok s' else cpsr s' = cpsr s \<and> tn_curr_run_task s' = tn_curr_run_task s1"
    "same_objects s1 s'" "irq_kept (cpsr s) s'"
    using leave_either [OF s1(2) u1 c1, of RetNoErr TERR_NO_ERR] by blast
  have "curr_ok s'"
    using s'(3,4) s1(3,5) c w by (auto simp: curr_ok_def is_task_def split: if_splits)
  moreover have "same_objects s s'" using s1(4) s'(5) by (simp add: same_objects_def)
  moreover have "complete_lists u (tcb ?s u) L q = L q" if "plain_head q" for q using that by simp
  moreover have "tcb s' = (tcb s)(u := complete_tcb (tcb s u))" using s1(3) s'(3) by simp
  ultimately show ?thesis
    using s1(1) s'(1,2,6)
    by (intro exI [of _ s1] exI [of _ s'] exI [of _ "complete_lists u (tcb ?s u) L"]) simp
qed

lemma task_wakeup_ok:
  assumes ok: "kernel_ok s L" and id: "is_task s u" and ctx: "\<not> check_non_int_context s" and c: "curr_ok s"
    and t: "tn_curr_run_task s = Some t"
  shows "\<exists>r s' L'. tn_task_wakeup (Some u) s = Some (r, s') \<and> kernel_ok s' L' \<and> curr_ok s' \<and>
    same_objects s s' \<and> irq_kept (cpsr s) s' \<and> (\<forall>q. plain_head q \<longrightarrow> L' q = L q) \<and>
    (if task_state (tcb s u) = TSK_STATE_DORMANT then r = ret TERR_WCONTEXT \<and> s' = s
     else if task_wait_reason (tcb s u) = TSK_WAIT_REASON_SLEEP
     then r = (if task_state (tcb s u) = TSK_STATE_WAIT then Switch RetNoErr else ret TERR_NO_ERR) \<and>
          tcb s' = (tcb s)(u := complete_tcb (tcb s u))
     else if wakeup_count (tcb s t) = 0 then r = ret TERR_NO_ERR \<and> s' = upd_tcb t (\<lambda>x. x\<lparr>wakeup_count := 1\<rparr>) s
     else r = ret TERR_OVERFLOW \<and> s' = s)"
proof -
  let ?s = "s\<lparr>cpsr := cpsr s OR 0xC0\<rparr>"
  have id': "id_task (tcb s u) = TN_ID_TASK" using id by (simp add: is_task_def)
  note enter = tn_task_wakeup_def id' ctx save_sr_eq
  have tf: "task_fields_ok s (tcb s u)" by (rule kernel_task [OF ok id])
  consider (dorm) "task_state (tcb s u) = TSK_STATE_DORMANT"
    | (sleep) "task_wait_reason (tcb s u) = TSK_WAIT_REASON_SLEEP"
        "task_state (tcb s u) = TSK_STATE_WAIT \<or> task_state (tcb s u) = TSK_STATE_WAITSUSP"
    | (count) "task_state (tcb s u) \<noteq> TSK_STATE_DORMANT" "task_wait_reason (tcb s u) \<noteq> TSK_WAIT_REASON_SLEEP"
    using tf by (auto simp: task_fields_ok_def split: if_splits)
  then show ?thesis
  proof cases
    case dorm
    then have "tn_task_wakeup (Some u) s = Some (ret TERR_WCONTEXT, s)" by (simp add: enter leave_eq)
    then show ?thesis using dorm ok c by auto
  next
    case sleep
    obtain s1 s' L' where e: "task_wait_complete (Some u) ?s = Some (task_state (tcb s u) = TSK_STATE_WAIT, s1)"
      "(if task_state (tcb s u) = TSK_STATE_WAIT then leave_switch (cpsr s) RetNoErr s1 else leave (cpsr s) TERR_NO_ERR s1) =
        Some (if task_state (tcb s u) = TSK_STATE_WAIT then Switch RetNoErr else ret TERR_NO_ERR, s')"
      "kernel_ok s' L'" "curr_ok s'" "same_objects s s'" "irq_kept (cpsr s) s'" "\<forall>q. plain_head q \<longrightarrow> L' q = L q"
      "tcb s' = (tcb s)(u := complete_tcb (tcb s u))"
      using end_sleep [OF ok id c sleep(2,1)] by blast
    have "tn_task_wakeup (Some u) s = Some (if task_state (tcb s u) = TSK_STATE_WAIT then Switch RetNoErr else ret TERR_NO_ERR, s')"
      using e(1,2) sleep by (auto simp: enter)
    then show ?thesis using e(3-8) sleep by auto
  next
    case count
    let ?f = "\<lambda>x. x\<lparr>wakeup_count := 1\<rparr>"
    have f: "same_sched_fields (?f (tcb s t)) (tcb s t)" by (simp add: same_sched_fields_def)
    have nd: "\<not> has_bits (task_state (tcb s u)) TSK_STATE_DORMANT"
      using task_states [OF ok id] count(1) by auto
    have "upd_tcb t (\<lambda>t. t\<lparr>wakeup_count := wakeup_count t + 1\<rparr>) s = upd_tcb t ?f s" if "wakeup_count (tcb s t) = 0"
      using that by (intro upd_cong) simp
    then have "tn_task_wakeup (Some u) s = Some (if wakeup_count (tcb s t) = 0 then (ret TERR_NO_ERR, upd_tcb t ?f s) else (ret TERR_OVERFLOW, s))"
      using count nd t by (simp add: enter count_wakeup_def leave_eq)
    then show ?thesis
      using count kernel_upd_tcb [where f = ?f, OF ok f] upd_tcb_ready(1) [where f = ?f, OF f] c ok
      by (cases "wakeup_count (tcb s t) = 0") auto
  qed
qed

text \<open>C34. \<open>tn_task_wakeup\<close>: the wait of a sleeping task ends; a dormant task is refused. In all other cases the wake-up is
  counted, once, but in the control block of the task that calls.\<close>

theorem task_wakeup_cases:
  assumes ok: "kernel_ok s L" and id: "is_task s u" and ctx: "\<not> check_non_int_context s" and c: "curr_ok s"
    and t: "tn_curr_run_task s = Some t"
  shows "\<exists>r s' L'. tn_task_wakeup (Some u) s = Some (r, s') \<and> kernel_ok s' L' \<and> curr_ok s' \<and>
    (if task_state (tcb s u) = TSK_STATE_DORMANT then r = ret TERR_WCONTEXT \<and> s' = s
     else if task_wait_reason (tcb s u) = TSK_WAIT_REASON_SLEEP
     then r = (if task_state (tcb s u) = TSK_STATE_WAIT then Switch RetNoErr else ret TERR_NO_ERR) \<and>
          tcb s' = (tcb s)(u := complete_tcb (tcb s u))
     else if wakeup_count (tcb s t) = 0 then r = ret TERR_NO_ERR \<and> s' = upd_tcb t (\<lambda>x. x\<lparr>wakeup_count := 1\<rparr>) s
     else r = ret TERR_OVERFLOW \<and> s' = s)"
  using task_wakeup_ok [OF assms] by blast

theorem task_wakeup_cases_witness:
  "(\<exists>s' L'. tn_task_wakeup (Some 0) demo = Some (Switch RetNoErr, s') \<and> kernel_ok s' L' \<and> curr_ok s' \<and>
     task_state (tcb s' 0) = TSK_STATE_RUNNABLE) \<and>
   tn_task_wakeup (Some 9) demo = Some (ret TERR_NO_ERR, upd_tcb 2 (\<lambda>x. x\<lparr>wakeup_count := 1\<rparr>) demo)"
proof -
  have t: "is_task demo 0" "task_state (tcb demo 0) = TSK_STATE_WAIT" "task_wait_reason (tcb demo 0) = TSK_WAIT_REASON_SLEEP"
    "is_task demo 9" "task_state (tcb demo 9) = TSK_STATE_SUSPEND" "task_wait_reason (tcb demo 9) = 0" "wakeup_count (tcb demo 2) = 0"
    by (simp_all add: is_task_def demo_defs)
  have "\<exists>s' L'. tn_task_wakeup (Some 0) demo = Some (Switch RetNoErr, s') \<and> kernel_ok s' L' \<and> curr_ok s' \<and>
     task_state (tcb s' 0) = TSK_STATE_RUNNABLE"
    using task_wakeup_cases [OF demo_ok t(1) demo_curr(4,1,3)] t by (auto simp: complete_tcb_def)
  moreover have "tn_task_wakeup (Some 9) demo = Some (ret TERR_NO_ERR, upd_tcb 2 (\<lambda>x. x\<lparr>wakeup_count := 1\<rparr>) demo)"
    using task_wakeup_cases [OF demo_ok t(4) demo_curr(4,1,3)] t by auto
  ultimately show ?thesis by blast
qed

section \<open>Release from a sleep\<close>

text \<open>\<open>tn_task_release_wait\<close> of a task that sleeps or does not wait. A task that waits for an object is not
  taken out of its wait queue.\<close>

lemma task_release_sleep_ok:
  assumes ok: "kernel_ok s L" and id: "is_task s u" and ctx: "\<not> check_non_int_context s" and c: "curr_ok s"
    and u: "has_bits (task_state (tcb s u)) TSK_STATE_WAIT \<Longrightarrow> task_wait_reason (tcb s u) = TSK_WAIT_REASON_SLEEP"
  shows "\<exists>r s' L'. tn_task_release_wait (Some u) s = Some (r, s') \<and> kernel_ok s' L' \<and> curr_ok s' \<and>
    same_objects s s' \<and> irq_kept (cpsr s) s' \<and> (\<forall>q. plain_head q \<longrightarrow> L' q = L q) \<and>
    (if task_wait_reason (tcb s u) = TSK_WAIT_REASON_SLEEP
     then r = (if task_state (tcb s u) = TSK_STATE_WAIT then Switch RetNoErr else ret TERR_NO_ERR) \<and>
          tcb s' = (tcb s)(u := complete_tcb (tcb s u))
     else r = ret TERR_WCONTEXT \<and> s' = s)"
proof -
  let ?s = "s\<lparr>cpsr := cpsr s OR 0xC0\<rparr>"
  have id': "id_task (tcb s u) = TN_ID_TASK" using id by (simp add: is_task_def)
  note enter = tn_task_release_wait_def id' ctx save_sr_eq
  have tf: "task_fields_ok s (tcb s u)" by (rule kernel_task [OF ok id])
  show ?thesis
  proof (cases "task_wait_reason (tcb s u) = TSK_WAIT_REASON_SLEEP")
    case True
    then have w: "task_state (tcb s u) = TSK_STATE_WAIT \<or> task_state (tcb s u) = TSK_STATE_WAITSUSP"
      using tf by (auto simp: task_fields_ok_def split: if_splits)
    obtain s1 s' L' where e: "task_wait_complete (Some u) ?s = Some (task_state (tcb s u) = TSK_STATE_WAIT, s1)"
      "(if task_state (tcb s u) = TSK_STATE_WAIT then leave_switch (cpsr s) RetNoErr s1 else leave (cpsr s) TERR_NO_ERR s1) =
        Some (if task_state (tcb s u) = TSK_STATE_WAIT then Switch RetNoErr else ret TERR_NO_ERR, s')"
      "kernel_ok s' L'" "curr_ok s'" "same_objects s s'" "irq_kept (cpsr s) s'" "\<forall>q. plain_head q \<longrightarrow> L' q = L q"
      "tcb s' = (tcb s)(u := complete_tcb (tcb s u))"
      using end_sleep [OF ok id c w True] by blast
    have "tn_task_release_wait (Some u) s = Some (if task_state (tcb s u) = TSK_STATE_WAIT then Switch RetNoErr else ret TERR_NO_ERR, s')"
      using e(1,2) w by (auto simp: enter)
    then show ?thesis using e(3-8) True by auto
  next
    case False
    then have "\<not> has_bits (task_state (tcb s u)) TSK_STATE_WAIT" using u by auto
    then have "tn_task_release_wait (Some u) s = Some (ret TERR_WCONTEXT, s)" by (simp add: enter leave_eq)
    then show ?thesis using False ok c by auto
  qed
qed

text \<open>\<open>tn_task_iwakeup\<close>, the wake-up from an interrupt: it counts in the control block of the task that was interrupted.\<close>

lemma task_iwakeup_ok:
  assumes ok: "kernel_ok s L" and id: "is_task s u" and ctx: "\<not> check_int_context s" and c: "curr_ok s"
    and t: "tn_curr_run_task s = Some t"
  shows "\<exists>r s' L'. tn_task_iwakeup (Some u) s = Some (r, s') \<and> kernel_ok s' L' \<and> curr_ok s' \<and>
    same_objects (s\<lparr>tn_context_switch_request := tn_context_switch_request s'\<rparr>) s' \<and> cpsr s' = cpsr s \<and>
    (\<forall>q. plain_head q \<longrightarrow> L' q = L q) \<and>
    (if task_state (tcb s u) = TSK_STATE_DORMANT then r = ret TERR_WCONTEXT \<and> s' = s
     else if task_wait_reason (tcb s u) = TSK_WAIT_REASON_SLEEP
     then r = ret TERR_NO_ERR \<and> tcb s' = (tcb s)(u := complete_tcb (tcb s u)) \<and>
          (task_state (tcb s u) = TSK_STATE_WAIT \<longrightarrow> tn_context_switch_request s' = 1)
     else if wakeup_count (tcb s t) = 0 then r = ret TERR_NO_ERR \<and> s' = upd_tcb t (\<lambda>x. x\<lparr>wakeup_count := 1\<rparr>) s
     else r = ret TERR_OVERFLOW \<and> s' = s)"
proof -
  have id': "id_task (tcb s u) = TN_ID_TASK" using id by (simp add: is_task_def)
  note enter = tn_task_iwakeup_def id' ctx
  have tf: "task_fields_ok s (tcb s u)" by (rule kernel_task [OF ok id])
  consider (dorm) "task_state (tcb s u) = TSK_STATE_DORMANT"
    | (sleep) "task_wait_reason (tcb s u) = TSK_WAIT_REASON_SLEEP"
        "task_state (tcb s u) = TSK_STATE_WAIT \<or> task_state (tcb s u) = TSK_STATE_WAITSUSP"
    | (count) "task_state (tcb s u) \<noteq> TSK_STATE_DORMANT" "task_wait_reason (tcb s u) \<noteq> TSK_WAIT_REASON_SLEEP"
    using tf by (auto simp: task_fields_ok_def split: if_splits)
  then show ?thesis
  proof cases
    case dorm
    then have "tn_task_iwakeup (Some u) s = Some (ret TERR_WCONTEXT, s)" by (simp add: enter)
    then show ?thesis using dorm ok c same_objects_refl by auto
  next
    case sleep
    obtain s1 where s1: "task_wait_complete (Some u) s = Some (task_state (tcb s u) = TSK_STATE_WAIT, s1)"
      "kernel_ok s1 (complete_lists u (tcb s u) L)" "tcb s1 = (tcb s)(u := complete_tcb (tcb s u))" "same_objects s s1"
      "tn_curr_run_task s1 = tn_curr_run_task s" "cpsr s1 = cpsr s"
      using wake_sleeper [OF ok id sleep(2,1)] by blast
    let ?s' = "if task_state (tcb s u) = TSK_STATE_WAIT then request_switch s1 else s1"
    have "tn_task_iwakeup (Some u) s = Some (ret TERR_NO_ERR, ?s')"
      using s1(1) sleep by (auto simp: enter)
    moreover have "kernel_ok ?s' (complete_lists u (tcb s u) L)" using s1(2) by (simp add: request_switch_def)
    moreover have "curr_ok ?s'"
      using s1(3,5) c sleep(2) by (auto simp: curr_ok_def is_task_def request_switch_def)
    moreover have "same_objects (s\<lparr>tn_context_switch_request := tn_context_switch_request ?s'\<rparr>) ?s'"
      using s1(4) by (simp add: same_objects_def request_switch_def)
    moreover have "\<forall>q. plain_head q \<longrightarrow> complete_lists u (tcb s u) L q = L q" by simp
    moreover have "tcb ?s' = (tcb s)(u := complete_tcb (tcb s u))" "cpsr ?s' = cpsr s"
      "task_state (tcb s u) = TSK_STATE_WAIT \<longrightarrow> tn_context_switch_request ?s' = 1"
      using s1(3,6) by (simp_all add: request_switch_def)
    moreover have "task_state (tcb s u) \<noteq> TSK_STATE_DORMANT" using sleep(2) by auto
    ultimately show ?thesis using sleep(1)
      by (intro exI [of _ "ret TERR_NO_ERR"] exI [of _ ?s'] exI [of _ "complete_lists u (tcb s u) L"]) (simp del: if_split)
  next
    case count
    let ?f = "\<lambda>x. x\<lparr>wakeup_count := 1\<rparr>"
    have f: "same_sched_fields (?f (tcb s t)) (tcb s t)" by (simp add: same_sched_fields_def)
    have nd: "\<not> has_bits (task_state (tcb s u)) TSK_STATE_DORMANT"
      using task_states [OF ok id] count(1) by auto
    have "upd_tcb t (\<lambda>t. t\<lparr>wakeup_count := wakeup_count t + 1\<rparr>) s = upd_tcb t ?f s" if "wakeup_count (tcb s t) = 0"
      using that by (intro upd_cong) simp
    then have "tn_task_iwakeup (Some u) s = Some (if wakeup_count (tcb s t) = 0 then (ret TERR_NO_ERR, upd_tcb t ?f s) else (ret TERR_OVERFLOW, s))"
      using count nd t by (simp add: enter count_wakeup_def)
    then show ?thesis
      using count kernel_upd_tcb [where f = ?f, OF ok f] upd_tcb_ready(1) [where f = ?f, OF f] c ok same_objects_refl
      by (cases "wakeup_count (tcb s t) = 0") auto
  qed
qed

section \<open>Activation\<close>

lemma task_activate_ok:
  assumes ok: "kernel_ok s L" and id: "is_task s u" and ctx: "\<not> check_non_int_context s" and c: "curr_ok s"
  shows "\<exists>r s' L'. tn_task_activate (Some u) s = Some (r, s') \<and> kernel_ok s' L' \<and> curr_ok s' \<and>
    same_objects s s' \<and> irq_kept (cpsr s) s' \<and> (\<forall>q. plain_head q \<longrightarrow> L' q = L q) \<and>
    (if task_state (tcb s u) = TSK_STATE_DORMANT
     then r \<in> {Switch RetNoErr, ret TERR_NO_ERR} \<and> tcb s' = (tcb s)(u := ready_tcb (tcb s u)) \<and>
          L' = L(ReadyList (priority (tcb s u)) := L (ReadyList (priority (tcb s u))) @ [TaskQ u])
     else if activate_count (tcb s u) = 0 then r = ret TERR_NO_ERR \<and> s' = upd_tcb u (\<lambda>x. x\<lparr>activate_count := 1\<rparr>) s
     else r = ret TERR_OVERFLOW \<and> s' = s)"
proof -
  let ?s = "s\<lparr>cpsr := cpsr s OR 0xC0\<rparr>"
  have id': "id_task (tcb s u) = TN_ID_TASK" using id by (simp add: is_task_def)
  note enter = tn_task_activate_def id' ctx save_sr_eq
  show ?thesis
  proof (cases "task_state (tcb s u) = TSK_STATE_DORMANT")
    case True
    obtain s1 r s' where m: "task_to_runnable u ?s = Some s1" "leave_reschedule (cpsr s) s1 = Some (r, s')"
      "r \<in> {Switch RetNoErr, ret TERR_NO_ERR}"
      "kernel_ok s' (L(ReadyList (priority (tcb s u)) := L (ReadyList (priority (tcb s u))) @ [TaskQ u]))"
      "curr_ok s'" "tcb s' = (tcb s)(u := ready_tcb (tcb s u))" "same_objects s s'" "irq_kept (cpsr s) s'"
      using make_ready [OF ok id _ c] True by auto
    have "tn_task_activate (Some u) s = Some (r, s')" using True m(1,2) by (simp add: enter)
    with m(3-8) True show ?thesis by auto
  next
    case False
    let ?f = "\<lambda>x. x\<lparr>activate_count := 1\<rparr>"
    have f: "same_sched_fields (?f (tcb s u)) (tcb s u)" by (simp add: same_sched_fields_def)
    have nd: "\<not> has_bits (task_state (tcb s u)) TSK_STATE_DORMANT"
      using task_states [OF ok id] False by auto
    have "upd_tcb u (\<lambda>t. t\<lparr>activate_count := activate_count t + 1\<rparr>) s = upd_tcb u ?f s" if "activate_count (tcb s u) = 0"
      using that by (intro upd_cong) simp
    then have "tn_task_activate (Some u) s = Some (if activate_count (tcb s u) = 0 then (ret TERR_NO_ERR, upd_tcb u ?f s) else (ret TERR_OVERFLOW, s))"
      using nd by (simp add: enter count_activation_def leave_eq)
    then show ?thesis
      using False kernel_upd_tcb [where f = ?f, OF ok f] upd_tcb_ready(1) [where f = ?f, OF f] c ok
      by (cases "activate_count (tcb s u) = 0") auto
  qed
qed

text \<open>C35. \<open>tn_task_activate\<close> makes a dormant task ready. An activation of a task that is not dormant is counted, once; a
  further one is refused.\<close>

theorem task_activate_cases:
  assumes ok: "kernel_ok s L" and id: "is_task s u" and ctx: "\<not> check_non_int_context s" and c: "curr_ok s"
  shows "\<exists>r s' L'. tn_task_activate (Some u) s = Some (r, s') \<and> kernel_ok s' L' \<and> curr_ok s' \<and>
    (if task_state (tcb s u) = TSK_STATE_DORMANT
     then r \<in> {Switch RetNoErr, ret TERR_NO_ERR} \<and> tcb s' = (tcb s)(u := ready_tcb (tcb s u)) \<and>
          L' = L(ReadyList (priority (tcb s u)) := L (ReadyList (priority (tcb s u))) @ [TaskQ u])
     else if activate_count (tcb s u) = 0 then r = ret TERR_NO_ERR \<and> s' = upd_tcb u (\<lambda>x. x\<lparr>activate_count := 1\<rparr>) s
     else r = ret TERR_OVERFLOW \<and> s' = s)"
  using task_activate_ok [OF assms] by blast

theorem task_activate_cases_witness:
  "\<exists>r s' L'. tn_task_activate (Some 10) demo = Some (r, s') \<and> kernel_ok s' L' \<and> curr_ok s' \<and>
     L' (ReadyList 13) = [TaskQ 10] \<and> task_state (tcb s' 10) = TSK_STATE_RUNNABLE"
proof -
  have "is_task demo 10" "task_state (tcb demo 10) = TSK_STATE_DORMANT" "priority (tcb demo 10) = 13"
    by (simp_all add: is_task_def demo_defs)
  then show ?thesis
    using task_activate_cases [OF demo_ok _ demo_curr(4,1), of 10] by (auto simp: demo_lists_ready ready_tcb_def intro: kernel_ok_at)
qed

section \<open>Change of priority\<close>

lemma change_running:
  assumes ok: "kernel_ok s L" and id: "is_task s u" and ctx: "\<not> check_non_int_context s" and c: "curr_ok s"
    and np: "0 \<le> np" "np \<le> TN_NUM_PRIORITY - 2" and run: "task_state (tcb s u) = TSK_STATE_RUNNABLE"
  shows "\<exists>r s' L'. tn_task_change_priority (Some u) np s = Some (r, s') \<and> kernel_ok s' L' \<and> curr_ok s' \<and>
    tcb s' = (tcb s)(u := (tcb s u)\<lparr>priority := if np = 0 then base_priority (tcb s u) else np\<rparr>) \<and>
    same_objects s s' \<and> irq_kept (cpsr s) s' \<and> (\<forall>q. plain_head q \<longrightarrow> L' q = L q) \<and>
    r \<in> {Switch RetNoErr, ret TERR_NO_ERR} \<and>
    (r = Switch RetNoErr \<longrightarrow> (\<exists>m. tn_curr_run_task s' = Some m \<and>
       (\<forall>v. is_task s' v \<and> task_state (tcb s' v) = TSK_STATE_RUNNABLE \<longrightarrow> priority (tcb s' m) \<le> priority (tcb s' v))))"
proof -
  let ?s = "s\<lparr>cpsr := cpsr s OR 0xC0\<rparr>"
  let ?np = "if np = 0 then base_priority (tcb s u) else np"
  have id': "id_task (tcb s u) = TN_ID_TASK" using id by (simp add: is_task_def)
  have np': "\<not> np < 0" "\<not> 30 < np" using np by simp_all
  note enter = tn_task_change_priority_def id' ctx save_sr_eq np'
  have q: "0 \<le> ?np" "?np < TN_NUM_PRIORITY" using np kernel_task [OF ok id] by (simp_all add: task_fields_ok_def)
  obtain rc h b n L' where p: "change_running_task_priority u ?np ?s =
      Some (rc, (upd_tcb u (prio_tcb ?np) ?s)\<lparr>qh := h, tn_ready_to_run_bmp := b, tn_next_task_to_run := n\<rparr>)"
    "kernel_ok ((upd_tcb u (prio_tcb ?np) ?s)\<lparr>qh := h, tn_ready_to_run_bmp := b, tn_next_task_to_run := n\<rparr>) L'"
    "\<forall>q. (\<forall>p. q \<noteq> ReadyList p) \<longrightarrow> L' q = L q"
    using change_priority_kernel [of ?s L u, OF _ _ _ q] ok id run by auto
  let ?s1 = "(upd_tcb u (prio_tcb ?np) ?s)\<lparr>qh := h, tn_ready_to_run_bmp := b, tn_next_task_to_run := n\<rparr>"
  have u1: "is_task ?s1 u" "task_state (tcb ?s1 u) = TSK_STATE_RUNNABLE" "cpsr ?s1 = cpsr s OR 0xC0"
    using id run by (simp_all add: prio_tcb_def)
  have t1: "tcb ?s1 = (tcb s)(u := (tcb s u)\<lparr>priority := ?np\<rparr>)" by (simp add: fun_eq_iff prio_tcb_def)
  show ?thesis
  proof (cases "rc \<noteq> 0")
    case True
    obtain m where m: "tn_next_task_to_run ?s1 = Some m"
      "leave_switch (cpsr s) RetNoErr ?s1 = Some (Switch RetNoErr, ?s1\<lparr>tn_curr_run_task := Some m, cpsr := cpsr s AND NOT 0xC0\<rparr>)"
      "kernel_ok (?s1\<lparr>tn_curr_run_task := Some m, cpsr := cpsr s AND NOT 0xC0\<rparr>) L'"
      "curr_ok (?s1\<lparr>tn_curr_run_task := Some m, cpsr := cpsr s AND NOT 0xC0\<rparr>)"
      using leave_switch_ok [OF p(2) u1, of RetNoErr] by blast
    define s' where "s' = ?s1\<lparr>tn_curr_run_task := Some m, cpsr := cpsr s AND NOT 0xC0\<rparr>"
    note m' = m(2-4) [folded s'_def]
    have "tn_task_change_priority (Some u) np s = Some (Switch RetNoErr, s')"
      using run p(1) True m'(1) by (cases "np = 0") (simp_all add: enter)
    moreover have "tn_next_task_to_run s' = Some m" "tn_curr_run_task s' = Some m" using m(1) by (simp_all add: s'_def)
    moreover have "tcb s' = (tcb s)(u := (tcb s u)\<lparr>priority := ?np\<rparr>)" using t1 by (simp add: s'_def)
    moreover have "same_objects s s'" "irq_kept (cpsr s) s'" by (simp_all add: s'_def same_objects_def irq_kept_def fun_eq_iff)
    ultimately show ?thesis
      using m'(2,3) p(3) run next_ok_runnable(3) [OF m'(2), of m]
      by (intro exI [of _ "Switch RetNoErr"] exI [of _ s'] exI [of _ L']) simp
  next
    case False
    let ?s' = "?s1\<lparr>cpsr := cpsr s\<rparr>"
    have "tn_task_change_priority (Some u) np s = Some (ret TERR_NO_ERR, ?s')"
      using run p(1) False by (cases "np = 0") (simp_all add: enter leave_eq)
    moreover have "kernel_ok x L' \<Longrightarrow> kernel_ok (x\<lparr>cpsr := cpsr s\<rparr>) L'" for x by simp
    then have "kernel_ok ?s' L'" using p(2) by blast
    moreover have "curr_ok ?s'" using c by (auto simp: curr_ok_def prio_tcb_def)
    moreover have "tcb ?s' = (tcb s)(u := (tcb s u)\<lparr>priority := ?np\<rparr>)" using t1 by simp
    moreover have "same_objects s ?s'" "irq_kept (cpsr s) ?s'" by (simp_all add: same_objects_def irq_kept_def fun_eq_iff)
    ultimately show ?thesis using run p(3)
      by (intro exI [of _ "ret TERR_NO_ERR"] exI [of _ ?s'] exI [of _ L']) simp
  qed
qed

lemma task_change_priority_ok:
  assumes ok: "kernel_ok s L" and id: "is_task s u" and ctx: "\<not> check_non_int_context s" and c: "curr_ok s"
    and np: "0 \<le> np" "np \<le> TN_NUM_PRIORITY - 2"
  shows "\<exists>r s' L'. tn_task_change_priority (Some u) np s = Some (r, s') \<and> kernel_ok s' L' \<and> curr_ok s' \<and>
    same_objects s s' \<and> irq_kept (cpsr s) s' \<and> (\<forall>q. plain_head q \<longrightarrow> L' q = L q) \<and>
    (if task_state (tcb s u) = TSK_STATE_DORMANT then r = ret TERR_WCONTEXT \<and> s' = s
     else tcb s' = (tcb s)(u := (tcb s u)\<lparr>priority := if np = 0 then base_priority (tcb s u) else np\<rparr>) \<and>
       r \<in> {Switch RetNoErr, ret TERR_NO_ERR} \<and>
       (r = Switch RetNoErr \<longrightarrow> (\<exists>m. tn_curr_run_task s' = Some m \<and>
          (\<forall>v. is_task s' v \<and> task_state (tcb s' v) = TSK_STATE_RUNNABLE \<longrightarrow> priority (tcb s' m) \<le> priority (tcb s' v)))))"
proof -
  let ?s = "s\<lparr>cpsr := cpsr s OR 0xC0\<rparr>"
  let ?np = "if np = 0 then base_priority (tcb s u) else np"
  have id': "id_task (tcb s u) = TN_ID_TASK" using id by (simp add: is_task_def)
  have np': "\<not> np < 0" "\<not> 30 < np" using np by simp_all
  note enter = tn_task_change_priority_def id' ctx save_sr_eq np'
  have q: "0 \<le> ?np" "?np < TN_NUM_PRIORITY" using np kernel_task [OF ok id] by (simp_all add: task_fields_ok_def)
  consider (dorm) "task_state (tcb s u) = TSK_STATE_DORMANT" | (run) "task_state (tcb s u) = TSK_STATE_RUNNABLE"
    | (idle) "task_state (tcb s u) \<noteq> TSK_STATE_DORMANT" "task_state (tcb s u) \<noteq> TSK_STATE_RUNNABLE" by auto
  then show ?thesis
  proof cases
    case dorm
    then have "tn_task_change_priority (Some u) np s = Some (ret TERR_WCONTEXT, s)" by (simp add: enter leave_eq)
    then show ?thesis using dorm ok c by auto
  next
    case idle
    have nu: "tn_curr_run_task s \<noteq> Some u" using c idle by (auto simp: curr_ok_def)
    have "tn_task_change_priority (Some u) np s = Some (ret TERR_NO_ERR, upd_tcb u (prio_tcb ?np) s)"
      using idle by (cases "np = 0") (simp_all add: enter leave_eq prio_tcb_def [abs_def])
    moreover have "kernel_ok (upd_tcb u (prio_tcb ?np) s) L" by (rule kernel_prio_idle [OF ok id idle(2) q])
    moreover have "curr_ok (upd_tcb u (prio_tcb ?np) s)" using curr_ok_upd [OF nu, of "prio_tcb ?np"] c by (simp add: prio_tcb_def)
    moreover have "tcb (upd_tcb u (prio_tcb ?np) s) = (tcb s)(u := (tcb s u)\<lparr>priority := ?np\<rparr>)"
      by (simp add: fun_eq_iff prio_tcb_def)
    ultimately show ?thesis using idle by auto
  next
    case run
    then show ?thesis using change_running [OF ok id ctx c np run] by auto
  qed
qed

text \<open>C18. \<open>tn_task_change_priority\<close> gives a task that is not dormant the new priority, or its base priority for 0;
  a ready task changes its ready list, at its end, and afterwards the invariant of the scheduler holds: the task to run next
  has the highest priority among the ready ones.\<close>

theorem task_change_priority_cases:
  assumes ok: "kernel_ok s L" and id: "is_task s u" and ctx: "\<not> check_non_int_context s" and c: "curr_ok s"
    and np: "0 \<le> np" "np \<le> TN_NUM_PRIORITY - 2"
  shows "\<exists>r s' L'. tn_task_change_priority (Some u) np s = Some (r, s') \<and> kernel_ok s' L' \<and> curr_ok s' \<and>
    (if task_state (tcb s u) = TSK_STATE_DORMANT then r = ret TERR_WCONTEXT \<and> s' = s
     else tcb s' = (tcb s)(u := (tcb s u)\<lparr>priority := if np = 0 then base_priority (tcb s u) else np\<rparr>) \<and>
       r \<in> {Switch RetNoErr, ret TERR_NO_ERR} \<and>
       (r = Switch RetNoErr \<longrightarrow> (\<exists>m. tn_curr_run_task s' = Some m \<and>
          (\<forall>v. is_task s' v \<and> task_state (tcb s' v) = TSK_STATE_RUNNABLE \<longrightarrow> priority (tcb s' m) \<le> priority (tcb s' v)))))"
  using task_change_priority_ok [OF assms] by blast

theorem task_change_priority_cases_witness:
  "\<exists>r s' L'. tn_task_change_priority (Some 1) 3 demo = Some (r, s') \<and> kernel_ok s' L' \<and> curr_ok s' \<and>
     priority (tcb s' 1) = 3"
proof -
  have t: "is_task demo 1" "task_state (tcb demo 1) = TSK_STATE_RUNNABLE" "(0::int) \<le> 3" "3 \<le> TN_NUM_PRIORITY - 2"
    by (simp_all add: is_task_def demo_defs)
  obtain r s' L' where m: "tn_task_change_priority (Some 1) 3 demo = Some (r, s')" "kernel_ok s' L'" "curr_ok s'"
    "tcb s' = (tcb demo)(1 := (tcb demo 1)\<lparr>priority := 3\<rparr>)"
    using task_change_priority_cases [OF demo_ok t(1) demo_curr(4,1) t(3,4)] t(2) by auto
  have "priority (tcb s' 1) = 3" unfolding m(4) by simp
  with m show ?thesis by blast
qed

end
