(* ===== verification/TN_Sem.thy ===== *)
theory TN_Sem
  imports TN_Demo
begin

text \<open>
  Counting semaphores, \<^verbatim>\<open>TNKernel/tn_sem.c\<close>: the seven service calls, the invariant of a
  semaphore, and the refinement of the abstract semaphore (a count and a list of waiting tasks).
\<close>

section \<open>Service calls\<close>

definition tn_sem_create :: "optr \<Rightarrow> int \<Rightarrow> int \<Rightarrow> kernel \<Rightarrow> (outcome \<times> kernel) option" where
  "tn_sem_create semp start_value max_val s =
     (if semp = None \<or> max_val \<le> 0 \<or> start_value < 0 \<or> start_value > max_val \<or>
         id_sem (sem s (the semp)) \<noteq> 0
      then do {
        i \<leftarrow> semp;
        Some (ret TERR_WRONG_PARAM, upd_sem i (\<lambda>x. x\<lparr>max_count := 0\<rparr>) s)
      }
      else if check_non_int_context s then Some (ret TERR_WCONTEXT, s)
      else do {
        i \<leftarrow> semp;
        let s = s\<lparr>qh := queue_reset (SemWaitQ i) (qh s)\<rparr>;
        Some (ret TERR_NO_ERR,
          upd_sem i (\<lambda>x. x\<lparr>count := start_value, max_count := max_val, id_sem := TN_ID_SEMAPHORE\<rparr>) s)
      })"

definition sem_delete_loop :: "oid \<Rightarrow> u32 \<Rightarrow> kernel \<Rightarrow> (outcome \<times> kernel) option" where
  "sem_delete_loop i =
     delete_waiters (SemWaitQ i) (SemDeleteLoop i)
       (\<lambda>sr s. case disable_if_enabled sr s of (sr, s) \<Rightarrow> leave sr TERR_NO_ERR (upd_sem i (\<lambda>x. x\<lparr>id_sem := 0\<rparr>) s))"

definition tn_sem_delete :: "optr \<Rightarrow> kernel \<Rightarrow> (outcome \<times> kernel) option" where
  "tn_sem_delete semp s =
     (case semp of
        None \<Rightarrow> Some (ret TERR_WRONG_PARAM, s)
      | Some i \<Rightarrow>
          if id_sem (sem s i) \<noteq> TN_ID_SEMAPHORE then Some (ret TERR_NOEXS, s)
          else if check_non_int_context s then Some (ret TERR_WCONTEXT, s)
          else sem_delete_loop i 0 s)"

definition tn_sem_signal :: "optr \<Rightarrow> kernel \<Rightarrow> (outcome \<times> kernel) option" where
  "tn_sem_signal semp s =
     (case semp of
        None \<Rightarrow> Some (ret TERR_WRONG_PARAM, s)
      | Some i \<Rightarrow>
          if max_count (sem s i) = 0 then Some (ret TERR_WRONG_PARAM, s)
          else if id_sem (sem s i) \<noteq> TN_ID_SEMAPHORE then Some (ret TERR_NOEXS, s)
          else if check_non_int_context s then Some (ret TERR_WCONTEXT, s)
          else do {
            let (sr, s) = tn_cpu_save_sr s;
            (if \<not> is_queue_empty (SemWaitQ i) (qh s) then
               do {
                 (task, s) \<leftarrow> dequeue_task (SemWaitQ i) s;
                 (sw, s) \<leftarrow> task_wait_complete task s;
                 (if sw then leave_switch sr RetNoErr s else leave sr TERR_NO_ERR s)
               }
             else if count (sem s i) < max_count (sem s i)
             then leave sr TERR_NO_ERR (upd_sem i (\<lambda>x. x\<lparr>count := count x + 1\<rparr>) s)
             else leave sr TERR_OVERFLOW s)
          })"

definition tn_sem_isignal :: "optr \<Rightarrow> kernel \<Rightarrow> (outcome \<times> kernel) option" where
  "tn_sem_isignal semp s =
     (case semp of
        None \<Rightarrow> Some (ret TERR_WRONG_PARAM, s)
      | Some i \<Rightarrow>
          if max_count (sem s i) = 0 then Some (ret TERR_WRONG_PARAM, s)
          else if id_sem (sem s i) \<noteq> TN_ID_SEMAPHORE then Some (ret TERR_NOEXS, s)
          else if check_int_context s then Some (ret TERR_WCONTEXT, s)
          else if \<not> is_queue_empty (SemWaitQ i) (qh s) then
            do {
              (task, s) \<leftarrow> dequeue_task (SemWaitQ i) s;
              (sw, s) \<leftarrow> task_wait_complete task s;
              Some (ret TERR_NO_ERR, if sw then request_switch s else s)
            }
          else if count (sem s i) < max_count (sem s i)
          then Some (ret TERR_NO_ERR, upd_sem i (\<lambda>x. x\<lparr>count := count x + 1\<rparr>) s)
          else Some (ret TERR_OVERFLOW, s))"

definition tn_sem_acquire :: "optr \<Rightarrow> u32 \<Rightarrow> kernel \<Rightarrow> (outcome \<times> kernel) option" where
  "tn_sem_acquire semp timeout s =
     (case semp of
        None \<Rightarrow> Some (ret TERR_WRONG_PARAM, s)
      | Some i \<Rightarrow>
          if timeout = 0 \<or> max_count (sem s i) = 0 then Some (ret TERR_WRONG_PARAM, s)
          else if id_sem (sem s i) \<noteq> TN_ID_SEMAPHORE then Some (ret TERR_NOEXS, s)
          else if check_non_int_context s then Some (ret TERR_WCONTEXT, s)
          else do {
            let (sr, s) = tn_cpu_save_sr s;
            (if count (sem s i) \<ge> 1
             then leave sr TERR_NO_ERR (upd_sem i (\<lambda>x. x\<lparr>count := count x - 1\<rparr>) s)
             else do {
               s \<leftarrow> task_curr_to_wait_action (Some (SemWaitQ i)) TSK_WAIT_REASON_SEM timeout s;
               leave_switch sr RetWaitRc s
             })
          })"

definition tn_sem_polling :: "optr \<Rightarrow> kernel \<Rightarrow> (outcome \<times> kernel) option" where
  "tn_sem_polling semp s =
     (case semp of
        None \<Rightarrow> Some (ret TERR_WRONG_PARAM, s)
      | Some i \<Rightarrow>
          if max_count (sem s i) = 0 then Some (ret TERR_WRONG_PARAM, s)
          else if id_sem (sem s i) \<noteq> TN_ID_SEMAPHORE then Some (ret TERR_NOEXS, s)
          else if check_non_int_context s then Some (ret TERR_WCONTEXT, s)
          else do {
            let (sr, s) = tn_cpu_save_sr s;
            (if count (sem s i) \<ge> 1
             then leave sr TERR_NO_ERR (upd_sem i (\<lambda>x. x\<lparr>count := count x - 1\<rparr>) s)
             else leave sr TERR_TIMEOUT s)
          })"

definition tn_sem_ipolling :: "optr \<Rightarrow> kernel \<Rightarrow> (outcome \<times> kernel) option" where
  "tn_sem_ipolling semp s =
     (case semp of
        None \<Rightarrow> Some (ret TERR_WRONG_PARAM, s)
      | Some i \<Rightarrow>
          if max_count (sem s i) = 0 then Some (ret TERR_WRONG_PARAM, s)
          else if id_sem (sem s i) \<noteq> TN_ID_SEMAPHORE then Some (ret TERR_NOEXS, s)
          else if check_int_context s then Some (ret TERR_WCONTEXT, s)
          else if count (sem s i) \<ge> 1
          then Some (ret TERR_NO_ERR, upd_sem i (\<lambda>x. x\<lparr>count := count x - 1\<rparr>) s)
          else Some (ret TERR_TIMEOUT, s))"

section \<open>The invariant of the semaphores\<close>

definition sem_ok :: "kernel \<Rightarrow> (qaddr \<Rightarrow> qaddr list) \<Rightarrow> bool" where
  "sem_ok s L \<longleftrightarrow>
     (\<forall>i. id_sem (sem s i) = TN_ID_SEMAPHORE \<longrightarrow>
        0 < max_count (sem s i) \<and> 0 \<le> count (sem s i) \<and> count (sem s i) \<le> max_count (sem s i) \<and>
        (0 < count (sem s i) \<longrightarrow> L (SemWaitQ i) = []))"

interpretation sm: wait_object SemWaitQ TSK_WAIT_REASON_SEM "\<lambda>s i. id_sem (sem s i) = TN_ID_SEMAPHORE"
  by unfold_locales (simp_all add: same_objects_def)

interpretation smd: deletable_object SemWaitQ TSK_WAIT_REASON_SEM "\<lambda>s i. id_sem (sem s i) = TN_ID_SEMAPHORE"
    "\<lambda>i. upd_sem i (\<lambda>x. x\<lparr>id_sem := 0\<rparr>)"
proof unfold_locales
  fix s :: kernel and i assume "id_sem (sem s i) = TN_ID_SEMAPHORE"
  then show "heads (upd_sem i (\<lambda>x. x\<lparr>id_sem := 0\<rparr>) s) = heads s - {SemWaitQ i}"
    by (intro heads_removeI, case_tac q) (simp_all add: is_task_def)
qed (simp_all add: fun_eq_iff)

section \<open>Refinement of the abstract semaphore\<close>

text \<open>The abstract semaphore: its count and the tasks that wait, first come first.\<close>

definition sem_abs :: "kernel \<Rightarrow> (qaddr \<Rightarrow> qaddr list) \<Rightarrow> oid \<Rightarrow> int \<times> qaddr list" where
  "sem_abs s L i = (count (sem s i), L (SemWaitQ i))"

fun spec_signal :: "int \<Rightarrow> int \<times> 'w list \<Rightarrow> int \<times> (int \<times> 'w list)" where
  "spec_signal mx (c, w # ws) = (TERR_NO_ERR, c, ws)"
| "spec_signal mx (c, []) = (if c < mx then (TERR_NO_ERR, c + 1, []) else (TERR_OVERFLOW, c, []))"

fun spec_acquire :: "'w \<Rightarrow> int \<times> 'w list \<Rightarrow> int option \<times> (int \<times> 'w list)" where
  "spec_acquire me (c, ws) = (if c \<ge> 1 then (Some TERR_NO_ERR, c - 1, ws) else (None, c, ws @ [me]))"

lemma sem_ok_cpsr [simp]: "sem_ok (s\<lparr>cpsr := w\<rparr>) L = sem_ok s L"
  by (simp add: sem_ok_def)

lemma kernel_live_sem: "kernel_ok s L \<Longrightarrow> id_sem (sem s i) = TN_ID_SEMAPHORE \<Longrightarrow>
    is_queue_empty (SemWaitQ i) (qh s) \<longleftrightarrow> L (SemWaitQ i) = []"
  by (rule kernel_empty) simp_all

text \<open>A call on a semaphore changes no other object.\<close>

definition sem_frame :: "kernel \<Rightarrow> kernel \<Rightarrow> bool" where
  "sem_frame s s' \<longleftrightarrow> same_objects (s\<lparr>sem := sem s'\<rparr>) s'"

lemma sem_frame_simps [simp]: "sem_frame s s" "sem_frame s (upd_sem i f s)"
  by (simp_all add: sem_frame_def same_objects_def)

lemma sem_signal_ok:
  assumes ok: "kernel_ok s L" and sem: "sem_ok s L" and id: "id_sem (sem s i) = TN_ID_SEMAPHORE"
    and ctx: "\<not> check_non_int_context s"
  shows "\<exists>r s' L'. tn_sem_signal (Some i) s = Some (r, s') \<and> kernel_ok s' L' \<and> sem_ok s' L' \<and>
    sem_frame s s' \<and> irq_kept (cpsr s) s' \<and> (curr_ok s \<longrightarrow> curr_ok s') \<and>
    tcb s' = (case L (SemWaitQ i) of TaskQ t # ws \<Rightarrow> (tcb s)(t := complete_tcb (tcb s t)) | _ \<Rightarrow> tcb s) \<and>
    (\<exists>rc. spec_signal (max_count (sem s i)) (sem_abs s L i) = (rc, sem_abs s' L' i) \<and>
      (r = ret rc \<and> cpsr s' = cpsr s \<or> r = Switch RetNoErr \<and> rc = TERR_NO_ERR \<and> curr_ok s')) \<and>
    (\<forall>t ws. L (SemWaitQ i) = TaskQ t # ws \<longrightarrow>
      tcb s' t = complete_tcb (tcb s t) \<and> (r = Switch RetNoErr \<longleftrightarrow> task_state (tcb s t) = TSK_STATE_WAIT))"
proof -
  let ?s = "s\<lparr>cpsr := cpsr s OR 0xC0\<rparr>"
  have mx: "max_count (sem s i) \<noteq> 0" using sem id by (auto simp: sem_ok_def)
  note enter = tn_sem_signal_def id mx ctx save_sr_eq kernel_live_sem [OF ok id]
  show ?thesis
  proof (cases "L (SemWaitQ i)")
    case Nil
    show ?thesis
    proof (cases "count (sem s i) < max_count (sem s i)")
      case True
      let ?s' = "upd_sem i (\<lambda>x. x\<lparr>count := count x + 1\<rparr>) s"
      have "tn_sem_signal (Some i) s = Some (ret TERR_NO_ERR, ?s')"
        using Nil True by (simp add: enter leave_eq)
      moreover have "sem_ok ?s' L" using sem Nil True by (auto simp: sem_ok_def)
      ultimately show ?thesis
        using ok Nil True by (auto simp: sem_abs_def intro!: exI [of _ L])
    next
      case False
      then have "tn_sem_signal (Some i) s = Some (ret TERR_OVERFLOW, s)"
        using Nil by (simp add: enter leave_eq)
      then show ?thesis
        using ok sem Nil False by (auto simp: sem_abs_def intro!: exI [of _ L])
    qed
  next
    case (Cons e es)
    have pre: "kernel_ok ?s L" "id_sem (sem ?s i) = TN_ID_SEMAPHORE" "cpsr ?s = cpsr s OR 0xC0" using ok id by simp_all
    obtain t h1 s2 s' L' where w: "e = TaskQ t" "dequeue_task (SemWaitQ i) ?s = Some (Some t, ?s\<lparr>qh := h1\<rparr>)"
      "task_wait_complete (Some t) (?s\<lparr>qh := h1\<rparr>) = Some (task_state (tcb ?s t) = TSK_STATE_WAIT, s2)"
      "(if task_state (tcb ?s t) = TSK_STATE_WAIT then leave_switch (cpsr s) RetNoErr s2 else leave (cpsr s) TERR_NO_ERR s2) =
        Some (if task_state (tcb ?s t) = TSK_STATE_WAIT then Switch RetNoErr else ret TERR_NO_ERR, s')"
      "kernel_ok s' L'" "tcb s' = (tcb ?s)(t := complete_tcb (tcb ?s t))" "same_objects ?s s'"
      "if task_state (tcb ?s t) = TSK_STATE_WAIT then curr_ok s' else cpsr s' = cpsr s \<and> tn_curr_run_task s' = tn_curr_run_task ?s"
      "\<forall>q. wait_head q \<longrightarrow> L' q = (if q = SemWaitQ i then es else L q)" "irq_kept (cpsr s) s'" "is_task ?s t"
      using sm.wake_leave [where f = "\<lambda>x. x", OF pre(1,2) Cons pre(3) same_fields_id, unfolded upd_tcb_id] by blast
    have "sem s' = sem s" using w(7) by (simp add: same_objects_def)
    then have "sem_ok s' L'" "sem_abs s' L' i = (count (sem s i), es)"
      using sem Cons w(9) by (auto simp: sem_ok_def sem_abs_def)
    moreover have "tn_sem_signal (Some i) s = Some (if task_state (tcb ?s t) = TSK_STATE_WAIT then Switch RetNoErr else ret TERR_NO_ERR, s')"
      using w(2-4) Cons by (simp add: enter)
    moreover have "sem_frame s s'" using w(7) by (simp add: sem_frame_def same_objects_def)
    moreover have "task_state (tcb s t) \<noteq> TSK_STATE_RUNNABLE"
      using wait_queue_entry [OF ok, of "SemWaitQ i" "TaskQ t"] Cons w(1) id by auto
    then have "curr_ok s \<longrightarrow> curr_ok s'" using w(6,8) by (auto simp: curr_ok_def is_task_def split: if_splits)
    ultimately show ?thesis
      using w(1,5,6,8,10) Cons by (auto simp: sem_abs_def [of s] split: if_splits)
  qed
qed

text \<open>C3. \<open>tn_sem_signal\<close> implements the abstract semaphore.\<close>

theorem sem_signal_refines:
  assumes ok: "kernel_ok s L" and sem: "sem_ok s L" and id: "id_sem (sem s i) = TN_ID_SEMAPHORE"
    and ctx: "\<not> check_non_int_context s"
  shows "\<exists>r s' L'. tn_sem_signal (Some i) s = Some (r, s') \<and> kernel_ok s' L' \<and> sem_ok s' L' \<and>
    (\<exists>rc. spec_signal (max_count (sem s i)) (sem_abs s L i) = (rc, sem_abs s' L' i) \<and>
      (r = ret rc \<and> cpsr s' = cpsr s \<or> r = Switch RetNoErr \<and> rc = TERR_NO_ERR \<and> curr_ok s')) \<and>
    (\<forall>t ws. L (SemWaitQ i) = TaskQ t # ws \<longrightarrow>
      tcb s' t = complete_tcb (tcb s t) \<and> (r = Switch RetNoErr \<longleftrightarrow> task_state (tcb s t) = TSK_STATE_WAIT))"
  using sem_signal_ok [OF assms] by blast

lemma demo_sem: "sem_ok demo demo_lists"
  by (auto simp: sem_ok_def demo_def demo_lists_def lists_of_def demo_lists_alist_def)

lemma demo_sem_ids: "id_sem (sem demo 0) = TN_ID_SEMAPHORE" "id_sem (sem demo (Suc 0)) = TN_ID_SEMAPHORE"
  by (simp_all add: demo_def)

theorem sem_signal_refines_witness:
  "\<exists>s' L'. tn_sem_signal (Some 0) demo = Some (Switch RetNoErr, s') \<and> kernel_ok s' L' \<and>
     sem_abs s' L' 0 = (0, []) \<and> task_state (tcb s' 3) = TSK_STATE_RUNNABLE"
proof -
  have "sem_abs demo demo_lists 0 = (0, [TaskQ 3])" "demo_lists (SemWaitQ 0) = [TaskQ 3]"
    "tcb demo 3 = demo_tcb 3"
    by (simp_all add: sem_abs_def demo_def demo_lists_def lists_of_def demo_lists_alist_def)
  with sem_signal_refines [OF demo_ok demo_sem demo_sem_ids(1) demo_curr(4)]
  show ?thesis by (auto simp: demo_tcb_def demo_task_def zero_tcb_def complete_tcb_def)
qed

lemma sem_acquire_ok:
  assumes ok: "kernel_ok s L" and sem: "sem_ok s L" and id: "id_sem (sem s i) = TN_ID_SEMAPHORE"
    and ctx: "\<not> check_non_int_context s" and c: "curr_ok s" and o: "other_ready s"
    and t: "tn_curr_run_task s = Some t" and tm: "timeout \<noteq> 0"
  shows "\<exists>r s' L'. tn_sem_acquire (Some i) timeout s = Some (r, s') \<and> kernel_ok s' L' \<and> sem_ok s' L' \<and> curr_ok s' \<and>
    sem_frame s s' \<and> irq_kept (cpsr s) s' \<and>
    (tcb s' = tcb s \<or> tcb s' = (tcb s)(t := wait_tcb (Some (SemWaitQ i)) TSK_WAIT_REASON_SEM timeout (tcb s t))) \<and>
    (\<exists>ro. spec_acquire (TaskQ t) (sem_abs s L i) = (ro, sem_abs s' L' i) \<and>
      (case ro of
         Some rc \<Rightarrow> r = ret rc \<and> cpsr s' = cpsr s \<and> tcb s' = tcb s
       | None \<Rightarrow> r = Switch RetWaitRc \<and> tn_curr_run_task s' \<noteq> Some t \<and>
           tcb s' t = wait_tcb (Some (SemWaitQ i)) TSK_WAIT_REASON_SEM timeout (tcb s t)))"
proof -
  let ?s = "s\<lparr>cpsr := cpsr s OR 0xC0\<rparr>"
  have mx: "max_count (sem s i) \<noteq> 0" using sem id by (auto simp: sem_ok_def)
  note enter = tn_sem_acquire_def id mx ctx tm save_sr_eq
  show ?thesis
  proof (cases "count (sem s i) \<ge> 1")
    case True
    let ?s' = "upd_sem i (\<lambda>x. x\<lparr>count := count x - 1\<rparr>) s"
    have "tn_sem_acquire (Some i) timeout s = Some (ret TERR_NO_ERR, ?s')"
      using True by (simp add: enter leave_eq)
    moreover have "sem_ok ?s' L" using sem True by (auto simp: sem_ok_def)
    moreover have "curr_ok ?s'" using c by (auto simp: curr_ok_def)
    moreover have "tcb ?s' = tcb s" by (simp add: fun_eq_iff)
    ultimately show ?thesis
      using ok True by (auto simp: sem_abs_def intro!: exI [of _ L])
  next
    case False
    have pre: "kernel_ok ?s L" "curr_ok ?s" "other_ready ?s" "id_sem (sem ?s i) = TN_ID_SEMAPHORE"
      "cpsr ?s = cpsr s OR 0xC0" "tn_curr_run_task ?s = Some t"
      using ok c o id t by (simp_all add: curr_ok_def other_ready_def)
    obtain s1 s' L' where w: "task_curr_to_wait_action (Some (SemWaitQ i)) TSK_WAIT_REASON_SEM timeout ?s = Some s1"
      "leave_switch (cpsr s) RetWaitRc s1 = Some (Switch RetWaitRc, s')" "kernel_ok s' L'" "curr_ok s'"
      "tcb s' = (tcb ?s)(t := wait_tcb (Some (SemWaitQ i)) TSK_WAIT_REASON_SEM timeout (tcb ?s t))"
      "same_objects ?s s'" "tn_curr_run_task s' \<noteq> Some t"
      "\<forall>q. wait_head q \<longrightarrow> L' q = (if q = SemWaitQ i then L q @ [TaskQ t] else L q)" "cpsr s' = cpsr s AND NOT 0xC0"
      using sm.wait_switch [OF pre, of timeout RetWaitRc] by blast
    have "sem s' = sem s" using w(6) by (simp add: same_objects_def)
    then have "sem_ok s' L'" "sem_abs s' L' i = (count (sem s i), L (SemWaitQ i) @ [TaskQ t])"
      using sem False w(8) by (auto simp: sem_ok_def sem_abs_def)
    moreover have "tn_sem_acquire (Some i) timeout s = Some (Switch RetWaitRc, s')"
      using w(1,2) False by (simp add: enter)
    moreover have "sem_frame s s'" "irq_kept (cpsr s) s'" using w(6,9) by (simp_all add: sem_frame_def same_objects_def irq_kept_def)
    ultimately show ?thesis
      using w(3-5,7) False by (auto simp: sem_abs_def [of s])
  qed
qed

text \<open>C19. \<open>tn_sem_acquire\<close> takes a unit when there is one, and otherwise puts the running task at the
  end of the queue, with its timeout, and gives the processor to another task.\<close>

theorem sem_acquire_refines:
  assumes ok: "kernel_ok s L" and sem: "sem_ok s L" and id: "id_sem (sem s i) = TN_ID_SEMAPHORE"
    and ctx: "\<not> check_non_int_context s" and c: "curr_ok s" and o: "other_ready s"
    and t: "tn_curr_run_task s = Some t" and tm: "timeout \<noteq> 0"
  shows "\<exists>r s' L'. tn_sem_acquire (Some i) timeout s = Some (r, s') \<and> kernel_ok s' L' \<and> sem_ok s' L' \<and> curr_ok s' \<and>
    (\<exists>ro. spec_acquire (TaskQ t) (sem_abs s L i) = (ro, sem_abs s' L' i) \<and>
      (case ro of
         Some rc \<Rightarrow> r = ret rc \<and> cpsr s' = cpsr s \<and> tcb s' = tcb s
       | None \<Rightarrow> r = Switch RetWaitRc \<and> tn_curr_run_task s' \<noteq> Some t \<and>
           tcb s' t = wait_tcb (Some (SemWaitQ i)) TSK_WAIT_REASON_SEM timeout (tcb s t)))"
  using sem_acquire_ok [OF assms] by blast

theorem sem_acquire_refines_witness:
  "\<exists>s' L'. tn_sem_acquire (Some 0) 50 demo = Some (Switch RetWaitRc, s') \<and> kernel_ok s' L' \<and>
     sem_abs s' L' 0 = (0, [TaskQ 3, TaskQ 2]) \<and> task_state (tcb s' 2) = TSK_STATE_WAIT"
proof -
  have "sem_abs demo demo_lists 0 = (0, [TaskQ 3])"
    by (simp add: sem_abs_def demo_def demo_lists_def lists_of_def demo_lists_alist_def)
  with sem_acquire_refines [OF demo_ok demo_sem demo_sem_ids(1) demo_curr(4,1,2,3), of 50]
  show ?thesis by (auto simp: wait_tcb_def)
qed

lemma sem_isignal_ok:
  assumes ok: "kernel_ok s L" and sem: "sem_ok s L" and id: "id_sem (sem s i) = TN_ID_SEMAPHORE"
    and ctx: "\<not> check_int_context s"
  shows "\<exists>rc s' L'. tn_sem_isignal (Some i) s = Some (ret rc, s') \<and> kernel_ok s' L' \<and> sem_ok s' L' \<and>
    sem_frame (s\<lparr>tn_context_switch_request := tn_context_switch_request s'\<rparr>) s' \<and> (curr_ok s \<longrightarrow> curr_ok s') \<and>
    tcb s' = (case L (SemWaitQ i) of TaskQ t # ws \<Rightarrow> (tcb s)(t := complete_tcb (tcb s t)) | _ \<Rightarrow> tcb s) \<and>
    spec_signal (max_count (sem s i)) (sem_abs s L i) = (rc, sem_abs s' L' i) \<and>
    tn_curr_run_task s' = tn_curr_run_task s \<and> cpsr s' = cpsr s \<and>
    (\<forall>t. TaskQ t = hd (L (SemWaitQ i)) \<and> L (SemWaitQ i) \<noteq> [] \<and> task_state (tcb s t) = TSK_STATE_WAIT \<longrightarrow>
       tn_context_switch_request s' = 1 \<and> task_state (tcb s' t) = TSK_STATE_RUNNABLE)"
proof -
  have mx: "max_count (sem s i) \<noteq> 0" using sem id by (auto simp: sem_ok_def)
  note enter = tn_sem_isignal_def id mx ctx kernel_live_sem [OF ok id]
  show ?thesis
  proof (cases "L (SemWaitQ i)")
    case Nil
    show ?thesis
    proof (cases "count (sem s i) < max_count (sem s i)")
      case True
      have "sem_ok (upd_sem i (\<lambda>x. x\<lparr>count := count x + 1\<rparr>) s) L" using sem Nil True by (auto simp: sem_ok_def)
      then show ?thesis
        using ok Nil True
        by (auto simp: enter sem_abs_def sem_frame_def same_objects_def fun_eq_iff curr_ok_def intro!: exI [of _ L])
    next
      case False
      then show ?thesis using ok sem Nil
        by (auto simp: enter sem_abs_def sem_frame_def same_objects_def intro!: exI [of _ L])
    qed
  next
    case (Cons e es)
    obtain t s1 s2 L' where w: "e = TaskQ t" "dequeue_task (SemWaitQ i) s = Some (Some t, s1)"
      "task_wait_complete (Some t) s1 = Some (task_state (tcb s t) = TSK_STATE_WAIT, s2)"
      "kernel_ok s2 L'" "tcb s2 = (tcb s)(t := complete_tcb (tcb s t))" "same_objects s s2" "cpsr s2 = cpsr s" "tn_curr_run_task s2 = tn_curr_run_task s"
      "is_task s t" "task_state (tcb s t) = TSK_STATE_WAIT \<or> task_state (tcb s t) = TSK_STATE_WAITSUSP"
      "task_state (tcb s t) = TSK_STATE_WAIT \<longrightarrow> is_task s2 t \<and> task_state (tcb s2 t) = TSK_STATE_RUNNABLE"
      "\<forall>q. wait_head q \<longrightarrow> L' q = (if q = SemWaitQ i then es else L q)"
      using sm.wake_first [OF ok id Cons] by blast
    let ?s' = "if task_state (tcb s t) = TSK_STATE_WAIT then request_switch s2 else s2"
    have "sem s2 = sem s" using w(6) by (simp add: same_objects_def)
    then have "sem_ok s2 L'" "sem_abs s2 L' i = (count (sem s i), es)"
      using sem Cons w(12) by (auto simp: sem_ok_def sem_abs_def)
    then have "sem_ok ?s' L'" "sem_abs ?s' L' i = (count (sem s i), es)" "kernel_ok ?s' L'"
      using w(4) by (simp_all add: request_switch_def sem_ok_def sem_abs_def)
    moreover have "tn_sem_isignal (Some i) s = Some (ret TERR_NO_ERR, ?s')"
      using w(2,3) Cons by (simp add: enter)
    moreover have "curr_ok s \<longrightarrow> curr_ok ?s'"
      using w(5,8,10) by (auto simp: curr_ok_def is_task_def request_switch_def)
    moreover have "sem_frame (s\<lparr>tn_context_switch_request := tn_context_switch_request ?s'\<rparr>) ?s'"
      using w(6) by (simp add: sem_frame_def same_objects_def request_switch_def)
    ultimately show ?thesis
      using w(1,5,7,8,11) Cons by (auto simp: request_switch_def sem_abs_def [of s] intro!: exI [of _ L'])
  qed
qed

text \<open>C24. \<open>tn_sem_isignal\<close>, the call from an interrupt, implements the same abstract operation. It never
  switches; it asks for a switch when it made a task ready.\<close>

theorem sem_isignal_refines:
  assumes ok: "kernel_ok s L" and sem: "sem_ok s L" and id: "id_sem (sem s i) = TN_ID_SEMAPHORE"
    and ctx: "\<not> check_int_context s"
  shows "\<exists>rc s' L'. tn_sem_isignal (Some i) s = Some (ret rc, s') \<and> kernel_ok s' L' \<and> sem_ok s' L' \<and>
    spec_signal (max_count (sem s i)) (sem_abs s L i) = (rc, sem_abs s' L' i) \<and>
    tn_curr_run_task s' = tn_curr_run_task s \<and> cpsr s' = cpsr s \<and>
    (\<forall>t. TaskQ t = hd (L (SemWaitQ i)) \<and> L (SemWaitQ i) \<noteq> [] \<and> task_state (tcb s t) = TSK_STATE_WAIT \<longrightarrow>
       tn_context_switch_request s' = 1 \<and> task_state (tcb s' t) = TSK_STATE_RUNNABLE)"
  using sem_isignal_ok [OF assms] by blast

text \<open>The demonstration state while an interrupt is served.\<close>

definition demo_int :: kernel where
  "demo_int = demo\<lparr>tn_int_counter := 1\<rparr>"

lemma demo_int_ok: "kernel_ok demo_int demo_lists" "\<not> check_int_context demo_int"
proof -
  show "kernel_ok demo_int demo_lists" using demo_ok by (simp add: demo_int_def)
  show "\<not> check_int_context demo_int"
    by (simp add: demo_int_def check_int_context_def demo_def tn_chk_irq_disabled_def)
qed

theorem sem_isignal_refines_witness:
  "\<exists>s' L'. tn_sem_isignal (Some 0) demo_int = Some (ret TERR_NO_ERR, s') \<and> kernel_ok s' L' \<and>
     sem_abs s' L' 0 = (0, []) \<and> tn_context_switch_request s' = 1 \<and> tn_curr_run_task s' = Some 2"
proof -
  have 0: "sem_ok demo_int demo_lists" "id_sem (sem demo_int 0) = TN_ID_SEMAPHORE"
    using demo_sem demo_sem_ids by (simp_all add: demo_int_def sem_ok_def)
  have "sem_abs demo_int demo_lists 0 = (0, [TaskQ 3])" "demo_lists (SemWaitQ 0) = [TaskQ 3]"
    "tcb demo_int 3 = demo_tcb 3" "tn_curr_run_task demo_int = Some 2"
    by (simp_all add: sem_abs_def demo_int_def demo_def demo_lists_def lists_of_def demo_lists_alist_def)
  with sem_isignal_refines [OF demo_int_ok(1) 0 demo_int_ok(2)]
  show ?thesis by (auto simp: demo_tcb_def demo_task_def zero_tcb_def)
qed

text \<open>\<open>tn_sem_polling\<close> takes a unit when there is one, and does not wait for one.\<close>

lemma sem_polling_ok:
  assumes ok: "kernel_ok s L" and sem: "sem_ok s L" and id: "id_sem (sem s i) = TN_ID_SEMAPHORE"
    and ctx: "\<not> check_non_int_context s"
  shows "\<exists>r s'. tn_sem_polling (Some i) s = Some (r, s') \<and> kernel_ok s' L \<and> sem_ok s' L \<and> sem_frame s s' \<and>
    cpsr s' = cpsr s \<and> tcb s' = tcb s \<and> tn_curr_run_task s' = tn_curr_run_task s \<and>
    (if count (sem s i) \<ge> 1 then r = ret TERR_NO_ERR \<and> count (sem s' i) = count (sem s i) - 1 else r = ret TERR_TIMEOUT \<and> s' = s)"
proof -
  have mx: "max_count (sem s i) \<noteq> 0" using sem id by (auto simp: sem_ok_def)
  note enter = tn_sem_polling_def id mx ctx save_sr_eq
  show ?thesis
  proof (cases "count (sem s i) \<ge> 1")
    case True
    let ?s' = "upd_sem i (\<lambda>x. x\<lparr>count := count x - 1\<rparr>) s"
    have "tn_sem_polling (Some i) s = Some (ret TERR_NO_ERR, ?s')" using True by (simp add: enter leave_eq)
    moreover have "sem_ok ?s' L" using sem True by (auto simp: sem_ok_def)
    ultimately show ?thesis using ok True by (intro exI [of _ "ret TERR_NO_ERR"] exI [of _ ?s']) (simp add: fun_eq_iff)
  next
    case False
    then show ?thesis using ok sem by (simp add: enter leave_eq)
  qed
qed

section \<open>Creating and deleting\<close>

lemma sem_create_new:
  assumes ok: "kernel_ok s L" and sem: "sem_ok s L" and id: "id_sem (sem s i) = 0"
    and ctx: "\<not> check_non_int_context s" and r: "0 < mx \<and> 0 \<le> start \<and> start \<le> mx"
  shows "\<exists>s'. tn_sem_create (Some i) start mx s = Some (ret TERR_NO_ERR, s') \<and>
    kernel_ok s' (L(SemWaitQ i := [])) \<and> sem_ok s' (L(SemWaitQ i := [])) \<and>
    id_sem (sem s' i) = TN_ID_SEMAPHORE \<and> max_count (sem s' i) = mx \<and> count (sem s' i) = start \<and>
    sem_frame s s' \<and> cpsr s' = cpsr s \<and> tcb s' = tcb s \<and> tn_curr_run_task s' = tn_curr_run_task s"
proof -
  let ?s' = "(upd_sem i (\<lambda>x. x\<lparr>count := start, max_count := mx, id_sem := TN_ID_SEMAPHORE\<rparr>) s)
    \<lparr>qh := queue_reset (SemWaitQ i) (qh s)\<rparr>"
  have run: "tn_sem_create (Some i) start mx s = Some (ret TERR_NO_ERR, ?s')"
    using r id ctx by (simp add: tn_sem_create_def)
  have hd: "heads ?s' = insert (SemWaitQ i) (heads s)"
    by (rule heads_insertI, case_tac q) (simp_all add: is_task_def)
  have "kernel_ok ?s' (L(SemWaitQ i := []))"
  proof (rule kernel_new_head [OF ok])
    fix m t assume "id_mutex (mutex ?s' m) = TN_ID_MUTEX"
    then have "id_mutex (mutex s m) = TN_ID_MUTEX" by simp
    from kernel_mutex [OF ok this]
    show "m_attr (mutex ?s' m) \<in> {TN_MUTEX_ATTR_CEILING, TN_MUTEX_ATTR_INHERIT} \<and>
        (holder (mutex ?s' m) = Some t \<longrightarrow> is_task s t)" by simp
  qed (use id hd in simp_all)
  moreover have "sem_ok ?s' (L(SemWaitQ i := []))" using sem r by (auto simp: sem_ok_def)
  ultimately show ?thesis
    using run by (intro exI [of _ ?s']) (simp add: sem_frame_def same_objects_def fun_eq_iff)
qed

text \<open>C26. \<open>tn_sem_create\<close> makes an object that was not in use a semaphore with the start value and no
  waiting task, exactly if the start value is between 0 and the maximum, and the maximum is positive.\<close>

theorem sem_create_ok:
  assumes ok: "kernel_ok s L" and sem: "sem_ok s L" and id: "id_sem (sem s i) = 0"
    and ctx: "\<not> check_non_int_context s"
  shows "if 0 < mx \<and> 0 \<le> start \<and> start \<le> mx
     then \<exists>s'. tn_sem_create (Some i) start mx s = Some (ret TERR_NO_ERR, s') \<and>
            kernel_ok s' (L(SemWaitQ i := [])) \<and> sem_ok s' (L(SemWaitQ i := [])) \<and>
            id_sem (sem s' i) = TN_ID_SEMAPHORE \<and> max_count (sem s' i) = mx \<and>
            sem_abs s' (L(SemWaitQ i := [])) i = (start, [])
     else tn_sem_create (Some i) start mx s =
            Some (ret TERR_WRONG_PARAM, upd_sem i (\<lambda>x. x\<lparr>max_count := 0\<rparr>) s) \<and>
          kernel_ok (upd_sem i (\<lambda>x. x\<lparr>max_count := 0\<rparr>) s) L"
proof (cases "0 < mx \<and> 0 \<le> start \<and> start \<le> mx")
  case True
  then show ?thesis
    unfolding if_P [OF True] using sem_create_new [OF ok sem id ctx True] by (auto simp: sem_abs_def)
next
  case False
  then show ?thesis
    unfolding if_not_P [OF False] using ok id by (auto simp: tn_sem_create_def)
qed

theorem sem_create_ok_witness:
  "\<exists>s'. tn_sem_create (Some 7) 2 5 demo = Some (ret TERR_NO_ERR, s') \<and>
     kernel_ok s' (demo_lists(SemWaitQ 7 := [])) \<and> count (sem s' 7) = 2"
  using sem_create_ok [OF demo_ok demo_sem _ demo_curr(4), of 7 5 2]
  by (auto simp: demo_def sem_abs_def)

text \<open>One stretch of \<open>tn_sem_delete\<close>, from its start or from where the caller runs again up to the next switch: the object
  goes if no task has to be made ready, which leaves tasks that
  were suspended as well suspended. Otherwise the first task that is not suspended becomes ready
  with \<open>TERR_DLT\<close> and the processor is given away.\<close>

lemma sem_delete_stretch:
  assumes ok: "kernel_ok s L" and sem: "sem_ok s L" and id: "id_sem (sem s i) = TN_ID_SEMAPHORE" and sr: "sr_ok sr s"
  shows "(\<exists>s' L'. sem_delete_loop i sr s = Some (ret TERR_NO_ERR, s') \<and> kernel_ok s' L' \<and> sem_ok s' L' \<and>
      id_sem (sem s' i) = 0 \<and> cpsr s' = entry_sr sr s \<and> (\<forall>t. TaskQ t \<in> set (L (SemWaitQ i)) \<longrightarrow> kept_suspended (tcb s' t))) \<or>
    (\<exists>pre t post s' L'. L (SemWaitQ i) = pre @ TaskQ t # post \<and>
      sem_delete_loop i sr s = Some (Switch (SemDeleteLoop i (entry_sr sr s)), s') \<and>
      kernel_ok s' L' \<and> sem_ok s' L' \<and> curr_ok s' \<and> id_sem (sem s' i) = TN_ID_SEMAPHORE \<and> L' (SemWaitQ i) = post \<and>
      (\<forall>u. TaskQ u \<in> set pre \<longrightarrow> kept_suspended (tcb s' u)) \<and> made_ready (tcb s' t))"
proof -
  from smd.delete_object [OF ok id sr, of "SemDeleteLoop i", folded sem_delete_loop_def]
  show ?thesis
  proof (elim disjE exE conjE)
    fix s' s1 L' assume a: "sem_delete_loop i sr s = Some (ret TERR_NO_ERR, s')" "kernel_ok s' L'"
      "s' = (upd_sem i (\<lambda>x. x\<lparr>id_sem := 0\<rparr>) s1)\<lparr>cpsr := entry_sr sr s\<rparr>" "same_objects s s1"
      "\<forall>q. wait_head q \<longrightarrow> L' q = (if q = SemWaitQ i then [] else L q)"
      "\<forall>t. TaskQ t \<in> set (L (SemWaitQ i)) \<longrightarrow> task_state (tcb s t) = TSK_STATE_WAITSUSP \<and> kept_suspended (tcb s' t)"
    have "sem_ok s' L'" using sem a(3-5) by (auto simp: sem_ok_def same_objects_def)
    with a show ?thesis by (intro disjI1 exI [of _ s'] exI [of _ L']) simp
  next
    fix pre t post s' L' assume a: "L (SemWaitQ i) = pre @ TaskQ t # post"
      "sem_delete_loop i sr s = Some (Switch (SemDeleteLoop i (entry_sr sr s)), s')" "kernel_ok s' L'" "curr_ok s'"
      "same_objects s s'" "\<forall>q. wait_head q \<longrightarrow> L' q = (if q = SemWaitQ i then post else L q)"
      "\<forall>u. TaskQ u \<in> set pre \<longrightarrow> task_state (tcb s u) = TSK_STATE_WAITSUSP \<and> kept_suspended (tcb s' u)"
      "made_ready (tcb s' t)"
    have "sem_ok s' L'" "id_sem (sem s' i) = TN_ID_SEMAPHORE" "L' (SemWaitQ i) = post"
      using sem id a(1,5,6) by (auto simp: sem_ok_def same_objects_def)
    with a show ?thesis
      by (intro disjI2 exI [of _ pre] exI [of _ t] exI [of _ post] exI [of _ s'] exI [of _ L']) simp
  qed
qed

end
