(* ===== verification/TN_Event.thy ===== *)
theory TN_Event
  imports TN_Demo
begin

text \<open>
  Event flags, \<^verbatim>\<open>TNKernel/tn_event.c\<close>: the nine service calls and the scan of the wait queue that
  releases every task whose condition holds.

  \<open>p_flags_pattern\<close> is a flag: the pointer is not null. What the call stores there is part of
  its outcome.
\<close>

section \<open>Service calls\<close>

definition tn_event_create :: "optr \<Rightarrow> u32 \<Rightarrow> u32 \<Rightarrow> kernel \<Rightarrow> (outcome \<times> kernel) option" where
  "tn_event_create evf attr pat s =
     (case evf of
        None \<Rightarrow> Some (ret TERR_WRONG_PARAM, s)
      | Some i \<Rightarrow>
          if id_event (event s i) = TN_ID_EVENT \<or>
             \<not> has_bits attr TN_EVENT_ATTR_SINGLE \<and> \<not> has_bits attr TN_EVENT_ATTR_MULTI
          then Some (ret TERR_WRONG_PARAM, s)
          else
            let s = upd_event i (\<lambda>e. e\<lparr>pattern := pat, e_attr := attr\<rparr>)
                      (s\<lparr>qh := queue_reset (EventWaitQ i) (qh s)\<rparr>) in
            if has_bits attr TN_EVENT_ATTR_CLR \<and> \<not> has_bits attr TN_EVENT_ATTR_SINGLE
            then Some (ret TERR_WRONG_PARAM, upd_event i (\<lambda>e. e\<lparr>e_attr := TN_INVALID_VAL\<rparr>) s)
            else Some (ret TERR_NO_ERR, upd_event i (\<lambda>e. e\<lparr>id_event := TN_ID_EVENT\<rparr>) s))"

definition event_delete_loop :: "oid \<Rightarrow> u32 \<Rightarrow> kernel \<Rightarrow> (outcome \<times> kernel) option" where
  "event_delete_loop i =
     delete_waiters (EventWaitQ i) (EventDeleteLoop i)
       (\<lambda>sr s. case disable_if_enabled sr s of (sr, s) \<Rightarrow> leave sr TERR_NO_ERR (upd_event i (\<lambda>x. x\<lparr>id_event := 0\<rparr>) s))"

definition tn_event_delete :: "optr \<Rightarrow> kernel \<Rightarrow> (outcome \<times> kernel) option" where
  "tn_event_delete evf s =
     (case evf of
        None \<Rightarrow> Some (ret TERR_WRONG_PARAM, s)
      | Some i \<Rightarrow>
          if id_event (event s i) \<noteq> TN_ID_EVENT then Some (ret TERR_NOEXS, s)
          else if check_non_int_context s then Some (ret TERR_WCONTEXT, s)
          else event_delete_loop i 0 s)"

text \<open>The release condition: any of the bits, or all of them (the default).\<close>

definition event_cond :: "u32 \<Rightarrow> u32 \<Rightarrow> u32 \<Rightarrow> bool" where
  "event_cond wait_mode wait_pattern pat =
     (if has_bits wait_mode TN_EVENT_WCOND_OR then pat AND wait_pattern \<noteq> 0
      else pat AND wait_pattern = wait_pattern)"

text \<open>The check that the three wait calls share: \<open>Inl\<close> the error, or \<open>Inr\<close> whether the condition
  holds.\<close>

definition event_check :: "oid \<Rightarrow> u32 \<Rightarrow> u32 \<Rightarrow> kernel \<Rightarrow> int + bool" where
  "event_check i wait_pattern wait_mode s =
     (if has_bits (e_attr (event s i)) TN_EVENT_ATTR_SINGLE \<and> \<not> is_queue_empty (EventWaitQ i) (qh s)
      then Inl TERR_ILUSE
      else Inr (event_cond wait_mode wait_pattern (pattern (event s i))))"

definition event_take :: "oid \<Rightarrow> kernel \<Rightarrow> kernel" where
  "event_take i s =
     (if has_bits (e_attr (event s i)) TN_EVENT_ATTR_CLR
      then upd_event i (\<lambda>e. e\<lparr>pattern := 0\<rparr>) s else s)"

definition tn_event_wait :: "optr \<Rightarrow> u32 \<Rightarrow> u32 \<Rightarrow> bool \<Rightarrow> u32 \<Rightarrow> kernel \<Rightarrow> (outcome \<times> kernel) option" where
  "tn_event_wait evf wait_pattern wait_mode p_flags_pattern timeout s =
     (case evf of
        None \<Rightarrow> Some (ret TERR_WRONG_PARAM, s)
      | Some i \<Rightarrow>
          if wait_pattern = 0 \<or> \<not> p_flags_pattern \<or> timeout = 0 then Some (ret TERR_WRONG_PARAM, s)
          else if id_event (event s i) \<noteq> TN_ID_EVENT then Some (ret TERR_NOEXS, s)
          else if check_non_int_context s then Some (ret TERR_WCONTEXT, s)
          else do {
            let (sr, s) = tn_cpu_save_sr s;
            (case event_check i wait_pattern wait_mode s of
               Inl rc \<Rightarrow> leave sr rc s
             | Inr True \<Rightarrow>
                 Some (Done TERR_NO_ERR (Some (pattern (event s i))), tn_cpu_restore_sr sr (event_take i s))
             | Inr False \<Rightarrow>
                 do {
                   curr \<leftarrow> tn_curr_run_task s;
                   let s = upd_tcb curr (\<lambda>t. t\<lparr>ewait_mode := wait_mode, ewait_pattern := wait_pattern\<rparr>) s;
                   s \<leftarrow> task_curr_to_wait_action (Some (EventWaitQ i)) TSK_WAIT_REASON_EVENT timeout s;
                   leave_switch sr RetEventPattern s
                 })
          })"

definition tn_event_wait_polling :: "optr \<Rightarrow> u32 \<Rightarrow> u32 \<Rightarrow> bool \<Rightarrow> kernel \<Rightarrow> (outcome \<times> kernel) option" where
  "tn_event_wait_polling evf wait_pattern wait_mode p_flags_pattern s =
     (case evf of
        None \<Rightarrow> Some (ret TERR_WRONG_PARAM, s)
      | Some i \<Rightarrow>
          if wait_pattern = 0 \<or> \<not> p_flags_pattern then Some (ret TERR_WRONG_PARAM, s)
          else if id_event (event s i) \<noteq> TN_ID_EVENT then Some (ret TERR_NOEXS, s)
          else if check_non_int_context s then Some (ret TERR_WCONTEXT, s)
          else do {
            let (sr, s) = tn_cpu_save_sr s;
            (case event_check i wait_pattern wait_mode s of
               Inl rc \<Rightarrow> leave sr rc s
             | Inr True \<Rightarrow>
                 Some (Done TERR_NO_ERR (Some (pattern (event s i))), tn_cpu_restore_sr sr (event_take i s))
             | Inr False \<Rightarrow> leave sr TERR_TIMEOUT s)
          })"

definition tn_event_iwait :: "optr \<Rightarrow> u32 \<Rightarrow> u32 \<Rightarrow> bool \<Rightarrow> kernel \<Rightarrow> (outcome \<times> kernel) option" where
  "tn_event_iwait evf wait_pattern wait_mode p_flags_pattern s =
     (case evf of
        None \<Rightarrow> Some (ret TERR_WRONG_PARAM, s)
      | Some i \<Rightarrow>
          if wait_pattern = 0 \<or> \<not> p_flags_pattern then Some (ret TERR_WRONG_PARAM, s)
          else if id_event (event s i) \<noteq> TN_ID_EVENT then Some (ret TERR_NOEXS, s)
          else if check_int_context s then Some (ret TERR_WCONTEXT, s)
          else case event_check i wait_pattern wait_mode s of
              Inl rc \<Rightarrow> Some (ret rc, s)
            | Inr True \<Rightarrow> Some (Done TERR_NO_ERR (Some (pattern (event s i))), event_take i s)
            | Inr False \<Rightarrow> Some (ret TERR_TIMEOUT, s))"

text \<open>\<open>scan_event_waitqueue\<close>: the successor of an entry is read before the entry is unlinked.\<close>

partial_function (option) scan_loop :: "oid \<Rightarrow> qptr \<Rightarrow> bool \<Rightarrow> kernel \<Rightarrow> (bool \<times> kernel) option" where
  "scan_loop i que wcflag s =
     do {
       task \<leftarrow> get_task_by_tsk_queue que;
       t \<leftarrow> task;
       q \<leftarrow> que;
       (if event_cond (ewait_mode (tcb s t)) (ewait_pattern (tcb s t)) (pattern (event s i)) then
          do {
            s1 \<leftarrow> upd_qh (queue_remove_entry q) s;
            (sw, s2) \<leftarrow> task_wait_complete (Some t)
                         (upd_tcb t (\<lambda>x. x\<lparr>ewait_pattern := pattern (event s i)\<rparr>) s1);
            (if q_next (qh s q) = Some (EventWaitQ i) then Some (wcflag \<or> sw, s2)
             else scan_loop i (q_next (qh s q)) (wcflag \<or> sw) s2)
          }
        else if q_next (qh s q) = Some (EventWaitQ i) then Some (wcflag, s)
        else scan_loop i (q_next (qh s q)) wcflag s)
     }"

definition scan_event_waitqueue :: "oid \<Rightarrow> kernel \<Rightarrow> (bool \<times> kernel) option" where
  "scan_event_waitqueue i s = scan_loop i (q_next (qh s (EventWaitQ i))) False s"

definition tn_event_set :: "optr \<Rightarrow> u32 \<Rightarrow> kernel \<Rightarrow> (outcome \<times> kernel) option" where
  "tn_event_set evf pat s =
     (case evf of
        None \<Rightarrow> Some (ret TERR_WRONG_PARAM, s)
      | Some i \<Rightarrow>
          if pat = 0 then Some (ret TERR_WRONG_PARAM, s)
          else if id_event (event s i) \<noteq> TN_ID_EVENT then Some (ret TERR_NOEXS, s)
          else if check_non_int_context s then Some (ret TERR_WCONTEXT, s)
          else do {
            let (sr, s) = tn_cpu_save_sr s;
            let s = upd_event i (\<lambda>e. e\<lparr>pattern := pattern e OR pat\<rparr>) s;
            (if \<not> is_queue_empty (EventWaitQ i) (qh s) then
               do {
                 (sw, s) \<leftarrow> scan_event_waitqueue i s;
                 (if sw then leave_switch sr RetNoErr (event_take i s) else leave sr TERR_NO_ERR s)
               }
             else leave sr TERR_NO_ERR s)
          })"

definition tn_event_iset :: "optr \<Rightarrow> u32 \<Rightarrow> kernel \<Rightarrow> (outcome \<times> kernel) option" where
  "tn_event_iset evf pat s =
     (case evf of
        None \<Rightarrow> Some (ret TERR_WRONG_PARAM, s)
      | Some i \<Rightarrow>
          if pat = 0 then Some (ret TERR_WRONG_PARAM, s)
          else if id_event (event s i) \<noteq> TN_ID_EVENT then Some (ret TERR_NOEXS, s)
          else if check_int_context s then Some (ret TERR_WCONTEXT, s)
          else do {
            let s = upd_event i (\<lambda>e. e\<lparr>pattern := pattern e OR pat\<rparr>) s;
            (if \<not> is_queue_empty (EventWaitQ i) (qh s) then
               do {
                 (sw, s) \<leftarrow> scan_event_waitqueue i s;
                 Some (ret TERR_NO_ERR, if sw then request_switch (event_take i s) else s)
               }
             else Some (ret TERR_NO_ERR, s))
          })"

definition tn_event_clear :: "optr \<Rightarrow> u32 \<Rightarrow> kernel \<Rightarrow> (outcome \<times> kernel) option" where
  "tn_event_clear evf pat s =
     (case evf of
        None \<Rightarrow> Some (ret TERR_WRONG_PARAM, s)
      | Some i \<Rightarrow>
          if pat = 0xFFFFFFFF then Some (ret TERR_WRONG_PARAM, s)
          else if id_event (event s i) \<noteq> TN_ID_EVENT then Some (ret TERR_NOEXS, s)
          else if check_non_int_context s then Some (ret TERR_WCONTEXT, s)
          else do {
            let (sr, s) = tn_cpu_save_sr s;
            leave sr TERR_NO_ERR (upd_event i (\<lambda>e. e\<lparr>pattern := pattern e AND pat\<rparr>) s)
          })"

definition tn_event_iclear :: "optr \<Rightarrow> u32 \<Rightarrow> kernel \<Rightarrow> (outcome \<times> kernel) option" where
  "tn_event_iclear evf pat s =
     (case evf of
        None \<Rightarrow> Some (ret TERR_WRONG_PARAM, s)
      | Some i \<Rightarrow>
          if pat = 0xFFFFFFFF then Some (ret TERR_WRONG_PARAM, s)
          else if id_event (event s i) \<noteq> TN_ID_EVENT then Some (ret TERR_NOEXS, s)
          else if check_int_context s then Some (ret TERR_WCONTEXT, s)
          else Some (ret TERR_NO_ERR, upd_event i (\<lambda>e. e\<lparr>pattern := pattern e AND pat\<rparr>) s))"

interpretation ev: wait_object EventWaitQ TSK_WAIT_REASON_EVENT "\<lambda>s i. id_event (event s i) = TN_ID_EVENT"
  by unfold_locales (simp_all add: same_objects_def)

interpretation evd: deletable_object EventWaitQ TSK_WAIT_REASON_EVENT "\<lambda>s i. id_event (event s i) = TN_ID_EVENT"
    "\<lambda>i. upd_event i (\<lambda>x. x\<lparr>id_event := 0\<rparr>)"
proof unfold_locales
  fix s :: kernel and i assume "id_event (event s i) = TN_ID_EVENT"
  then show "heads (upd_event i (\<lambda>x. x\<lparr>id_event := 0\<rparr>) s) = heads s - {EventWaitQ i}"
    by (intro heads_removeI, case_tac q) (simp_all add: is_task_def)
qed (simp_all add: fun_eq_iff)

lemma kernel_live_event: "kernel_ok s L \<Longrightarrow> id_event (event s i) = TN_ID_EVENT \<Longrightarrow>
    is_queue_empty (EventWaitQ i) (qh s) \<longleftrightarrow> L (EventWaitQ i) = []"
  by (rule kernel_empty) simp_all

section \<open>The scan of the wait queue\<close>

text \<open>The condition of the task whose queue field is \<open>e\<close>, and what its release does to its control
  block.\<close>

definition event_met :: "kernel \<Rightarrow> u32 \<Rightarrow> qaddr \<Rightarrow> bool" where
  "event_met s pat e =
     (case e of TaskQ t \<Rightarrow> event_cond (ewait_mode (tcb s t)) (ewait_pattern (tcb s t)) pat | _ \<Rightarrow> False)"

definition event_released :: "u32 \<Rightarrow> tn_tcb \<Rightarrow> tn_tcb" where
  "event_released pat x = complete_tcb (x\<lparr>ewait_pattern := pat\<rparr>)"

lemma scan_step:
  assumes ok: "kernel_ok s L" and l: "id_event (event s i) = TN_ID_EVENT"
    and L: "L (EventWaitQ i) = pre @ e # es" and pat: "pattern (event s i) = pat"
  shows "\<exists>t sw s2 L2. e = TaskQ t \<and> is_task s t \<and>
    scan_loop i (Some e) wc s =
      (if es = [] then Some (wc \<or> sw, s2) else scan_loop i (Some (hd es)) (wc \<or> sw) s2) \<and>
    sw = (event_met s pat e \<and> task_state (tcb s t) = TSK_STATE_WAIT) \<and>
    kernel_ok s2 L2 \<and> same_objects s s2 \<and> tn_curr_run_task s2 = tn_curr_run_task s \<and> cpsr s2 = cpsr s \<and>
    tcb s2 = (if event_met s pat e then (tcb s)(t := event_released pat (tcb s t)) else tcb s) \<and>
    (\<forall>q. wait_head q \<longrightarrow> L2 q =
       (if q = EventWaitQ i then pre @ (if event_met s pat e then es else e # es) else L q))"
proof -
  have hq: "EventWaitQ i \<in> heads s" using l by simp
  have e: "e \<in> set (L (EventWaitQ i))" using L by simp
  obtain t where t: "e = TaskQ t" "is_task s t" using wait_queue_entry [OF ok hq _ e] by auto
  have nx: "q_next (qh s e) = Some (hd (es @ [EventWaitQ i]))"
    by (rule placed_next_entry [OF kernel_placed [OF ok] hq L])
  have dist: "distinct (pre @ e # es)"
    using placed_distinct [OF kernel_placed [OF ok] hq] L by simp
  have "hd es \<noteq> EventWaitQ i" if "es \<noteq> []"
  proof -
    have "hd es \<in> set (L (EventWaitQ i))" using that L by simp
    then show ?thesis using wait_queue_entry [OF ok hq, of "hd es"] by auto
  qed
  then have last: "q_next (qh s (TaskQ t)) = Some (EventWaitQ i) \<longleftrightarrow> es = []"
    "es \<noteq> [] \<Longrightarrow> q_next (qh s (TaskQ t)) = Some (hd es)"
    using nx t(1) by (auto simp: hd_append)
  have cond: "event_cond (ewait_mode (tcb s t)) (ewait_pattern (tcb s t)) pat = event_met s pat e"
    by (simp add: event_met_def t(1))
  show ?thesis
  proof (cases "event_met s pat e")
    case False
    have "scan_loop i (Some e) wc s = (if es = [] then Some (wc \<or> False, s) else scan_loop i (Some (hd es)) (wc \<or> False) s)"
      using False cond last pat t(1) by (subst scan_loop.simps) (simp add: get_task_by_tsk_queue_def)
    with False t ok L show ?thesis
      by (intro exI [of _ t] exI [of _ False] exI [of _ s] exI [of _ L]) (simp add: same_objects_refl)
  next
    case True
    have f: "same_sched_fields ((tcb s t)\<lparr>ewait_pattern := pat\<rparr>) (tcb s t)" by (simp add: same_sched_fields_def)
    obtain h1 s2 L2 where r: "queue_remove_entry (TaskQ t) (qh s) = Some h1"
      "task_wait_complete (Some t) (upd_tcb t (\<lambda>x. x\<lparr>ewait_pattern := pat\<rparr>) (s\<lparr>qh := h1\<rparr>)) =
         Some (task_state (tcb s t) = TSK_STATE_WAIT, s2)"
      "kernel_ok s2 L2" "tcb s2 = (tcb s)(t := complete_tcb ((tcb s t)\<lparr>ewait_pattern := pat\<rparr>))"
      "same_objects s s2" "tn_curr_run_task s2 = tn_curr_run_task s" "cpsr s2 = cpsr s"
      "\<forall>q. wait_head q \<longrightarrow> L2 q = (if q = EventWaitQ i then remove1 (TaskQ t) (L q) else L q)"
      using ev.release_entry [where f = "\<lambda>x. x\<lparr>ewait_pattern := pat\<rparr>" and t = t, OF ok l e [unfolded t(1)] f] by blast
    let ?sw = "task_state (tcb s t) = TSK_STATE_WAIT"
    have "scan_loop i (Some e) wc s = (if es = [] then Some (wc \<or> ?sw, s2) else scan_loop i (Some (hd es)) (wc \<or> ?sw) s2)"
      using True cond last pat t(1) r(1,2)
      by (subst scan_loop.simps) (simp add: get_task_by_tsk_queue_def upd_qh_def)
    moreover have "remove1 (TaskQ t) (pre @ e # es) = pre @ es" using remove1_split [OF dist] t(1) by simp
    ultimately show ?thesis using True t r L
      by (intro exI [of _ t] exI [of _ ?sw] exI [of _ s2] exI [of _ L2]) (simp add: event_released_def)
  qed
qed

lemma scan_loop_ok:
  "kernel_ok s L \<Longrightarrow> id_event (event s i) = TN_ID_EVENT \<Longrightarrow> L (EventWaitQ i) = pre @ e # es \<Longrightarrow>
   pattern (event s i) = pat \<Longrightarrow>
   \<exists>s' L'. scan_loop i (Some e) wc s =
       Some (wc \<or> (\<exists>t. TaskQ t \<in> set (e # es) \<and> event_met s pat (TaskQ t) \<and> task_state (tcb s t) = TSK_STATE_WAIT), s') \<and>
     kernel_ok s' L' \<and> same_objects s s' \<and> tn_curr_run_task s' = tn_curr_run_task s \<and> cpsr s' = cpsr s \<and>
     (\<forall>q. wait_head q \<longrightarrow> L' q =
        (if q = EventWaitQ i then pre @ filter (\<lambda>x. \<not> event_met s pat x) (e # es) else L q)) \<and>
     (\<forall>t. tcb s' t = (if TaskQ t \<in> set (e # es) \<and> event_met s pat (TaskQ t)
                      then event_released pat (tcb s t) else tcb s t))"
proof (induction es arbitrary: e pre s L wc)
  case Nil
  obtain t sw s2 L2 where st: "e = TaskQ t" "scan_loop i (Some e) wc s = Some (wc \<or> sw, s2)"
    "sw = (event_met s pat e \<and> task_state (tcb s t) = TSK_STATE_WAIT)"
    "kernel_ok s2 L2" "same_objects s s2" "tn_curr_run_task s2 = tn_curr_run_task s" "cpsr s2 = cpsr s"
    "tcb s2 = (if event_met s pat e then (tcb s)(t := event_released pat (tcb s t)) else tcb s)"
    "\<forall>q. wait_head q \<longrightarrow> L2 q =
       (if q = EventWaitQ i then pre @ (if event_met s pat e then [] else [e]) else L q)"
    using scan_step [OF Nil, of wc] by auto
  then show ?case by (intro exI [of _ s2] exI [of _ L2]) auto
next
  case (Cons x xs)
  obtain t sw s2 L2 where st: "e = TaskQ t" "scan_loop i (Some e) wc s = scan_loop i (Some x) (wc \<or> sw) s2"
    "sw = (event_met s pat e \<and> task_state (tcb s t) = TSK_STATE_WAIT)"
    "kernel_ok s2 L2" "same_objects s s2" "tn_curr_run_task s2 = tn_curr_run_task s" "cpsr s2 = cpsr s"
    "tcb s2 = (if event_met s pat e then (tcb s)(t := event_released pat (tcb s t)) else tcb s)"
    "\<forall>q. wait_head q \<longrightarrow> L2 q =
       (if q = EventWaitQ i then pre @ (if event_met s pat e then x # xs else e # x # xs) else L q)"
    using scan_step [OF Cons.prems, of wc] by auto
  have dist: "distinct (pre @ e # x # xs)"
    using placed_distinct [OF kernel_placed [OF Cons.prems(1)], of "EventWaitQ i"] Cons.prems(2,3) by simp
  have same: "tcb s2 u = tcb s u" if "u \<noteq> t" for u using st(8) that by simp
  have ne: "u \<noteq> t" if "TaskQ u \<in> set (x # xs)" for u using dist st(1) that by auto
  have met: "event_met s2 pat y = event_met s pat y" if "y \<in> set (x # xs)" for y
  proof (cases y)
    case (TaskQ u)
    have "tcb s2 u = tcb s u" by (rule same, rule ne) (use that TaskQ in simp)
    then show ?thesis by (simp add: event_met_def TaskQ)
  qed (simp_all add: event_met_def)
  have fil: "filter (\<lambda>y. \<not> event_met s2 pat y) (x # xs) = filter (\<lambda>y. \<not> event_met s pat y) (x # xs)"
    by (rule filter_cong) (simp_all add: met)
  let ?pre = "if event_met s pat e then pre else pre @ [e]"
  have pre2: "id_event (event s2 i) = TN_ID_EVENT" "pattern (event s2 i) = pat" "L2 (EventWaitQ i) = ?pre @ x # xs"
    using Cons.prems(2,4) st(5,9) by (simp_all add: same_objects_def)
  obtain s' L' where r: "scan_loop i (Some x) (wc \<or> sw) s2 = Some ((wc \<or> sw) \<or>
       (\<exists>t. TaskQ t \<in> set (x # xs) \<and> event_met s2 pat (TaskQ t) \<and> task_state (tcb s2 t) = TSK_STATE_WAIT), s')"
     "kernel_ok s' L'" "same_objects s2 s'" "tn_curr_run_task s' = tn_curr_run_task s2" "cpsr s' = cpsr s2"
     "\<forall>q. wait_head q \<longrightarrow> L' q =
        (if q = EventWaitQ i then ?pre @ filter (\<lambda>y. \<not> event_met s2 pat y) (x # xs) else L2 q)"
     "\<forall>t. tcb s' t = (if TaskQ t \<in> set (x # xs) \<and> event_met s2 pat (TaskQ t)
                      then event_released pat (tcb s2 t) else tcb s2 t)"
    using Cons.IH [OF st(4) pre2(1,3,2), of "wc \<or> sw"] by blast
  have "(\<exists>u. TaskQ u \<in> set (x # xs) \<and> event_met s2 pat (TaskQ u) \<and> task_state (tcb s2 u) = TSK_STATE_WAIT) \<longleftrightarrow>
      (\<exists>u. TaskQ u \<in> set (x # xs) \<and> event_met s pat (TaskQ u) \<and> task_state (tcb s u) = TSK_STATE_WAIT)"
    using met same ne by metis
  then have "((wc \<or> sw) \<or> (\<exists>u. TaskQ u \<in> set (x # xs) \<and> event_met s2 pat (TaskQ u) \<and> task_state (tcb s2 u) = TSK_STATE_WAIT)) \<longleftrightarrow>
      (wc \<or> (\<exists>u. TaskQ u \<in> set (e # x # xs) \<and> event_met s pat (TaskQ u) \<and> task_state (tcb s u) = TSK_STATE_WAIT))"
    using st(1,3) by auto
  with st(2) r(1) have run: "scan_loop i (Some e) wc s = Some (wc \<or>
      (\<exists>u. TaskQ u \<in> set (e # x # xs) \<and> event_met s pat (TaskQ u) \<and> task_state (tcb s u) = TSK_STATE_WAIT), s')" by simp
  have tcbs: "tcb s' u = (if TaskQ u \<in> set (e # x # xs) \<and> event_met s pat (TaskQ u)
                      then event_released pat (tcb s u) else tcb s u)" for u
  proof (cases "u = t")
    case True
    then have "TaskQ u \<notin> set (x # xs)" using ne by blast
    then show ?thesis using True r(7) st(1,8) by simp
  next
    case False
    then show ?thesis using r(7) same [OF False] met [of "TaskQ u"] st(1) by auto
  qed
  have lists: "\<forall>q. wait_head q \<longrightarrow> L' q =
      (if q = EventWaitQ i then pre @ filter (\<lambda>y. \<not> event_met s pat y) (e # x # xs) else L q)"
    using r(6) st(9) unfolding fil by simp
  show ?case
    using run tcbs lists r(2) same_objects_trans [OF st(5) r(3)] r(4,5) st(6,7)
    by (intro exI [of _ s'] exI [of _ L']) simp
qed

section \<open>Setting flags\<close>

text \<open>The invariant of the event objects: an event that a single task may wait for has at most one
  task in its queue, and only such an event is cleared automatically.\<close>

definition event_ok :: "kernel \<Rightarrow> (qaddr \<Rightarrow> qaddr list) \<Rightarrow> bool" where
  "event_ok s L \<longleftrightarrow>
     (\<forall>i. id_event (event s i) = TN_ID_EVENT \<longrightarrow>
        (has_bits (e_attr (event s i)) TN_EVENT_ATTR_CLR \<longrightarrow> has_bits (e_attr (event s i)) TN_EVENT_ATTR_SINGLE) \<and>
        (has_bits (e_attr (event s i)) TN_EVENT_ATTR_SINGLE \<longrightarrow> length (L (EventWaitQ i)) \<le> 1))"

lemma event_take_sel [simp]:
  "tcb (event_take i s) = tcb s" "cpsr (event_take i s) = cpsr s" "qh (event_take i s) = qh s"
  "tn_curr_run_task (event_take i s) = tn_curr_run_task s" "is_task (event_take i s) = is_task s"
  "kernel_ok (event_take i s) L = kernel_ok s L"
  "event (event_take i s) i =
     (if has_bits (e_attr (event s i)) TN_EVENT_ATTR_CLR then (event s i)\<lparr>pattern := 0\<rparr> else event s i)"
  "event_take i (s\<lparr>cpsr := c\<rparr>) = (event_take i s)\<lparr>cpsr := c\<rparr>"
  by (simp_all add: event_take_def fun_eq_iff)

lemma event_ok_mono:
  assumes "event_ok s L" and "\<And>i. id_event (event s' i) = id_event (event s i)"
    and "\<And>i. e_attr (event s' i) = e_attr (event s i)"
    and "\<And>i. length (L' (EventWaitQ i)) \<le> length (L (EventWaitQ i))"
  shows "event_ok s' L'"
  using assms unfolding event_ok_def by (metis order_trans)

text \<open>C8. \<open>tn_event_set\<close> sets the flags and releases exactly the waiting tasks whose condition holds
  then, whatever their place in the queue; each gets the pattern. The others keep their order. If a
  released task is ready, the pattern is cleared when the event is so attributed, and the processor
  is given away.\<close>

theorem event_set_releases:
  assumes ok: "kernel_ok s L" and ev: "event_ok s L" and id: "id_event (event s i) = TN_ID_EVENT"
    and ctx: "\<not> check_non_int_context s" and bits: "bits \<noteq> 0"
  shows "\<exists>p r s' L'. p = pattern (event s i) OR bits \<and> tn_event_set (Some i) bits s = Some (r, s') \<and>
    kernel_ok s' L' \<and> event_ok s' L' \<and>
    L' (EventWaitQ i) = filter (\<lambda>e. \<not> event_met s p e) (L (EventWaitQ i)) \<and>
    (\<forall>t. tcb s' t = (if TaskQ t \<in> set (L (EventWaitQ i)) \<and> event_met s p (TaskQ t)
                     then event_released p (tcb s t) else tcb s t)) \<and>
    (if \<exists>t. TaskQ t \<in> set (L (EventWaitQ i)) \<and> event_met s p (TaskQ t) \<and> task_state (tcb s t) = TSK_STATE_WAIT
     then r = Switch RetNoErr \<and> curr_ok s' \<and>
          pattern (event s' i) = (if has_bits (e_attr (event s i)) TN_EVENT_ATTR_CLR then 0 else p)
     else r = ret TERR_NO_ERR \<and> cpsr s' = cpsr s \<and> tn_curr_run_task s' = tn_curr_run_task s \<and> pattern (event s' i) = p)"
proof -
  define p where "p = pattern (event s i) OR bits"
  let ?s = "(upd_event i (\<lambda>e. e\<lparr>pattern := pattern e OR bits\<rparr>) s)\<lparr>cpsr := cpsr s OR 0xC0\<rparr>"
  have ok1: "kernel_ok ?s L" using ok by simp
  have id1: "id_event (event ?s i) = TN_ID_EVENT" "pattern (event ?s i) = p" using id by (simp_all add: p_def)
  note enter = tn_event_set_def id ctx bits save_sr_eq kernel_live_event [OF ok id]
  show ?thesis
  proof (cases "L (EventWaitQ i)")
    case Nil
    have "tn_event_set (Some i) bits s = Some (ret TERR_NO_ERR, ?s\<lparr>cpsr := cpsr s\<rparr>)"
      using Nil by (simp add: enter leave_eq)
    moreover have "event_ok (?s\<lparr>cpsr := cpsr s\<rparr>) L" by (rule event_ok_mono [OF ev]) simp_all
    ultimately show ?thesis using ok1 Nil id1
      by (intro exI [of _ p] exI [of _ "ret TERR_NO_ERR"] exI [of _ "?s\<lparr>cpsr := cpsr s\<rparr>"] exI [of _ L]) (simp add: p_def)
  next
    case (Cons e es)
    have met: "event_met ?s p e = event_met s p e" for e by (simp add: event_met_def split: qaddr.split)
    let ?sw = "\<exists>t. TaskQ t \<in> set (L (EventWaitQ i)) \<and> event_met s p (TaskQ t) \<and> task_state (tcb s t) = TSK_STATE_WAIT"
    from scan_loop_ok [OF ok1 id1(1) _ id1(2), of "[]" e es False] obtain s2 L2 where
      r: "scan_loop i (Some e) False ?s = Some (?sw, s2)" "kernel_ok s2 L2" "same_objects ?s s2"
        "tn_curr_run_task s2 = tn_curr_run_task s" "cpsr s2 = cpsr s OR 0xC0"
        "\<forall>q. wait_head q \<longrightarrow> L2 q = (if q = EventWaitQ i then filter (\<lambda>e. \<not> event_met s p e) (L (EventWaitQ i)) else L q)"
        "\<forall>t. tcb s2 t = (if TaskQ t \<in> set (L (EventWaitQ i)) \<and> event_met s p (TaskQ t)
                     then event_released p (tcb s t) else tcb s t)"
      unfolding met using Cons by auto
    have first: "q_next (qh s (EventWaitQ i)) = Some e"
      by (rule placed_next [OF kernel_placed [OF ok] _ Cons]) (simp add: id)
    have ev2: "event s2 = event ?s" using r(3) by (simp add: same_objects_def)
    have evok: "event_ok s' L2" if "event s' = event s2 \<or> event s' = event (event_take i s2)" for s'
      using that ev2 r(6) by (intro event_ok_mono [OF ev]) (auto simp: event_take_def)
    show ?thesis
    proof (cases ?sw)
      case True
      then obtain u where u: "TaskQ u \<in> set (L (EventWaitQ i))" "event_met s p (TaskQ u)"
        "task_state (tcb s u) = TSK_STATE_WAIT" by blast
      have "is_task s u" using wait_queue_entry [OF ok _ _ u(1)] id by auto
      then have u2: "is_task (event_take i s2) u" "task_state (tcb (event_take i s2) u) = TSK_STATE_RUNNABLE"
        using r(7) u by (simp_all add: is_task_def event_released_def complete_tcb_def)
      obtain s' where s': "leave_switch (cpsr s) RetNoErr (event_take i s2) = Some (Switch RetNoErr, s')" "kernel_ok s' L2"
        "tcb s' = tcb s2" "same_objects (event_take i s2) s'" "curr_ok s'"
        using leave_either [of "event_take i s2" L2 True u "cpsr s" RetNoErr] u2 r(2,5) by auto
      have es': "event s' = event (event_take i s2)" using s'(4) by (simp add: same_objects_def)
      have "tn_event_set (Some i) bits s = Some (Switch RetNoErr, s')"
        using r(1) True first Cons s'(1) by (simp add: enter scan_event_waitqueue_def)
      then show ?thesis
        using s' r(6,7) True es' ev2 evok [of s']
        by (intro exI [of _ p] exI [of _ "Switch RetNoErr"] exI [of _ s'] exI [of _ L2]) (simp add: p_def)
    next
      case False
      let ?s' = "s2\<lparr>cpsr := cpsr s\<rparr>"
      have "?sw = False" using False by blast
      note r1 = r(1) [unfolded this]
      have "tn_event_set (Some i) bits s = Some (ret TERR_NO_ERR, ?s')"
        using r1 r(5) first Cons by (simp add: enter scan_event_waitqueue_def leave_eq)
      then show ?thesis
        using r False ev2 evok [of ?s'] unfolding if_not_P [OF False]
        by (intro exI [of _ p] exI [of _ "ret TERR_NO_ERR"] exI [of _ ?s'] exI [of _ L2]) (simp add: p_def)
    qed
  qed
qed

lemma demo_event: "event_ok demo demo_lists"
  by (auto simp: event_ok_def demo_def demo_lists_def lists_of_def demo_lists_alist_def)

theorem event_set_releases_witness:
  "\<exists>s' L'. tn_event_set (Some 0) 3 demo = Some (Switch RetNoErr, s') \<and> kernel_ok s' L' \<and> L' (EventWaitQ 0) = [] \<and>
     task_state (tcb s' 4) = TSK_STATE_RUNNABLE \<and> ewait_pattern (tcb s' 4) = 3"
proof -
  have id: "id_event (event demo 0) = TN_ID_EVENT" by (simp add: demo_def)
  have L: "demo_lists (EventWaitQ 0) = [TaskQ 4]" by (simp add: demo_lists_def lists_of_def demo_lists_alist_def)
  have st: "task_state (tcb demo 4) = TSK_STATE_WAIT" "pattern (event demo 0) OR 3 = 3" "event_met demo 3 (TaskQ 4)"
    by (simp_all add: demo_def demo_tcb_def demo_task_def zero_tcb_def event_met_def event_cond_def)
  show ?thesis
    using event_set_releases [OF demo_ok demo_event id demo_curr(4), of 3, unfolded L st(2)] st(1,3)
    by (auto simp: event_released_def complete_tcb_def)
qed

section \<open>Waiting for flags\<close>

text \<open>C22. \<open>tn_event_wait\<close>: a second task may not wait for an event of the single kind; a condition
  that holds is answered at once with the flags, which are cleared if the event is so attributed;
  otherwise the running task goes to the end of the queue with its pattern, mode and time-out, and
  another task runs.\<close>

theorem event_wait_cases:
  assumes ok: "kernel_ok s L" and ev: "event_ok s L" and id: "id_event (event s i) = TN_ID_EVENT"
    and ctx: "\<not> check_non_int_context s" and c: "curr_ok s" and o: "other_ready s"
    and t: "tn_curr_run_task s = Some t" and prm: "wp \<noteq> 0" "tmo \<noteq> 0"
  shows "if has_bits (e_attr (event s i)) TN_EVENT_ATTR_SINGLE \<and> L (EventWaitQ i) \<noteq> []
     then tn_event_wait (Some i) wp wm True tmo s = Some (ret TERR_ILUSE, s)
     else if event_cond wm wp (pattern (event s i))
     then \<exists>s'. tn_event_wait (Some i) wp wm True tmo s = Some (Done TERR_NO_ERR (Some (pattern (event s i))), s') \<and>
            kernel_ok s' L \<and> event_ok s' L \<and> tcb s' = tcb s \<and> cpsr s' = cpsr s \<and>
            pattern (event s' i) =
              (if has_bits (e_attr (event s i)) TN_EVENT_ATTR_CLR then 0 else pattern (event s i))
     else \<exists>s' L'. tn_event_wait (Some i) wp wm True tmo s = Some (Switch RetEventPattern, s') \<and>
            kernel_ok s' L' \<and> event_ok s' L' \<and> curr_ok s' \<and> tn_curr_run_task s' \<noteq> Some t \<and>
            L' (EventWaitQ i) = L (EventWaitQ i) @ [TaskQ t] \<and> event s' = event s \<and>
            tcb s' = (tcb s)(t := wait_tcb (Some (EventWaitQ i)) TSK_WAIT_REASON_EVENT tmo
                                    ((tcb s t)\<lparr>ewait_mode := wm, ewait_pattern := wp\<rparr>))"
    (is "if ?busy then _ else if ?met then ?now else ?later")
proof -
  let ?s = "s\<lparr>cpsr := cpsr s OR 0xC0\<rparr>"
  note enter = tn_event_wait_def event_check_def id ctx prm save_sr_eq kernel_live_event [OF ok id]
  show ?thesis
  proof (cases ?busy)
    case True
    then show ?thesis by (simp add: enter leave_eq)
  next
    case nb: False
    show ?thesis
    proof (cases ?met)
      case True
      have "tn_event_wait (Some i) wp wm True tmo s = Some (Done TERR_NO_ERR (Some (pattern (event s i))), event_take i s)"
        using True nb restore_sr_eq [of "event_take i ?s" "cpsr s"] by (auto simp: enter)
      moreover have "event_ok (event_take i s) L"
        by (rule event_ok_mono [OF ev]) (auto simp: event_take_def)
      ultimately have ?now using ok by (intro exI [of _ "event_take i s"]) simp
      then show ?thesis unfolding if_not_P [OF nb] if_P [OF True] .
    next
      case False
      let ?f = "\<lambda>x. x\<lparr>ewait_mode := wm, ewait_pattern := wp\<rparr>"
      let ?u = "upd_tcb t ?f ?s"
      have f: "same_sched_fields (?f (tcb ?s t)) (tcb ?s t)" by (simp add: same_sched_fields_def)
      have "kernel_ok ?s L" using ok by simp
      then have pre: "kernel_ok ?u L" "curr_ok ?u" "other_ready ?u" "id_event (event ?u i) = TN_ID_EVENT"
        "cpsr ?u = cpsr s OR 0xC0" "tn_curr_run_task ?u = Some t"
        using c o id t kernel_upd_tcb [where f = ?f and t = t, OF _ f] upd_tcb_ready [where f = ?f and t = t, OF f]
        by simp_all
      obtain s1 s' L' where w: "task_curr_to_wait_action (Some (EventWaitQ i)) TSK_WAIT_REASON_EVENT tmo ?u = Some s1"
        "leave_switch (cpsr s) RetEventPattern s1 = Some (Switch RetEventPattern, s')" "kernel_ok s' L'" "curr_ok s'"
        "tcb s' = (tcb ?u)(t := wait_tcb (Some (EventWaitQ i)) TSK_WAIT_REASON_EVENT tmo (tcb ?u t))"
        "same_objects ?u s'" "tn_curr_run_task s' \<noteq> Some t"
        "\<forall>q. wait_head q \<longrightarrow> L' q = (if q = EventWaitQ i then L q @ [TaskQ t] else L q)"
        using ev.wait_switch [OF pre, of tmo RetEventPattern] by blast
      have e: "event s' = event s" using w(6) by (simp add: same_objects_def)
      have "event_ok s' L'"
        using ev w(8) nb unfolding event_ok_def e by auto
      moreover have "tcb s' = (tcb s)(t := wait_tcb (Some (EventWaitQ i)) TSK_WAIT_REASON_EVENT tmo (?f (tcb s t)))"
        using w(5) by (simp add: fun_eq_iff)
      moreover have "tn_event_wait (Some i) wp wm True tmo s = Some (Switch RetEventPattern, s')"
        using w(1,2) nb False t by (auto simp: enter)
      ultimately have ?later using w e by (intro exI [of _ s'] exI [of _ L']) simp
      then show ?thesis unfolding if_not_P [OF nb] if_not_P [OF False] .
    qed
  qed
qed

theorem event_wait_cases_witness:
  "tn_event_wait (Some 0) 1 0 True 10 demo = Some (ret TERR_ILUSE, demo)"
proof -
  have id: "id_event (event demo 0) = TN_ID_EVENT" "has_bits (e_attr (event demo 0)) TN_EVENT_ATTR_SINGLE"
    by (simp_all add: demo_def)
  have L: "demo_lists (EventWaitQ 0) = [TaskQ 4]" by (simp add: demo_lists_def lists_of_def demo_lists_alist_def)
  show ?thesis
    using event_wait_cases [OF demo_ok demo_event id(1) demo_curr(4,1,2,3), of 1 10 0] id(2) L by simp
qed

end
