(* ===== verification/TN_Fifo.thy ===== *)
theory TN_Fifo
  imports TN_Port
begin

text \<open>
  The storage of a data queue: the ring buffer routines \<open>dque_fifo_write\<close> and \<open>dque_fifo_read\<close>
  of \<^verbatim>\<open>TNKernel/tn_utils.c\<close>, refined to a bounded list. A \<open>void **\<close> array is a range of the word
  memory; an output pointer is a flag (is it non-null) and a returned value.
\<close>

section \<open>The code\<close>

definition fifo_cell :: "tn_dque \<Rightarrow> int \<Rightarrow> u32" where
  "fifo_cell q i = data_fifo q + 4 * word_of_int i"

definition dque_fifo_write :: "optr \<Rightarrow> u32 \<Rightarrow> kernel \<Rightarrow> int \<times> kernel" where
  "dque_fifo_write dq data_ptr s =
     (case dq of
        None \<Rightarrow> (TERR_WRONG_PARAM, s)
      | Some d \<Rightarrow>
          let q = dque s d in
          if num_entries q \<le> 0 then (TERR_OUT_OF_MEM, s)
          else if tail_cnt q = 0 \<and> header_cnt q = num_entries q - 1 \<or> header_cnt q = tail_cnt q - 1
          then (TERR_OVERFLOW, s)
          else
            let s1 = s\<lparr>mem := (mem s)(fifo_cell q (header_cnt q) := data_ptr)\<rparr>;
                s2 = upd_dque d (\<lambda>q. q\<lparr>header_cnt := header_cnt q + 1\<rparr>) s1;
                s3 = (if header_cnt (dque s2 d) \<ge> num_entries (dque s2 d)
                      then upd_dque d (\<lambda>q. q\<lparr>header_cnt := 0\<rparr>) s2 else s2)
            in (TERR_NO_ERR, s3))"

definition dque_fifo_read :: "optr \<Rightarrow> bool \<Rightarrow> kernel \<Rightarrow> int \<times> u32 option \<times> kernel" where
  "dque_fifo_read dq data_ptr s =
     (if \<not> data_ptr then (TERR_WRONG_PARAM, None, s)
      else case dq of
        None \<Rightarrow> (TERR_WRONG_PARAM, None, s)
      | Some d \<Rightarrow>
          let q = dque s d in
          if num_entries q \<le> 0 then (TERR_OUT_OF_MEM, None, s)
          else if tail_cnt q = header_cnt q then (TERR_UNDERFLOW, None, s)
          else
            let v = mem s (fifo_cell q (tail_cnt q));
                s1 = upd_dque d (\<lambda>q. q\<lparr>tail_cnt := tail_cnt q + 1\<rparr>) s;
                s2 = (if tail_cnt (dque s1 d) \<ge> num_entries (dque s1 d)
                      then upd_dque d (\<lambda>q. q\<lparr>tail_cnt := 0\<rparr>) s1 else s1)
            in (TERR_NO_ERR, Some v, s2))"

section \<open>The abstract queue\<close>

text \<open>The counters stay below the capacity, and the array fits in the address space.\<close>

definition fifo_ok :: "tn_dque \<Rightarrow> bool" where
  "fifo_ok q \<longleftrightarrow> 0 < num_entries q \<and> num_entries q \<le> 2 ^ 30 \<and>
     0 \<le> tail_cnt q \<and> tail_cnt q < num_entries q \<and>
     0 \<le> header_cnt q \<and> header_cnt q < num_entries q"

definition fifo_len :: "tn_dque \<Rightarrow> nat" where
  "fifo_len q = nat ((header_cnt q - tail_cnt q) mod num_entries q)"

definition fifo_list :: "tn_dque \<Rightarrow> (u32 \<Rightarrow> u32) \<Rightarrow> u32 list" where
  "fifo_list q m =
     map (\<lambda>k. m (fifo_cell q ((tail_cnt q + int k) mod num_entries q))) [0..<fifo_len q]"

text \<open>The addresses of the array of one queue.\<close>

definition fifo_area :: "tn_dque \<Rightarrow> u32 set" where
  "fifo_area q = fifo_cell q ` {0..<num_entries q}"

lemma length_fifo_list [simp]: "length (fifo_list q m) = fifo_len q"
  by (simp add: fifo_list_def)

lemma fifo_cell_inj:
  assumes "0 \<le> i" "i < 2 ^ 30" "0 \<le> j" "j < 2 ^ 30" "fifo_cell q i = fifo_cell q j"
  shows "i = j"
proof -
  have "(word_of_int (4 * i) :: u32) = word_of_int (4 * j)"
    using assms(5) by (simp add: fifo_cell_def)
  then have "take_bit LENGTH(32) (4 * i) = take_bit LENGTH(32) (4 * j)"
    by (simp only: word_of_int_eq_iff)
  then have "(4 * i) mod 2 ^ 32 = (4 * j) mod 2 ^ 32"
    by (simp only: take_bit_eq_mod) simp
  then show ?thesis using assms(1-4) by simp
qed

lemma fifo_list_frame:
  "fifo_ok q \<Longrightarrow> a \<notin> fifo_area q \<Longrightarrow> fifo_list q (m(a := v)) = fifo_list q m"
  by (auto simp: fifo_list_def fifo_area_def fifo_ok_def)

lemma fifo_mod_step:
  "0 \<le> c \<Longrightarrow> c < (n::int) \<Longrightarrow> (if c + 1 \<ge> n then 0 else c + 1) = (c + 1) mod n"
  by (cases "c + 1 = n") auto

lemma fifo_len_eq:
  assumes "fifo_ok q"
  shows "fifo_len q = nat (if header_cnt q < tail_cnt q
    then header_cnt q - tail_cnt q + num_entries q else header_cnt q - tail_cnt q)"
proof -
  let ?d = "header_cnt q - tail_cnt q"
  have "?d mod num_entries q = (?d + num_entries q) mod num_entries q" by simp
  also have "\<dots> = ?d + num_entries q" if "?d < 0"
    using assms that by (intro mod_pos_pos_trivial) (auto simp: fifo_ok_def)
  finally show ?thesis using assms by (auto simp: fifo_len_def fifo_ok_def)
qed

lemma fifo_full_iff:
  "fifo_ok q \<Longrightarrow>
   (tail_cnt q = 0 \<and> header_cnt q = num_entries q - 1 \<or> header_cnt q = tail_cnt q - 1) \<longleftrightarrow>
   fifo_len q = nat (num_entries q - 1)"
  by (auto simp: fifo_len_eq) (auto simp: fifo_ok_def)

lemma fifo_empty_iff: "fifo_ok q \<Longrightarrow> tail_cnt q = header_cnt q \<longleftrightarrow> fifo_len q = 0"
  by (auto simp: fifo_len_eq) (auto simp: fifo_ok_def)

lemma fifo_len_bound: "fifo_ok q \<Longrightarrow> fifo_len q < nat (num_entries q)"
  by (simp add: fifo_len_def fifo_ok_def nat_less_iff)

lemma fifo_header_eq: "fifo_ok q \<Longrightarrow> (tail_cnt q + int (fifo_len q)) mod num_entries q = header_cnt q"
  by (simp add: fifo_len_def fifo_ok_def mod_add_right_eq mod_pos_pos_trivial)

lemma mod_shift_neq:
  assumes "0 \<le> (k::int)" "k < l" "l < n"
  shows "(t + k) mod n \<noteq> (t + l) mod n"
proof
  assume "(t + k) mod n = (t + l) mod n"
  then have "n dvd (t + l) - (t + k)" by (metis mod_eq_dvd_iff)
  then have "n dvd l - k" by simp
  then have "n \<le> l - k" using assms by (intro zdvd_imp_le) auto
  then show False using assms by simp
qed

lemma upt_0_Suc: "[0..<Suc n] = 0 # map Suc [0..<n]"
  by (simp add: map_Suc_upt upt_conv_Cons del: upt_Suc)

lemma fifo_list_push:
  assumes ok: "fifo_ok q" and room: "fifo_len q < nat (num_entries q - 1)"
  defines "q' \<equiv> q\<lparr>header_cnt := (header_cnt q + 1) mod num_entries q\<rparr>"
  shows "fifo_ok q'"
    and "fifo_list q' (m(fifo_cell q (header_cnt q) := x)) = fifo_list q m @ [x]"
proof -
  let ?n = "num_entries q" and ?t = "tail_cnt q" and ?l = "int (fifo_len q)"
  have n: "0 < ?n" "?n \<le> 2 ^ 30" using ok by (auto simp: fifo_ok_def)
  show ok': "fifo_ok q'" using ok by (simp add: q'_def fifo_ok_def)
  have cells: "fifo_cell q' = fifo_cell q" by (simp add: fifo_cell_def q'_def fun_eq_iff)
  have same: "tail_cnt q' = ?t" "num_entries q' = ?n" by (simp_all add: q'_def)
  have l: "?l + 1 < ?n" using room n by linarith
  have "(header_cnt q + 1 - ?t) mod ?n = ((header_cnt q - ?t) + 1) mod ?n"
    by (simp add: algebra_simps)
  also have "\<dots> = (((header_cnt q - ?t) mod ?n) + 1) mod ?n"
    by (simp only: mod_add_left_eq)
  also have "(header_cnt q - ?t) mod ?n = ?l" using n by (simp add: fifo_len_def)
  also have "(?l + 1) mod ?n = ?l + 1" using l by (intro mod_pos_pos_trivial) auto
  finally have step: "(header_cnt q + 1 - ?t) mod ?n = ?l + 1" .
  have "fifo_len q' = nat ((header_cnt q + 1 - ?t) mod ?n)"
    unfolding fifo_len_def q'_def by (simp add: mod_diff_left_eq)
  with step have len: "fifo_len q' = Suc (fifo_len q)" by linarith
  have old: "(m(fifo_cell q (header_cnt q) := x)) (fifo_cell q ((?t + int k) mod ?n)) =
      m (fifo_cell q ((?t + int k) mod ?n))" if "k < fifo_len q" for k
  proof -
    have "(?t + int k) mod ?n \<noteq> header_cnt q"
      using mod_shift_neq [of "int k" ?l ?n ?t] that l fifo_header_eq [OF ok] by simp
    moreover have "0 \<le> (?t + int k) mod ?n" "(?t + int k) mod ?n < 2 ^ 30"
      using n pos_mod_sign [of ?n "?t + int k"] pos_mod_bound [of ?n "?t + int k"] by linarith+
    moreover have "0 \<le> header_cnt q" "header_cnt q < 2 ^ 30"
      using ok n by (simp_all add: fifo_ok_def)
    ultimately have "fifo_cell q ((?t + int k) mod ?n) \<noteq> fifo_cell q (header_cnt q)"
      using fifo_cell_inj by blast
    then show ?thesis by simp
  qed
  then have "map (\<lambda>k. (m(fifo_cell q (header_cnt q) := x)) (fifo_cell q ((?t + int k) mod ?n)))
      [0..<fifo_len q] = fifo_list q m"
    by (simp add: fifo_list_def)
  then show "fifo_list q' (m(fifo_cell q (header_cnt q) := x)) = fifo_list q m @ [x]"
    using len fifo_header_eq [OF ok] by (simp add: fifo_list_def [of q'] cells same)
qed

lemma fifo_list_pop:
  assumes ok: "fifo_ok q" and ne: "fifo_len q \<noteq> 0"
  defines "q' \<equiv> q\<lparr>tail_cnt := (tail_cnt q + 1) mod num_entries q\<rparr>"
  shows "fifo_ok q'" and "fifo_list q m = m (fifo_cell q (tail_cnt q)) # fifo_list q' m"
proof -
  let ?n = "num_entries q" and ?t = "tail_cnt q" and ?l = "int (fifo_len q)"
  have n: "0 < ?n" using ok by (simp add: fifo_ok_def)
  show "fifo_ok q'" using ok by (simp add: q'_def fifo_ok_def)
  have cells: "fifo_cell q' = fifo_cell q" by (simp add: fifo_cell_def q'_def fun_eq_iff)
  have "(header_cnt q - (?t + 1) mod ?n) mod ?n = ((header_cnt q - ?t) mod ?n - 1) mod ?n"
    by (simp add: mod_diff_left_eq mod_diff_right_eq algebra_simps)
  also have "(header_cnt q - ?t) mod ?n = ?l" using n by (simp add: fifo_len_def)
  also have "(?l - 1) mod ?n = ?l - 1"
    using ne fifo_len_bound [OF ok] by (intro mod_pos_pos_trivial) auto
  finally have step: "(header_cnt q - (?t + 1) mod ?n) mod ?n = ?l - 1" .
  have "fifo_len q' = nat ((header_cnt q - (?t + 1) mod ?n) mod ?n)"
    unfolding fifo_len_def q'_def by simp
  with step ne have len: "fifo_len q = Suc (fifo_len q')" by linarith
  have first: "?t mod ?n = ?t" using ok by (simp add: fifo_ok_def)
  have rest: "(?t + int (Suc k)) mod ?n = (tail_cnt q' + int k) mod ?n" for k
  proof -
    have "(?t + int (Suc k)) mod ?n = ((?t + 1) + int k) mod ?n"
      by (simp add: algebra_simps)
    also have "\<dots> = ((?t + 1) mod ?n + int k) mod ?n"
      by (simp only: mod_add_left_eq)
    finally show ?thesis by (simp add: q'_def del: of_nat_Suc)
  qed
  have "fifo_list q m = m (fifo_cell q (?t mod ?n)) #
      map (\<lambda>k. m (fifo_cell q ((?t + int (Suc k)) mod ?n))) [0..<fifo_len q']"
    unfolding fifo_list_def len upt_0_Suc by (simp add: o_def)
  then show "fifo_list q m = m (fifo_cell q ?t) # fifo_list q' m"
    unfolding first rest by (simp add: fifo_list_def [of q'] cells) (simp add: q'_def)
qed

section \<open>Correctness of the two routines\<close>

lemma dque_fifo_write_eq:
  assumes "fifo_ok (dque s d)"
  shows "dque_fifo_write (Some d) x s =
    (let q = dque s d in
     if fifo_len q = nat (num_entries q - 1) then (TERR_OVERFLOW, s)
     else (TERR_NO_ERR,
       upd_dque d (\<lambda>q. q\<lparr>header_cnt := (header_cnt q + 1) mod num_entries q\<rparr>)
         (s\<lparr>mem := (mem s)(fifo_cell q (header_cnt q) := x)\<rparr>)))"
proof -
  have b: "0 \<le> header_cnt (dque s d)" "header_cnt (dque s d) < num_entries (dque s d)"
    using assms by (simp_all add: fifo_ok_def)
  have pos: "\<not> num_entries (dque s d) \<le> 0" using assms by (simp add: fifo_ok_def)
  have wrap: "(if num_entries (dque s d) \<le> header_cnt (dque s d) + 1 then 0
      else header_cnt (dque s d) + 1) = (header_cnt (dque s d) + 1) mod num_entries (dque s d)"
    using b by (rule fifo_mod_step)
  have m: "upd_dque d f (s\<lparr>mem := m\<rparr>) = upd_dque d g (s\<lparr>mem := m\<rparr>)"
    if "f (dque s d) = g (dque s d)" for f g m
    using that by (intro upd_cong) simp
  show ?thesis
    unfolding dque_fifo_write_def Let_def option.case fifo_full_iff [OF assms] wrap [symmetric]
    using pos wrap by (auto simp: upd_upd simp del: upd_global intro!: m)
qed

lemma dque_fifo_read_eq:
  assumes "fifo_ok (dque s d)"
  shows "dque_fifo_read (Some d) True s =
    (let q = dque s d in
     if fifo_len q = 0 then (TERR_UNDERFLOW, None, s)
     else (TERR_NO_ERR, Some (mem s (fifo_cell q (tail_cnt q))),
       upd_dque d (\<lambda>q. q\<lparr>tail_cnt := (tail_cnt q + 1) mod num_entries q\<rparr>) s))"
proof -
  have b: "0 \<le> tail_cnt (dque s d)" "tail_cnt (dque s d) < num_entries (dque s d)"
    using assms by (simp_all add: fifo_ok_def)
  have pos: "\<not> num_entries (dque s d) \<le> 0" using assms by (simp add: fifo_ok_def)
  have wrap: "(if num_entries (dque s d) \<le> tail_cnt (dque s d) + 1 then 0
      else tail_cnt (dque s d) + 1) = (tail_cnt (dque s d) + 1) mod num_entries (dque s d)"
    using b by (rule fifo_mod_step)
  show ?thesis
    unfolding dque_fifo_read_def Let_def option.case fifo_empty_iff [OF assms] wrap [symmetric]
    using pos wrap by (auto simp: upd_upd intro!: upd_cong)
qed

section \<open>The interface of a bounded queue\<close>

text \<open>Requests to a bounded queue, and the answers: a return code and the value read.\<close>

datatype fifo_op = FPush u32 | FPop

type_synonym fifo_answer = "int \<times> u32 option"

text \<open>The specification: a list with a capacity.\<close>

fun spec_step :: "nat \<Rightarrow> fifo_op \<Rightarrow> u32 list \<Rightarrow> fifo_answer \<times> u32 list" where
  "spec_step c (FPush x) xs =
     (if length xs < c then ((TERR_NO_ERR, None), xs @ [x]) else ((TERR_OVERFLOW, None), xs))"
| "spec_step c FPop [] = ((TERR_UNDERFLOW, None), [])"
| "spec_step c FPop (x # xs) = ((TERR_NO_ERR, Some x), xs)"

fun spec_run :: "nat \<Rightarrow> fifo_op list \<Rightarrow> u32 list \<Rightarrow> fifo_answer list \<times> u32 list" where
  "spec_run c [] xs = ([], xs)"
| "spec_run c (p # ps) xs =
     (let (a, xs1) = spec_step c p xs; (as, xs2) = spec_run c ps xs1 in (a # as, xs2))"

text \<open>A machine with a write and a read operation, run over requests.\<close>

fun fifo_step :: "(u32 \<Rightarrow> 's \<Rightarrow> int \<times> 's) \<Rightarrow> ('s \<Rightarrow> int \<times> u32 option \<times> 's) \<Rightarrow> fifo_op \<Rightarrow> 's \<Rightarrow>
    fifo_answer \<times> 's" where
  "fifo_step push pop (FPush x) s = (let (rc, s') = push x s in ((rc, None), s'))"
| "fifo_step push pop FPop s = (let (rc, v, s') = pop s in ((rc, v), s'))"

fun fifo_run :: "(u32 \<Rightarrow> 's \<Rightarrow> int \<times> 's) \<Rightarrow> ('s \<Rightarrow> int \<times> u32 option \<times> 's) \<Rightarrow> fifo_op list \<Rightarrow> 's \<Rightarrow>
    fifo_answer list \<times> 's" where
  "fifo_run push pop [] s = ([], s)"
| "fifo_run push pop (p # ps) s =
     (let (a, s1) = fifo_step push pop p s; (as, s2) = fifo_run push pop ps s1 in (a # as, s2))"

locale bounded_fifo =
  fixes inv :: "'s \<Rightarrow> bool"
    and items :: "'s \<Rightarrow> u32 list"
    and cap :: "'s \<Rightarrow> nat"
    and push :: "u32 \<Rightarrow> 's \<Rightarrow> int \<times> 's"
    and pop :: "'s \<Rightarrow> int \<times> u32 option \<times> 's"
  assumes push_room: "inv s \<Longrightarrow> length (items s) < cap s \<Longrightarrow>
      \<exists>s'. push x s = (TERR_NO_ERR, s') \<and> inv s' \<and> items s' = items s @ [x] \<and> cap s' = cap s"
    and push_full: "inv s \<Longrightarrow> \<not> length (items s) < cap s \<Longrightarrow> push x s = (TERR_OVERFLOW, s)"
    and pop_some: "inv s \<Longrightarrow> items s = x # xs \<Longrightarrow>
      \<exists>s'. pop s = (TERR_NO_ERR, Some x, s') \<and> inv s' \<and> items s' = xs \<and> cap s' = cap s"
    and pop_none: "inv s \<Longrightarrow> items s = [] \<Longrightarrow> pop s = (TERR_UNDERFLOW, None, s)"
begin

lemma step_refines:
  assumes "inv s"
  shows "\<exists>s'. fifo_step push pop p s = (fst (spec_step (cap s) p (items s)), s') \<and> inv s' \<and>
    items s' = snd (spec_step (cap s) p (items s)) \<and> cap s' = cap s"
proof (cases p)
  case (FPush x)
  then show ?thesis
    using assms push_room [OF assms, of x] push_full [OF assms, of x] by auto
next
  case FPop
  then show ?thesis
    using assms pop_none [OF assms] pop_some [OF assms] by (cases "items s") fastforce+
qed

lemma run_refines:
  "inv s \<Longrightarrow> \<exists>s'. fifo_run push pop ps s = (fst (spec_run (cap s) ps (items s)), s') \<and> inv s' \<and>
    items s' = snd (spec_run (cap s) ps (items s)) \<and> cap s' = cap s"
proof (induction ps arbitrary: s)
  case Nil
  then show ?case by simp
next
  case (Cons p ps)
  obtain a xs where sp: "spec_step (cap s) p (items s) = (a, xs)" by fastforce
  obtain s1 where s1: "fifo_step push pop p s = (a, s1)" "inv s1" "items s1 = xs" "cap s1 = cap s"
    using step_refines [OF Cons.prems, of p] sp by auto
  show ?case
    using Cons.IH [OF s1(2)] s1 sp by (auto simp: case_prod_unfold Let_def)
qed

end

interpretation ring: bounded_fifo "\<lambda>s. fifo_ok (dque s d)"
  "\<lambda>s. fifo_list (dque s d) (mem s)" "\<lambda>s. nat (num_entries (dque s d) - 1)"
  "dque_fifo_write (Some d)" "dque_fifo_read (Some d) True"
  for d
proof (unfold_locales, goal_cases)
  case (1 s x)
  then show ?case
    using fifo_list_push(1) [of "dque s d"] fifo_list_push(2) [of "dque s d" "mem s" x] by (auto simp: dque_fifo_write_eq Let_def)
next
  case (2 s x)
  moreover have "fifo_len (dque s d) = nat (num_entries (dque s d) - 1)"
    using 2 fifo_len_bound [of "dque s d"] by auto
  ultimately show ?case by (simp add: dque_fifo_write_eq)
next
  case (3 s x xs)
  then have "fifo_len (dque s d) \<noteq> 0" by (metis length_fifo_list list.size(3) neq_Nil_conv length_0_conv)
  then show ?case
    using 3 fifo_list_pop(1) [of "dque s d"] fifo_list_pop(2) [of "dque s d" "mem s"] by (auto simp: dque_fifo_read_eq Let_def)
next
  case (4 s)
  then have "fifo_len (dque s d) = 0" by (metis length_fifo_list list.size(3))
  then show ?case using 4 by (simp add: dque_fifo_read_eq)
qed

text \<open>C23. Over any sequence of writes and reads the ring buffer of a data queue answers exactly as a
  list that holds at most \<open>num_entries - 1\<close> entries would: values come out in the order they went
  in, a write to a full queue is refused with \<open>TERR_OVERFLOW\<close> and a read of an empty one with
  \<open>TERR_UNDERFLOW\<close>, both without effect.\<close>

theorem ring_buffer_refines_bounded_list:
  assumes "fifo_ok (dque s d)"
  shows "\<exists>s'. fifo_run (dque_fifo_write (Some d)) (dque_fifo_read (Some d) True) ps s =
      (fst (spec_run (nat (num_entries (dque s d) - 1)) ps (fifo_list (dque s d) (mem s))), s') \<and>
    fifo_ok (dque s' d) \<and>
    fifo_list (dque s' d) (mem s') =
      snd (spec_run (nat (num_entries (dque s d) - 1)) ps (fifo_list (dque s d) (mem s)))"
  using ring.run_refines [OF assms] by blast

definition sample_kernel :: kernel where
  "sample_kernel = \<lparr>qh = (\<lambda>q. \<lparr>q_prev = None, q_next = None\<rparr>), mem = (\<lambda>_. 0),
     tcb = (\<lambda>_. \<lparr>task_stk = 0, pwait_queue = None, blk_task = None, stk_start = 0, stk_size = 0,
     task_func_addr = 0, task_func_param = 0, base_priority = 0, priority = 0, id_task = 0,
     task_state = 0, task_wait_reason = 0, task_wait_rc = 0, tick_count = 0, tslice_count = 0,
     ewait_pattern = 0, ewait_mode = 0, data_elem = 0, activate_count = 0, wakeup_count = 0,
     suspend_count = 0\<rparr>), sem = (\<lambda>_. \<lparr>count = 0, max_count = 0, id_sem = 0\<rparr>),
     event = (\<lambda>_. \<lparr>e_attr = 0, pattern = 0, id_event = 0\<rparr>),
     dque = (\<lambda>_. \<lparr>data_fifo = 0x1000, num_entries = 3, tail_cnt = 2, header_cnt = 2, id_dque = TN_ID_DATAQUEUE\<rparr>),
     fmp = (\<lambda>_. \<lparr>block_size = 0, num_blocks = 0, start_addr = 0, free_list = 0, fblkcnt = 0, id_fmp = 0\<rparr>),
     mutex = (\<lambda>_. \<lparr>m_attr = 0, holder = None, ceil_priority = 0, cnt = 0, id_mutex = 0\<rparr>),
     tn_created_tasks_qty = 0, tn_tslice_ticks = (\<lambda>_. 0), tn_system_state = 0,
     tn_next_task_to_run = None, tn_curr_run_task = None, tn_enable_switch_context = 1,
     tn_context_switch_request = 0, tn_int_counter = 0, tn_ready_to_run_bmp = 0,
     tn_idle_count = 0, cpsr = 0x13, addr_tn_task_exit = 0x8000\<rparr>"

theorem ring_buffer_refines_bounded_list_witness:
  "fst (fifo_run (dque_fifo_write (Some 0)) (dque_fifo_read (Some 0) True)
     [FPush 7, FPush 8, FPush 9, FPop, FPush 9, FPop, FPop, FPop] sample_kernel) =
   [(TERR_NO_ERR, None), (TERR_NO_ERR, None), (TERR_OVERFLOW, None), (TERR_NO_ERR, Some 7),
    (TERR_NO_ERR, None), (TERR_NO_ERR, Some 8), (TERR_NO_ERR, Some 9), (TERR_UNDERFLOW, None)]"
proof -
  have "fifo_ok (dque sample_kernel 0)" by (simp add: sample_kernel_def fifo_ok_def)
  from ring_buffer_refines_bounded_list [OF this,
      of "[FPush 7, FPush 8, FPush 9, FPop, FPush 9, FPop, FPop, FPop]"]
  show ?thesis by (auto simp: sample_kernel_def fifo_list_def fifo_len_def)
qed

end
