(* ===== verification/TN_Dqueue.thy ===== *)
theory TN_Dqueue
  imports TN_Demo TN_Fifo
begin

text \<open>
  Data queues, \<^verbatim>\<open>TNKernel/tn_dqueue.c\<close>: the eight service calls on a queue of words with waiting
  senders and receivers. The storage is the ring buffer of \<open>TN_Fifo\<close>.

  \<open>data_ptr\<close> of the receive calls is a flag: the pointer is not null. What the call stores there
  is part of its outcome.
\<close>

section \<open>Service calls\<close>

definition tn_queue_create :: "optr \<Rightarrow> u32 \<Rightarrow> int \<Rightarrow> kernel \<Rightarrow> (outcome \<times> kernel) option" where
  "tn_queue_create dq fifo n s =
     (case dq of
        None \<Rightarrow> Some (ret TERR_WRONG_PARAM, s)
      | Some d \<Rightarrow>
          if n < 0 \<or> id_dque (dque s d) = TN_ID_DATAQUEUE then Some (ret TERR_WRONG_PARAM, s)
          else
            Some (ret TERR_NO_ERR,
              upd_dque d (\<lambda>q. q\<lparr>data_fifo := fifo, num_entries := (if fifo = 0 then 0 else n),
                  tail_cnt := 0, header_cnt := 0, id_dque := TN_ID_DATAQUEUE\<rparr>)
                (s\<lparr>qh := queue_reset (DqueRecvQ d) (queue_reset (DqueSendQ d) (qh s))\<rparr>)))"

definition dque_delete_recv_loop :: "oid \<Rightarrow> u32 \<Rightarrow> kernel \<Rightarrow> (outcome \<times> kernel) option" where
  "dque_delete_recv_loop d =
     delete_waiters (DqueRecvQ d) (DqueDeleteRecv d)
       (\<lambda>sr s. case disable_if_enabled sr s of (sr, s) \<Rightarrow> leave sr TERR_NO_ERR (upd_dque d (\<lambda>x. x\<lparr>id_dque := 0\<rparr>) s))"

definition dque_delete_send_loop :: "oid \<Rightarrow> u32 \<Rightarrow> kernel \<Rightarrow> (outcome \<times> kernel) option" where
  "dque_delete_send_loop d =
     delete_waiters (DqueSendQ d) (DqueDeleteSend d)
       (dque_delete_recv_loop d)"

definition tn_queue_delete :: "optr \<Rightarrow> kernel \<Rightarrow> (outcome \<times> kernel) option" where
  "tn_queue_delete dq s =
     (case dq of
        None \<Rightarrow> Some (ret TERR_WRONG_PARAM, s)
      | Some d \<Rightarrow>
          if id_dque (dque s d) \<noteq> TN_ID_DATAQUEUE then Some (ret TERR_NOEXS, s)
          else if check_non_int_context s then Some (ret TERR_WCONTEXT, s)
          else dque_delete_send_loop d 0 s)"

definition tn_queue_send :: "optr \<Rightarrow> u32 \<Rightarrow> u32 \<Rightarrow> kernel \<Rightarrow> (outcome \<times> kernel) option" where
  "tn_queue_send dq data_ptr timeout s =
     (case dq of
        None \<Rightarrow> Some (ret TERR_WRONG_PARAM, s)
      | Some d \<Rightarrow>
          if timeout = 0 then Some (ret TERR_WRONG_PARAM, s) else
          if id_dque (dque s d) \<noteq> TN_ID_DATAQUEUE then Some (ret TERR_NOEXS, s)
          else if check_non_int_context s then Some (ret TERR_WCONTEXT, s)
          else do {
            let (sr, s) = tn_cpu_save_sr s;
            (if \<not> is_queue_empty (DqueRecvQ d) (qh s) then
               do {
                 (task, s) \<leftarrow> dequeue_task (DqueRecvQ d) s;
                 t \<leftarrow> task;
                 let s = upd_tcb t (\<lambda>x. x\<lparr>data_elem := data_ptr\<rparr>) s;
                 (sw, s) \<leftarrow> task_wait_complete task s;
                 (if sw then leave_switch sr RetNoErr s else leave sr TERR_NO_ERR s)
               }
             else
               do {
                 let (rc, s) = dque_fifo_write (Some d) data_ptr s;
                 (if rc \<noteq> TERR_NO_ERR then
                    do {
                      curr \<leftarrow> tn_curr_run_task s;
                      let s = upd_tcb curr (\<lambda>x. x\<lparr>data_elem := data_ptr\<rparr>) s;
                      s \<leftarrow> task_curr_to_wait_action (Some (DqueSendQ d)) TSK_WAIT_REASON_DQUE_WSEND timeout s;
                      leave_switch sr RetWaitRc s
                    }
                  else leave sr rc s)
               })
          })"

definition tn_queue_send_polling :: "optr \<Rightarrow> u32 \<Rightarrow> kernel \<Rightarrow> (outcome \<times> kernel) option" where
  "tn_queue_send_polling dq data_ptr s =
     (case dq of
        None \<Rightarrow> Some (ret TERR_WRONG_PARAM, s)
      | Some d \<Rightarrow>
          if id_dque (dque s d) \<noteq> TN_ID_DATAQUEUE then Some (ret TERR_NOEXS, s)
          else if check_non_int_context s then Some (ret TERR_WCONTEXT, s)
          else do {
            let (sr, s) = tn_cpu_save_sr s;
            (if \<not> is_queue_empty (DqueRecvQ d) (qh s) then
               do {
                 (task, s) \<leftarrow> dequeue_task (DqueRecvQ d) s;
                 t \<leftarrow> task;
                 let s = upd_tcb t (\<lambda>x. x\<lparr>data_elem := data_ptr\<rparr>) s;
                 (sw, s) \<leftarrow> task_wait_complete task s;
                 (if sw then leave_switch sr RetNoErr s else leave sr TERR_NO_ERR s)
               }
             else
               do {
                 let (rc, s) = dque_fifo_write (Some d) data_ptr s;
                 leave sr (if rc \<noteq> TERR_NO_ERR then TERR_TIMEOUT else rc) s
               })
          })"

definition tn_queue_isend_polling :: "optr \<Rightarrow> u32 \<Rightarrow> kernel \<Rightarrow> (outcome \<times> kernel) option" where
  "tn_queue_isend_polling dq data_ptr s =
     (case dq of
        None \<Rightarrow> Some (ret TERR_WRONG_PARAM, s)
      | Some d \<Rightarrow>
          if id_dque (dque s d) \<noteq> TN_ID_DATAQUEUE then Some (ret TERR_NOEXS, s)
          else if check_int_context s then Some (ret TERR_WCONTEXT, s)
          else do {
            (if \<not> is_queue_empty (DqueRecvQ d) (qh s) then
               do {
                 (task, s) \<leftarrow> dequeue_task (DqueRecvQ d) s;
                 t \<leftarrow> task;
                 let s = upd_tcb t (\<lambda>x. x\<lparr>data_elem := data_ptr\<rparr>) s;
                 (sw, s) \<leftarrow> task_wait_complete task s;
                 Some (ret TERR_NO_ERR, if sw then request_switch s else s)
               }
             else
               do {
                 let (rc, s) = dque_fifo_write (Some d) data_ptr s;
                 Some (ret (if rc \<noteq> TERR_NO_ERR then TERR_TIMEOUT else rc), s)
               })
          })"

definition tn_queue_receive :: "optr \<Rightarrow> bool \<Rightarrow> u32 \<Rightarrow> kernel \<Rightarrow> (outcome \<times> kernel) option" where
  "tn_queue_receive dq data_ptr timeout s =
     (case dq of
        None \<Rightarrow> Some (ret TERR_WRONG_PARAM, s)
      | Some d \<Rightarrow>
          if timeout = 0 \<or> \<not> data_ptr then Some (ret TERR_WRONG_PARAM, s)
          else if id_dque (dque s d) \<noteq> TN_ID_DATAQUEUE then Some (ret TERR_NOEXS, s)
          else if check_non_int_context s then Some (ret TERR_WCONTEXT, s)
          else do {
            let (sr, s) = tn_cpu_save_sr s;
            let (rc, out, s) = dque_fifo_read (Some d) True s;
            (if rc = TERR_NO_ERR then
               do {
                 v \<leftarrow> out;
                 (if \<not> is_queue_empty (DqueSendQ d) (qh s) then
                    do {
                      (task, s) \<leftarrow> dequeue_task (DqueSendQ d) s;
                      t \<leftarrow> task;
                      let (rc2, s) = dque_fifo_write (Some d) (data_elem (tcb s t)) s;
                      (sw, s) \<leftarrow> task_wait_complete task s;
                      (if sw then leave_switch sr (RetNoErrOut v) s
                       else Some (Done TERR_NO_ERR (Some v), tn_cpu_restore_sr sr s))
                    }
                  else Some (Done TERR_NO_ERR (Some v), tn_cpu_restore_sr sr s))
               }
             else if \<not> is_queue_empty (DqueSendQ d) (qh s) then
               do {
                 (task, s) \<leftarrow> dequeue_task (DqueSendQ d) s;
                 t \<leftarrow> task;
                 let v = data_elem (tcb s t);
                 (sw, s) \<leftarrow> task_wait_complete task s;
                 (if sw then leave_switch sr (RetNoErrOut v) s
                  else Some (Done TERR_NO_ERR (Some v), tn_cpu_restore_sr sr s))
               }
             else
               do {
                 s \<leftarrow> task_curr_to_wait_action (Some (DqueRecvQ d)) TSK_WAIT_REASON_DQUE_WRECEIVE timeout s;
                 leave_switch sr RetDataElem s
               })
          })"

definition tn_queue_receive_polling :: "optr \<Rightarrow> bool \<Rightarrow> kernel \<Rightarrow> (outcome \<times> kernel) option" where
  "tn_queue_receive_polling dq data_ptr s =
     (case dq of
        None \<Rightarrow> Some (ret TERR_WRONG_PARAM, s)
      | Some d \<Rightarrow>
          if \<not> data_ptr then Some (ret TERR_WRONG_PARAM, s)
          else if id_dque (dque s d) \<noteq> TN_ID_DATAQUEUE then Some (ret TERR_NOEXS, s)
          else if check_non_int_context s then Some (ret TERR_WCONTEXT, s)
          else do {
            let (sr, s) = tn_cpu_save_sr s;
            let (rc, out, s) = dque_fifo_read (Some d) True s;
            (if rc = TERR_NO_ERR then
               do {
                 v \<leftarrow> out;
                 (if \<not> is_queue_empty (DqueSendQ d) (qh s) then
                    do {
                      (task, s) \<leftarrow> dequeue_task (DqueSendQ d) s;
                      t \<leftarrow> task;
                      let (rc2, s) = dque_fifo_write (Some d) (data_elem (tcb s t)) s;
                      (sw, s) \<leftarrow> task_wait_complete task s;
                      (if sw then leave_switch sr (RetNoErrOut v) s
                       else Some (Done TERR_NO_ERR (Some v), tn_cpu_restore_sr sr s))
                    }
                  else Some (Done TERR_NO_ERR (Some v), tn_cpu_restore_sr sr s))
               }
             else if \<not> is_queue_empty (DqueSendQ d) (qh s) then
               do {
                 (task, s) \<leftarrow> dequeue_task (DqueSendQ d) s;
                 t \<leftarrow> task;
                 let v = data_elem (tcb s t);
                 (sw, s) \<leftarrow> task_wait_complete task s;
                 (if sw then leave_switch sr (RetNoErrOut v) s
                  else Some (Done TERR_NO_ERR (Some v), tn_cpu_restore_sr sr s))
               }
             else
               leave sr TERR_TIMEOUT s)
          })"

definition tn_queue_ireceive :: "optr \<Rightarrow> bool \<Rightarrow> kernel \<Rightarrow> (outcome \<times> kernel) option" where
  "tn_queue_ireceive dq data_ptr s =
     (case dq of
        None \<Rightarrow> Some (ret TERR_WRONG_PARAM, s)
      | Some d \<Rightarrow>
          if \<not> data_ptr then Some (ret TERR_WRONG_PARAM, s)
          else if id_dque (dque s d) \<noteq> TN_ID_DATAQUEUE then Some (ret TERR_NOEXS, s)
          else if check_int_context s then Some (ret TERR_WCONTEXT, s)
          else do {
            let (rc, out, s) = dque_fifo_read (Some d) True s;
            (if rc = TERR_NO_ERR then
               do {
                 v \<leftarrow> out;
                 (if \<not> is_queue_empty (DqueSendQ d) (qh s) then
                    do {
                      (task, s) \<leftarrow> dequeue_task (DqueSendQ d) s;
                      t \<leftarrow> task;
                      let (rc2, s) = dque_fifo_write (Some d) (data_elem (tcb s t)) s;
                      (sw, s) \<leftarrow> task_wait_complete task s;
                      (Some (Done TERR_NO_ERR (Some v), if sw then request_switch s else s))
                    }
                  else Some (Done TERR_NO_ERR (Some v), s))
               }
             else if \<not> is_queue_empty (DqueSendQ d) (qh s) then
               do {
                 (task, s) \<leftarrow> dequeue_task (DqueSendQ d) s;
                 t \<leftarrow> task;
                 let v = data_elem (tcb s t);
                 (sw, s) \<leftarrow> task_wait_complete task s;
                 (Some (Done TERR_NO_ERR (Some v), if sw then request_switch s else s))
               }
             else
               Some (ret TERR_TIMEOUT, s))
          })"

interpretation ds: wait_object DqueSendQ TSK_WAIT_REASON_DQUE_WSEND "\<lambda>s d. id_dque (dque s d) = TN_ID_DATAQUEUE"
  by unfold_locales (simp_all add: same_objects_def)

interpretation dr: wait_object DqueRecvQ TSK_WAIT_REASON_DQUE_WRECEIVE "\<lambda>s d. id_dque (dque s d) = TN_ID_DATAQUEUE"
  by unfold_locales (simp_all add: same_objects_def)

section \<open>The abstract data queue\<close>

text \<open>The words in the buffer; a queue without storage has none. The words of the senders that wait
  come after them.\<close>

definition buffer :: "kernel \<Rightarrow> oid \<Rightarrow> u32 list" where
  "buffer s d = (if num_entries (dque s d) = 0 then [] else fifo_list (dque s d) (mem s))"

definition capacity :: "kernel \<Rightarrow> oid \<Rightarrow> nat" where
  "capacity s d = nat (num_entries (dque s d) - 1)"

definition sender_word :: "kernel \<Rightarrow> qaddr \<Rightarrow> u32" where
  "sender_word s e = (case e of TaskQ t \<Rightarrow> data_elem (tcb s t) | _ \<Rightarrow> 0)"

definition in_flight :: "kernel \<Rightarrow> (qaddr \<Rightarrow> qaddr list) \<Rightarrow> oid \<Rightarrow> u32 list" where
  "in_flight s L d = buffer s d @ map (sender_word s) (L (DqueSendQ d))"

text \<open>Receivers wait only if nothing is in flight, senders only if the buffer is full.\<close>

definition dq_ok :: "kernel \<Rightarrow> (qaddr \<Rightarrow> qaddr list) \<Rightarrow> oid \<Rightarrow> bool" where
  "dq_ok s L d \<longleftrightarrow>
     (num_entries (dque s d) = 0 \<or> fifo_ok (dque s d)) \<and>
     (L (DqueRecvQ d) \<noteq> [] \<longrightarrow> in_flight s L d = []) \<and>
     (L (DqueSendQ d) \<noteq> [] \<longrightarrow> length (buffer s d) = capacity s d)"

definition dque_ok :: "kernel \<Rightarrow> (qaddr \<Rightarrow> qaddr list) \<Rightarrow> bool" where
  "dque_ok s L \<longleftrightarrow>
     (\<forall>d. id_dque (dque s d) = TN_ID_DATAQUEUE \<longrightarrow> dq_ok s L d) \<and>
     (\<forall>d d'. id_dque (dque s d) = TN_ID_DATAQUEUE \<and> id_dque (dque s d') = TN_ID_DATAQUEUE \<and> d \<noteq> d' \<longrightarrow>
        fifo_area (dque s d) \<inter> fifo_area (dque s d') = {})"

lemma dq_cpsr [simp]:
  "buffer (s\<lparr>cpsr := w\<rparr>) d = buffer s d" "capacity (s\<lparr>cpsr := w\<rparr>) d = capacity s d"
  "sender_word (s\<lparr>cpsr := w\<rparr>) = sender_word s" "in_flight (s\<lparr>cpsr := w\<rparr>) L d = in_flight s L d"
  "dque_ok (s\<lparr>cpsr := w\<rparr>) L = dque_ok s L"
proof -
  show w: "sender_word (s\<lparr>cpsr := w\<rparr>) = sender_word s" by (simp add: fun_eq_iff sender_word_def split: qaddr.split)
  show b: "buffer (s\<lparr>cpsr := w\<rparr>) d = buffer s d" "capacity (s\<lparr>cpsr := w\<rparr>) d = capacity s d" for d
    by (simp_all add: buffer_def capacity_def)
  show i: "in_flight (s\<lparr>cpsr := w\<rparr>) L d = in_flight s L d" for d by (simp add: in_flight_def w b)
  show "dque_ok (s\<lparr>cpsr := w\<rparr>) L = dque_ok s L" by (simp add: dque_ok_def dq_ok_def b i)
qed

lemma fifo_list_cong:
  "fifo_ok q \<Longrightarrow> (\<And>a. a \<in> fifo_area q \<Longrightarrow> m a = m' a) \<Longrightarrow> fifo_list q m = fifo_list q m'"
  by (auto simp: fifo_list_def fifo_area_def fifo_ok_def)

lemma fifo_cell_area: "fifo_ok q \<Longrightarrow> fifo_cell q (header_cnt q) \<in> fifo_area q"
  by (auto simp: fifo_area_def fifo_ok_def)

text \<open>A write that finds room, a write that does not, and the two reads, as one step of the buffer
  and nothing else.\<close>

definition buffer_step :: "oid \<Rightarrow> kernel \<Rightarrow> kernel \<Rightarrow> u32 list \<Rightarrow> bool" where
  "buffer_step d s s' b \<longleftrightarrow>
     (\<exists>g m. s' = (upd_dque d g s)\<lparr>mem := m\<rparr> \<and> id_dque (g (dque s d)) = id_dque (dque s d) \<and>
        num_entries (g (dque s d)) = num_entries (dque s d) \<and> data_fifo (g (dque s d)) = data_fifo (dque s d) \<and>
        (num_entries (dque s d) = 0 \<or> fifo_ok (g (dque s d))) \<and>
        (\<forall>a. a \<notin> fifo_area (dque s d) \<longrightarrow> m a = mem s a)) \<and>
     buffer s' d = b"

lemma buffer_step_refl:
  "num_entries (dque s d) = 0 \<or> fifo_ok (dque s d) \<Longrightarrow> buffer_step d s s (buffer s d)"
proof -
  have "(upd_dque d (\<lambda>q. q) s)\<lparr>mem := mem s\<rparr> = s" by (simp add: upd_dque_def)
  then show "num_entries (dque s d) = 0 \<or> fifo_ok (dque s d) \<Longrightarrow> buffer_step d s s (buffer s d)"
    unfolding buffer_step_def by (intro conjI exI [of _ "\<lambda>q. q"] exI [of _ "mem s"]) auto
qed

lemma buffer_step_props:
  assumes "buffer_step d s s' b"
  shows "tcb s' = tcb s" "qh s' = qh s" "cpsr s' = cpsr s" "tn_curr_run_task s' = tn_curr_run_task s"
    "kernel_ok s' L = kernel_ok s L" "curr_ok s' = curr_ok s" "other_ready s' = other_ready s"
    "id_dque (dque s' d') = id_dque (dque s d')" "buffer s' d = b" "capacity s' d = capacity s d"
    "num_entries (dque s' d) = num_entries (dque s d)"
    "fifo_area (dque s' d') = fifo_area (dque s d')" "d' \<noteq> d \<Longrightarrow> dque s' d' = dque s d'"
    "a \<notin> fifo_area (dque s d) \<Longrightarrow> mem s' a = mem s a" "num_entries (dque s d) = 0 \<or> fifo_ok (dque s' d)"
  using assms by (auto simp: buffer_step_def capacity_def fifo_area_def fifo_cell_def)

lemma buffer_step_trans:
  assumes "buffer_step d s s1 b" and "buffer_step d s1 s2 b2"
  shows "buffer_step d s s2 b2"
proof -
  obtain g1 m1 where 1: "s1 = (upd_dque d g1 s)\<lparr>mem := m1\<rparr>" "id_dque (g1 (dque s d)) = id_dque (dque s d)"
    "num_entries (g1 (dque s d)) = num_entries (dque s d)" "data_fifo (g1 (dque s d)) = data_fifo (dque s d)"
    "\<forall>a. a \<notin> fifo_area (dque s d) \<longrightarrow> m1 a = mem s a"
    using assms(1) by (auto simp: buffer_step_def)
  obtain g2 m2 where 2: "s2 = (upd_dque d g2 s1)\<lparr>mem := m2\<rparr>" "id_dque (g2 (dque s1 d)) = id_dque (dque s1 d)"
    "num_entries (g2 (dque s1 d)) = num_entries (dque s1 d)" "data_fifo (g2 (dque s1 d)) = data_fifo (dque s1 d)"
    "num_entries (dque s1 d) = 0 \<or> fifo_ok (g2 (dque s1 d))"
    "\<forall>a. a \<notin> fifo_area (dque s1 d) \<longrightarrow> m2 a = mem s1 a" "buffer s2 d = b2"
    using assms(2) by (auto simp: buffer_step_def)
  have q: "dque s1 d = g1 (dque s d)" "fifo_area (dque s1 d) = fifo_area (dque s d)"
    using 1 by (simp_all add: fifo_area_def fifo_cell_def)
  have "s2 = (upd_dque d (\<lambda>q. g2 (g1 q)) s)\<lparr>mem := m2\<rparr>" using 1(1) 2(1) by (simp add: upd_dque_def)
  with 1 2 q show ?thesis
    unfolding buffer_step_def
    by (intro conjI exI [of _ "\<lambda>q. g2 (g1 q)"] exI [of _ m2]) simp_all
qed

lemma fifo_write_room:
  assumes q: "num_entries (dque s d) = 0 \<or> fifo_ok (dque s d)" and room: "length (buffer s d) < capacity s d"
  shows "\<exists>s'. dque_fifo_write (Some d) x s = (TERR_NO_ERR, s') \<and> buffer_step d s s' (buffer s d @ [x]) \<and>
    (\<forall>h. dque_fifo_write (Some d) x (s\<lparr>qh := h\<rparr>) = (TERR_NO_ERR, s'\<lparr>qh := h\<rparr>))"
proof -
  have n0: "num_entries (dque s d) \<noteq> 0" using room by (auto simp: capacity_def)
  then have fo: "fifo_ok (dque s d)" using q by simp
  have r: "fifo_len (dque s d) < nat (num_entries (dque s d) - 1)"
    using room n0 by (simp add: buffer_def capacity_def)
  let ?g = "\<lambda>q. q\<lparr>header_cnt := (header_cnt q + 1) mod num_entries q\<rparr>"
  let ?m = "(mem s)(fifo_cell (dque s d) (header_cnt (dque s d)) := x)"
  let ?s' = "(upd_dque d ?g s)\<lparr>mem := ?m\<rparr>"
  have "dque_fifo_write (Some d) x (s\<lparr>qh := h\<rparr>) = (TERR_NO_ERR, ?s'\<lparr>qh := h\<rparr>)" for h
    using r dque_fifo_write_eq [of "s\<lparr>qh := h\<rparr>" d x] fo by (simp add: Let_def)
  moreover have "dque_fifo_write (Some d) x s = (TERR_NO_ERR, ?s')"
    using r dque_fifo_write_eq [OF fo] by (simp add: Let_def)
  moreover have "buffer_step d s ?s' (buffer s d @ [x])"
    unfolding buffer_step_def
    using fifo_list_push [OF fo r] fifo_cell_area [OF fo] n0
    by (intro conjI exI [of _ ?g] exI [of _ ?m]) (auto simp: buffer_def)
  ultimately show ?thesis by blast
qed

lemma fifo_write_full:
  assumes q: "num_entries (dque s d) = 0 \<or> fifo_ok (dque s d)" and full: "length (buffer s d) = capacity s d"
  shows "\<exists>rc. rc \<noteq> TERR_NO_ERR \<and> dque_fifo_write (Some d) x s = (rc, s)"
proof (cases "num_entries (dque s d) = 0")
  case True
  then show ?thesis by (simp add: dque_fifo_write_def Let_def)
next
  case False
  then show ?thesis using q full by (simp add: dque_fifo_write_eq buffer_def capacity_def)
qed

lemma fifo_read_empty:
  assumes q: "num_entries (dque s d) = 0 \<or> fifo_ok (dque s d)" and "buffer s d = []"
  shows "\<exists>rc. rc \<noteq> TERR_NO_ERR \<and> dque_fifo_read (Some d) True s = (rc, None, s)"
proof (cases "num_entries (dque s d) = 0")
  case True
  then show ?thesis by (simp add: dque_fifo_read_def Let_def)
next
  case False
  then have "fifo_len (dque s d) = 0" using assms by (simp add: buffer_def flip: length_fifo_list [of _ "mem s"])
  then show ?thesis using False q by (simp add: dque_fifo_read_eq)
qed

lemma fifo_read_first:
  assumes q: "num_entries (dque s d) = 0 \<or> fifo_ok (dque s d)" and b: "buffer s d = x # xs"
  shows "\<exists>s'. dque_fifo_read (Some d) True s = (TERR_NO_ERR, Some x, s') \<and> buffer_step d s s' xs"
proof -
  have n0: "num_entries (dque s d) \<noteq> 0" and fl: "fifo_list (dque s d) (mem s) = x # xs"
    using b by (auto simp: buffer_def split: if_splits)
  then have fo: "fifo_ok (dque s d)" using q by simp
  have ne: "fifo_len (dque s d) \<noteq> 0" using fl length_fifo_list [of "dque s d" "mem s"] by auto
  let ?g = "\<lambda>q. q\<lparr>tail_cnt := (tail_cnt q + 1) mod num_entries q\<rparr>"
  let ?s' = "(upd_dque d ?g s)\<lparr>mem := mem s\<rparr>"
  have pop: "fifo_ok (?g (dque s d))" "mem s (fifo_cell (dque s d) (tail_cnt (dque s d))) = x"
    "fifo_list (?g (dque s d)) (mem s) = xs"
    using fifo_list_pop(1) [OF fo ne] fifo_list_pop(2) [OF fo ne, of "mem s"] fl by simp_all
  have eq: "?s' = upd_dque d ?g s" by (simp add: upd_dque_def)
  have "dque_fifo_read (Some d) True s = (TERR_NO_ERR, Some x, ?s')"
    unfolding eq using ne dque_fifo_read_eq [OF fo] pop(2) by (simp add: Let_def)
  moreover have "buffer_step d s ?s' xs"
    unfolding buffer_step_def using pop n0
    by (intro conjI exI [of _ ?g] exI [of _ "mem s"]) (auto simp: buffer_def)
  ultimately show ?thesis by blast
qed

lemma sender_words_eq:
  "(\<And>u. TaskQ u \<in> set es \<Longrightarrow> data_elem (tcb s' u) = data_elem (tcb s u)) \<Longrightarrow>
   map (sender_word s') es = map (sender_word s) es"
  by (auto simp: sender_word_def split: qaddr.split)

text \<open>What one call does to one queue leaves the other queues alone.\<close>

lemma dque_ok_step:
  assumes dq: "dque_ok s L" and d: "id_dque (dque s d) = TN_ID_DATAQUEUE"
    and st: "buffer_step d s s1 b" and s': "dque s' = dque s1" "mem s' = mem s1"
    and lists: "\<And>d'. d' \<noteq> d \<Longrightarrow> L' (DqueSendQ d') = L (DqueSendQ d') \<and> L' (DqueRecvQ d') = L (DqueRecvQ d')"
    and data: "\<And>d' u. d' \<noteq> d \<Longrightarrow> TaskQ u \<in> set (L (DqueSendQ d')) \<Longrightarrow>
       id_dque (dque s d') = TN_ID_DATAQUEUE \<Longrightarrow> data_elem (tcb s' u) = data_elem (tcb s u)"
    and own: "L' (DqueRecvQ d) \<noteq> [] \<longrightarrow> in_flight s' L' d = []"
      "L' (DqueSendQ d) \<noteq> [] \<longrightarrow> length (buffer s' d) = capacity s' d"
  shows "dque_ok s' L'"
proof -
  note p = buffer_step_props [OF st]
  have "dq_ok s' L' e" if e: "id_dque (dque s' e) = TN_ID_DATAQUEUE" for e
  proof (cases "e = d")
    case True
    have "num_entries (dque s' d) = 0 \<or> fifo_ok (dque s' d)" using p(11,15) s'(1) by simp
    then show ?thesis using own True by (simp add: dq_ok_def)
  next
    case False
    have l: "id_dque (dque s e) = TN_ID_DATAQUEUE" using e s'(1) p(8) by simp
    then have ok: "dq_ok s L e" and dis: "fifo_area (dque s e) \<inter> fifo_area (dque s d) = {}"
      using dq d False by (auto simp: dque_ok_def)
    have q: "dque s' e = dque s e" using s'(1) p(13) False by simp
    have "fifo_list (dque s e) (mem s') = fifo_list (dque s e) (mem s)" if "fifo_ok (dque s e)"
      using that dis p(14) s'(2) by (intro fifo_list_cong) auto
    then have b: "buffer s' e = buffer s e" using ok q by (auto simp: buffer_def dq_ok_def)
    moreover have "map (sender_word s') (L (DqueSendQ e)) = map (sender_word s) (L (DqueSendQ e))"
      using data [OF False _ l] by (auto simp: sender_word_def split: qaddr.split)
    ultimately have "in_flight s' L' e = in_flight s L e" "capacity s' e = capacity s e"
      using lists [OF False] q by (simp_all add: in_flight_def capacity_def)
    then show ?thesis using ok q b lists [OF False] by (simp add: dq_ok_def)
  qed
  moreover have "fifo_area (dque s' e) = fifo_area (dque s e)" "id_dque (dque s' e) = id_dque (dque s e)" for e
    using p(12,8) s'(1) by simp_all
  ultimately show ?thesis using dq by (simp add: dque_ok_def)
qed

section \<open>Sending\<close>

lemma kernel_live_dque: "kernel_ok s L \<Longrightarrow> id_dque (dque s d) = TN_ID_DATAQUEUE \<Longrightarrow>
    (is_queue_empty (DqueRecvQ d) (qh s) \<longleftrightarrow> L (DqueRecvQ d) = []) \<and>
    (is_queue_empty (DqueSendQ d) (qh s) \<longleftrightarrow> L (DqueSendQ d) = [])"
  by (simp add: kernel_empty)

lemma buffer_same: "dque s' = dque s \<Longrightarrow> mem s' = mem s \<Longrightarrow> buffer s' d = buffer s d \<and> capacity s' d = capacity s d"
  by (simp add: buffer_def capacity_def)

text \<open>The situation at the start of a call from a task to a data queue, and what follows from it.\<close>

definition dq_call :: "kernel \<Rightarrow> (qaddr \<Rightarrow> qaddr list) \<Rightarrow> oid \<Rightarrow> tid \<Rightarrow> bool" where
  "dq_call s L d t \<longleftrightarrow>
     kernel_ok s L \<and> dque_ok s L \<and> id_dque (dque s d) = TN_ID_DATAQUEUE \<and> \<not> check_non_int_context s \<and>
     curr_ok s \<and> other_ready s \<and> tn_curr_run_task s = Some t"

lemma dq_callD:
  assumes "dq_call s L d t"
  defines "s0 \<equiv> s\<lparr>cpsr := cpsr s OR 0xC0\<rparr>"
  shows "kernel_ok s L" "dque_ok s L" "id_dque (dque s d) = TN_ID_DATAQUEUE" "\<not> check_non_int_context s"
    "tn_curr_run_task s = Some t" "task_state (tcb s t) = TSK_STATE_RUNNABLE" "dq_ok s L d"
    "num_entries (dque s d) = 0 \<or> fifo_ok (dque s d)"
    "kernel_ok s0 L" "dque_ok s0 L" "id_dque (dque s0 d) = TN_ID_DATAQUEUE" "cpsr s0 = cpsr s OR 0xC0"
    "curr_ok s0" "other_ready s0" "tn_curr_run_task s0 = Some t"
    "num_entries (dque s0 d) = 0 \<or> fifo_ok (dque s0 d)"
    "buffer_step d s0 s0 (buffer s d)" "buffer_step d s s (buffer s d)"
proof -
  have *: "kernel_ok s L" "dque_ok s L" "id_dque (dque s d) = TN_ID_DATAQUEUE" "\<not> check_non_int_context s"
    "tn_curr_run_task s = Some t" "curr_ok s" "other_ready s"
    using assms by (simp_all add: dq_call_def)
  then show "kernel_ok s L" "dque_ok s L" "id_dque (dque s d) = TN_ID_DATAQUEUE" "\<not> check_non_int_context s"
    "tn_curr_run_task s = Some t" "kernel_ok s0 L" "dque_ok s0 L" "id_dque (dque s0 d) = TN_ID_DATAQUEUE"
    "cpsr s0 = cpsr s OR 0xC0" "curr_ok s0" "other_ready s0" "tn_curr_run_task s0 = Some t"
    by (simp_all add: s0_def)
  show "task_state (tcb s t) = TSK_STATE_RUNNABLE" using * by (simp add: curr_ok_def)
  show own: "dq_ok s L d" using * by (simp add: dque_ok_def)
  then show q: "num_entries (dque s d) = 0 \<or> fifo_ok (dque s d)" by (simp add: dq_ok_def)
  then show q0: "num_entries (dque s0 d) = 0 \<or> fifo_ok (dque s0 d)" by (simp add: s0_def)
  show "buffer_step d s s (buffer s d)" by (rule buffer_step_refl [OF q])
  show "buffer_step d s0 s0 (buffer s d)" using buffer_step_refl [OF q0] by (simp add: s0_def)
qed

text \<open>Tasks that do not wait to send: the running one, and those that wait to receive.\<close>

lemma dq_call_not_sender:
  assumes p: "dq_call s L d t" and e: "id_dque (dque s e) = TN_ID_DATAQUEUE"
  shows "TaskQ t \<notin> set (L (DqueSendQ e))"
    and "TaskQ u \<in> set (L (DqueRecvQ d)) \<Longrightarrow> TaskQ u \<notin> set (L (DqueSendQ e))"
proof -
  note P = dq_callD [OF p]
  show "TaskQ t \<notin> set (L (DqueSendQ e))" by (rule ready_not_waiting [OF P(1,6)]) (simp_all add: e)
  show "TaskQ u \<in> set (L (DqueRecvQ d)) \<Longrightarrow> TaskQ u \<notin> set (L (DqueSendQ e))"
    using kernel_entry_unique [OF P(1), of "DqueRecvQ d" "DqueSendQ e" "TaskQ u"] e P(3) by auto
qed

lemma data_same:
  assumes p: "dq_call s L d t" and f: "\<And>v. TaskQ v \<notin> W \<Longrightarrow> data_elem (tcb s' v) = data_elem (tcb s v)"
    and W: "\<And>v e. TaskQ v \<in> W \<Longrightarrow> id_dque (dque s e) = TN_ID_DATAQUEUE \<Longrightarrow> TaskQ v \<notin> set (L (DqueSendQ e))"
    and v: "TaskQ v \<in> set (L (DqueSendQ e))" "id_dque (dque s e) = TN_ID_DATAQUEUE"
  shows "data_elem (tcb s' v) = data_elem (tcb s v)"
  using f W v by blast

lemma send_to_receiver:
  assumes p: "dq_call s L d t" and tmo: "tmo \<noteq> 0" and R: "L (DqueRecvQ d) = e # es"
  shows "\<exists>r s' L'. tn_queue_send (Some d) x tmo s = Some (r, s') \<and> kernel_ok s' L' \<and> dque_ok s' L' \<and>
    in_flight s' L' d = in_flight s L d \<and> L' (DqueRecvQ d) = es \<and>
    (\<exists>u. e = TaskQ u \<and> tcb s' u = complete_tcb ((tcb s u)\<lparr>data_elem := x\<rparr>) \<and>
         r = (if task_state (tcb s u) = TSK_STATE_WAIT then Switch RetNoErr else ret TERR_NO_ERR))"
proof -
  let ?s = "s\<lparr>cpsr := cpsr s OR 0xC0\<rparr>"
  let ?f = "\<lambda>y. y\<lparr>data_elem := x\<rparr>"
  note P = dq_callD [OF p]
  note enter = tn_queue_send_def P(3,4) tmo save_sr_eq kernel_live_dque [OF P(1,3)]
  have sf: "same_sched_fields (?f (tcb ?s u)) (tcb ?s u)" for u by (simp add: same_sched_fields_def)
  obtain u h1 s2 s' L' where w: "e = TaskQ u" "dequeue_task (DqueRecvQ d) ?s = Some (Some u, ?s\<lparr>qh := h1\<rparr>)"
    "task_wait_complete (Some u) (upd_tcb u ?f (?s\<lparr>qh := h1\<rparr>)) = Some (task_state (tcb ?s u) = TSK_STATE_WAIT, s2)"
    "(if task_state (tcb ?s u) = TSK_STATE_WAIT then leave_switch (cpsr s) RetNoErr s2 else leave (cpsr s) TERR_NO_ERR s2) =
      Some (if task_state (tcb ?s u) = TSK_STATE_WAIT then Switch RetNoErr else ret TERR_NO_ERR, s')"
    "kernel_ok s' L'" "tcb s' = (tcb ?s)(u := complete_tcb (?f (tcb ?s u)))" "same_objects ?s s'"
    "\<forall>q. wait_head q \<longrightarrow> L' q = (if q = DqueRecvQ d then es else L q)"
    using dr.wake_leave [where f = ?f, OF P(9,11) R P(12) sf] by blast
  have mm: "dque s' = dque s" "mem s' = mem s" using w(7) by (simp_all add: same_objects_def)
  have dat: "data_elem (tcb s' v) = data_elem (tcb s v)"
    if "TaskQ v \<in> set (L (DqueSendQ e'))" "id_dque (dque s e') = TN_ID_DATAQUEUE" for e' v
    using dq_call_not_sender(2) [OF p that(2), of u] that w(1,6) R by (cases "v = u") auto
  have "map (sender_word s') (L (DqueSendQ d)) = map (sender_word s) (L (DqueSendQ d))"
    by (rule sender_words_eq) (rule dat [OF _ P(3)])
  then have fl: "in_flight s' L' d = in_flight s L d"
    using w(8) buffer_same [OF mm, of d] by (simp add: in_flight_def)
  have "dque_ok s' L'"
    by (rule dque_ok_step [OF P(2,3,18) mm])
      (use w(8) fl P(7) R dat buffer_same [OF mm, of d] in \<open>auto simp: dq_ok_def\<close>)
  moreover have "tn_queue_send (Some d) x tmo s =
      Some (if task_state (tcb ?s u) = TSK_STATE_WAIT then Switch RetNoErr else ret TERR_NO_ERR, s')"
    using w(2-4) R by (simp add: enter)
  ultimately show ?thesis using w(1,5,6,8) fl
    by (intro exI [of _ "if task_state (tcb ?s u) = TSK_STATE_WAIT then Switch RetNoErr else ret TERR_NO_ERR"]
        exI [of _ s'] exI [of _ L']) simp
qed

lemma send_to_buffer:
  assumes p: "dq_call s L d t" and tmo: "tmo \<noteq> 0" and R: "L (DqueRecvQ d) = []"
    and room: "length (buffer s d) < capacity s d"
  shows "\<exists>s'. tn_queue_send (Some d) x tmo s = Some (ret TERR_NO_ERR, s') \<and> kernel_ok s' L \<and> dque_ok s' L \<and>
    in_flight s' L d = in_flight s L d @ [x] \<and> cpsr s' = cpsr s \<and> tcb s' = tcb s"
proof -
  let ?s = "s\<lparr>cpsr := cpsr s OR 0xC0\<rparr>"
  note P = dq_callD [OF p]
  have ns: "L (DqueSendQ d) = []" using P(7) room by (auto simp: dq_ok_def)
  obtain s1 where s1: "dque_fifo_write (Some d) x ?s = (TERR_NO_ERR, s1)" "buffer_step d ?s s1 (buffer s d @ [x])"
    using fifo_write_room [OF P(16)] room by auto
  note q = buffer_step_props [OF s1(2)]
  let ?s' = "s1\<lparr>cpsr := cpsr s\<rparr>"
  have "tn_queue_send (Some d) x tmo s = Some (ret TERR_NO_ERR, ?s')"
    using R s1(1) q(3) by (simp add: tn_queue_send_def P(3,4) tmo save_sr_eq kernel_live_dque [OF P(1,3)] leave_eq)
  moreover have "in_flight ?s' L d = in_flight s L d @ [x]" using q(9) ns by (simp add: in_flight_def)
  moreover have "dque_ok ?s' L"
    by (rule dque_ok_step [OF P(10,11) s1(2), of ?s']) (use ns q(1) R in auto)
  ultimately show ?thesis using P(1) q(1,5) by (intro exI [of _ ?s']) simp
qed

lemma send_waits:
  assumes p: "dq_call s L d t" and tmo: "tmo \<noteq> 0" and R: "L (DqueRecvQ d) = []"
    and full: "\<not> length (buffer s d) < capacity s d"
  shows "\<exists>s' L'. tn_queue_send (Some d) x tmo s = Some (Switch RetWaitRc, s') \<and> kernel_ok s' L' \<and> dque_ok s' L' \<and>
    in_flight s' L' d = in_flight s L d @ [x] \<and> L' (DqueRecvQ d) = [] \<and> curr_ok s' \<and> tn_curr_run_task s' \<noteq> Some t \<and>
    L' (DqueSendQ d) = L (DqueSendQ d) @ [TaskQ t] \<and>
    tcb s' t = wait_tcb (Some (DqueSendQ d)) TSK_WAIT_REASON_DQUE_WSEND tmo ((tcb s t)\<lparr>data_elem := x\<rparr>)"
proof -
  let ?s = "s\<lparr>cpsr := cpsr s OR 0xC0\<rparr>"
  let ?f = "\<lambda>y. y\<lparr>data_elem := x\<rparr>"
  note P = dq_callD [OF p]
  have full': "length (buffer s d) = capacity s d"
    using full P(8) fifo_len_bound [of "dque s d"]
    by (cases "num_entries (dque s d) = 0") (auto simp: buffer_def capacity_def)
  obtain rc where rc: "rc \<noteq> TERR_NO_ERR" "dque_fifo_write (Some d) x ?s = (rc, ?s)"
    using fifo_write_full [OF P(16)] full' by auto
  let ?u = "upd_tcb t ?f ?s"
  have sf: "same_sched_fields (?f (tcb ?s t)) (tcb ?s t)" by (simp add: same_sched_fields_def)
  have pre: "kernel_ok ?u L" "curr_ok ?u" "other_ready ?u" "id_dque (dque ?u d) = TN_ID_DATAQUEUE"
    "cpsr ?u = cpsr s OR 0xC0" "tn_curr_run_task ?u = Some t"
    using P(11,13-15) kernel_upd_tcb [where f = ?f and t = t, OF P(9) sf] upd_tcb_ready [where f = ?f and t = t, OF sf]
    by simp_all
  obtain s1 s' L' where w: "task_curr_to_wait_action (Some (DqueSendQ d)) TSK_WAIT_REASON_DQUE_WSEND tmo ?u = Some s1"
    "leave_switch (cpsr s) RetWaitRc s1 = Some (Switch RetWaitRc, s')" "kernel_ok s' L'" "curr_ok s'"
    "tcb s' = (tcb ?u)(t := wait_tcb (Some (DqueSendQ d)) TSK_WAIT_REASON_DQUE_WSEND tmo (tcb ?u t))"
    "same_objects ?u s'" "tn_curr_run_task s' \<noteq> Some t"
    "\<forall>q. wait_head q \<longrightarrow> L' q = (if q = DqueSendQ d then L q @ [TaskQ t] else L q)"
    using ds.wait_switch [OF pre, of tmo RetWaitRc] by blast
  have mm: "dque s' = dque s" "mem s' = mem s" using w(6) by (simp_all add: same_objects_def)
  have tt: "tcb s' t = wait_tcb (Some (DqueSendQ d)) TSK_WAIT_REASON_DQUE_WSEND tmo (?f (tcb s t))" using w(5) by simp
  have dat: "data_elem (tcb s' v) = data_elem (tcb s v)"
    if "TaskQ v \<in> set (L (DqueSendQ e'))" "id_dque (dque s e') = TN_ID_DATAQUEUE" for e' v
    using that dq_call_not_sender(1) [OF p that(2)] w(5) by (cases "v = t") auto
  have "map (sender_word s') (L (DqueSendQ d)) = map (sender_word s) (L (DqueSendQ d))"
    by (rule sender_words_eq) (rule dat [OF _ P(3)])
  then have fl: "in_flight s' L' d = in_flight s L d @ [x]"
    using w(8) buffer_same [OF mm, of d] tt by (simp add: in_flight_def sender_word_def wait_tcb_def)
  have "dque_ok s' L'"
    by (rule dque_ok_step [OF P(2,3,18) mm]) (use w(8) full' R dat buffer_same [OF mm, of d] in auto)
  moreover have "tn_queue_send (Some d) x tmo s = Some (Switch RetWaitRc, s')"
    using w(1,2) rc R P(5) by (simp add: tn_queue_send_def P(3,4) tmo save_sr_eq kernel_live_dque [OF P(1,3)])
  ultimately show ?thesis using w(3,4,7,8) fl tt R by (intro exI [of _ s'] exI [of _ L']) simp
qed

text \<open>C13. \<open>tn_queue_send\<close> gives the word to the first task that waits for one, or else puts it at the end of
  what is in flight: in the buffer if there is room, and otherwise in the control block of the running
  task, which then waits at the end of the queue of senders.\<close>

theorem queue_send_fifo:
  assumes ok: "kernel_ok s L" and dq: "dque_ok s L" and id: "id_dque (dque s d) = TN_ID_DATAQUEUE"
    and ctx: "\<not> check_non_int_context s" and c: "curr_ok s" and o: "other_ready s"
    and t: "tn_curr_run_task s = Some t" and tmo: "tmo \<noteq> 0"
  shows "\<exists>r s' L'. tn_queue_send (Some d) x tmo s = Some (r, s') \<and> kernel_ok s' L' \<and> dque_ok s' L' \<and>
    (case L (DqueRecvQ d) of
       e # es \<Rightarrow> in_flight s' L' d = in_flight s L d \<and> L' (DqueRecvQ d) = es \<and>
         (\<exists>u. e = TaskQ u \<and> tcb s' u = complete_tcb ((tcb s u)\<lparr>data_elem := x\<rparr>) \<and>
              r = (if task_state (tcb s u) = TSK_STATE_WAIT then Switch RetNoErr else ret TERR_NO_ERR))
     | [] \<Rightarrow> in_flight s' L' d = in_flight s L d @ [x] \<and> L' (DqueRecvQ d) = [] \<and>
         (if length (in_flight s L d) < capacity s d
          then r = ret TERR_NO_ERR \<and> cpsr s' = cpsr s \<and> tcb s' = tcb s \<and> L' (DqueSendQ d) = L (DqueSendQ d)
          else r = Switch RetWaitRc \<and> curr_ok s' \<and> tn_curr_run_task s' \<noteq> Some t \<and>
               L' (DqueSendQ d) = L (DqueSendQ d) @ [TaskQ t] \<and>
               tcb s' t = wait_tcb (Some (DqueSendQ d)) TSK_WAIT_REASON_DQUE_WSEND tmo ((tcb s t)\<lparr>data_elem := x\<rparr>)))"
proof -
  have p: "dq_call s L d t" using ok dq id ctx c o t by (simp add: dq_call_def)
  have room: "length (in_flight s L d) < capacity s d \<longleftrightarrow> length (buffer s d) < capacity s d"
    using dq_callD(7) [OF p] by (cases "L (DqueSendQ d)") (auto simp: dq_ok_def in_flight_def)
  show ?thesis
  proof (cases "L (DqueRecvQ d)")
    case (Cons e es)
    from send_to_receiver [OF p tmo Cons, of x] show ?thesis unfolding Cons list.case by blast
  next
    case Nil
    show ?thesis
    proof (cases "length (buffer s d) < capacity s d")
      case True
      show ?thesis unfolding Nil list.case room if_P [OF True]
        using send_to_buffer [OF p tmo Nil True, of x] Nil by blast
    next
      case False
      show ?thesis unfolding Nil list.case room if_not_P [OF False]
        using send_waits [OF p tmo Nil False, of x] by blast
    qed
  qed
qed

section \<open>Receiving\<close>

lemma receive_from_buffer:
  assumes p: "dq_call s L d t" and tmo: "tmo \<noteq> 0" and buf: "buffer s d = x # xs" and S: "L (DqueSendQ d) = []"
  shows "\<exists>s'. tn_queue_receive (Some d) True tmo s = Some (Done TERR_NO_ERR (Some x), s') \<and> kernel_ok s' L \<and>
    dque_ok s' L \<and> in_flight s' L d = xs \<and> tcb s' = tcb s \<and> cpsr s' = cpsr s"
proof -
  let ?s = "s\<lparr>cpsr := cpsr s OR 0xC0\<rparr>"
  note P = dq_callD [OF p]
  have rv: "L (DqueRecvQ d) = []" using P(7) buf by (auto simp: dq_ok_def in_flight_def)
  obtain s1 where s1: "dque_fifo_read (Some d) True ?s = (TERR_NO_ERR, Some x, s1)" "buffer_step d ?s s1 xs"
    using fifo_read_first [OF P(16), of x xs] buf by auto
  note q = buffer_step_props [OF s1(2)]
  let ?s' = "s1\<lparr>cpsr := cpsr s\<rparr>"
  have "tn_queue_receive (Some d) True tmo s = Some (Done TERR_NO_ERR (Some x), ?s')"
    using S s1(1) q(2,3) restore_sr_eq [of s1 "cpsr s"]
    by (simp add: tn_queue_receive_def P(3,4) tmo save_sr_eq kernel_live_dque [OF P(1,3)])
  moreover have "in_flight ?s' L d = xs" using q(9) S by (simp add: in_flight_def)
  moreover have "dque_ok ?s' L"
    by (rule dque_ok_step [OF P(10,11) s1(2), of ?s']) (use S rv q(1) in simp_all)
  ultimately show ?thesis using P(1) q(1,5) by (intro exI [of _ ?s']) simp
qed

text \<open>The word of a sender moves into the room that the read made.\<close>

lemma receive_refill:
  assumes p: "dq_call s L d t" and tmo: "tmo \<noteq> 0" and buf: "buffer s d = x # xs" and S: "L (DqueSendQ d) = TaskQ u # es"
  shows "\<exists>s' L'. tn_queue_receive (Some d) True tmo s =
      Some (if task_state (tcb s u) = TSK_STATE_WAIT then Switch (RetNoErrOut x) else Done TERR_NO_ERR (Some x), s') \<and>
    kernel_ok s' L' \<and> dque_ok s' L' \<and> in_flight s' L' d = xs @ map (sender_word s) (TaskQ u # es) \<and>
    L' (DqueRecvQ d) = [] \<and> L' (DqueSendQ d) = es \<and> tcb s' = (tcb s)(u := complete_tcb (tcb s u)) \<and>
    (if task_state (tcb s u) = TSK_STATE_WAIT then curr_ok s' else cpsr s' = cpsr s)"
proof -
  let ?s = "s\<lparr>cpsr := cpsr s OR 0xC0\<rparr>"
  let ?w = "data_elem (tcb s u)" and ?out = "Done TERR_NO_ERR (Some x)"
  note P = dq_callD [OF p]
  have rv: "L (DqueRecvQ d) = []" using P(7) buf by (auto simp: dq_ok_def in_flight_def)
  have full: "length (buffer s d) = capacity s d" using P(7) S by (simp add: dq_ok_def)
  obtain s1 where s1: "dque_fifo_read (Some d) True ?s = (TERR_NO_ERR, Some x, s1)" "buffer_step d ?s s1 xs"
    using fifo_read_first [OF P(16), of x xs] buf by auto
  note p1 = buffer_step_props [OF s1(2)]
  have q1: "num_entries (dque s1 d) = 0 \<or> fifo_ok (dque s1 d)" using p1(11,15) by simp
  have "length (buffer s1 d) < capacity s1 d" using p1(9,10) full buf by simp
  then obtain s2 where s2: "buffer_step d s1 s2 (xs @ [?w])"
    "\<And>h. dque_fifo_write (Some d) ?w (s1\<lparr>qh := h\<rparr>) = (TERR_NO_ERR, s2\<lparr>qh := h\<rparr>)"
    using fifo_write_room [OF q1, of ?w] p1(9) by auto
  note p2 = buffer_step_props [OF s2(1)]
  have pre: "kernel_ok s2 L" "id_dque (dque s2 d) = TN_ID_DATAQUEUE" "cpsr s2 = cpsr s OR 0xC0"
    using P(1,3) p1(3,5,8) p2(3,5,8) by simp_all
  have tc: "tcb s2 = tcb s" "tcb s1 = tcb s" "qh s1 = qh s" "qh s2 = qh s1" using p1(1,2) p2(1,2) by simp_all
  obtain h1 s3 s' L' where w: "dequeue_task (DqueSendQ d) s2 = Some (Some u, s2\<lparr>qh := h1\<rparr>)"
    "task_wait_complete (Some u) (s2\<lparr>qh := h1\<rparr>) = Some (task_state (tcb s u) = TSK_STATE_WAIT, s3)"
    "(if task_state (tcb s u) = TSK_STATE_WAIT then leave_switch (cpsr s) (RetNoErrOut x) s3
      else Some (?out, tn_cpu_restore_sr (cpsr s) s3)) =
      Some (if task_state (tcb s u) = TSK_STATE_WAIT then Switch (RetNoErrOut x) else ?out, s')"
    "kernel_ok s' L'" "tcb s' = (tcb s)(u := complete_tcb (tcb s u))" "same_objects s2 s'"
    "if task_state (tcb s u) = TSK_STATE_WAIT then curr_ok s' else cpsr s' = cpsr s \<and> tn_curr_run_task s' = tn_curr_run_task s2"
    "\<forall>q. wait_head q \<longrightarrow> L' q = (if q = DqueSendQ d then es else L q)"
    using ds.wake_finish [where f = "\<lambda>y. y" and out = ?out, OF pre(1,2) S pre(3) same_fields_id, unfolded upd_tcb_id tc(1)]
    by blast
  have mm: "dque s' = dque s2" "mem s' = mem s2" using w(6) by (simp_all add: same_objects_def)
  have d1: "dequeue_task (DqueSendQ d) s1 = Some (Some u, s1\<lparr>qh := h1\<rparr>)" by (rule dequeue_qh [OF w(1)]) (simp add: tc)
  have ne1: "\<not> is_queue_empty (DqueSendQ d) (qh s1)" using kernel_live_dque [OF P(1,3)] S tc(3) by simp
  have run: "tn_queue_receive (Some d) True tmo s =
      Some (if task_state (tcb s u) = TSK_STATE_WAIT then Switch (RetNoErrOut x) else ?out, s')"
    using s1(1) d1 s2(2) w(2,3) tc ne1 by (simp add: tn_queue_receive_def P(3,4) tmo save_sr_eq)
  have dat: "data_elem (tcb s' v) = data_elem (tcb s v)" for v using w(5) by (simp add: complete_tcb_def)
  have fl: "in_flight s' L' d = xs @ map (sender_word s) (TaskQ u # es)"
    using w(8) buffer_same [OF mm, of d] p2(9) sender_words_eq [of es s' s] dat by (simp add: in_flight_def sender_word_def)
  have "dque_ok s' L'"
    by (rule dque_ok_step [OF P(10,11) buffer_step_trans [OF s1(2) s2(1)] mm])
      (use w(8) rv dat buffer_same [OF mm, of d] p2(9,10) p1(10) full buf in auto)
  then show ?thesis using run w(4,5,7,8) fl rv by (intro exI [of _ s'] exI [of _ L']) simp
qed

lemma receive_from_sender:
  assumes p: "dq_call s L d t" and tmo: "tmo \<noteq> 0" and buf: "buffer s d = []" and S: "L (DqueSendQ d) = TaskQ u # es"
  defines "x \<equiv> data_elem (tcb s u)"
  shows "\<exists>s' L'. tn_queue_receive (Some d) True tmo s =
      Some (if task_state (tcb s u) = TSK_STATE_WAIT then Switch (RetNoErrOut x) else Done TERR_NO_ERR (Some x), s') \<and>
    kernel_ok s' L' \<and> dque_ok s' L' \<and> in_flight s' L' d = map (sender_word s) es \<and>
    L' (DqueRecvQ d) = [] \<and> L' (DqueSendQ d) = es \<and> tcb s' = (tcb s)(u := complete_tcb (tcb s u)) \<and>
    (if task_state (tcb s u) = TSK_STATE_WAIT then curr_ok s' else cpsr s' = cpsr s)"
proof -
  let ?s = "s\<lparr>cpsr := cpsr s OR 0xC0\<rparr>"
  let ?out = "Done TERR_NO_ERR (Some x)"
  note P = dq_callD [OF p]
  have rv: "L (DqueRecvQ d) = []" using P(7) S by (auto simp: dq_ok_def in_flight_def)
  have full: "length (buffer s d) = capacity s d" using P(7) S by (simp add: dq_ok_def)
  obtain rc where rc: "rc \<noteq> TERR_NO_ERR" "dque_fifo_read (Some d) True ?s = (rc, None, ?s)"
    using fifo_read_empty [OF P(16)] buf by auto
  have tc: "tcb ?s = tcb s" by simp
  obtain h1 s3 s' L' where w: "dequeue_task (DqueSendQ d) ?s = Some (Some u, ?s\<lparr>qh := h1\<rparr>)"
    "task_wait_complete (Some u) (?s\<lparr>qh := h1\<rparr>) = Some (task_state (tcb s u) = TSK_STATE_WAIT, s3)"
    "(if task_state (tcb s u) = TSK_STATE_WAIT then leave_switch (cpsr s) (RetNoErrOut x) s3
      else Some (?out, tn_cpu_restore_sr (cpsr s) s3)) =
      Some (if task_state (tcb s u) = TSK_STATE_WAIT then Switch (RetNoErrOut x) else ?out, s')"
    "kernel_ok s' L'" "tcb s' = (tcb s)(u := complete_tcb (tcb s u))" "same_objects ?s s'"
    "if task_state (tcb s u) = TSK_STATE_WAIT then curr_ok s' else cpsr s' = cpsr s \<and> tn_curr_run_task s' = tn_curr_run_task ?s"
    "\<forall>q. wait_head q \<longrightarrow> L' q = (if q = DqueSendQ d then es else L q)"
    using ds.wake_finish [where f = "\<lambda>y. y" and out = ?out, OF P(9,11) S P(12) same_fields_id, unfolded upd_tcb_id tc]
    by blast
  have mm: "dque s' = dque ?s" "mem s' = mem ?s" using w(6) by (simp_all add: same_objects_def)
  have run: "tn_queue_receive (Some d) True tmo s =
      Some (if task_state (tcb s u) = TSK_STATE_WAIT then Switch (RetNoErrOut x) else ?out, s')"
    using rc S w(1,2) w(3) [unfolded x_def]
    by (simp add: tn_queue_receive_def P(3,4) tmo save_sr_eq kernel_live_dque [OF P(1,3)] x_def)
  have dat: "data_elem (tcb s' v) = data_elem (tcb s v)" for v using w(5) by (simp add: complete_tcb_def)
  have fl: "in_flight s' L' d = map (sender_word s) es"
    using w(8) buffer_same [OF mm, of d] buf sender_words_eq [of es s' s] dat by (simp add: in_flight_def)
  have "dque_ok s' L'"
    by (rule dque_ok_step [OF P(10,11,17) mm]) (use w(8) rv dat buffer_same [OF mm, of d] full in auto)
  then show ?thesis using run w(4,5,7,8) fl rv by (intro exI [of _ s'] exI [of _ L']) simp
qed

lemma receive_waits:
  assumes p: "dq_call s L d t" and tmo: "tmo \<noteq> 0" and buf: "buffer s d = []" and S: "L (DqueSendQ d) = []"
  shows "\<exists>s' L'. tn_queue_receive (Some d) True tmo s = Some (Switch RetDataElem, s') \<and> kernel_ok s' L' \<and>
    dque_ok s' L' \<and> curr_ok s' \<and> tn_curr_run_task s' \<noteq> Some t \<and> in_flight s' L' d = [] \<and>
    L' (DqueRecvQ d) = L (DqueRecvQ d) @ [TaskQ t] \<and>
    tcb s' t = wait_tcb (Some (DqueRecvQ d)) TSK_WAIT_REASON_DQUE_WRECEIVE tmo (tcb s t)"
proof -
  let ?s = "s\<lparr>cpsr := cpsr s OR 0xC0\<rparr>"
  note P = dq_callD [OF p]
  obtain rc where rc: "rc \<noteq> TERR_NO_ERR" "dque_fifo_read (Some d) True ?s = (rc, None, ?s)"
    using fifo_read_empty [OF P(16)] buf by auto
  obtain s1 s' L' where w: "task_curr_to_wait_action (Some (DqueRecvQ d)) TSK_WAIT_REASON_DQUE_WRECEIVE tmo ?s = Some s1"
    "leave_switch (cpsr s) RetDataElem s1 = Some (Switch RetDataElem, s')" "kernel_ok s' L'" "curr_ok s'"
    "tcb s' = (tcb ?s)(t := wait_tcb (Some (DqueRecvQ d)) TSK_WAIT_REASON_DQUE_WRECEIVE tmo (tcb ?s t))"
    "same_objects ?s s'" "tn_curr_run_task s' \<noteq> Some t"
    "\<forall>q. wait_head q \<longrightarrow> L' q = (if q = DqueRecvQ d then L q @ [TaskQ t] else L q)"
    using dr.wait_switch [OF P(9,13,14,11,12,15), of tmo RetDataElem] by blast
  have mm: "dque s' = dque ?s" "mem s' = mem ?s" using w(6) by (simp_all add: same_objects_def)
  have dat: "data_elem (tcb s' v) = data_elem (tcb s v)" for v using w(5) by (simp add: wait_tcb_def)
  have fl: "in_flight s' L' d = []" using w(8) buffer_same [OF mm, of d] buf S by (simp add: in_flight_def)
  have "dque_ok s' L'"
    by (rule dque_ok_step [OF P(10,11,17) mm]) (use w(8) dat fl S in auto)
  moreover have "tn_queue_receive (Some d) True tmo s = Some (Switch RetDataElem, s')"
    using rc S w(1,2) by (simp add: tn_queue_receive_def P(3,4) tmo save_sr_eq kernel_live_dque [OF P(1,3)])
  ultimately show ?thesis using w(3,4,5,7,8) fl by (intro exI [of _ s'] exI [of _ L']) simp
qed

text \<open>C7. \<open>tn_queue_receive\<close> takes the first word in flight, whether it comes from the buffer or from
  a sender that waits. The first waiting sender is released: its word moves into the buffer, or to
  the receiver. If nothing is in flight the running task waits at the end of the queue of receivers.\<close>

theorem queue_receive_fifo:
  assumes ok: "kernel_ok s L" and dq: "dque_ok s L" and id: "id_dque (dque s d) = TN_ID_DATAQUEUE"
    and ctx: "\<not> check_non_int_context s" and c: "curr_ok s" and o: "other_ready s"
    and t: "tn_curr_run_task s = Some t" and tmo: "tmo \<noteq> 0"
  shows "\<exists>r s' L'. tn_queue_receive (Some d) True tmo s = Some (r, s') \<and> kernel_ok s' L' \<and> dque_ok s' L' \<and>
    (case in_flight s L d of
       x # xs \<Rightarrow> in_flight s' L' d = xs \<and> L' (DqueRecvQ d) = [] \<and> L' (DqueSendQ d) = tl (L (DqueSendQ d)) \<and>
         (case L (DqueSendQ d) of
            [] \<Rightarrow> r = Done TERR_NO_ERR (Some x) \<and> tcb s' = tcb s \<and> cpsr s' = cpsr s
          | e # es \<Rightarrow> \<exists>u. e = TaskQ u \<and> tcb s' = (tcb s)(u := complete_tcb (tcb s u)) \<and>
              (if task_state (tcb s u) = TSK_STATE_WAIT then r = Switch (RetNoErrOut x) \<and> curr_ok s'
               else r = Done TERR_NO_ERR (Some x) \<and> cpsr s' = cpsr s))
     | [] \<Rightarrow> r = Switch RetDataElem \<and> curr_ok s' \<and> tn_curr_run_task s' \<noteq> Some t \<and>
         in_flight s' L' d = [] \<and> L' (DqueRecvQ d) = L (DqueRecvQ d) @ [TaskQ t] \<and>
         tcb s' t = wait_tcb (Some (DqueRecvQ d)) TSK_WAIT_REASON_DQUE_WRECEIVE tmo (tcb s t))"
proof -
  have p: "dq_call s L d t" using ok dq id ctx c o t by (simp add: dq_call_def)
  note P = dq_callD [OF p]
  have rv: "L (DqueRecvQ d) = []" if "in_flight s L d \<noteq> []" using P(7) that by (auto simp: dq_ok_def)
  show ?thesis
  proof (cases "L (DqueSendQ d)")
    case S: Nil
    show ?thesis
    proof (cases "buffer s d")
      case Nil
      have fl: "in_flight s L d = []" using Nil S by (simp add: in_flight_def)
      from receive_waits [OF p tmo Nil S] show ?thesis unfolding fl list.case by blast
    next
      case (Cons x xs)
      have fl: "in_flight s L d = x # xs" using Cons S by (simp add: in_flight_def)
      with rv have r: "L (DqueRecvQ d) = []" by simp
      show ?thesis unfolding fl S list.case list.sel
        using receive_from_buffer [OF p tmo Cons S] S r by blast
    qed
  next
    case S: (Cons e es)
    obtain u where u: "e = TaskQ u" using wait_queue_entry [OF ok, of "DqueSendQ d" e] id S by auto
    let ?r = "\<lambda>x. if task_state (tcb s u) = TSK_STATE_WAIT then Switch (RetNoErrOut x) else Done TERR_NO_ERR (Some x)"
    show ?thesis
    proof (cases "buffer s d")
      case Nil
      have fl: "in_flight s L d = data_elem (tcb s u) # map (sender_word s) es"
        using Nil S u by (simp add: in_flight_def sender_word_def)
      obtain s' L' where a: "tn_queue_receive (Some d) True tmo s =
          Some (?r (data_elem (tcb s u)), s')" "kernel_ok s' L'" "dque_ok s' L'" "in_flight s' L' d = map (sender_word s) es"
        "L' (DqueRecvQ d) = []" "L' (DqueSendQ d) = es" "tcb s' = (tcb s)(u := complete_tcb (tcb s u))"
        "if task_state (tcb s u) = TSK_STATE_WAIT then curr_ok s' else cpsr s' = cpsr s"
        using receive_from_sender [OF p tmo Nil S [unfolded u]] by blast
      show ?thesis unfolding fl S list.case list.sel
        using a u by (intro exI [of _ "?r (data_elem (tcb s u))"] exI [of _ s'] exI [of _ L']) simp
    next
      case (Cons x xs)
      have fl: "in_flight s L d = x # xs @ map (sender_word s) (TaskQ u # es)" using Cons S u by (simp add: in_flight_def)
      obtain s' L' where a: "tn_queue_receive (Some d) True tmo s =
          Some (?r (x), s')" "kernel_ok s' L'" "dque_ok s' L'" "in_flight s' L' d = xs @ map (sender_word s) (TaskQ u # es)"
        "L' (DqueRecvQ d) = []" "L' (DqueSendQ d) = es" "tcb s' = (tcb s)(u := complete_tcb (tcb s u))"
        "if task_state (tcb s u) = TSK_STATE_WAIT then curr_ok s' else cpsr s' = cpsr s"
        using receive_refill [OF p tmo Cons S [unfolded u]] by blast
      show ?thesis unfolding fl S list.case list.sel
        using a u by (intro exI [of _ "?r (x)"] exI [of _ s'] exI [of _ L']) simp
    qed
  qed
qed

section \<open>Witnesses\<close>

lemma demo_dque: "dque_ok demo demo_lists"
proof -
  have ids: "id_dque (dque demo d) = TN_ID_DATAQUEUE \<longleftrightarrow> d = 0 \<or> d = 1" for d by (simp add: demo_def)
  have L: "demo_lists (DqueRecvQ d) = (if d = 0 then [TaskQ 5] else [])"
    "demo_lists (DqueSendQ d) = (if d = 1 then [TaskQ 6] else [])" for d
    by (simp_all add: demo_lists_def lists_of_def demo_lists_alist_def)
  have b: "buffer demo 0 = []" "buffer demo 1 = [65]" "capacity demo 1 = 1"
    by (simp_all add: buffer_def capacity_def demo_def fifo_list_def fifo_len_def fifo_cell_def)
  have ok: "fifo_ok (dque demo 0)" "fifo_ok (dque demo 1)" by (simp_all add: demo_def fifo_ok_def)
  have "dq_ok demo demo_lists 0" "dq_ok demo demo_lists 1"
    using ok b L by (simp_all add: dq_ok_def in_flight_def)
  moreover have "fifo_area (dque demo 0) = {0x1000, 0x1004, 0x1008, 0x100C}" "fifo_area (dque demo 1) = {0x2000, 0x2004}"
  proof -
    have "{0..<4 :: int} = {0, 1, 2, 3}" "{0..<2 :: int} = {0, 1}" by auto
    then show "fifo_area (dque demo 0) = {0x1000, 0x1004, 0x1008, 0x100C}" "fifo_area (dque demo 1) = {0x2000, 0x2004}"
      by (simp_all add: demo_def fifo_area_def fifo_cell_def)
  qed
  ultimately show ?thesis by (auto simp: dque_ok_def ids)
qed

lemma demo_dque_1:
  "id_dque (dque demo 1) = TN_ID_DATAQUEUE" "demo_lists (DqueRecvQ 1) = []" "demo_lists (DqueSendQ 1) = [TaskQ 6]"
  "in_flight demo demo_lists 1 = [65, 66]" "capacity demo 1 = 1" "task_state (tcb demo 6) = TSK_STATE_WAIT"
  by (simp_all add: in_flight_def buffer_def capacity_def sender_word_def demo_def demo_lists_def lists_of_def
      demo_lists_alist_def fifo_list_def fifo_len_def fifo_cell_def demo_tcb_def demo_task_def)

theorem queue_send_fifo_witness:
  "\<exists>s' L'. tn_queue_send (Some 1) 67 20 demo = Some (Switch RetWaitRc, s') \<and> kernel_ok s' L' \<and>
     in_flight s' L' 1 = [65, 66, 67] \<and> task_state (tcb s' 2) = TSK_STATE_WAIT"
  using queue_send_fifo [OF demo_ok demo_dque demo_dque_1(1) demo_curr(4,1,2,3), of 20 67, unfolded demo_dque_1 list.case]
  by (auto simp: wait_tcb_def)

theorem queue_receive_fifo_witness:
  "\<exists>s' L'. tn_queue_receive (Some 1) True 20 demo = Some (Switch (RetNoErrOut 65), s') \<and> kernel_ok s' L' \<and>
     in_flight s' L' 1 = [66] \<and> task_state (tcb s' 6) = TSK_STATE_RUNNABLE"
  using queue_receive_fifo [OF demo_ok demo_dque demo_dque_1(1) demo_curr(4,1,2,3), of 20, unfolded demo_dque_1 list.case]
  by (auto simp: complete_tcb_def demo_dque_1(6))

end
