(* ===== verification/TN_Mem.thy ===== *)
theory TN_Mem
  imports TN_Demo
begin

text \<open>
  Fixed-size memory pools, \<^verbatim>\<open>TNKernel/tn_mem.c\<close>: the seven service calls and the two routines
  \<open>fm_get\<close> and \<open>fm_put\<close> on the list of free blocks, which is threaded through the blocks
  themselves (the first word of a free block is the address of the next one).

  Addresses are 32-bit words and the arithmetic on them wraps as \<open>unsigned int\<close> does. \<open>p_data\<close> of
  the get calls is a flag: the pointer is not null.
\<close>

section \<open>The free list\<close>

definition fm_get :: "oid \<Rightarrow> kernel \<Rightarrow> (u32 \<times> kernel) option" where
  "fm_get f s =
     (if fblkcnt (fmp s f) > 0 then
        do {
          let p_tmp = free_list (fmp s f);
          (if p_tmp = 0 then None
           else Some (p_tmp, upd_fmp f (\<lambda>x. x\<lparr>free_list := mem s p_tmp, fblkcnt := fblkcnt x - 1\<rparr>) s))
        }
      else Some (0, s))"

definition fm_put :: "oid \<Rightarrow> u32 \<Rightarrow> kernel \<Rightarrow> int \<times> kernel" where
  "fm_put f p s =
     (if fblkcnt (fmp s f) < num_blocks (fmp s f)
      then (TERR_NO_ERR,
            upd_fmp f (\<lambda>x. x\<lparr>free_list := p, fblkcnt := fblkcnt x + 1\<rparr>)
              (s\<lparr>mem := (mem s)(p := free_list (fmp s f))\<rparr>))
      else (TERR_OVERFLOW, s))"

section \<open>Service calls\<close>

definition align4 :: "u32 \<Rightarrow> u32" where
  "align4 x = ((x + 3) div 4) * 4"

text \<open>\<open>while(j > i) { j -= block_size; num_blocks--; }\<close>; with a block size of 0 (a request above
  0xFFFFFFFC rounds to it) the loop does not end.\<close>

partial_function (option) fit_blocks :: "u32 \<Rightarrow> u32 \<Rightarrow> u32 \<Rightarrow> int \<Rightarrow> int option" where
  "fit_blocks bs i j n = (if j > i then fit_blocks bs i (j - bs) (n - 1) else Some n)"

fun link_blocks :: "nat \<Rightarrow> u32 \<Rightarrow> u32 \<Rightarrow> u32 \<Rightarrow> (u32 \<Rightarrow> u32) \<Rightarrow> (u32 \<Rightarrow> u32)" where
  "link_blocks 0 p_tmp p_block bs m = m(p_tmp := 0)"
| "link_blocks (Suc n) p_tmp p_block bs m =
     link_blocks n p_block (p_block + bs) bs (m(p_tmp := p_block))"

definition tn_fmem_create :: "optr \<Rightarrow> u32 \<Rightarrow> u32 \<Rightarrow> int \<Rightarrow> kernel \<Rightarrow> (outcome \<times> kernel) option" where
  "tn_fmem_create fp start bsize n s =
     (case fp of
        None \<Rightarrow> Some (ret TERR_WRONG_PARAM, s)
      | Some f \<Rightarrow>
          if id_fmp (fmp s f) = TN_ID_FSMEMORYPOOL then Some (ret TERR_WRONG_PARAM, s)
          else if start = 0 \<or> n < 2 \<or> bsize < 4
          then Some (ret TERR_WRONG_PARAM,
                 upd_fmp f (\<lambda>x. x\<lparr>fblkcnt := 0, num_blocks := 0, id_fmp := 0, free_list := 0\<rparr>) s)
          else do {
            let s = s\<lparr>qh := queue_reset (FmpWaitQ f) (qh s)\<rparr>;
            let sa = align4 start;
            let bs = align4 bsize;
            let i = start + bsize * word_of_int n;
            let j = sa + bs * word_of_int n;
            nb \<leftarrow> fit_blocks bs i j n;
            let s = upd_fmp f (\<lambda>x. x\<lparr>start_addr := sa, block_size := bs, num_blocks := nb\<rparr>) s;
            (if nb < 2
             then Some (ret TERR_WRONG_PARAM,
                    upd_fmp f (\<lambda>x. x\<lparr>fblkcnt := 0, num_blocks := 0, free_list := 0\<rparr>) s)
             else Some (ret TERR_NO_ERR,
                    upd_fmp f (\<lambda>x. x\<lparr>free_list := sa, fblkcnt := nb, id_fmp := TN_ID_FSMEMORYPOOL\<rparr>)
                      (s\<lparr>mem := link_blocks (nat (nb - 1)) sa (sa + bs) bs (mem s)\<rparr>)))
          })"

definition fmem_delete_loop :: "oid \<Rightarrow> u32 \<Rightarrow> kernel \<Rightarrow> (outcome \<times> kernel) option" where
  "fmem_delete_loop f =
     delete_waiters (FmpWaitQ f) (FmpDeleteLoop f)
       (\<lambda>sr s. case disable_if_enabled sr s of (sr, s) \<Rightarrow> leave sr TERR_NO_ERR (upd_fmp f (\<lambda>x. x\<lparr>id_fmp := 0\<rparr>) s))"

definition tn_fmem_delete :: "optr \<Rightarrow> kernel \<Rightarrow> (outcome \<times> kernel) option" where
  "tn_fmem_delete fp s =
     (case fp of
        None \<Rightarrow> Some (ret TERR_WRONG_PARAM, s)
      | Some f \<Rightarrow>
          if id_fmp (fmp s f) \<noteq> TN_ID_FSMEMORYPOOL then Some (ret TERR_NOEXS, s)
          else if check_non_int_context s then Some (ret TERR_WCONTEXT, s)
          else fmem_delete_loop f 0 s)"

definition tn_fmem_get :: "optr \<Rightarrow> bool \<Rightarrow> u32 \<Rightarrow> kernel \<Rightarrow> (outcome \<times> kernel) option" where
  "tn_fmem_get fp p_data timeout s =
     (case fp of
        None \<Rightarrow> Some (ret TERR_WRONG_PARAM, s)
      | Some f \<Rightarrow>
          if \<not> p_data \<or> timeout = 0 then Some (ret TERR_WRONG_PARAM, s)
          else if id_fmp (fmp s f) \<noteq> TN_ID_FSMEMORYPOOL then Some (ret TERR_NOEXS, s)
          else if check_non_int_context s then Some (ret TERR_WCONTEXT, s)
          else do {
            let (sr, s) = tn_cpu_save_sr s;
            (ptr, s) \<leftarrow> fm_get f s;
            (if ptr \<noteq> 0 then Some (Done TERR_NO_ERR (Some ptr), tn_cpu_restore_sr sr s)
             else do {
               s \<leftarrow> task_curr_to_wait_action (Some (FmpWaitQ f)) TSK_WAIT_REASON_WFIXMEM timeout s;
               leave_switch sr RetDataElem s
             })
          })"

definition tn_fmem_get_polling :: "optr \<Rightarrow> bool \<Rightarrow> kernel \<Rightarrow> (outcome \<times> kernel) option" where
  "tn_fmem_get_polling fp p_data s =
     (case fp of
        None \<Rightarrow> Some (ret TERR_WRONG_PARAM, s)
      | Some f \<Rightarrow>
          if \<not> p_data then Some (ret TERR_WRONG_PARAM, s)
          else if id_fmp (fmp s f) \<noteq> TN_ID_FSMEMORYPOOL then Some (ret TERR_NOEXS, s)
          else if check_non_int_context s then Some (ret TERR_WCONTEXT, s)
          else do {
            let (sr, s) = tn_cpu_save_sr s;
            (ptr, s) \<leftarrow> fm_get f s;
            (if ptr \<noteq> 0 then Some (Done TERR_NO_ERR (Some ptr), tn_cpu_restore_sr sr s)
             else leave sr TERR_TIMEOUT s)
          })"

definition tn_fmem_get_ipolling :: "optr \<Rightarrow> bool \<Rightarrow> kernel \<Rightarrow> (outcome \<times> kernel) option" where
  "tn_fmem_get_ipolling fp p_data s =
     (case fp of
        None \<Rightarrow> Some (ret TERR_WRONG_PARAM, s)
      | Some f \<Rightarrow>
          if \<not> p_data then Some (ret TERR_WRONG_PARAM, s)
          else if id_fmp (fmp s f) \<noteq> TN_ID_FSMEMORYPOOL then Some (ret TERR_NOEXS, s)
          else if check_int_context s then Some (ret TERR_WCONTEXT, s)
          else do {
            (ptr, s) \<leftarrow> fm_get f s;
            (if ptr \<noteq> 0 then Some (Done TERR_NO_ERR (Some ptr), s) else Some (ret TERR_TIMEOUT, s))
          })"

definition tn_fmem_release :: "optr \<Rightarrow> u32 \<Rightarrow> kernel \<Rightarrow> (outcome \<times> kernel) option" where
  "tn_fmem_release fp p_data s =
     (case fp of
        None \<Rightarrow> Some (ret TERR_WRONG_PARAM, s)
      | Some f \<Rightarrow>
          if p_data = 0 then Some (ret TERR_WRONG_PARAM, s)
          else if id_fmp (fmp s f) \<noteq> TN_ID_FSMEMORYPOOL then Some (ret TERR_NOEXS, s)
          else if check_non_int_context s then Some (ret TERR_WCONTEXT, s)
          else do {
            let (sr, s) = tn_cpu_save_sr s;
            (if \<not> is_queue_empty (FmpWaitQ f) (qh s) then
               do {
                 (task, s) \<leftarrow> dequeue_task (FmpWaitQ f) s;
                 t \<leftarrow> task;
                 let s = upd_tcb t (\<lambda>x. x\<lparr>data_elem := p_data\<rparr>) s;
                 (sw, s) \<leftarrow> task_wait_complete task s;
                 (if sw then leave_switch sr RetNoErr s else leave sr TERR_NO_ERR s)
               }
             else leave sr TERR_NO_ERR (snd (fm_put f p_data s)))
          })"

definition tn_fmem_irelease :: "optr \<Rightarrow> u32 \<Rightarrow> kernel \<Rightarrow> (outcome \<times> kernel) option" where
  "tn_fmem_irelease fp p_data s =
     (case fp of
        None \<Rightarrow> Some (ret TERR_WRONG_PARAM, s)
      | Some f \<Rightarrow>
          if p_data = 0 then Some (ret TERR_WRONG_PARAM, s)
          else if id_fmp (fmp s f) \<noteq> TN_ID_FSMEMORYPOOL then Some (ret TERR_NOEXS, s)
          else if check_int_context s then Some (ret TERR_WCONTEXT, s)
          else if \<not> is_queue_empty (FmpWaitQ f) (qh s) then
            do {
              (task, s) \<leftarrow> dequeue_task (FmpWaitQ f) s;
              t \<leftarrow> task;
              let s = upd_tcb t (\<lambda>x. x\<lparr>data_elem := p_data\<rparr>) s;
              (sw, s) \<leftarrow> task_wait_complete task s;
              Some (ret TERR_NO_ERR, if sw then request_switch s else s)
            }
          else Some (ret TERR_NO_ERR, snd (fm_put f p_data s)))"

interpretation fm: wait_object FmpWaitQ TSK_WAIT_REASON_WFIXMEM "\<lambda>s f. id_fmp (fmp s f) = TN_ID_FSMEMORYPOOL"
  by unfold_locales (simp_all add: same_objects_def)

interpretation fmd: deletable_object FmpWaitQ TSK_WAIT_REASON_WFIXMEM "\<lambda>s f. id_fmp (fmp s f) = TN_ID_FSMEMORYPOOL"
    "\<lambda>f. upd_fmp f (\<lambda>x. x\<lparr>id_fmp := 0\<rparr>)"
proof unfold_locales
  fix s :: kernel and f assume "id_fmp (fmp s f) = TN_ID_FSMEMORYPOOL"
  then show "heads (upd_fmp f (\<lambda>x. x\<lparr>id_fmp := 0\<rparr>) s) = heads s - {FmpWaitQ f}"
    by (intro heads_removeI, case_tac q) (simp_all add: is_task_def)
qed (simp_all add: fun_eq_iff)

section \<open>The blocks of a pool\<close>

definition block :: "u32 \<Rightarrow> u32 \<Rightarrow> nat \<Rightarrow> u32" where
  "block a bs k = a + of_nat k * bs"

definition blocks :: "tn_fmp \<Rightarrow> u32 list" where
  "blocks x = map (block (start_addr x) (block_size x)) [0..<nat (num_blocks x)]"

text \<open>The blocks do not wrap around the address space and do not start at address 0.\<close>

definition geometry_ok :: "u32 \<Rightarrow> u32 \<Rightarrow> nat \<Rightarrow> bool" where
  "geometry_ok a bs n \<longleftrightarrow> a \<noteq> 0 \<and> bs \<noteq> 0 \<and> unat a + n * unat bs < 2 ^ 32"

lemma unat_block:
  assumes "geometry_ok a bs n" and "k \<le> n"
  shows "unat (block a bs k) = unat a + k * unat bs"
proof -
  have "k * unat bs \<le> n * unat bs" using assms(2) by (rule mult_le_mono1)
  moreover have "unat a + n * unat bs < 2 ^ 32" using assms(1) by (simp add: geometry_ok_def)
  ultimately have le: "unat a + k * unat bs < 2 ^ 32" by linarith
  have "block a bs k = word_of_nat (unat a + k * unat bs)" by (simp add: block_def)
  then have "unat (block a bs k) = (unat a + k * unat bs) mod 2 ^ 32"
    by (simp only: unat_of_nat) simp
  then show ?thesis using le by simp
qed

lemma geometry_mono: "geometry_ok a bs n \<Longrightarrow> k \<le> n \<Longrightarrow> geometry_ok a bs k"
proof -
  assume g: "geometry_ok a bs n" and "k \<le> n"
  then have "k * unat bs \<le> n * unat bs" by (intro mult_le_mono1)
  moreover have "unat a + n * unat bs < 2 ^ 32" using g by (simp add: geometry_ok_def)
  ultimately have "unat a + k * unat bs < 2 ^ 32" by linarith
  then show "geometry_ok a bs k" using g by (simp add: geometry_ok_def)
qed

lemma block_nonzero: "geometry_ok a bs n \<Longrightarrow> k \<le> n \<Longrightarrow> block a bs k \<noteq> 0"
  using unat_block [of a bs n k] by (auto simp: geometry_ok_def unat_eq_0)

lemma block_inj: "geometry_ok a bs n \<Longrightarrow> k \<le> n \<Longrightarrow> l \<le> n \<Longrightarrow> block a bs k = block a bs l \<Longrightarrow> k = l"
proof -
  assume g: "geometry_ok a bs n" and "k \<le> n" "l \<le> n" "block a bs k = block a bs l"
  then have "k * unat bs = l * unat bs" using unat_block [of a bs n] by (metis add_left_imp_eq)
  then show "k = l" using g by (auto simp: geometry_ok_def unat_eq_0)
qed

lemma block_0 [simp]: "block a bs 0 = a" by (simp add: block_def)

lemma block_Suc: "block (a + bs) bs k = block a bs (Suc k)"
  by (simp add: block_def algebra_simps)

lemma geometry_Suc: "geometry_ok a bs (Suc n) \<Longrightarrow> geometry_ok (a + bs) bs n"
proof -
  assume g: "geometry_ok a bs (Suc n)"
  have "unat (a + bs) = unat a + unat bs" using unat_block [OF g, of 1] by (simp add: block_def)
  moreover have "a + bs \<noteq> 0" using block_nonzero [OF g, of 1] by (simp add: block_def)
  ultimately show ?thesis using g by (simp add: geometry_ok_def)
qed

text \<open>The free list, read off the memory.\<close>

fun walk :: "nat \<Rightarrow> (u32 \<Rightarrow> u32) \<Rightarrow> u32 \<Rightarrow> u32 list" where
  "walk 0 m p = []"
| "walk (Suc n) m p = p # walk n m (m p)"

lemma walk_cong: "(\<And>a. a \<in> set (walk n m p) \<Longrightarrow> m' a = m a) \<Longrightarrow> walk n m' p = walk n m p"
  by (induction n arbitrary: p) auto

lemma length_walk [simp]: "length (walk n m p) = n"
  by (induction n arbitrary: p) auto

definition free_blocks :: "kernel \<Rightarrow> oid \<Rightarrow> u32 list" where
  "free_blocks s f = walk (nat (fblkcnt (fmp s f))) (mem s) (free_list (fmp s f))"

text \<open>The free blocks are different blocks of the pool, and a task waits only if there is none.\<close>

definition pool_ok :: "kernel \<Rightarrow> (qaddr \<Rightarrow> qaddr list) \<Rightarrow> oid \<Rightarrow> bool" where
  "pool_ok s L f \<longleftrightarrow>
     geometry_ok (start_addr (fmp s f)) (block_size (fmp s f)) (nat (num_blocks (fmp s f))) \<and>
     0 \<le> fblkcnt (fmp s f) \<and> distinct (free_blocks s f) \<and> set (free_blocks s f) \<subseteq> set (blocks (fmp s f)) \<and>
     (L (FmpWaitQ f) \<noteq> [] \<longrightarrow> free_blocks s f = [])"

definition fmp_ok :: "kernel \<Rightarrow> (qaddr \<Rightarrow> qaddr list) \<Rightarrow> bool" where
  "fmp_ok s L \<longleftrightarrow>
     (\<forall>f. id_fmp (fmp s f) = TN_ID_FSMEMORYPOOL \<longrightarrow> pool_ok s L f) \<and>
     (\<forall>f g. id_fmp (fmp s f) = TN_ID_FSMEMORYPOOL \<and> id_fmp (fmp s g) = TN_ID_FSMEMORYPOOL \<and> f \<noteq> g \<longrightarrow>
        set (blocks (fmp s f)) \<inter> set (blocks (fmp s g)) = {})"

lemma distinct_blocks:
  "geometry_ok (start_addr x) (block_size x) (nat (num_blocks x)) \<Longrightarrow> distinct (blocks x)"
  unfolding blocks_def distinct_map
  by (auto intro!: inj_onI dest: block_inj [rotated 3])

lemma blocks_nonzero:
  "geometry_ok (start_addr x) (block_size x) (nat (num_blocks x)) \<Longrightarrow> b \<in> set (blocks x) \<Longrightarrow> b \<noteq> 0"
  unfolding blocks_def using block_nonzero by (auto dest: less_imp_le)

lemma link_blocks_other:
  "(\<And>k. k \<le> n \<Longrightarrow> a \<noteq> block p bs k) \<Longrightarrow> link_blocks n p (p + bs) bs m a = m a"
proof (induction n arbitrary: p m)
  case 0
  then show ?case using "0" [of 0] by simp
next
  case (Suc n)
  have "link_blocks n (p + bs) (p + bs + bs) bs (m(p := p + bs)) a = (m(p := p + bs)) a"
  proof (rule Suc.IH)
    fix k assume "k \<le> n"
    then show "a \<noteq> block (p + bs) bs k" using Suc.prems [of "Suc k"] by (simp add: block_Suc)
  qed
  moreover have "a \<noteq> p" using Suc.prems [of 0] by simp
  ultimately show ?case by simp
qed

lemma link_blocks_walk:
  "geometry_ok p bs (Suc n) \<Longrightarrow>
   walk (Suc n) (link_blocks n p (p + bs) bs m) p = map (block p bs) [0..<Suc n] \<and>
   link_blocks n p (p + bs) bs m (block p bs n) = 0"
proof (induction n arbitrary: p m)
  case 0
  then show ?case by simp
next
  case (Suc n)
  let ?m = "link_blocks n (p + bs) (p + bs + bs) bs (m(p := p + bs))"
  have "p \<noteq> block (p + bs) bs k" if "k \<le> n" for k
    using block_inj [OF Suc.prems, of 0 "Suc k"] that by (auto simp: block_Suc)
  then have mp: "?m p = p + bs" using link_blocks_other [of n p "p + bs" bs] by simp
  have b1: "block p bs (Suc 0) = p + bs" by (simp add: block_def)
  have maps: "map (block p bs) [0..<Suc (Suc n)] = p # map (block (p + bs) bs) [0..<Suc n]"
    using b1 by (simp add: block_Suc upt_conv_Cons map_Suc_upt [symmetric] o_def del: upt_Suc)
  have ih: "walk (Suc n) ?m (p + bs) = map (block (p + bs) bs) [0..<Suc n]" "?m (block (p + bs) bs n) = 0"
    by (rule conjunct1 [OF Suc.IH [OF geometry_Suc [OF Suc.prems]]], rule conjunct2 [OF Suc.IH [OF geometry_Suc [OF Suc.prems]]])
  have "walk (Suc (Suc n)) ?m p = p # walk (Suc n) ?m (p + bs)" by (simp only: walk.simps(2) mp)
  then show ?case
    using ih(2) by (simp only: link_blocks.simps ih(1) maps block_Suc simp_thms)
qed

section \<open>Creating a pool\<close>

lemma fit_blocks_eq:
  assumes bs: "bs \<noteq> 0" and sa: "unat sa \<le> unat i" and j: "unat j = unat sa + k * unat bs"
  shows "fit_blocks bs i j (int k) = Some (int (min k ((unat i - unat sa) div unat bs)))"
  using j
proof (induction k arbitrary: j)
  case 0
  then show ?case using sa by (subst fit_blocks.simps) (simp add: word_less_nat_alt)
next
  case (Suc k)
  have b0: "0 < unat bs" using bs by (simp add: unat_gt_0)
  show ?case
  proof (cases "i < j")
    case True
    have "unat (j - bs) = unat sa + k * unat bs"
      using Suc.prems by (subst unat_sub) (auto simp: word_le_nat_alt)
    then have "fit_blocks bs i j (int (Suc k)) = Some (int (min k ((unat i - unat sa) div unat bs)))"
      using True Suc.IH [of "j - bs"] by (subst fit_blocks.simps) simp
    moreover have "unat i - unat sa < Suc k * unat bs"
      using True Suc.prems sa by (simp add: word_less_nat_alt)
    then have "(unat i - unat sa) div unat bs < Suc k" using b0 by (simp add: div_less_iff_less_mult)
    ultimately show ?thesis by simp
  next
    case False
    have "Suc k * unat bs \<le> unat i - unat sa"
      using False Suc.prems by (simp add: word_less_nat_alt)
    then have "Suc k \<le> (unat i - unat sa) div unat bs" using b0 by (simp add: less_eq_div_iff_mult_less_eq)
    then show ?thesis using False by (subst fit_blocks.simps) simp
  qed
qed

lemma align4_unat:
  assumes "unat x + 3 < 2 ^ 32"
  shows "unat (align4 x) = (unat x + 3) div 4 * 4" and "unat x \<le> unat (align4 x)" and "unat (align4 x) \<le> unat x + 3"
proof -
  have "unat (x + 3) = unat x + 3" using assms by (simp add: unat_add_lem [THEN iffD1])
  then have "unat ((x + 3) div 4) = (unat x + 3) div 4" by (simp add: unat_div)
  moreover have "(unat x + 3) div 4 * 4 < 2 ^ 32" using assms by presburger
  ultimately show e: "unat (align4 x) = (unat x + 3) div 4 * 4"
    unfolding align4_def by (subst unat_mult_lem [THEN iffD1]) simp_all
  show "unat x \<le> unat (align4 x)" "unat (align4 x) \<le> unat x + 3" unfolding e by presburger+
qed

text \<open>The region the caller gives, with the room for the alignment, lies in the address space.\<close>

definition region_ok :: "u32 \<Rightarrow> u32 \<Rightarrow> nat \<Rightarrow> bool" where
  "region_ok start bsize n \<longleftrightarrow> start \<noteq> 0 \<and> bsize \<noteq> 0 \<and> unat start + 3 + n * (unat bsize + 3) < 2 ^ 32"

definition fitting :: "u32 \<Rightarrow> u32 \<Rightarrow> nat \<Rightarrow> nat" where
  "fitting start bsize n =
     min n ((unat start + n * unat bsize - unat (align4 start)) div unat (align4 bsize))"

lemma region_geometry:
  assumes r: "region_ok start bsize n" and n: "1 \<le> n"
  shows "geometry_ok start bsize n" "geometry_ok (align4 start) (align4 bsize) n"
    "unat (align4 start) \<le> unat start + 3" "unat start \<le> unat (align4 start)" "unat bsize \<le> unat (align4 bsize)"
    "4 dvd unat (align4 start)" "4 dvd unat (align4 bsize)"
proof -
  have b: "unat start + 3 + n * (unat bsize + 3) < 2 ^ 32" "start \<noteq> 0" "bsize \<noteq> 0" using r by (simp_all add: region_ok_def)
  have "unat bsize + 3 \<le> n * (unat bsize + 3)" using mult_le_mono1 [OF n, of "unat bsize + 3"] by simp
  then have s: "unat start + 3 < 2 ^ 32" "unat bsize + 3 < 2 ^ 32" using b(1) by linarith+
  note a = align4_unat [OF s(1)] align4_unat [OF s(2)]
  show "unat (align4 start) \<le> unat start + 3" "unat start \<le> unat (align4 start)" "unat bsize \<le> unat (align4 bsize)"
    "4 dvd unat (align4 start)" "4 dvd unat (align4 bsize)"
    using a by simp_all
  have "n * unat (align4 bsize) \<le> n * (unat bsize + 3)" by (rule mult_le_mono2) (rule a(6))
  then have "unat (align4 start) + n * unat (align4 bsize) < 2 ^ 32" using b(1) a(3) by linarith
  moreover have "align4 start \<noteq> 0" "align4 bsize \<noteq> 0"
    using a(2,5) b(2,3) by (metis le_zero_eq unat_0 unat_eq_0)+
  ultimately show "geometry_ok (align4 start) (align4 bsize) n" by (simp add: geometry_ok_def)
  have "n * unat bsize \<le> n * (unat bsize + 3)" by (rule mult_le_mono2) simp
  then have "unat start + n * unat bsize < 2 ^ 32" using b(1) by linarith
  then show "geometry_ok start bsize n" using b by (simp add: geometry_ok_def)
qed

lemma create_fit:
  assumes r: "region_ok start bsize n" and n: "1 \<le> n" and b: "4 \<le> bsize"
  shows "fit_blocks (align4 bsize) (start + bsize * word_of_int (int n))
      (align4 start + align4 bsize * word_of_int (int n)) (int n) = Some (int (fitting start bsize n))"
proof -
  note g = region_geometry [OF r n]
  have i: "unat (start + bsize * word_of_int (int n)) = unat start + n * unat bsize"
    using unat_block [OF g(1), of n] by (simp add: block_def mult.commute)
  have j: "unat (align4 start + align4 bsize * word_of_int (int n)) = unat (align4 start) + n * unat (align4 bsize)"
    using unat_block [OF g(2), of n] by (simp add: block_def mult.commute)
  have "4 \<le> n * unat bsize" using b n mult_le_mono [of 1 n 4 "unat bsize"] by (simp add: word_le_nat_alt)
  then have "unat (align4 start) \<le> unat (start + bsize * word_of_int (int n))" unfolding i using g(3) by linarith
  from fit_blocks_eq [OF _ this j] g(2) show ?thesis
    unfolding fitting_def i by (simp add: geometry_ok_def)
qed

lemma kernel_reset_loose:
  assumes ok: "kernel_ok s L" and q: "q \<notin> heads s" "home s q = None"
  shows "kernel_ok (s\<lparr>qh := queue_reset q (qh s)\<rparr>) L"
proof -
  have "sched_ok (s\<lparr>qh := queue_reset q (qh s)\<rparr>) L (home s)"
    by (rule sched_other [OF kernel_sched [OF ok] placed_reset_entry [OF kernel_placed [OF ok] q]]) simp
  moreover have tf: "task_fields_ok (s\<lparr>qh := queue_reset q (qh s)\<rparr>) = task_fields_ok s"
    by (rule task_fields_cong) simp
  ultimately show ?thesis using ok unfolding kernel_ok_def tf by simp
qed

text \<open>The memory and the pool after a create call that finds room for \<open>k\<close> blocks.\<close>

lemma created_pool:
  assumes g: "geometry_ok a bs k" and k: "1 \<le> k" and m: "mem s' = link_blocks (k - 1) a (a + bs) bs m"
    and x: "start_addr (fmp s' f) = a" "block_size (fmp s' f) = bs" "num_blocks (fmp s' f) = int k"
      "free_list (fmp s' f) = a" "fblkcnt (fmp s' f) = int k" and L: "L (FmpWaitQ f) = []"
  shows "free_blocks s' f = blocks (fmp s' f)" "pool_ok s' L f" "c \<notin> set (blocks (fmp s' f)) \<Longrightarrow> mem s' c = m c"
proof -
  have "walk k (link_blocks (k - 1) a (a + bs) bs m) a = map (block a bs) [0..<k]"
    using link_blocks_walk [of a bs "k - 1" m] g k by (simp del: walk.simps upt_Suc)
  then show fb: "free_blocks s' f = blocks (fmp s' f)"
    using m x by (simp add: free_blocks_def blocks_def)
  have gx: "geometry_ok (start_addr (fmp s' f)) (block_size (fmp s' f)) (nat (num_blocks (fmp s' f)))" using g x by simp
  show "pool_ok s' L f"
    unfolding pool_ok_def fb using gx distinct_blocks [OF gx] x L by simp
  show "mem s' c = m c" if "c \<notin> set (blocks (fmp s' f))"
    unfolding m using that k x by (intro link_blocks_other) (auto simp: blocks_def)
qed

lemma created_blocks:
  assumes reg: "region_ok start bsize n" and n: "2 \<le> n" and b: "4 \<le> bsize" and k: "k < fitting start bsize n"
  shows "unat (block (align4 start) (align4 bsize) k) + unat (align4 bsize) \<le> unat start + n * unat bsize"
    "unat start \<le> unat (block (align4 start) (align4 bsize) k)" "4 dvd unat (block (align4 start) (align4 bsize) k)"
proof -
  let ?a = "align4 start" and ?bs = "align4 bsize"
  have n1: "1 \<le> n" using n by simp
  note g = region_geometry [OF reg n1]
  have gk: "geometry_ok ?a ?bs (fitting start bsize n)" by (rule geometry_mono [OF g(2)]) (simp add: fitting_def)
  have "Suc k \<le> (unat start + n * unat bsize - unat ?a) div unat ?bs" using k by (simp add: fitting_def)
  then have "Suc k * unat ?bs \<le> (unat start + n * unat bsize - unat ?a) div unat ?bs * unat ?bs"
    by (rule mult_le_mono1)
  also have "\<dots> \<le> unat start + n * unat bsize - unat ?a" by simp
  finally have "unat ?a + Suc k * unat ?bs \<le> unat start + n * unat bsize \<or> unat start + n * unat bsize < unat ?a"
    by linarith
  moreover have "4 \<le> n * unat bsize" using b n mult_le_mono [of 1 n 4 "unat bsize"] by (simp add: word_le_nat_alt)
  ultimately have "unat ?a + Suc k * unat ?bs \<le> unat start + n * unat bsize" using g(3) by linarith
  then show "unat (block ?a ?bs k) + unat ?bs \<le> unat start + n * unat bsize" "unat start \<le> unat (block ?a ?bs k)"
    "4 dvd unat (block ?a ?bs k)"
    using unat_block [OF gk, of k] k g(4,6,7) by simp_all
qed

text \<open>C11. \<open>tn_fmem_create\<close> aligns the region and the block size to four bytes and makes as many blocks
  as still fit into the region, at most the number asked for. The pool has them all in its free
  list, in the order of their addresses, each inside the region and aligned; no other word of the
  memory changes. With room for fewer than two the pool is refused.\<close>

theorem fmem_create_pool:
  assumes ok: "kernel_ok s L" and id: "id_fmp (fmp s f) = 0" and reg: "region_ok start bsize n"
    and n: "2 \<le> n" and b: "4 \<le> bsize"
  shows "if fitting start bsize n < 2
     then \<exists>s'. tn_fmem_create (Some f) start bsize (int n) s = Some (ret TERR_WRONG_PARAM, s') \<and>
            kernel_ok s' L \<and> id_fmp (fmp s' f) = 0
     else \<exists>s'. tn_fmem_create (Some f) start bsize (int n) s = Some (ret TERR_NO_ERR, s') \<and>
            kernel_ok s' (L(FmpWaitQ f := [])) \<and> id_fmp (fmp s' f) = TN_ID_FSMEMORYPOOL \<and>
            pool_ok s' (L(FmpWaitQ f := [])) f \<and>
            free_blocks s' f = map (block (align4 start) (align4 bsize)) [0..<fitting start bsize n] \<and>
            (\<forall>k < fitting start bsize n. unat start \<le> unat (block (align4 start) (align4 bsize) k) \<and>
               unat (block (align4 start) (align4 bsize) k) + unat (align4 bsize) \<le> unat start + n * unat bsize \<and>
               4 dvd unat (block (align4 start) (align4 bsize) k)) \<and>
            (\<forall>c. c \<notin> set (free_blocks s' f) \<longrightarrow> mem s' c = mem s c)"
proof -
  let ?a = "align4 start" and ?bs = "align4 bsize" and ?k = "fitting start bsize n"
  have n1: "1 \<le> n" using n by simp
  note g = region_geometry [OF reg n1]
  note fit = create_fit [OF reg n1 b]
  have enter: "start \<noteq> 0" "\<not> bsize < 4" "\<not> int n < 2" using reg b n by (auto simp: region_ok_def)
  have nh: "FmpWaitQ f \<notin> heads s" "home s (FmpWaitQ f) = None" using id by simp_all
  show ?thesis
  proof (cases "?k < 2")
    case True
    let ?u = "upd_fmp f (\<lambda>x. x\<lparr>fblkcnt := 0, num_blocks := 0, free_list := 0\<rparr>)
        (upd_fmp f (\<lambda>x. x\<lparr>start_addr := ?a, block_size := ?bs, num_blocks := int ?k\<rparr>) s)"
    have "kernel_ok ?u L" "FmpWaitQ f \<notin> heads ?u" "home ?u (FmpWaitQ f) = None" using ok id by simp_all
    from kernel_reset_loose [OF this] show ?thesis unfolding if_P [OF True]
      using True id enter fit
      by (intro exI [of _ "?u\<lparr>qh := queue_reset (FmpWaitQ f) (qh s)\<rparr>"]) (simp add: tn_fmem_create_def)
  next
    case False
    let ?s' = "(upd_fmp f (\<lambda>x. x\<lparr>free_list := ?a, fblkcnt := int ?k, id_fmp := TN_ID_FSMEMORYPOOL\<rparr>)
        (upd_fmp f (\<lambda>x. x\<lparr>start_addr := ?a, block_size := ?bs, num_blocks := int ?k\<rparr>) s))
        \<lparr>qh := queue_reset (FmpWaitQ f) (qh s), mem := link_blocks (?k - 1) ?a (?a + ?bs) ?bs (mem s)\<rparr>"
    have k1: "nat (int ?k - 1) = ?k - 1" by simp
    have run: "tn_fmem_create (Some f) start bsize (int n) s = Some (ret TERR_NO_ERR, ?s')"
      using id enter fit False by (simp add: tn_fmem_create_def Let_def k1)
    have kn: "?k \<le> n" by (simp add: fitting_def)
    then have gk: "geometry_ok ?a ?bs ?k" by (rule geometry_mono [OF g(2)])
    have hd: "heads ?s' = insert (FmpWaitQ f) (heads s)"
      by (rule heads_insertI, case_tac q) (simp_all add: is_task_def)
    have "kernel_ok ?s' (L(FmpWaitQ f := []))"
    proof (rule kernel_new_head [OF ok])
      fix m t assume "id_mutex (mutex ?s' m) = TN_ID_MUTEX"
      then have "id_mutex (mutex s m) = TN_ID_MUTEX" by simp
      from kernel_mutex [OF ok this]
      show "m_attr (mutex ?s' m) \<in> {TN_MUTEX_ATTR_CEILING, TN_MUTEX_ATTR_INHERIT} \<and>
          (holder (mutex ?s' m) = Some t \<longrightarrow> is_task s t)" by simp
    qed (use id hd in simp_all)
    moreover note created_blocks [OF reg n b]
    moreover have "blocks (fmp ?s' f) = map (block ?a ?bs) [0..<?k]" by (simp add: blocks_def)
    moreover note created_pool [OF gk _ _, of ?s' "mem s" f "L(FmpWaitQ f := [])"]
    ultimately show ?thesis unfolding if_not_P [OF False] using run False
      by (intro exI [of _ ?s']) simp
  qed
qed

lemma demo_wait_lists:
  "demo_lists (FmpWaitQ f) = (if f = 0 then [TaskQ 7] else [])"
  by (simp add: demo_lists_def lists_of_def demo_lists_alist_def)

theorem fmem_create_pool_witness:
  "\<exists>s'. tn_fmem_create (Some 5) 0x8001 6 4 demo = Some (ret TERR_NO_ERR, s') \<and>
     free_blocks s' 5 = [0x8004, 0x800C]"
proof -
  have 1: "id_fmp (fmp demo 5) = 0" by (simp add: demo_def)
  have 2: "region_ok 0x8001 6 4" by (simp add: region_ok_def)
  have 3: "align4 0x8001 = 0x8004" "align4 6 = 8" by (simp_all add: align4_def)
  have 4: "fitting 0x8001 6 4 = 2" unfolding fitting_def 3 by simp
  have "[0..<2] = [0, 1 :: nat]" by (simp add: upt_rec)
  with fmem_create_pool [OF demo_ok 1 2, unfolded 3 4] show ?thesis
    by (auto simp: block_def)
qed

section \<open>Taking and giving back a block\<close>

lemma kernel_live_fmp: "kernel_ok s L \<Longrightarrow> id_fmp (fmp s f) = TN_ID_FSMEMORYPOOL \<Longrightarrow>
    is_queue_empty (FmpWaitQ f) (qh s) \<longleftrightarrow> L (FmpWaitQ f) = []"
  by (rule kernel_empty) simp_all

lemma pool_free:
  assumes p: "pool_ok s L f"
  shows "length (free_blocks s f) = nat (fblkcnt (fmp s f))" "b \<in> set (blocks (fmp s f)) \<Longrightarrow> b \<noteq> 0"
  using p blocks_nonzero by (auto simp: free_blocks_def pool_ok_def)

text \<open>What one call does to one pool leaves the other pools alone.\<close>

lemma fmp_ok_step:
  assumes ok: "fmp_ok s L" and f: "id_fmp (fmp s f) = TN_ID_FSMEMORYPOOL"
    and other: "\<And>g. g \<noteq> f \<Longrightarrow> fmp s' g = fmp s g" "\<And>g. g \<noteq> f \<Longrightarrow> L' (FmpWaitQ g) = L (FmpWaitQ g)"
    and same: "id_fmp (fmp s' f) = id_fmp (fmp s f)" "blocks (fmp s' f) = blocks (fmp s f)"
    and mem: "\<And>a. a \<notin> set (blocks (fmp s f)) \<Longrightarrow> mem s' a = mem s a"
    and own: "pool_ok s' L' f"
  shows "fmp_ok s' L'"
proof -
  have id: "id_fmp (fmp s' g) = id_fmp (fmp s g)" "blocks (fmp s' g) = blocks (fmp s g)" for g
    using same other(1) [of g] by (cases "g = f"; simp)+
  have "pool_ok s' L' g" if g: "id_fmp (fmp s' g) = TN_ID_FSMEMORYPOOL" for g
  proof (cases "g = f")
    case True
    then show ?thesis using own by simp
  next
    case False
    have l: "id_fmp (fmp s g) = TN_ID_FSMEMORYPOOL" using g id by simp
    then have p: "pool_ok s L g" "set (blocks (fmp s g)) \<inter> set (blocks (fmp s f)) = {}"
      using ok f False by (auto simp: fmp_ok_def)
    have "free_blocks s' g = free_blocks s g"
      unfolding free_blocks_def other(1) [OF False]
    proof (rule walk_cong)
      fix a assume "a \<in> set (walk (nat (fblkcnt (fmp s g))) (mem s) (free_list (fmp s g)))"
      then have "a \<in> set (blocks (fmp s g))" using p(1) by (auto simp: pool_ok_def free_blocks_def)
      then show "mem s' a = mem s a" using p(2) by (intro mem) auto
    qed
    then show ?thesis using p(1) other [OF False] by (simp add: pool_ok_def)
  qed
  then show ?thesis using ok by (simp add: fmp_ok_def id)
qed

text \<open>C21. \<open>tn_fmem_get\<close> hands out the first free block, which is not free any more; if there is none
  the running task waits at the end of the queue.\<close>

theorem fmem_get_block:
  assumes ok: "kernel_ok s L" and fm: "fmp_ok s L" and id: "id_fmp (fmp s f) = TN_ID_FSMEMORYPOOL"
    and ctx: "\<not> check_non_int_context s" and c: "curr_ok s" and o: "other_ready s"
    and t: "tn_curr_run_task s = Some t" and tmo: "tmo \<noteq> 0"
  shows "case free_blocks s f of
      b # bs \<Rightarrow> \<exists>s'. tn_fmem_get (Some f) True tmo s = Some (Done TERR_NO_ERR (Some b), s') \<and> kernel_ok s' L \<and>
        fmp_ok s' L \<and> free_blocks s' f = bs \<and> b \<in> set (blocks (fmp s f)) \<and> b \<notin> set bs \<and>
        tcb s' = tcb s \<and> mem s' = mem s \<and> cpsr s' = cpsr s
    | [] \<Rightarrow> \<exists>s' L'. tn_fmem_get (Some f) True tmo s = Some (Switch RetDataElem, s') \<and> kernel_ok s' L' \<and>
        fmp_ok s' L' \<and> curr_ok s' \<and> tn_curr_run_task s' \<noteq> Some t \<and> L' (FmpWaitQ f) = L (FmpWaitQ f) @ [TaskQ t] \<and>
        tcb s' = (tcb s)(t := wait_tcb (Some (FmpWaitQ f)) TSK_WAIT_REASON_WFIXMEM tmo (tcb s t))"
proof -
  let ?s = "s\<lparr>cpsr := cpsr s OR 0xC0\<rparr>"
  have p: "pool_ok s L f" using fm id by (simp add: fmp_ok_def)
  note enter = tn_fmem_get_def id ctx tmo save_sr_eq fm_get_def
  show ?thesis
  proof (cases "free_blocks s f")
    case (Cons b bs)
    have n: "fblkcnt (fmp s f) > 0" using pool_free(1) [OF p] Cons by simp
    then obtain k where k: "nat (fblkcnt (fmp s f)) = Suc k" by (cases "nat (fblkcnt (fmp s f))") auto
    then have b: "free_list (fmp s f) = b" "walk k (mem s) (mem s b) = bs" "nat (fblkcnt (fmp s f) - 1) = k"
      using Cons by (auto simp: free_blocks_def)
    have bb: "b \<in> set (blocks (fmp s f))" "b \<notin> set bs" using p Cons by (auto simp: pool_ok_def)
    have b0: "b \<noteq> 0" by (rule pool_free(2) [OF p bb(1)])
    let ?s' = "upd_fmp f (\<lambda>x. x\<lparr>free_list := mem s b, fblkcnt := fblkcnt x - 1\<rparr>) s"
    have "tn_fmem_get (Some f) True tmo s = Some (Done TERR_NO_ERR (Some b), ?s')"
      using n b b0 restore_sr_eq [of "?s'\<lparr>cpsr := cpsr s OR 0xC0\<rparr>" "cpsr s"] by (simp add: enter)
    moreover have fb: "free_blocks ?s' f = bs" using b by (simp add: free_blocks_def)
    moreover have "fmp_ok ?s' L"
    proof (rule fmp_ok_step [OF fm id])
      show "pool_ok ?s' L f" using p n fb Cons by (auto simp: pool_ok_def blocks_def)
    qed (simp_all add: blocks_def)
    ultimately show ?thesis using ok bb Cons by (auto simp: fun_eq_iff)
  next
    case Nil
    have n: "fblkcnt (fmp s f) = 0" using pool_free(1) [OF p] Nil p by (simp add: pool_ok_def)
    have pre: "kernel_ok ?s L" "curr_ok ?s" "other_ready ?s" "id_fmp (fmp ?s f) = TN_ID_FSMEMORYPOOL"
      "cpsr ?s = cpsr s OR 0xC0" "tn_curr_run_task ?s = Some t"
      using c o id t ok by simp_all
    obtain s1 s' L' where w: "task_curr_to_wait_action (Some (FmpWaitQ f)) TSK_WAIT_REASON_WFIXMEM tmo ?s = Some s1"
      "leave_switch (cpsr s) RetDataElem s1 = Some (Switch RetDataElem, s')" "kernel_ok s' L'" "curr_ok s'"
      "tcb s' = (tcb ?s)(t := wait_tcb (Some (FmpWaitQ f)) TSK_WAIT_REASON_WFIXMEM tmo (tcb ?s t))"
      "same_objects ?s s'" "tn_curr_run_task s' \<noteq> Some t"
      "\<forall>q. wait_head q \<longrightarrow> L' q = (if q = FmpWaitQ f then L q @ [TaskQ t] else L q)"
      using fm.wait_switch [OF pre, of tmo RetDataElem] by blast
    have mm: "fmp s' = fmp s" "mem s' = mem s" using w(6) by (simp_all add: same_objects_def)
    then have "free_blocks s' f = []" using Nil by (simp add: free_blocks_def)
    then have "pool_ok s' L' f" using p mm Nil by (simp add: pool_ok_def)
    then have "fmp_ok s' L'" using w(8) mm by (intro fmp_ok_step [OF fm id]) simp_all
    moreover have "tn_fmem_get (Some f) True tmo s = Some (Switch RetDataElem, s')"
      using n w(1,2) by (simp add: enter)
    ultimately show ?thesis using w Nil by auto
  qed
qed

lemma release_room:
  assumes p: "pool_ok s L f" and b: "b \<in> set (blocks (fmp s f))" "b \<notin> set (free_blocks s f)"
  shows "fblkcnt (fmp s f) < num_blocks (fmp s f)" "0 \<le> fblkcnt (fmp s f)"
proof -
  have g: "geometry_ok (start_addr (fmp s f)) (block_size (fmp s f)) (nat (num_blocks (fmp s f)))"
    using p by (simp add: pool_ok_def)
  have "set (free_blocks s f) \<subset> set (blocks (fmp s f))" using p b by (auto simp: pool_ok_def)
  then have "card (set (free_blocks s f)) < card (set (blocks (fmp s f)))" by (intro psubset_card_mono) simp_all
  then have "length (free_blocks s f) < length (blocks (fmp s f))"
    using p distinct_blocks [OF g] by (simp add: distinct_card pool_ok_def)
  then show "fblkcnt (fmp s f) < num_blocks (fmp s f)" "0 \<le> fblkcnt (fmp s f)"
    using pool_free(1) [OF p] p by (simp_all add: blocks_def pool_ok_def)
qed

lemma walk_poke:
  assumes "b \<notin> set (free_blocks s f)"
  shows "walk (nat (fblkcnt (fmp s f))) ((mem s)(b := v)) (free_list (fmp s f)) = free_blocks s f"
  unfolding free_blocks_def using assms by (intro walk_cong) (auto simp: free_blocks_def)

text \<open>C20. A block that is not free goes to the first task that waits for one, which gets its address;
  if none waits it becomes the first free block. The count can not reach its limit then.\<close>

theorem fmem_release_block:
  assumes ok: "kernel_ok s L" and fm: "fmp_ok s L" and id: "id_fmp (fmp s f) = TN_ID_FSMEMORYPOOL"
    and ctx: "\<not> check_non_int_context s" and b: "b \<in> set (blocks (fmp s f))" "b \<notin> set (free_blocks s f)"
  shows "case L (FmpWaitQ f) of
      [] \<Rightarrow> \<exists>s'. tn_fmem_release (Some f) b s = Some (ret TERR_NO_ERR, s') \<and> kernel_ok s' L \<and> fmp_ok s' L \<and>
        free_blocks s' f = b # free_blocks s f \<and> tcb s' = tcb s \<and> cpsr s' = cpsr s
    | e # es \<Rightarrow> \<exists>u r s' L'. e = TaskQ u \<and> tn_fmem_release (Some f) b s = Some (r, s') \<and> kernel_ok s' L' \<and>
        fmp_ok s' L' \<and> free_blocks s' f = [] \<and> L' (FmpWaitQ f) = es \<and>
        tcb s' = (tcb s)(u := complete_tcb ((tcb s u)\<lparr>data_elem := b\<rparr>)) \<and>
        r = (if task_state (tcb s u) = TSK_STATE_WAIT then Switch RetNoErr else ret TERR_NO_ERR)"
proof -
  let ?s = "s\<lparr>cpsr := cpsr s OR 0xC0\<rparr>"
  have p: "pool_ok s L f" using fm id by (simp add: fmp_ok_def)
  have b0: "b \<noteq> 0" by (rule pool_free(2) [OF p b(1)])
  note enter = tn_fmem_release_def id ctx b0 save_sr_eq kernel_live_fmp [OF ok id]
  show ?thesis
  proof (cases "L (FmpWaitQ f)")
    case Nil
    note n = release_room [OF p b]
    let ?s' = "(upd_fmp f (\<lambda>x. x\<lparr>free_list := b, fblkcnt := fblkcnt x + 1\<rparr>) s)
        \<lparr>mem := (mem s)(b := free_list (fmp s f))\<rparr>"
    have "tn_fmem_release (Some f) b s = Some (ret TERR_NO_ERR, ?s')"
      using n Nil by (simp add: enter fm_put_def leave_eq)
    moreover have fb: "free_blocks ?s' f = b # free_blocks s f"
      using n walk_poke [OF b(2)] by (simp add: free_blocks_def nat_add_distrib)
    moreover have "fmp_ok ?s' L"
    proof (rule fmp_ok_step [OF fm id])
      show "pool_ok ?s' L f" using p n fb b Nil by (auto simp: pool_ok_def blocks_def)
    qed (use b in \<open>auto simp: blocks_def\<close>)
    ultimately show ?thesis using ok Nil by (auto simp: fun_eq_iff)
  next
    case (Cons e es)
    let ?f = "\<lambda>y. y\<lparr>data_elem := b\<rparr>"
    have pre: "kernel_ok ?s L" "id_fmp (fmp ?s f) = TN_ID_FSMEMORYPOOL" "cpsr ?s = cpsr s OR 0xC0" using ok id by simp_all
    have sf: "same_sched_fields (?f (tcb ?s u)) (tcb ?s u)" for u by (simp add: same_sched_fields_def)
    obtain u h1 s2 s' L' where w: "e = TaskQ u" "dequeue_task (FmpWaitQ f) ?s = Some (Some u, ?s\<lparr>qh := h1\<rparr>)"
      "task_wait_complete (Some u) (upd_tcb u ?f (?s\<lparr>qh := h1\<rparr>)) = Some (task_state (tcb ?s u) = TSK_STATE_WAIT, s2)"
      "(if task_state (tcb ?s u) = TSK_STATE_WAIT then leave_switch (cpsr s) RetNoErr s2 else leave (cpsr s) TERR_NO_ERR s2) =
        Some (if task_state (tcb ?s u) = TSK_STATE_WAIT then Switch RetNoErr else ret TERR_NO_ERR, s')"
      "kernel_ok s' L'" "tcb s' = (tcb ?s)(u := complete_tcb (?f (tcb ?s u)))" "same_objects ?s s'"
      "\<forall>q. wait_head q \<longrightarrow> L' q = (if q = FmpWaitQ f then es else L q)"
      using fm.wake_leave [where f = ?f, OF pre(1,2) Cons pre(3) sf] by blast
    have mm: "fmp s' = fmp s" "mem s' = mem s" using w(7) by (simp_all add: same_objects_def)
    have fb: "free_blocks s f = []" "free_blocks s' f = []" using p Cons mm by (auto simp: pool_ok_def free_blocks_def)
    then have "pool_ok s' L' f" using p mm by (simp add: pool_ok_def)
    then have "fmp_ok s' L'" using w(8) mm by (intro fmp_ok_step [OF fm id]) simp_all
    moreover have "tn_fmem_release (Some f) b s =
        Some (if task_state (tcb ?s u) = TSK_STATE_WAIT then Switch RetNoErr else ret TERR_NO_ERR, s')"
      using w(2-4) Cons by (simp add: enter)
    ultimately show ?thesis using w(1,5,6,8) fb Cons by auto
  qed
qed

lemma demo_fmp: "fmp_ok demo demo_lists"
proof -
  have ids: "id_fmp (fmp demo f) = TN_ID_FSMEMORYPOOL \<longleftrightarrow> f = 0 \<or> f = 1" for f by (simp add: demo_def)
  have b: "blocks (fmp demo 0) = [0x3000, 0x3010]" "blocks (fmp demo 1) = [0x4000, 0x4010]"
    by (simp_all add: demo_def blocks_def block_def upt_rec)
  have f: "free_blocks demo 0 = []" "free_blocks demo 1 = [0x4000, 0x4010]"
    by (simp_all add: demo_def free_blocks_def numeral_2_eq_2)
  have "pool_ok demo demo_lists 0" "pool_ok demo demo_lists 1"
    unfolding pool_ok_def b f by (simp_all add: demo_wait_lists demo_def geometry_ok_def)
  then show ?thesis using b by (auto simp: fmp_ok_def ids)
qed

lemma demo_pools:
  "id_fmp (fmp demo 0) = TN_ID_FSMEMORYPOOL" "id_fmp (fmp demo 1) = TN_ID_FSMEMORYPOOL"
  "free_blocks demo 1 = [0x4000, 0x4010]" "0x3010 \<in> set (blocks (fmp demo 0))" "0x3010 \<notin> set (free_blocks demo 0)"
  "task_state (tcb demo 7) = TSK_STATE_WAIT"
  by (simp_all add: demo_def free_blocks_def numeral_2_eq_2 blocks_def block_def upt_rec demo_tcb_def demo_task_def)

theorem fmem_get_block_witness:
  "\<exists>s'. tn_fmem_get (Some 1) True 5 demo = Some (Done TERR_NO_ERR (Some 0x4000), s') \<and> free_blocks s' 1 = [0x4010]"
  using fmem_get_block [OF demo_ok demo_fmp demo_pools(2) demo_curr(4,1,2,3), of 5, unfolded demo_pools(3) list.case]
  by auto

theorem fmem_release_block_witness:
  "\<exists>s'. tn_fmem_release (Some 0) 0x3010 demo = Some (Switch RetNoErr, s') \<and> data_elem (tcb s' 7) = 0x3010 \<and>
     task_state (tcb s' 7) = TSK_STATE_RUNNABLE"
proof -
  have L: "demo_lists (FmpWaitQ 0) = [TaskQ 7]" by (simp add: demo_wait_lists)
  show ?thesis
    using fmem_release_block [OF demo_ok demo_fmp demo_pools(1) demo_curr(4) demo_pools(4,5), unfolded L list.case]
    by (auto simp: complete_tcb_def demo_pools(6))
qed

end
