(* ===== verification/TN_System.thy ===== *)
theory TN_System
  imports TN_Tasks TN_Sem TN_Event TN_Dqueue TN_Mem
begin

text \<open>
  The system module, \<^verbatim>\<open>TNKernel/tn.c\<close>: start of the system, the timer and idle tasks, the time
  slices and the processing of a timer tick; and the continuation of a service call that had
  given the processor away.

  The two task control blocks of the module are the tasks 0 and 1. The addresses of their
  functions and stacks, which the linker chooses, are arguments.
\<close>

section \<open>Start\<close>

abbreviation (input) tn_timer_task :: tid where "tn_timer_task \<equiv> 0"
abbreviation (input) tn_idle_task :: tid where "tn_idle_task \<equiv> 1"

record link_addresses =
  timer_func :: u32
  timer_stack :: u32   \<comment> \<open>\<open>&tn_timer_task_stack[TN_TIMER_STACK_SIZE-1]\<close>\<close>
  idle_func :: u32
  idle_stack :: u32

fun reset_ready_lists :: "nat \<Rightarrow> kernel \<Rightarrow> kernel" where
  "reset_ready_lists 0 s = s"
| "reset_ready_lists (Suc n) s =
     (let s = reset_ready_lists n s
      in s\<lparr>qh := queue_reset (ReadyList (int n)) (qh s),
           tn_tslice_ticks := (tn_tslice_ticks s)(int n := NO_TIME_SLICE)\<rparr>)"

definition tn_start_system :: "link_addresses \<Rightarrow> kernel \<Rightarrow> kernel option" where
  "tn_start_system k s =
     do {
       let s = reset_ready_lists 32 s;
       let s = s\<lparr>qh := queue_reset CreateQueue (qh s), tn_created_tasks_qty := 0,
                 tn_system_state := TN_ST_STATE_NOT_RUN, tn_enable_switch_context := 1,
                 tn_ready_to_run_bmp := 0, tn_context_switch_request := 0, tn_int_counter := 0,
                 tn_next_task_to_run := None, tn_curr_run_task := None\<rparr>;
       let s = s\<lparr>qh := queue_reset TimeoutList (queue_reset BlockedTasks
                         (queue_reset LockedMutexes (qh s)))\<rparr>;
       (r, s) \<leftarrow> tn_task_create (Some tn_timer_task) (timer_func k) 0 (timer_stack k)
                  TN_TIMER_STACK_SIZE 0 TN_TASK_TIMER s;
       (r, s) \<leftarrow> tn_task_create (Some tn_idle_task) (idle_func k) (TN_NUM_PRIORITY - 1) (idle_stack k)
                  TN_IDLE_STACK_SIZE 0 TN_TASK_IDLE s;
       s \<leftarrow> task_to_runnable tn_idle_task s;
       s \<leftarrow> task_to_runnable tn_timer_task s;
       tn_start_exe (s\<lparr>tn_curr_run_task := Some tn_idle_task\<rparr>)
     }"

text \<open>The timer task runs the application's initialisation and enables the interrupts, both
  outside this directory, and then sleeps for ever; every turn of its loop is one \<open>tn_task_sleep\<close>.
  The idle task counts.\<close>

definition tn_timer_task_func ::
    "(kernel \<Rightarrow> kernel option) \<Rightarrow> (kernel \<Rightarrow> kernel option) \<Rightarrow> kernel \<Rightarrow> (outcome \<times> kernel) option" where
  "tn_timer_task_func tn_app_init tn_cpu_int_enable s =
     do {
       s \<leftarrow> tn_app_init s;
       s \<leftarrow> tn_cpu_int_enable s;
       tn_task_sleep TN_WAIT_INFINITE s
     }"

definition tn_idle_task_func :: "kernel \<Rightarrow> kernel" where
  "tn_idle_task_func s = s\<lparr>tn_idle_count := tn_idle_count s + 1\<rparr>"

section \<open>Time slices\<close>

definition tn_sys_tslice_ticks :: "int \<Rightarrow> int \<Rightarrow> kernel \<Rightarrow> (outcome \<times> kernel) option" where
  "tn_sys_tslice_ticks prio val s =
     (if check_non_int_context s then Some (ret TERR_WCONTEXT, s)
      else do {
        let (sr, s) = tn_cpu_save_sr s;
        (if prio \<le> 0 \<or> prio \<ge> TN_NUM_PRIORITY - 1 \<or> val < 0 \<or> val > MAX_TIME_SLICE
         then Some (ret TERR_WRONG_PARAM, s)
         else leave sr TERR_NO_ERR (s\<lparr>tn_tslice_ticks := (tn_tslice_ticks s)(prio := word_of_int val)\<rparr>))
      })"

section \<open>The timer tick\<close>

text \<open>Round robin: the running task's counter, and the rotation of the ready list of its priority.\<close>

definition round_robin :: "kernel \<Rightarrow> kernel option" where
  "round_robin s =
     do {
       curr \<leftarrow> tn_curr_run_task s;
       let prio = priority (tcb s curr);
       pri_queue \<leftarrow> ready_list prio;
       (if tn_tslice_ticks s prio \<noteq> NO_TIME_SLICE then
          do {
            let s = upd_tcb curr (\<lambda>t. t\<lparr>tslice_count := tslice_count t + 1\<rparr>) s;
            (if tslice_count (tcb s curr) > uint (tn_tslice_ticks s prio) then
               do {
                 let s = upd_tcb curr (\<lambda>t. t\<lparr>tslice_count := 0\<rparr>) s;
                 (if \<not> is_queue_empty pri_queue (qh s) then
                    do {
                      nx \<leftarrow> q_next (qh s pri_queue);
                      (if q_next (qh s nx) \<noteq> Some pri_queue then
                         do {
                           (que, h) \<leftarrow> queue_remove_tail pri_queue (qh s);
                           e \<leftarrow> que;
                           h \<leftarrow> queue_add_head pri_queue e h;
                           Some (s\<lparr>qh := h\<rparr>)
                         }
                       else Some s)
                    }
                  else Some s)
               }
             else Some s)
          }
        else Some s)
     }"

text \<open>One entry of the list of timeouts. \<open>tick_count\<close> is a signed field.\<close>

definition tick_task :: "tid \<Rightarrow> kernel \<Rightarrow> kernel option" where
  "tick_task task s =
     (if 0 <s tick_count (tcb s task) \<and> tick_count (tcb s task) \<noteq> TN_WAIT_INFINITE then
        do {
          let s = upd_tcb task (\<lambda>t. t\<lparr>tick_count := tick_count t - 1\<rparr>) s;
          (if tick_count (tcb s task) = 0 then
             do {
               (sw, s) \<leftarrow> task_wait_complete (Some task) s;
               Some (if sw then upd_tcb task (\<lambda>t. t\<lparr>task_wait_rc := TERR_TIMEOUT\<rparr>) (request_switch s) else s)
             }
           else Some s)
        }
      else Some s)"

partial_function (option) tick_loop :: "qptr \<Rightarrow> kernel \<Rightarrow> kernel option" where
  "tick_loop curr_que s =
     do {
       tp \<leftarrow> get_task_by_timer_queque curr_que;
       t \<leftarrow> tp;
       c \<leftarrow> curr_que;
       s \<leftarrow> tick_task t s;
       (if q_next (qh s c) = Some TimeoutList then Some s
        else tick_loop (q_next (qh s c)) s)
     }"

definition tn_tick_int_processing :: "kernel \<Rightarrow> kernel option" where
  "tn_tick_int_processing s =
     (if check_int_context s then Some s
      else do {
        s \<leftarrow> round_robin s;
        (if \<not> is_queue_empty TimeoutList (qh s) then tick_loop (q_next (qh s TimeoutList)) s
         else Some s)
      })"

section \<open>The rest of a call after the switch\<close>

definition resume :: "cont \<Rightarrow> kernel \<Rightarrow> (outcome \<times> kernel) option" where
  "resume c s =
     do {
       curr \<leftarrow> tn_curr_run_task s;
       (case c of
          RetNoErr \<Rightarrow> Some (ret TERR_NO_ERR, s)
        | RetNoErrOut v \<Rightarrow> Some (Done TERR_NO_ERR (Some v), s)
        | RetWaitRc \<Rightarrow> Some (ret (task_wait_rc (tcb s curr)), s)
        | RetDataElem \<Rightarrow> Some (Done (task_wait_rc (tcb s curr)) (Some (data_elem (tcb s curr))), s)
        | RetEventPattern \<Rightarrow>
            Some (Done (task_wait_rc (tcb s curr))
                    (if task_wait_rc (tcb s curr) = TERR_NO_ERR
                     then Some (ewait_pattern (tcb s curr)) else None), s)
        | SemDeleteLoop i sr \<Rightarrow> sem_delete_loop i sr s
        | EventDeleteLoop i sr \<Rightarrow> event_delete_loop i sr s
        | DqueDeleteSend i sr \<Rightarrow> dque_delete_send_loop i sr s
        | DqueDeleteRecv i sr \<Rightarrow> dque_delete_recv_loop i sr s
        | FmpDeleteLoop i sr \<Rightarrow> fmem_delete_loop i sr s
        | MutexDeleteLoop i sr \<Rightarrow> mutex_delete_loop i sr s)
     }"

end
