(* ===== verification/TN_Tick.thy ===== *)
theory TN_Tick
  imports TN_Task_Inv TN_System
begin

text \<open>
  The timer tick, \<open>tn_tick_int_processing\<close>: the round robin rotates the ready list of the running task,
  and the loop over the list of timeouts counts every entry down and ends the waits that are over. The last section shows what a tick does to a
  wait for a semaphore that runs out.
\<close>

section \<open>A wait that is timed\<close>

lemma timed_entry:
  assumes ok: "kernel_ok s L" and e: "e \<in> set (L TimeoutList)"
  shows "\<exists>t. e = TimerQ t \<and> is_task s t \<and> tick_count (tcb s t) \<noteq> TN_WAIT_INFINITE \<and>
    (task_state (tcb s t) = TSK_STATE_WAIT \<or> task_state (tcb s t) = TSK_STATE_WAITSUSP)"
proof -
  have h: "home s e = Some TimeoutList" using kernel_entry [OF ok, of TimeoutList e] e by simp
  show ?thesis
  proof (cases e)
    case (TimerQ t)
    then have t: "is_task s t" "tick_count (tcb s t) \<noteq> TN_WAIT_INFINITE" using h by (simp_all add: timer_home_def split: if_splits)
    then show ?thesis using kernel_task [OF ok t(1)] TimerQ by (auto simp: task_fields_ok_def split: if_splits)
  next
    case (TaskQ t)
    then have t: "is_task s t" "task_home (tcb s t) = Some TimeoutList" using h by (simp_all split: if_splits)
    then show ?thesis using kernel_task [OF ok t(1)] by (auto simp: task_home_def task_fields_ok_def split: if_splits)
  qed (use h in \<open>simp_all add: block_home_def mutex_home_def lock_home_def split: if_splits\<close>)
qed

text \<open>The count of a timed wait can be any number that is not infinite.\<close>

lemma kernel_tick_count:
  assumes ok: "kernel_ok s L" and t: "is_task s t" "tick_count (tcb s t) \<noteq> TN_WAIT_INFINITE" and c: "c \<noteq> TN_WAIT_INFINITE"
  shows "kernel_ok (upd_tcb t (\<lambda>x. x\<lparr>tick_count := c\<rparr>) s) L"
proof -
  let ?f = "\<lambda>x. x\<lparr>tick_count := c\<rparr>"
  let ?s = "upd_tcb t ?f s"
  have hd: "heads ?s = heads s" by simp
  have "home ?s = home s"
    using t c by (auto simp: home_upd_tcb fun_eq_iff task_home_def timer_home_def block_home_def)
  moreover have "task_fields_ok s (?f (tcb s t))"
    using kernel_task [OF ok t(1)] t(2) by (auto simp: task_fields_ok_def split: if_splits option.splits)
  ultimately show ?thesis
    using ok sched_upd_tcb [of s L "home s" ?f t] by (auto simp: kernel_ok_def task_fields_cong [OF hd])
qed

text \<open>The loop over the list of timeouts reads the cell of a task after the end of its wait.\<close>

lemma complete_timer_cell:
  assumes ok: "kernel_ok s L" and t: "is_task s u" "task_wait_reason (tcb s u) = TSK_WAIT_REASON_SLEEP"
    and L: "L TimeoutList = ys @ TimerQ u # zs" and run: "task_wait_complete (Some u) s = Some (b, s')"
  shows "q_next (qh s' (TimerQ u)) = Some (hd (zs @ [TimeoutList]))"
proof -
  note pl = kernel_placed [OF ok]
  have nm: "\<not> waits_for_mutex (tcb s u)" using t(2) by (simp add: waits_for_mutex_def)
  have tk: "tick_count (tcb s u) \<noteq> TN_WAIT_INFINITE" using timed_entry [OF ok, of "TimerQ u"] L by auto
  have pr: "0 \<le> priority (tcb s u)" "priority (tcb s u) < TN_NUM_PRIORITY"
    using kernel_task [OF ok t(1)] by (simp_all add: task_fields_ok_def)
  let ?p = "priority (tcb s u)"
  have c: "cdll (qh s) TimeoutList (ys @ TimerQ u # zs)" using lists_ok_cdll [OF placed_lists_ok [OF pl], of TimeoutList] L by simp
  obtain h1 where h1: "queue_remove_entry (TimerQ u) (qh s) = Some h1"
    "\<And>a. a \<notin> set (TimeoutList # ys @ zs) \<Longrightarrow> h1 a = qh s a" using queue_remove_entry_cdll [OF c] by auto
  have nx: "q_next (qh s (TimerQ u)) = Some (hd (zs @ [TimeoutList]))" by (rule cdll_next_entry [OF c])
  have "TimerQ u \<notin> set (TimeoutList # ys @ zs)" using cdll_distinct [OF c] by auto
  then have n1: "q_next (h1 (TimerQ u)) = Some (hd (zs @ [TimeoutList]))" using h1(2) nx by simp
  have hm: "home s (TimerQ u) = Some TimeoutList" using kernel_entry [OF ok, of TimeoutList "TimerQ u"] L by simp
  obtain h1' where h1': "queue_remove_entry (TimerQ u) (qh s) = Some h1'"
    "placed h1' (heads s) (L(TimeoutList := remove1 (TimerQ u) (L TimeoutList))) ((home s)(TimerQ u := None))"
    using placed_remove_entry [OF pl _ hm] by auto
  have "cdll h1 (ReadyList ?p) (L (ReadyList ?p))"
    using lists_ok_cdll [OF placed_lists_ok [OF h1'(2)], of "ReadyList ?p"] pr h1(1) h1'(1) by simp
  moreover have "TimerQ u \<notin> set (L (ReadyList ?p))" using kernel_entry [OF ok, of "ReadyList ?p" "TimerQ u"] hm pr by auto
  moreover have "TaskQ u \<notin> set (L (ReadyList ?p))" if "task_state (tcb s u) \<noteq> TSK_STATE_RUNNABLE"
  proof -
    have "home s (TaskQ u) \<noteq> Some (ReadyList ?p)"
      using kernel_task [OF ok t(1)] that t(1) by (auto simp: task_home_def task_fields_ok_def split: if_splits)
    then show ?thesis using kernel_entry [OF ok, of "ReadyList ?p" "TaskQ u"] pr by auto
  qed
  moreover have "task_state (tcb s u) \<noteq> TSK_STATE_RUNNABLE" using timed_entry [OF ok, of "TimerQ u"] L by auto
  ultimately obtain h2 where h2: "queue_add_tail (ReadyList ?p) (TaskQ u) h1 = Some h2" "h2 (TimerQ u) = h1 (TimerQ u)"
    using queue_add_tail_cdll [of h1 "ReadyList ?p" "L (ReadyList ?p)" "TaskQ u"] by auto
  show ?thesis
    using run nm tk h1(1) h2 n1 pr
    by (auto simp: task_wait_complete_def Let_def upd_qh_def task_to_runnable_def ready_list_def upd_upd
        split: if_splits option.splits bind_splits)
qed

section \<open>One entry\<close>

text \<open>What a tick does to the control block of a task that is timed; the count is signed.\<close>

definition ticked :: "tn_tcb \<Rightarrow> tn_tcb" where
  "ticked x =
     (if 0 <s tick_count x \<and> tick_count x \<noteq> TN_WAIT_INFINITE then
        if tick_count x = 1 then
          if task_state x = TSK_STATE_WAIT then (complete_tcb x)\<lparr>task_wait_rc := TERR_TIMEOUT\<rparr> else complete_tcb x
        else x\<lparr>tick_count := tick_count x - 1\<rparr>
      else x)"

definition over :: "tn_tcb \<Rightarrow> bool" where
  "over x \<longleftrightarrow> tick_count x = 1"

text \<open>The tick changes control blocks, lists, and the request for a switch, and nothing else.\<close>

definition tick_frame :: "kernel \<Rightarrow> kernel \<Rightarrow> bool" where
  "tick_frame s s' \<longleftrightarrow> same_objects (s\<lparr>tn_context_switch_request := tn_context_switch_request s'\<rparr>) s' \<and>
     tn_curr_run_task s' = tn_curr_run_task s \<and> cpsr s' = cpsr s"

lemma tick_frame_refl: "tick_frame s s"
  by (simp add: tick_frame_def same_objects_def)

lemma tick_frame_trans: "tick_frame s s' \<Longrightarrow> tick_frame s' s'' \<Longrightarrow> tick_frame s s''"
  by (simp add: tick_frame_def same_objects_def)

lemma tick_task_ok:
  assumes ok: "kernel_ok s L" and L: "L TimeoutList = ys @ TimerQ t # zs"
    and sl: "over (tcb s t) \<Longrightarrow> task_wait_reason (tcb s t) = TSK_WAIT_REASON_SLEEP"
  shows "\<exists>s' L'. tick_task t s = Some s' \<and> kernel_ok s' L' \<and> tcb s' = (tcb s)(t := ticked (tcb s t)) \<and> tick_frame s s' \<and>
    (\<forall>q. plain_head q \<longrightarrow> L' q = L q) \<and>
    L' TimeoutList = ys @ (if over (tcb s t) then zs else TimerQ t # zs) \<and>
    q_next (qh s' (TimerQ t)) = Some (hd (zs @ [TimeoutList])) \<and>
    tn_context_switch_request s' = (if over (tcb s t) \<and> task_state (tcb s t) = TSK_STATE_WAIT then 1 else tn_context_switch_request s)"
proof -
  have t: "is_task s t" "tick_count (tcb s t) \<noteq> TN_WAIT_INFINITE"
    "task_state (tcb s t) = TSK_STATE_WAIT \<or> task_state (tcb s t) = TSK_STATE_WAITSUSP"
    using timed_entry [OF ok, of "TimerQ t"] L by auto
  let ?c = "tick_count (tcb s t)"
  let ?f = "\<lambda>x. x\<lparr>tick_count := tick_count x - 1\<rparr>"
  have one_pos: "(0 :: u32) <s 1" by (simp add: word_sless_alt)
  consider (still) "\<not> 0 <s ?c" | (down) "0 <s ?c" "?c \<noteq> 1" | (last) "?c = 1" by blast
  then show ?thesis
  proof cases
    case still
    have "\<not> over (tcb s t)" using still one_pos by (auto simp: over_def)
    then show ?thesis using still ok L t placed_next_entry [OF kernel_placed [OF ok] _ L]
      by (intro exI [of _ s] exI [of _ L]) (simp add: tick_task_def ticked_def tick_frame_refl)
  next
    case down
    have "?c = 0" if "?c - 1 = TN_WAIT_INFINITE"
    proof -
      have m: "(TN_WAIT_INFINITE :: u32) = - 1" by simp
      have "?c = (?c - 1) + 1" by simp
      also have "\<dots> = - 1 + 1" unfolding that m ..
      finally show ?thesis by (simp only: left_minus)
    qed
    moreover have "?c \<noteq> 0" using down(1) by auto
    moreover have "?c - 1 \<noteq> 0" using down(2) by auto
    ultimately have nz: "?c - 1 \<noteq> 0" "?c - 1 \<noteq> TN_WAIT_INFINITE" by blast+
    let ?g = "\<lambda>x. x\<lparr>tick_count := ?c - 1\<rparr>"
    have eq: "upd_tcb t ?f s = upd_tcb t ?g s" by (rule upd_cong(1)) simp
    have "kernel_ok (upd_tcb t ?f s) L" unfolding eq by (rule kernel_tick_count [OF ok t(1,2) nz(2)])
    moreover have "tick_task t s = Some (upd_tcb t ?f s)" using down t nz by (simp add: tick_task_def)
    moreover have "tcb (upd_tcb t ?f s) = (tcb s)(t := ticked (tcb s t))" using down t by (simp add: fun_eq_iff ticked_def)
    moreover have "tick_frame s (upd_tcb t ?f s)" by (simp add: tick_frame_def same_objects_def)
    moreover have "\<not> over (tcb s t)" using down by (simp add: over_def)
    ultimately show ?thesis using L placed_next_entry [OF kernel_placed [OF ok] _ L]
      by (intro exI [of _ "upd_tcb t ?f s"] exI [of _ L]) simp
  next
    case last
    let ?g = "\<lambda>x. x\<lparr>tick_count := 0\<rparr>"
    let ?s = "upd_tcb t ?g s"
    have eq: "upd_tcb t ?f s = ?s" using last by (intro upd_cong(1)) simp
    have ov: "over (tcb s t)" using last by (simp add: over_def)
    have ok1: "kernel_ok ?s L" by (rule kernel_tick_count [OF ok t(1,2)]) simp
    have pre: "is_task ?s t" "task_state (tcb ?s t) = TSK_STATE_WAIT \<or> task_state (tcb ?s t) = TSK_STATE_WAITSUSP"
      "task_wait_reason (tcb ?s t) = TSK_WAIT_REASON_SLEEP" using t sl [OF ov] by simp_all
    obtain s1 where s1: "task_wait_complete (Some t) ?s = Some (task_state (tcb ?s t) = TSK_STATE_WAIT, s1)"
      "kernel_ok s1 (complete_lists t (tcb ?s t) L)" "tcb s1 = (tcb ?s)(t := complete_tcb (tcb ?s t))" "same_objects ?s s1"
      "tn_curr_run_task s1 = tn_curr_run_task ?s" "cpsr s1 = cpsr ?s" using wake_sleeper [OF ok1 pre] by blast
    have nx: "q_next (qh s1 (TimerQ t)) = Some (hd (zs @ [TimeoutList]))" by (rule complete_timer_cell [OF ok1 pre(1,3) L s1(1)])
    have rm: "complete_lists t (tcb ?s t) L TimeoutList = ys @ zs"
      using placed_distinct [OF kernel_placed [OF ok], of TimeoutList] L by (simp add: complete_lists_def Let_def remove1_append)
    let ?h = "\<lambda>x. x\<lparr>task_wait_rc := TERR_TIMEOUT\<rparr>"
    let ?s' = "if task_state (tcb s t) = TSK_STATE_WAIT then upd_tcb t ?h (request_switch s1) else s1"
    have "kernel_ok (upd_tcb t ?h (s1\<lparr>tn_context_switch_request := 1\<rparr>)) (complete_lists t (tcb ?s t) L)"
      using s1(2) by (intro kernel_upd_tcb) (simp_all add: same_sched_fields_def)
    then have "kernel_ok ?s' (complete_lists t (tcb ?s t) L)" using s1(2) by (simp add: request_switch_def)
    moreover have "tick_task t s = Some ?s'" using last eq s1(1) one_pos by (simp add: tick_task_def)
    moreover have "tcb ?s' = (tcb s)(t := ticked (tcb s t))"
      using s1(3) last one_pos by (auto simp: fun_eq_iff ticked_def complete_tcb_def request_switch_def)
    moreover have "tick_frame s ?s'" using s1(4-6) by (auto simp: tick_frame_def same_objects_def request_switch_def)
    moreover have "tn_context_switch_request s1 = tn_context_switch_request s" using s1(4) by (simp add: same_objects_def)
    ultimately show ?thesis using rm nx ov
      by (intro exI [of _ ?s'] exI [of _ "complete_lists t (tcb ?s t) L"]) (simp add: request_switch_def)
  qed
qed

section \<open>The list of timeouts\<close>

definition timed_out :: "kernel \<Rightarrow> qaddr \<Rightarrow> bool" where
  "timed_out s e \<longleftrightarrow> (\<exists>t. e = TimerQ t \<and> over (tcb s t))"

lemma tick_loop_ok:
  assumes "kernel_ok s L" and "L TimeoutList = ys @ TimerQ t # zs"
    and "\<And>u. TimerQ u \<in> set (TimerQ t # zs) \<Longrightarrow> over (tcb s u) \<Longrightarrow> task_wait_reason (tcb s u) = TSK_WAIT_REASON_SLEEP"
  shows "\<exists>s' L'. tick_loop (Some (TimerQ t)) s = Some s' \<and> kernel_ok s' L' \<and> tick_frame s s' \<and>
    (\<forall>q. plain_head q \<longrightarrow> L' q = L q) \<and>
    tcb s' = (\<lambda>u. if TimerQ u \<in> set (TimerQ t # zs) then ticked (tcb s u) else tcb s u) \<and>
    L' TimeoutList = ys @ filter (\<lambda>e. \<not> timed_out s e) (TimerQ t # zs) \<and>
    tn_context_switch_request s' =
      (if \<exists>u. TimerQ u \<in> set (TimerQ t # zs) \<and> over (tcb s u) \<and> task_state (tcb s u) = TSK_STATE_WAIT then 1
       else tn_context_switch_request s)"
  using assms
proof (induction zs arbitrary: s L ys t)
  case Nil
  obtain s' L' where s': "tick_task t s = Some s'" "kernel_ok s' L'" "tcb s' = (tcb s)(t := ticked (tcb s t))" "tick_frame s s'"
    "L' TimeoutList = ys @ (if over (tcb s t) then [] else [TimerQ t])" "q_next (qh s' (TimerQ t)) = Some TimeoutList"
    "tn_context_switch_request s' = (if over (tcb s t) \<and> task_state (tcb s t) = TSK_STATE_WAIT then 1 else tn_context_switch_request s)"
    "\<forall>q. plain_head q \<longrightarrow> L' q = L q"
    using tick_task_ok [OF Nil.prems(1,2)] Nil.prems(3) by auto
  have "tick_loop (Some (TimerQ t)) s = Some s'" using s'(1,6) by (simp add: tick_loop.simps [of "Some (TimerQ t)"])
  then show ?case using s' by (intro exI [of _ s'] exI [of _ L']) (auto simp: timed_out_def fun_eq_iff)
next
  case (Cons e zs)
  note pl = kernel_placed [OF Cons.prems(1)]
  obtain v where e: "e = TimerQ v" using timed_entry [OF Cons.prems(1), of e] Cons.prems(2) by auto
  have dist: "TimerQ t \<notin> set (e # zs)" using placed_distinct [OF pl, of TimeoutList] Cons.prems(2) by simp
  obtain s1 L1 where s1: "tick_task t s = Some s1" "kernel_ok s1 L1" "tcb s1 = (tcb s)(t := ticked (tcb s t))" "tick_frame s s1"
    "L1 TimeoutList = ys @ (if over (tcb s t) then e # zs else TimerQ t # e # zs)" "q_next (qh s1 (TimerQ t)) = Some e"
    "tn_context_switch_request s1 = (if over (tcb s t) \<and> task_state (tcb s t) = TSK_STATE_WAIT then 1 else tn_context_switch_request s)"
    "\<forall>q. plain_head q \<longrightarrow> L1 q = L q"
    using tick_task_ok [OF Cons.prems(1,2)] Cons.prems(3) by auto
  let ?ys = "ys @ (if over (tcb s t) then [] else [TimerQ t])"
  have L1: "L1 TimeoutList = ?ys @ TimerQ v # zs" using s1(5) e by simp
  have other: "tcb s1 u = tcb s u" if "TimerQ u \<in> set (TimerQ v # zs)" for u using that dist e s1(3) by auto
  have sl: "task_wait_reason (tcb s1 u) = TSK_WAIT_REASON_SLEEP" if "TimerQ u \<in> set (TimerQ v # zs)" "over (tcb s1 u)" for u
    using Cons.prems(3) [of u] that other [OF that(1)] e by auto
  obtain s2 L2 where s2: "tick_loop (Some (TimerQ v)) s1 = Some s2" "kernel_ok s2 L2" "tick_frame s1 s2"
    "tcb s2 = (\<lambda>u. if TimerQ u \<in> set (TimerQ v # zs) then ticked (tcb s1 u) else tcb s1 u)"
    "L2 TimeoutList = ?ys @ filter (\<lambda>e. \<not> timed_out s1 e) (TimerQ v # zs)"
    "tn_context_switch_request s2 =
      (if \<exists>u. TimerQ u \<in> set (TimerQ v # zs) \<and> over (tcb s1 u) \<and> task_state (tcb s1 u) = TSK_STATE_WAIT then 1
       else tn_context_switch_request s1)"
    "\<forall>q. plain_head q \<longrightarrow> L2 q = L1 q"
    using Cons.IH [OF s1(2) L1 sl] by blast
  have "tick_loop (Some (TimerQ t)) s = Some s2" using s1(1,6) s2(1) e by (simp add: tick_loop.simps [of "Some (TimerQ t)"])
  moreover have "tcb s2 = (\<lambda>u. if TimerQ u \<in> set (TimerQ t # e # zs) then ticked (tcb s u) else tcb s u)"
    using other dist e by (auto simp: s2(4) s1(3) fun_eq_iff)
  moreover have "filter (\<lambda>e. \<not> timed_out s1 e) (TimerQ v # zs) = filter (\<lambda>e. \<not> timed_out s e) (TimerQ v # zs)"
    using other by (intro filter_cong) (auto simp: timed_out_def)
  then have "L2 TimeoutList = ys @ filter (\<lambda>e. \<not> timed_out s e) (TimerQ t # e # zs)"
    using e by (simp add: s2(5)) (auto simp: timed_out_def)
  moreover have "tn_context_switch_request s2 =
      (if \<exists>u. TimerQ u \<in> set (TimerQ t # e # zs) \<and> over (tcb s u) \<and> task_state (tcb s u) = TSK_STATE_WAIT then 1
       else tn_context_switch_request s)"
  proof -
    have "(\<exists>u. TimerQ u \<in> set (TimerQ v # zs) \<and> over (tcb s1 u) \<and> task_state (tcb s1 u) = TSK_STATE_WAIT) \<longleftrightarrow>
        (\<exists>u. TimerQ u \<in> set (TimerQ v # zs) \<and> over (tcb s u) \<and> task_state (tcb s u) = TSK_STATE_WAIT)"
      using other by metis
    then show ?thesis unfolding s2(6) s1(7) using e by auto
  qed
  ultimately show ?case using s2(2,7) s1(8) tick_frame_trans [OF s1(4) s2(3)] by (intro exI [of _ s2] exI [of _ L2]) simp
qed

section \<open>Round robin\<close>

lemma sched_rotate:
  assumes ok: "sched_ok s L P" and p: "0 \<le> p" "p < TN_NUM_PRIORITY" and L: "L (ReadyList p) = ys @ [e]"
  shows "\<exists>h1 h2. queue_remove_tail (ReadyList p) (qh s) = Some (Some e, h1) \<and> queue_add_head (ReadyList p) e h1 = Some h2 \<and>
    sched_ok (s\<lparr>qh := h2\<rparr>) (L(ReadyList p := e # ys)) P"
proof -
  note pl = sched_placed [OF ok] and q = heads_simps(1) [of p s]
  have hd: "ReadyList p \<in> heads s" using p by simp
  obtain h1 where h1: "queue_remove_tail (ReadyList p) (qh s) = Some (Some e, h1)" "lists_ok h1 (heads s) (L(ReadyList p := ys))"
    using lists_ok_remove_tail [OF placed_lists_ok [OF pl] hd L] by blast
  have e: "e \<notin> heads s" "e \<in> set (L (ReadyList p))" "e \<notin> set ys"
    using lists_ok_entry_not_head [OF placed_lists_ok [OF pl] hd, of e] placed_distinct [OF pl hd] L by auto
  have "\<not> queued (heads s) (L(ReadyList p := ys)) e"
    using e(2,3) placed_iff [OF pl] hd by (auto simp: queued_def split: if_splits)
  then obtain h2 where h2: "queue_add_head (ReadyList p) e h1 = Some h2"
    "lists_ok h2 (heads s) ((L(ReadyList p := ys))(ReadyList p := e # (L(ReadyList p := ys)) (ReadyList p)))"
    using lists_ok_add_head [OF h1(2) hd e(1)] by blast
  let ?L = "L(ReadyList p := e # ys)"
  have set: "set (?L q) = set (L q)" "?L q = [] \<longleftrightarrow> L q = []" for q using L by auto
  have "placed h2 (heads s) ?L P" using h2(2) pl set by (simp add: placed_def)
  then have "sched_ok (s\<lparr>qh := h2\<rparr>) ?L P"
    using ok unfolding sched_ok_def ready_ok_def next_ok_def set by (simp cong: option.case_cong)
  with h1 h2 show ?thesis by blast
qed

lemma kernel_rotate:
  assumes ok: "kernel_ok s L" and p: "0 \<le> p" "p < TN_NUM_PRIORITY" and L: "L (ReadyList p) = ys @ [e]"
  shows "\<exists>h1 h2. queue_remove_tail (ReadyList p) (qh s) = Some (Some e, h1) \<and> queue_add_head (ReadyList p) e h1 = Some h2 \<and>
    kernel_ok (s\<lparr>qh := h2\<rparr>) (L(ReadyList p := e # ys))"
proof -
  have h: "home (s\<lparr>qh := h\<rparr>) = home s" for h by simp
  have hd: "heads (s\<lparr>qh := h\<rparr>) = heads s" for h by simp
  show ?thesis using sched_rotate [OF kernel_sched [OF ok] p L] ok
    by (auto simp: kernel_ok_def h task_fields_cong [OF hd])
qed

definition sliced :: "kernel \<Rightarrow> kernel \<Rightarrow> tid \<Rightarrow> bool" where
  "sliced s s' t \<longleftrightarrow> (\<exists>n. tcb s' = (tcb s)(t := (tcb s t)\<lparr>tslice_count := n\<rparr>))"

lemma slicedI: "tcb s' = (tcb s)(t := (tcb s t)\<lparr>tslice_count := n\<rparr>) \<Longrightarrow> sliced s s' t"
  unfolding sliced_def by blast

lemma kernel_tslice: "kernel_ok s L \<Longrightarrow> kernel_ok (upd_tcb t (\<lambda>x. x\<lparr>tslice_count := f x\<rparr>) s) L"
  by (rule kernel_upd_tcb) (simp_all add: same_sched_fields_def)

text \<open>The round robin keeps the invariant; it moves the last task of a ready list to the front.\<close>

lemma round_robin_ok:
  assumes ok: "kernel_ok s L" and c: "curr_ok s" and t: "tn_curr_run_task s = Some t"
  shows "\<exists>s' L'. round_robin s = Some s' \<and> kernel_ok s' L' \<and> L' TimeoutList = L TimeoutList \<and> (\<forall>q. plain_head q \<longrightarrow> L' q = L q) \<and> sliced s s' t \<and> tick_frame s s' \<and>
    tn_context_switch_request s' = tn_context_switch_request s"
proof -
  let ?p = "priority (tcb s t)"
  have it: "is_task s t" "task_state (tcb s t) = TSK_STATE_RUNNABLE" using c t by (simp_all add: curr_ok_def)
  note rh = runnable_home [OF ok it]
  have ne: "TaskQ t \<in> set (L (ReadyList ?p))" using kernel_entry [OF ok, of "ReadyList ?p"] rh by simp
  then obtain ys e where ye: "L (ReadyList ?p) = ys @ [e]" by (metis append_butlast_last_id empty_iff list.set(1))
  have rl: "ready_list ?p = Some (ReadyList ?p)" using rh by (simp add: ready_list_def)
  let ?s1 = "upd_tcb t (\<lambda>x. x\<lparr>tslice_count := tslice_count x + 1\<rparr>) s"
  let ?s2 = "upd_tcb t (\<lambda>x. x\<lparr>tslice_count := 0\<rparr>) ?s1"
  have ok1: "kernel_ok ?s1 L" and ok2: "kernel_ok ?s2 L" using ok by (simp_all add: kernel_tslice)
  have sl: "sliced s s t" "sliced s ?s1 t" "sliced s (?s2\<lparr>qh := h\<rparr>) t" for h
  proof -
    show "sliced s s t" by (rule slicedI [of _ _ _ "tslice_count (tcb s t)"]) simp
    show "sliced s ?s1 t" by (rule slicedI [of _ _ _ "tslice_count (tcb s t) + 1"]) (simp add: fun_eq_iff)
    show "sliced s (?s2\<lparr>qh := h\<rparr>) t" by (rule slicedI [of _ _ _ 0]) (simp add: fun_eq_iff)
  qed
  have fr: "tick_frame s ?s1" "tick_frame s (?s2\<lparr>qh := h\<rparr>)" for h by (simp_all add: tick_frame_def same_objects_def)
  have em: "\<not> is_queue_empty (ReadyList ?p) (qh ?s2)" using kernel_empty [OF ok, of "ReadyList ?p"] ye rh(2,3) by simp
  obtain nx where nx: "q_next (qh s (ReadyList ?p)) = Some nx" "L (ReadyList ?p) = nx # tl (L (ReadyList ?p))"
    using placed_next [OF kernel_placed [OF ok], of "ReadyList ?p" "hd (L (ReadyList ?p))" "tl (L (ReadyList ?p))"] ye rh(2,3) by auto
  obtain h1 h2 where ro: "queue_remove_tail (ReadyList ?p) (qh ?s2) = Some (Some e, h1)" "queue_add_head (ReadyList ?p) e h1 = Some h2"
    "kernel_ok (?s2\<lparr>qh := h2\<rparr>) (L(ReadyList ?p := e # ys))"
    using kernel_rotate [OF ok2 rh(2,3) ye] by blast
  consider (off) "tn_tslice_ticks s ?p = NO_TIME_SLICE"
    | (on) "tn_tslice_ticks s ?p \<noteq> NO_TIME_SLICE" "\<not> tslice_count (tcb ?s1 t) > uint (tn_tslice_ticks s ?p)"
    | (one) "tn_tslice_ticks s ?p \<noteq> NO_TIME_SLICE" "tslice_count (tcb ?s1 t) > uint (tn_tslice_ticks s ?p)"
        "q_next (qh s nx) = Some (ReadyList ?p)"
    | (many) "tn_tslice_ticks s ?p \<noteq> NO_TIME_SLICE" "tslice_count (tcb ?s1 t) > uint (tn_tslice_ticks s ?p)"
        "q_next (qh s nx) \<noteq> Some (ReadyList ?p)" by blast
  then show ?thesis
  proof cases
    case off
    then show ?thesis using ok t rl sl(1) by (intro exI [of _ s] exI [of _ L]) (simp add: round_robin_def tick_frame_refl)
  next
    case on
    then show ?thesis using ok1 t rl sl(2) fr(1) by (intro exI [of _ ?s1] exI [of _ L]) (simp add: round_robin_def)
  next
    case one
    have "sliced s ?s2 t" by (rule slicedI [of _ _ _ 0]) (simp add: fun_eq_iff)
    moreover have "tick_frame s ?s2" by (simp add: tick_frame_def same_objects_def)
    ultimately show ?thesis using one ok2 t rl em nx(1) by (intro exI [of _ ?s2] exI [of _ L]) (simp add: round_robin_def)
  next
    case many
    have run: "round_robin s = Some (?s2\<lparr>qh := h2\<rparr>)"
      using many t rl em nx(1) ro(1,2) by (simp add: round_robin_def)
    have l: "(L(ReadyList ?p := e # ys)) TimeoutList = L TimeoutList"
      "\<forall>q. plain_head q \<longrightarrow> (L(ReadyList ?p := e # ys)) q = L q" by (auto simp: plain_head_def)
    have r: "tn_context_switch_request (?s2\<lparr>qh := h2\<rparr>) = tn_context_switch_request s" by simp
    show ?thesis using run ro(3) l sl(3) [of h2] fr(2) [of h2] r by blast
  qed
qed

section \<open>The tick\<close>

text \<open>The tasks whose waits are timed are those of the list of timeouts.\<close>

definition timed :: "kernel \<Rightarrow> tid \<Rightarrow> bool" where
  "timed s u \<longleftrightarrow> is_task s u \<and> tick_count (tcb s u) \<noteq> TN_WAIT_INFINITE"

definition sleeping :: "kernel \<Rightarrow> tid \<Rightarrow> bool" where
  "sleeping s u \<longleftrightarrow> is_task s u \<and> task_wait_reason (tcb s u) = TSK_WAIT_REASON_SLEEP"

lemma timed_iff:
  assumes ok: "kernel_ok s L"
  shows "TimerQ u \<in> set (L TimeoutList) \<longleftrightarrow> timed s u"
  using kernel_entry [OF ok, of TimeoutList "TimerQ u"] by (simp add: timer_home_def timed_def)

lemma timed_waits:
  assumes ok: "kernel_ok s L" and u: "timed s u"
  shows "task_state (tcb s u) = TSK_STATE_WAIT \<or> task_state (tcb s u) = TSK_STATE_WAITSUSP"
  using timed_entry [OF ok, of "TimerQ u"] u timed_iff [OF ok] by auto

text \<open>What a tick does to a control block; the running task only has its slice counted.\<close>

definition tick_tcbs :: "kernel \<Rightarrow> kernel \<Rightarrow> bool" where
  "tick_tcbs s s' \<longleftrightarrow>
     (\<forall>u. (timed s u \<longrightarrow> tcb s' u = ticked (tcb s u)) \<and>
          (\<not> timed s u \<and> tn_curr_run_task s \<noteq> Some u \<longrightarrow> tcb s' u = tcb s u) \<and>
          (tn_curr_run_task s = Some u \<longrightarrow> (\<exists>n. tcb s' u = (tcb s u)\<lparr>tslice_count := n\<rparr>)))"

lemma tick_ok:
  assumes ok: "kernel_ok s L" and c: "curr_ok s" and ctx: "\<not> check_int_context s"
    and sl: "\<And>u. timed s u \<Longrightarrow> over (tcb s u) \<Longrightarrow> sleeping s u"
  shows "\<exists>s' L'. tn_tick_int_processing s = Some s' \<and> kernel_ok s' L' \<and> curr_ok s' \<and> tick_frame s s' \<and> tick_tcbs s s' \<and>
    L' TimeoutList = filter (\<lambda>e. \<not> timed_out s e) (L TimeoutList) \<and> (\<forall>q. plain_head q \<longrightarrow> L' q = L q) \<and>
    tn_context_switch_request s' =
      (if \<exists>u. timed s u \<and> over (tcb s u) \<and> task_state (tcb s u) = TSK_STATE_WAIT then 1 else tn_context_switch_request s)"
proof -
  obtain t where t: "tn_curr_run_task s = Some t" "is_task s t" "task_state (tcb s t) = TSK_STATE_RUNNABLE"
    using c by (auto simp: curr_ok_def)
  have nt: "\<not> timed s t" using timed_waits [OF ok, of t] t(3) by auto
  obtain s1 L1 n where s1: "round_robin s = Some s1" "kernel_ok s1 L1" "L1 TimeoutList = L TimeoutList"
    "\<forall>q. plain_head q \<longrightarrow> L1 q = L q" "tcb s1 = (tcb s)(t := (tcb s t)\<lparr>tslice_count := n\<rparr>)" "tick_frame s s1"
    "tn_context_switch_request s1 = tn_context_switch_request s"
    using round_robin_ok [OF ok c t(1)] unfolding sliced_def by blast
  have tm: "TimerQ u \<in> set (L TimeoutList) \<longleftrightarrow> timed s u" for u by (rule timed_iff [OF ok])
  have eq: "tcb s1 u = tcb s u" if "timed s u" for u using that nt s1(5) by auto
  have to: "filter (\<lambda>e. \<not> timed_out s1 e) (L TimeoutList) = filter (\<lambda>e. \<not> timed_out s e) (L TimeoutList)"
    using eq tm by (intro filter_cong) (auto simp: timed_out_def)
  show ?thesis
  proof (cases "L TimeoutList")
    case Nil
    then have none: "\<not> timed s u" for u using tm by auto
    have "is_queue_empty TimeoutList (qh s1)" using kernel_empty [OF s1(2), of TimeoutList] s1(3) Nil by simp
    then have "tn_tick_int_processing s = Some s1" using ctx s1(1) by (simp add: tn_tick_int_processing_def)
    moreover have "curr_ok s1" using t s1(5,6) by (auto simp: curr_ok_def tick_frame_def is_task_def)
    moreover have "tick_tcbs s s1" using none t(1) s1(5) by (auto simp: tick_tcbs_def)
    ultimately show ?thesis using s1 Nil none by (intro exI [of _ s1] exI [of _ L1]) simp
  next
    case (Cons e zs)
    obtain v where e: "e = TimerQ v" using timed_entry [OF ok, of e] Cons by auto
    have nx: "q_next (qh s1 TimeoutList) = Some (TimerQ v)" "\<not> is_queue_empty TimeoutList (qh s1)"
      using placed_next [OF kernel_placed [OF s1(2)], of TimeoutList e zs] kernel_empty [OF s1(2), of TimeoutList] s1(3) Cons e
      by simp_all
    have L1: "L1 TimeoutList = [] @ TimerQ v # zs" using s1(3) Cons e by simp
    have L: "L TimeoutList = TimerQ v # zs" using Cons e by simp
    have sl1: "task_wait_reason (tcb s1 u) = TSK_WAIT_REASON_SLEEP" if "TimerQ u \<in> set (TimerQ v # zs)" "over (tcb s1 u)" for u
      using that eq [of u] tm [of u] sl [of u] L by (auto simp: sleeping_def)
    obtain s2 L2 where s2: "tick_loop (Some (TimerQ v)) s1 = Some s2" "kernel_ok s2 L2" "tick_frame s1 s2"
      "\<forall>q. plain_head q \<longrightarrow> L2 q = L1 q"
      "tcb s2 = (\<lambda>u. if TimerQ u \<in> set (TimerQ v # zs) then ticked (tcb s1 u) else tcb s1 u)"
      "L2 TimeoutList = [] @ filter (\<lambda>e. \<not> timed_out s1 e) (TimerQ v # zs)"
      "tn_context_switch_request s2 =
        (if \<exists>u. TimerQ u \<in> set (TimerQ v # zs) \<and> over (tcb s1 u) \<and> task_state (tcb s1 u) = TSK_STATE_WAIT then 1
         else tn_context_switch_request s1)"
      using tick_loop_ok [OF s1(2) L1 sl1] by blast
    have tc: "tcb s2 u = (if timed s u then ticked (tcb s u) else tcb s1 u)" for u
      using s2(5) eq tm [of u] L by auto
    have ex: "(\<exists>u. TimerQ u \<in> set (TimerQ v # zs) \<and> over (tcb s1 u) \<and> task_state (tcb s1 u) = TSK_STATE_WAIT) \<longleftrightarrow>
        (\<exists>u. timed s u \<and> over (tcb s u) \<and> task_state (tcb s u) = TSK_STATE_WAIT)"
      using eq tm L by metis
    have rq: "tn_context_switch_request s2 =
        (if \<exists>u. timed s u \<and> over (tcb s u) \<and> task_state (tcb s u) = TSK_STATE_WAIT then 1 else tn_context_switch_request s)"
      unfolding s2(7) ex s1(7) ..
    have "tn_tick_int_processing s = Some s2" using ctx s1(1) s2(1) nx by (simp add: tn_tick_int_processing_def)
    moreover have fr: "tick_frame s s2" by (rule tick_frame_trans [OF s1(6) s2(3)])
    moreover have "curr_ok s2" using t nt fr tc [of t] s1(5) by (auto simp: curr_ok_def tick_frame_def is_task_def)
    moreover have "tick_tcbs s s2" using tc t(1) nt s1(5) by (auto simp: tick_tcbs_def)
    moreover have "L2 TimeoutList = filter (\<lambda>e. \<not> timed_out s e) (L TimeoutList)" using s2(6) to L by simp
    moreover have "\<forall>q. plain_head q \<longrightarrow> L2 q = L q" using s2(4) s1(4) by simp
    ultimately show ?thesis using s2(2) rq by blast
  qed
qed

text \<open>A state in which a wait ends with the next tick: task 2 of the demo has gone to sleep for one tick, and the timer
  interrupt is being served.\<close>

lemma one_tick_left:
  "\<exists>s L. kernel_ok s L \<and> curr_ok s \<and> \<not> check_int_context s \<and> tn_curr_run_task s \<noteq> Some 2 \<and>
     tcb s = (tcb demo)(2 := wait_tcb None TSK_WAIT_REASON_SLEEP 1 (tcb demo 2))"
proof -
  have w: "wakeup_count (tcb demo 2) = 0" by (simp add: demo_defs)
  obtain s L where s: "kernel_ok s L" "curr_ok s" "same_objects demo s" "tn_curr_run_task s \<noteq> Some 2"
    "tcb s = (tcb demo)(2 := wait_tcb None TSK_WAIT_REASON_SLEEP 1 (tcb demo 2))"
    using task_sleep_ok [OF demo_ok demo_curr(4,1,2,3), of 1] w by auto
  let ?s = "s\<lparr>tn_int_counter := 1\<rparr>"
  have "tn_system_state s = TN_ST_STATE_RUNNING" using s(3) by (simp add: same_objects_def demo_def)
  then have "\<not> check_int_context ?s" by (simp add: check_int_context_def)
  moreover have "kernel_ok ?s L" "curr_ok ?s" using s(1,2) by (simp_all add: curr_ok_def is_task_def)
  ultimately show ?thesis using s(4,5) by (intro exI [of _ ?s] exI [of _ L]) simp
qed



section \<open>A wait for an object that runs out\<close>

text \<open>A list begins with the entry its head points to.\<close>

lemma kernel_first:
  assumes ok: "kernel_ok s L" and q: "q \<in> heads s" and n: "q_next (qh s q) = Some e" and e: "e \<noteq> q"
  shows "home s e = Some q"
proof (cases "L q")
  case Nil
  then have "is_queue_empty q (qh s)" using kernel_empty [OF ok q] by simp
  then show ?thesis using n e by (auto simp: is_queue_empty_def)
next
  case (Cons a as)
  then have "a = e" using placed_next [OF kernel_placed [OF ok] q Cons] n by simp
  then show ?thesis using kernel_entry [OF ok q, of e] Cons by simp
qed

text \<open>C37. A wait for a semaphore that runs out: the tick makes the first task of the wait queue ready, with \<open>TERR_TIMEOUT\<close>,
  but does not take it off the wait queue. The head of the queue still points to it, and the state
  satisfies the invariant of the kernel with no lists whatever.\<close>

theorem sem_timeout_stays_queued:
  assumes ok: "kernel_ok s L" and id: "id_sem (sem s i) = TN_ID_SEMAPHORE" and L: "L (SemWaitQ i) = TaskQ u # ws"
    and st: "task_state (tcb s u) = TSK_STATE_WAIT" and tk: "tick_count (tcb s u) = 1"
  shows "\<exists>s'. tick_task u s = Some s' \<and> task_state (tcb s' u) = TSK_STATE_RUNNABLE \<and> task_wait_rc (tcb s' u) = TERR_TIMEOUT \<and>
    q_next (qh s' (SemWaitQ i)) = Some (TaskQ u) \<and> (\<forall>L'. \<not> kernel_ok s' L')"
proof -
  note pl = kernel_placed [OF ok]
  have q: "SemWaitQ i \<in> heads s" using id by simp
  have hu: "home s (TaskQ u) = Some (SemWaitQ i)" using kernel_entry [OF ok q, of "TaskQ u"] L by simp
  then have t: "is_task s u" by (simp split: if_splits)
  have w: "pwait_queue (tcb s u) = Some (SemWaitQ i)" using hu st t by (simp add: task_home_def)
  then have nm: "\<not> waits_for_mutex (tcb s u)"
    using kernel_task [OF ok t] st by (auto simp: task_fields_ok_def waits_for_mutex_def)
  let ?p = "priority (tcb s u)"
  have pr: "0 \<le> ?p" "?p < TN_NUM_PRIORITY" using kernel_task [OF ok t] by (simp_all add: task_fields_ok_def)
  have hm: "home s (TimerQ u) = Some TimeoutList" using t tk by (simp add: timer_home_def)
  obtain h1 where h1: "queue_remove_entry (TimerQ u) (qh s) = Some h1"
    "placed h1 (heads s) (L(TimeoutList := remove1 (TimerQ u) (L TimeoutList))) ((home s)(TimerQ u := None))"
    using placed_remove_entry [OF pl _ hm] by auto
  have n1: "q_next (h1 (SemWaitQ i)) = Some (TaskQ u)" using placed_next [OF h1(2) q, of "TaskQ u" ws] L by simp
  have c: "cdll h1 (ReadyList ?p) (L (ReadyList ?p))"
    using lists_ok_cdll [OF placed_lists_ok [OF h1(2)], of "ReadyList ?p"] pr by simp
  have "TaskQ u \<notin> set (L (ReadyList ?p))" "SemWaitQ i \<notin> set (L (ReadyList ?p))"
    using kernel_entry [OF ok, of "ReadyList ?p"] hu pr by auto
  then obtain h2 where h2: "queue_add_tail (ReadyList ?p) (TaskQ u) h1 = Some h2" "h2 (SemWaitQ i) = h1 (SemWaitQ i)"
    using queue_add_tail_cdll [OF c, of "TaskQ u"] by auto
  have z: "0 <s (1 :: u32)" by (simp add: word_sless_alt)
  obtain s' where s': "tick_task u s = Some s'" "task_state (tcb s' u) = TSK_STATE_RUNNABLE" "task_wait_rc (tcb s' u) = TERR_TIMEOUT"
    "qh s' = h2" "is_task s' u" "sem s' = sem s"
    using nm tk st h1(1) h2(1) pr z t
    by (auto simp: tick_task_def task_wait_complete_def Let_def upd_qh_def task_to_runnable_def ready_list_def upd_upd request_switch_def
        waits_for_mutex_def split: option.splits)
  have n2: "q_next (qh s' (SemWaitQ i)) = Some (TaskQ u)" using s'(4) h2(2) n1 by simp
  have "\<not> kernel_ok s' L'" for L'
  proof
    assume k: "kernel_ok s' L'"
    have "home s' (TaskQ u) = Some (SemWaitQ i)"
      by (rule kernel_first [OF k _ n2]) (use id s'(6) in simp_all)
    then show False using s'(2,5) by (simp add: task_home_def)
  qed
  then show ?thesis using s'(1-3) n2 by blast
qed

text \<open>Task 2 takes the unit of semaphore 1 and then waits for another one, for one tick.\<close>

theorem sem_timeout_stays_queued_witness:
  "\<exists>s s'. tick_task 2 s = Some s' \<and> task_state (tcb s' 2) = TSK_STATE_RUNNABLE \<and> q_next (qh s' (SemWaitQ 1)) = Some (TaskQ 2) \<and>
     (\<exists>L. kernel_ok s L) \<and> (\<forall>L'. \<not> kernel_ok s' L')"
proof -
  let ?s = "upd_sem 1 (\<lambda>x. x\<lparr>count := count x - 1\<rparr>) demo"
  have "kernel_ok ?s demo_lists" using demo_ok by simp
  moreover have "sem_ok ?s demo_lists" using demo_sem by (auto simp: sem_ok_def demo_def)
  moreover have id: "id_sem (sem ?s 1) = TN_ID_SEMAPHORE" using demo_sem_ids(2) by simp
  moreover have "\<not> check_non_int_context ?s" using demo_curr(4) by (simp add: check_non_int_context_def tn_chk_irq_disabled_def)
  moreover have "curr_ok ?s" "other_ready ?s" "tn_curr_run_task ?s = Some 2" using demo_curr by simp_all
  ultimately obtain s L ro where s: "kernel_ok s L" "sem_frame ?s s" "spec_acquire (TaskQ 2) (sem_abs ?s demo_lists 1) = (ro, sem_abs s L 1)"
    "sem_ok s L" "ro = None \<longrightarrow> tcb s 2 = wait_tcb (Some (SemWaitQ 1)) TSK_WAIT_REASON_SEM 1 (tcb ?s 2)"
    using sem_acquire_ok [of ?s demo_lists 1 2 1] by fastforce
  have a: "sem_abs ?s demo_lists 1 = (0, [])"
    by (simp add: sem_abs_def demo_def demo_lists_def lists_of_def demo_lists_alist_def)
  then have L: "L (SemWaitQ 1) = TaskQ 2 # []" and ro: "ro = None" using s(3) by (simp_all add: sem_abs_def)
  have t: "task_state (tcb s 2) = TSK_STATE_WAIT" "tick_count (tcb s 2) = 1" using s(5) ro by (simp_all add: wait_tcb_def)
  have "is_task s 2" "pwait_queue (tcb s 2) = Some (SemWaitQ 1)"
    using s(5) ro by (simp_all add: is_task_def wait_tcb_def demo_defs)
  then have ids: "id_sem (sem s 1) = TN_ID_SEMAPHORE" using kernel_task [OF s(1), of 2] t(1) by (auto simp: task_fields_ok_def)
  show ?thesis using sem_timeout_stays_queued [OF s(1) ids L t] s(1) by blast
qed

end
