(* ===== verification/TN_Task_Life.thy ===== *)
theory TN_Task_Life
  imports TN_Task_Inv TN_System
begin

text \<open>
  The life of a task: creation, deletion, and the start of the system, which creates the timer
  and the idle task and establishes the invariant of the kernel.
\<close>

section \<open>A new task\<close>

lemma home_task_mutex:
  assumes ok: "kernel_ok s L" and t: "\<not> is_task s t"
  shows "home s e \<noteq> Some (TaskMutexQ t)"
proof (cases e)
  case (TaskQ u)
  then show ?thesis
    using kernel_task [OF ok, of u] by (auto simp: task_home_def task_fields_ok_def split: if_splits)
next
  case (MutexQ m)
  then show ?thesis
    using kernel_mutex [OF ok, of m] t by (auto simp: mutex_home_def)
qed (auto simp: timer_home_def block_home_def lock_home_def)

text \<open>The heap after \<open>task_set_dormant_state\<close> and the insertion into the list of created tasks.\<close>

definition dormant_heap :: "tid \<Rightarrow> qheap \<Rightarrow> qheap" where
  "dormant_heap t h = queue_reset (BlockQ t) (queue_reset (TaskMutexQ t) (queue_reset (CreateQ t)
     (queue_reset (TimerQ t) (queue_reset (TaskQ t) h))))"

definition create_lists :: "tid \<Rightarrow> (qaddr \<Rightarrow> qaddr list) \<Rightarrow> qaddr \<Rightarrow> qaddr list" where
  "create_lists t L = L(TaskMutexQ t := [], CreateQueue := L CreateQueue @ [CreateQ t])"

lemma new_task_heap:
  assumes ok: "kernel_ok s L" and t: "\<not> is_task s t"
  shows "\<exists>h. queue_add_tail CreateQueue (CreateQ t) (dormant_heap t (qh s)) = Some h \<and>
    placed h (insert (TaskMutexQ t) (heads s)) (create_lists t L) ((home s)(CreateQ t := Some CreateQueue))"
proof -
  have loose: "home s (TaskQ t) = None" "home s (TimerQ t) = None" "home s (CreateQ t) = None" "home s (BlockQ t) = None"
    "home s (TaskMutexQ t) = None" using t by simp_all
  have "placed (queue_reset (CreateQ t) (queue_reset (TimerQ t) (queue_reset (TaskQ t) (qh s)))) (heads s) L (home s)"
    using kernel_placed [OF ok] loose by (intro placed_reset_entry) simp_all
  then have "placed (queue_reset (TaskMutexQ t) (queue_reset (CreateQ t) (queue_reset (TimerQ t) (queue_reset (TaskQ t) (qh s)))))
      (insert (TaskMutexQ t) (heads s)) (L(TaskMutexQ t := [])) (home s)"
    using t loose home_task_mutex [OF ok t] by (intro placed_reset_new) simp_all
  then have "placed (dormant_heap t (qh s)) (insert (TaskMutexQ t) (heads s)) (L(TaskMutexQ t := [])) (home s)"
    unfolding dormant_heap_def by (rule placed_reset_entry) (use loose in simp_all)
  from placed_add_tail [OF this, of CreateQueue "CreateQ t"] loose show ?thesis
    by (simp add: create_lists_def)
qed

definition dormant_tcb :: "tn_tcb \<Rightarrow> bool" where
  "dormant_tcb x \<longleftrightarrow> id_task x = TN_ID_TASK \<and> task_state x = TSK_STATE_DORMANT \<and> pwait_queue x = None \<and>
     task_wait_reason x = 0 \<and> tick_count x = TN_WAIT_INFINITE \<and>
     0 \<le> priority x \<and> priority x < TN_NUM_PRIORITY \<and> 0 \<le> base_priority x \<and> base_priority x < TN_NUM_PRIORITY"

lemma kernel_new_task:
  assumes ok: "kernel_ok s L" and t: "\<not> is_task s t" and x: "dormant_tcb x"
    and h: "placed h (insert (TaskMutexQ t) (heads s)) (create_lists t L) ((home s)(CreateQ t := Some CreateQueue))"
  shows "kernel_ok ((upd_tcb t (\<lambda>_. x) s)\<lparr>qh := h\<rparr>) (create_lists t L)"
proof -
  let ?s = "(upd_tcb t (\<lambda>_. x) s)\<lparr>qh := h\<rparr>"
  have it: "is_task (upd_tcb t (\<lambda>_. x) s) u \<longleftrightarrow> is_task s u \<or> u = t" for u using x by (simp add: is_task_def dormant_tcb_def)
  have hd: "heads ?s = insert (TaskMutexQ t) (heads s)"
    by (rule heads_insertI, rename_tac q, case_tac q) (auto simp: it)
  have hm: "home ?s = (home s)(CreateQ t := Some CreateQueue)"
  proof
    fix e show "home ?s e = ((home s)(CreateQ t := Some CreateQueue)) e"
      using x t by (cases e) (auto simp: it dormant_tcb_def task_home_def timer_home_def block_home_def)
  qed
  have nr: "home s (TaskQ t) = None" using t by simp
  have prio: "priority (tcb ?s u) = p"
    if "0 \<le> p" "p < TN_NUM_PRIORITY" "TaskQ u \<in> set (L (ReadyList p))" for u p
  proof -
    have "ready_ok s L (home s)" using kernel_sched [OF ok] by (simp add: sched_ok_def)
    from ready_entry [OF this that] have "priority (tcb s u) = p" by auto
    moreover have "u \<noteq> t" using kernel_entry [OF ok, of "ReadyList p" "TaskQ u"] that nr by auto
    ultimately show ?thesis by simp
  qed
  have e: "create_lists t L (ReadyList p) = L (ReadyList p)" for p by (simp add: create_lists_def)
  have r: "ready_ok s L (home s)" and n: "next_ok s L (home s)" using kernel_sched [OF ok] by (simp_all add: sched_ok_def)
  have "ready_ok ?s (create_lists t L) (home ?s)"
    unfolding ready_ok_def hm hd e
  proof (intro conjI allI impI ballI)
    show "placed (qh ?s) (insert (TaskMutexQ t) (heads s)) (create_lists t L) ((home s)(CreateQ t := Some CreateQueue))"
      using h by simp
  next
    fix p assume "0 \<le> p \<and> p < TN_NUM_PRIORITY"
    then show "bit (tn_ready_to_run_bmp ?s) (nat p) \<longleftrightarrow> L (ReadyList p) \<noteq> []" using ready_bmp [OF r, of p] by simp
  next
    fix p a assume p: "0 \<le> p \<and> p < TN_NUM_PRIORITY" and a: "a \<in> set (L (ReadyList p))"
    then obtain u where "a = TaskQ u" using ready_entry [OF r, of p a] by auto
    then show "\<exists>u. a = TaskQ u \<and> priority (tcb ?s u) = p" using prio [of p u] p a by auto
  qed
  moreover have "next_ok ?s (create_lists t L) (home ?s)"
  proof (cases "tn_next_task_to_run s")
    case None
    then show ?thesis using n by (simp add: next_ok_def e)
  next
    case (Some v)
    then have "v \<noteq> t" using n nr by (auto simp: next_ok_def)
    then show ?thesis using n Some unfolding hm by (simp add: next_ok_def e)
  qed
  ultimately have "sched_ok ?s (create_lists t L) (home ?s)" by (simp add: sched_ok_def)
  moreover have "task_fields_ok ?s (tcb ?s u)" if u: "is_task ?s u" for u
  proof (cases "u = t")
    case True
    then show ?thesis using x by (simp add: task_fields_ok_def dormant_tcb_def)
  next
    case False
    then have "task_fields_ok s (tcb s u)" using kernel_task [OF ok] u it by simp
    then show ?thesis using False hd by (auto simp: task_fields_ok_def split: option.splits if_splits)
  qed
  moreover have "m_attr (mutex ?s m) \<in> {TN_MUTEX_ATTR_CEILING, TN_MUTEX_ATTR_INHERIT} \<and>
      (\<forall>u. holder (mutex ?s m) = Some u \<longrightarrow> is_task ?s u)" if "id_mutex (mutex ?s m) = TN_ID_MUTEX" for m
    using kernel_mutex [OF ok, of m] that it by auto
  ultimately show ?thesis by (simp add: kernel_ok_def)
qed

section \<open>Creation\<close>

text \<open>The control block and the memory of a new task.\<close>

definition new_tcb :: "u32 \<Rightarrow> int \<Rightarrow> u32 \<Rightarrow> int \<Rightarrow> u32 \<Rightarrow> tn_tcb \<Rightarrow> tn_tcb" where
  "new_tcb func prio stack sz param x =
     x\<lparr>task_func_addr := func, task_func_param := param, stk_start := stack, stk_size := sz,
       base_priority := prio, activate_count := 0, id_task := TN_ID_TASK, pwait_queue := None, blk_task := None,
       priority := prio, task_state := TSK_STATE_DORMANT, task_wait_reason := 0, task_wait_rc := TERR_NO_ERR,
       ewait_pattern := 0, ewait_mode := 0, data_elem := 0, tick_count := TN_WAIT_INFINITE, wakeup_count := 0,
       suspend_count := 0, tslice_count := 0, task_stk := stack - 64\<rparr>"

definition new_mem :: "u32 \<Rightarrow> u32 \<Rightarrow> int \<Rightarrow> u32 \<Rightarrow> kernel \<Rightarrow> u32 \<Rightarrow> u32" where
  "new_mem func stack sz param s =
     store_down stack (init_frame func (addr_tn_task_exit s) param)
       (store_down stack (replicate (nat sz) TN_FILL_STACK_VAL) (mem s))"

definition create_params_ok :: "u32 \<Rightarrow> int \<Rightarrow> u32 \<Rightarrow> int \<Rightarrow> u32 \<Rightarrow> bool" where
  "create_params_ok func prio stack sz opt \<longleftrightarrow>
     func \<noteq> 0 \<and> stack \<noteq> 0 \<and> TN_MIN_STACK_SIZE \<le> sz \<and> 0 \<le> prio \<and> prio < TN_NUM_PRIORITY \<and>
     (prio = 0 \<longrightarrow> has_bits opt TN_TASK_TIMER) \<and> (prio = TN_NUM_PRIORITY - 1 \<longrightarrow> has_bits opt TN_TASK_IDLE)"

lemma create_dormant:
  "upd_tcb t (\<lambda>y. y\<lparr>task_stk := stack - 4 * 16\<rparr>)
     (snd (tn_stack_init func stack param (task_set_dormant_state t
       ((upd_tcb t (\<lambda>y. y\<lparr>task_func_addr := func, task_func_param := param, stk_start := stack, stk_size := sz,
            base_priority := prio, activate_count := 0, id_task := TN_ID_TASK\<rparr>) s)
        \<lparr>mem := store_down stack (replicate (nat sz) TN_FILL_STACK_VAL) (mem s)\<rparr>)))) =
   (upd_tcb t (new_tcb func prio stack sz param) s)
     \<lparr>qh := dormant_heap t (qh s), mem := new_mem func stack sz param s\<rparr>"
  by (simp add: task_set_dormant_state_def tn_stack_init_def upd_upd dormant_heap_def new_mem_def new_tcb_def [abs_def])

lemmas create_steps = tn_task_create_def save_sr_eq upd_qh_def dormant_heap_def
  task_set_dormant_state_def tn_stack_init_def upd_upd new_mem_def new_tcb_def [abs_def]

text \<open>The objects, and the request for a switch, are not touched.\<close>

definition objects_kept :: "kernel \<Rightarrow> kernel \<Rightarrow> bool" where
  "objects_kept s s' \<longleftrightarrow>
     sem s' = sem s \<and> event s' = event s \<and> dque s' = dque s \<and> fmp s' = fmp s \<and> mutex s' = mutex s \<and>
     tn_context_switch_request s' = tn_context_switch_request s"

lemma objects_kept_trans: "objects_kept s s' \<Longrightarrow> objects_kept s' s'' \<Longrightarrow> objects_kept s s''"
  by (simp add: objects_kept_def)

lemma create_task:
  assumes ok: "kernel_ok s L" and free: "id_task (tcb s t) = 0" and ctx: "\<not> check_non_int_context s"
    and pars: "create_params_ok func prio stack sz opt"
  shows "\<exists>s' L'. tn_task_create (Some t) func prio stack sz param opt s = Some (ret TERR_NO_ERR, s') \<and> kernel_ok s' L' \<and>
    tcb s' = (tcb s)(t := (if has_bits opt TN_TASK_START_ON_CREATION then ready_tcb else id)
                            (new_tcb func prio stack sz param (tcb s t))) \<and>
    mem s' = new_mem func stack sz param s \<and>
    pop_frame (task_stk (tcb s' t)) (mem s') = rev (init_frame func (addr_tn_task_exit s) param) \<and>
    tn_created_tasks_qty s' = tn_created_tasks_qty s + 1 \<and>
    tn_curr_run_task s' = tn_curr_run_task s \<and> cpsr s' = cpsr s \<and>
    (\<forall>q. (\<forall>p. q \<noteq> ReadyList p) \<longrightarrow> L' q = create_lists t L q) \<and>
    (\<not> has_bits opt TN_TASK_START_ON_CREATION \<longrightarrow> L' = create_lists t L) \<and>
    tn_system_state s' = tn_system_state s \<and> tn_int_counter s' = tn_int_counter s \<and>
    objects_kept s s'"
proof -
  define s0 where "s0 = (if tn_system_state s = TN_ST_STATE_RUNNING then s\<lparr>cpsr := cpsr s OR 0xC0\<rparr> else s)"
  have s0: "kernel_ok s0 L" "tcb s0 = tcb s" "qh s0 = qh s" "heads s0 = heads s" "home s0 = home s"
    using ok by (simp_all add: s0_def)
  have nt: "\<not> is_task s0 t" using free by (simp add: is_task_def s0(2))
  let ?x = "new_tcb func prio stack sz param (tcb s t)"
  have x: "dormant_tcb ?x" using pars by (simp add: dormant_tcb_def new_tcb_def create_params_ok_def)
  obtain h where h: "queue_add_tail CreateQueue (CreateQ t) (dormant_heap t (qh s0)) = Some h"
    "placed h (insert (TaskMutexQ t) (heads s0)) (create_lists t L) ((home s0)(CreateQ t := Some CreateQueue))"
    using new_task_heap [OF s0(1) nt] by blast
  have okn: "kernel_ok ((upd_tcb t (\<lambda>_. ?x) s0)\<lparr>qh := h\<rparr>) (create_lists t L)"
    by (rule kernel_new_task [OF s0(1) nt x h(2)])
  let ?s1 = "(upd_tcb t (new_tcb func prio stack sz param) s0)\<lparr>mem := new_mem func stack sz param s, qh := h,
    tn_created_tasks_qty := tn_created_tasks_qty s + 1\<rparr>"
  have u: "upd_tcb t (new_tcb func prio stack sz param) s0 = upd_tcb t (\<lambda>_. ?x) s0"
    by (rule upd_cong) (simp add: s0(2))
  have swap: "x\<lparr>mem := m, qh := h\<rparr> = x\<lparr>qh := h, mem := m\<rparr>" for x :: kernel and m by (cases x) simp
  have ok1: "kernel_ok ?s1 (create_lists t L)" using okn unfolding u swap by simp
  define sr where "sr = (if tn_system_state s = TN_ST_STATE_RUNNING then cpsr s else 0)"
  have run: "tn_task_create (Some t) func prio stack sz param opt s =
    do { s2 \<leftarrow> (if has_bits opt TN_TASK_START_ON_CREATION then task_to_runnable t ?s1 else Some ?s1);
         Some (ret TERR_NO_ERR, if tn_system_state s2 = TN_ST_STATE_RUNNING then tn_cpu_restore_sr sr s2 else s2) }"
  proof -
    have np: "(prio = 0 \<and> \<not> has_bits opt TN_TASK_TIMER) = False" "(prio = 31 \<and> \<not> has_bits opt TN_TASK_IDLE) = False"
      "\<not> prio < 0" "\<not> 31 < prio" "\<not> sz < 20" "func \<noteq> 0" "stack \<noteq> 0"
      using pars by (auto simp: create_params_ok_def)
    show ?thesis
  proof (cases "tn_system_state s = TN_ST_STATE_RUNNING")
    case True
    then have sr: "sr = cpsr s" "s0 = s\<lparr>cpsr := cpsr s OR 0xC0\<rparr>" by (simp_all add: sr_def s0_def)
    show ?thesis
      unfolding sr using free ctx h(1) [unfolded sr] True
      by (cases "has_bits opt TN_TASK_START_ON_CREATION") (simp_all add: create_steps np)
  next
    case False
    then have sr: "sr = 0" "s0 = s" by (simp_all add: sr_def s0_def)
    show ?thesis
      unfolding sr using free ctx h(1) [unfolded sr] False
      by (cases "has_bits opt TN_TASK_START_ON_CREATION") (simp_all add: create_steps np)
  qed
  qed
  have s1: "is_task ?s1 t" "tcb ?s1 = (tcb s)(t := ?x)" "mem ?s1 = new_mem func stack sz param s"
    "cpsr ?s1 = cpsr s0" "tn_system_state ?s1 = tn_system_state s" "tn_curr_run_task ?s1 = tn_curr_run_task s"
    "tn_int_counter ?s1 = tn_int_counter s" "objects_kept s ?s1"
    using x by (simp_all add: objects_kept_def is_task_def dormant_tcb_def s0(2) s0_def fun_eq_iff)
  have "\<exists>s2 L2. (if has_bits opt TN_TASK_START_ON_CREATION then task_to_runnable t ?s1 else Some ?s1) = Some s2 \<and>
      kernel_ok s2 L2 \<and> tcb s2 = (tcb s)(t := (if has_bits opt TN_TASK_START_ON_CREATION then ready_tcb else id) ?x) \<and>
      mem s2 = new_mem func stack sz param s \<and> cpsr s2 = cpsr s0 \<and> tn_system_state s2 = tn_system_state s \<and>
      tn_curr_run_task s2 = tn_curr_run_task s \<and> tn_created_tasks_qty s2 = tn_created_tasks_qty s + 1 \<and>
      tn_int_counter s2 = tn_int_counter s \<and> objects_kept s s2 \<and>
      (\<forall>q. (\<forall>p. q \<noteq> ReadyList p) \<longrightarrow> L2 q = create_lists t L q) \<and>
      (\<not> has_bits opt TN_TASK_START_ON_CREATION \<longrightarrow> L2 = create_lists t L)"
  proof (cases "has_bits opt TN_TASK_START_ON_CREATION")
    case False
    then show ?thesis using ok1 s1 by (intro exI [of _ ?s1] exI [of _ "create_lists t L"]) simp
  next
    case True
    have st: "task_state (tcb ?s1 t) \<in> {TSK_STATE_SUSPEND, TSK_STATE_DORMANT}" unfolding s1(2) by (simp add: new_tcb_def)
    obtain hh b n where r: "task_to_runnable t ?s1 =
        Some ((upd_tcb t ready_tcb ?s1)\<lparr>qh := hh, tn_ready_to_run_bmp := b, tn_next_task_to_run := n\<rparr>)"
      "kernel_ok ((upd_tcb t ready_tcb ?s1)\<lparr>qh := hh, tn_ready_to_run_bmp := b, tn_next_task_to_run := n\<rparr>)
        ((create_lists t L)(ReadyList (priority (tcb ?s1 t)) := create_lists t L (ReadyList (priority (tcb ?s1 t))) @ [TaskQ t]))"
      using enter_ready [OF ok1 s1(1) st] by blast
    let ?s2 = "(upd_tcb t ready_tcb ?s1)\<lparr>qh := hh, tn_ready_to_run_bmp := b, tn_next_task_to_run := n\<rparr>"
    have "tcb ?s2 = (tcb ?s1)(t := ready_tcb (tcb ?s1 t))" by (simp add: fun_eq_iff)
    then have "tcb ?s2 = (tcb s)(t := ready_tcb ?x)" unfolding s1(2) by simp
    moreover have "mem ?s2 = new_mem func stack sz param s" "cpsr ?s2 = cpsr s0" "tn_system_state ?s2 = tn_system_state s"
      "tn_curr_run_task ?s2 = tn_curr_run_task s" "tn_created_tasks_qty ?s2 = tn_created_tasks_qty s + 1"
      "tn_int_counter ?s2 = tn_int_counter s" "objects_kept s ?s2"
      using s1(3-8) by (simp_all add: objects_kept_def)
    ultimately show ?thesis using r True
      by (intro exI [of _ ?s2] exI conjI) auto
  qed
  then obtain s2 L2 where s2: "(if has_bits opt TN_TASK_START_ON_CREATION then task_to_runnable t ?s1 else Some ?s1) = Some s2"
    "kernel_ok s2 L2" "tcb s2 = (tcb s)(t := (if has_bits opt TN_TASK_START_ON_CREATION then ready_tcb else id) ?x)"
    "mem s2 = new_mem func stack sz param s" "cpsr s2 = cpsr s0" "tn_system_state s2 = tn_system_state s"
    "tn_curr_run_task s2 = tn_curr_run_task s" "tn_created_tasks_qty s2 = tn_created_tasks_qty s + 1"
    "tn_int_counter s2 = tn_int_counter s" "objects_kept s s2"
    "\<forall>q. (\<forall>p. q \<noteq> ReadyList p) \<longrightarrow> L2 q = create_lists t L q"
    "\<not> has_bits opt TN_TASK_START_ON_CREATION \<longrightarrow> L2 = create_lists t L" by blast
  let ?s' = "s2\<lparr>cpsr := cpsr s\<rparr>"
  have "(if tn_system_state s2 = TN_ST_STATE_RUNNING then tn_cpu_restore_sr sr s2 else s2) = ?s'"
    using s2(5,6) by (auto simp: sr_def s0_def restore_sr_eq)
  then have "tn_task_create (Some t) func prio stack sz param opt s = Some (ret TERR_NO_ERR, ?s')"
    unfolding run s2(1) by simp
  moreover have "pop_frame (task_stk (tcb ?s' t)) (mem ?s') = rev (init_frame func (addr_tn_task_exit s) param)"
    using pop_store_frame [of "init_frame func (addr_tn_task_exit s) param" stack]
    by (simp add: s2(3,4) new_tcb_def ready_tcb_def new_mem_def)
  moreover have "objects_kept s ?s'" using s2(10) by (simp add: objects_kept_def)
  ultimately show ?thesis using s2 by (intro exI [of _ ?s'] exI [of _ L2]) simp
qed

text \<open>C16. \<open>tn_task_create\<close> with parameters it accepts makes a dormant task, or a ready one on request: its
  control block is filled in, its stack holds the frame from which the context switch starts its function, it is the last of the
  created tasks and holds no mutex, and the other tasks are as before.\<close>

theorem task_create_ok:
  assumes ok: "kernel_ok s L" and free: "id_task (tcb s t) = 0" and ctx: "\<not> check_non_int_context s"
    and pars: "create_params_ok func prio stack sz opt"
  shows "\<exists>s' L'. tn_task_create (Some t) func prio stack sz param opt s = Some (ret TERR_NO_ERR, s') \<and> kernel_ok s' L' \<and>
    tcb s' = (tcb s)(t := (if has_bits opt TN_TASK_START_ON_CREATION then ready_tcb else id)
                            (new_tcb func prio stack sz param (tcb s t))) \<and>
    mem s' = new_mem func stack sz param s \<and>
    pop_frame (task_stk (tcb s' t)) (mem s') = rev (init_frame func (addr_tn_task_exit s) param) \<and>
    tn_created_tasks_qty s' = tn_created_tasks_qty s + 1 \<and>
    tn_curr_run_task s' = tn_curr_run_task s \<and> cpsr s' = cpsr s \<and>
    (\<forall>q. (\<forall>p. q \<noteq> ReadyList p) \<longrightarrow> L' q = create_lists t L q)"
  using create_task [OF ok free ctx pars, of param] by blast

theorem task_create_ok_witness:
  "\<exists>s' L'. tn_task_create (Some 11) 0x9000 14 0x10000 32 7 TN_TASK_START_ON_CREATION demo = Some (ret TERR_NO_ERR, s') \<and>
     kernel_ok s' L' \<and> task_state (tcb s' 11) = TSK_STATE_RUNNABLE \<and> L' (TaskMutexQ 11) = [] \<and>
     pop_frame (task_stk (tcb s' 11)) (mem s') = rev (init_frame 0x9000 0x8000 7)"
proof -
  have p: "create_params_ok 0x9000 14 0x10000 32 TN_TASK_START_ON_CREATION" by (simp add: create_params_ok_def)
  have f: "id_task (tcb demo 11) = 0" "addr_tn_task_exit demo = 0x8000" by (simp_all add: demo_defs)
  have b: "has_bits TN_TASK_START_ON_CREATION TN_TASK_START_ON_CREATION" by (simp add: has_bits_def)
  obtain s' L' where m: "tn_task_create (Some 11) 0x9000 14 0x10000 32 7 TN_TASK_START_ON_CREATION demo = Some (ret TERR_NO_ERR, s')"
    "kernel_ok s' L'" "task_state (tcb s' 11) = TSK_STATE_RUNNABLE"
    "pop_frame (task_stk (tcb s' 11)) (mem s') = rev (init_frame 0x9000 0x8000 7)"
    "\<forall>q. (\<forall>p. q \<noteq> ReadyList p) \<longrightarrow> L' q = create_lists 11 demo_lists q"
    using task_create_ok [OF demo_ok f(1) demo_curr(4) p, of 7] f(2) b by (auto simp: ready_tcb_def)
  moreover have "L' (TaskMutexQ 11) = []" using m(5) by (simp add: create_lists_def)
  ultimately show ?thesis by blast
qed

end
