(* ===== verification/TN_Start.thy ===== *)
theory TN_Start
  imports TN_Task_Life
begin

text \<open>
  The start of the system establishes the invariant of the kernel: from memory that holds no
  object, \<open>tn_start_system\<close> empties the lists, creates the timer and the idle task, makes both ready
  and switches to the timer task.
\<close>

section \<open>The lists after the resets\<close>

text \<open>Before the start no object exists: the identification fields are 0.\<close>

definition no_objects :: "kernel \<Rightarrow> bool" where
  "no_objects s \<longleftrightarrow> (\<forall>t. id_task (tcb s t) = 0) \<and> (\<forall>i. id_sem (sem s i) = 0) \<and> (\<forall>i. id_event (event s i) = 0) \<and>
     (\<forall>i. id_dque (dque s i) = 0) \<and> (\<forall>i. id_fmp (fmp s i) = 0) \<and> (\<forall>i. id_mutex (mutex s i) = 0)"

lemma reset_ready_lists_eq:
  "reset_ready_lists n s = s\<lparr>qh := qh (reset_ready_lists n s), tn_tslice_ticks := tn_tslice_ticks (reset_ready_lists n s)\<rparr>"
proof (induction n)
  case 0
  show ?case by simp
next
  case (Suc n)
  show ?case by (subst reset_ready_lists.simps, subst (1) Suc, simp add: Let_def)
qed

lemma reset_ready_lists_placed:
  "placed (qh (reset_ready_lists n s)) ((\<lambda>i. ReadyList (int i)) ` {..<n}) (\<lambda>_. []) (\<lambda>_. None)"
proof (induction n)
  case 0
  show ?case by (simp add: placed_def lists_ok_def)
next
  case (Suc n)
  have "placed (queue_reset (ReadyList (int n)) (qh (reset_ready_lists n s)))
      (insert (ReadyList (int n)) ((\<lambda>i. ReadyList (int i)) ` {..<n})) ((\<lambda>_. [])(ReadyList (int n) := [])) (\<lambda>_. None)"
    by (rule placed_reset_new [OF Suc]) auto
  then show ?case by (simp add: Let_def lessThan_Suc fun_upd_idem)
qed

text \<open>The state in which \<open>tn_start_system\<close> creates its tasks.\<close>

definition cleared :: "kernel \<Rightarrow> kernel" where
  "cleared s = (reset_ready_lists 32 s)
     \<lparr>qh := queue_reset TimeoutList (queue_reset BlockedTasks (queue_reset LockedMutexes
              (queue_reset CreateQueue (qh (reset_ready_lists 32 s))))),
      tn_created_tasks_qty := 0, tn_system_state := TN_ST_STATE_NOT_RUN, tn_next_task_to_run := None,
      tn_curr_run_task := None, tn_enable_switch_context := 1, tn_context_switch_request := 0, tn_int_counter := 0,
      tn_ready_to_run_bmp := 0\<rparr>"

lemma cleared_fields [simp]:
  "tcb (cleared s) = tcb s" "sem (cleared s) = sem s" "event (cleared s) = event s" "dque (cleared s) = dque s"
  "fmp (cleared s) = fmp s" "mutex (cleared s) = mutex s" "mem (cleared s) = mem s"
  "addr_tn_task_exit (cleared s) = addr_tn_task_exit s"
  by (subst cleared_def, subst reset_ready_lists_eq, simp)+

lemma cleared_globals [simp]:
  "tn_created_tasks_qty (cleared s) = 0" "tn_system_state (cleared s) = TN_ST_STATE_NOT_RUN"
  "tn_next_task_to_run (cleared s) = None" "tn_int_counter (cleared s) = 0" "tn_ready_to_run_bmp (cleared s) = 0"
  by (simp_all add: cleared_def)

lemma cleared_heads:
  assumes "no_objects s"
  shows "heads (cleared s) = insert TimeoutList (insert BlockedTasks (insert LockedMutexes (insert CreateQueue
           ((\<lambda>i. ReadyList (int i)) ` {..<32}))))"
proof -
  have "p \<in> int ` {..<32}" if "0 \<le> p" "p < 32" for p
    using that by (intro image_eqI [of _ _ "nat p"]) auto
  then have r: "ReadyList p \<in> (\<lambda>i. ReadyList (int i)) ` {..<32} \<longleftrightarrow> 0 \<le> p \<and> p < 32" for p by auto
  have "is_head (cleared s) q \<longleftrightarrow> q \<in> insert TimeoutList (insert BlockedTasks (insert LockedMutexes (insert CreateQueue
           ((\<lambda>i. ReadyList (int i)) ` {..<32}))))" for q
    using assms by (cases q) (auto simp: no_objects_def is_task_def r)
  then show ?thesis by (auto simp: heads_def)
qed

lemma cleared_ok:
  assumes "no_objects s"
  shows "kernel_ok (cleared s) (\<lambda>_. [])"
proof -
  have nt: "\<not> is_task (cleared s) t" for t using assms by (simp add: no_objects_def is_task_def)
  have "id_mutex (mutex (cleared s) m) = 0" for m using assms by (simp add: no_objects_def)
  then have "home (cleared s) e = None" for e
    using nt assms by (cases e) (simp_all add: mutex_home_def lock_home_def no_objects_def)
  then have h: "home (cleared s) = (\<lambda>_. None)" by (simp add: fun_eq_iff)
  have "placed (queue_reset TimeoutList (queue_reset BlockedTasks (queue_reset LockedMutexes
              (queue_reset CreateQueue (qh (reset_ready_lists 32 s)))))) (heads (cleared s)) (\<lambda>_. []) (\<lambda>_. None)"
    unfolding cleared_heads [OF assms]
    using placed_reset_new [of _ _ "\<lambda>_. []" "\<lambda>_. None"] reset_ready_lists_placed [of 32 s]
    by (simp add: fun_upd_idem image_iff)
  then have "placed (qh (cleared s)) (heads (cleared s)) (\<lambda>_. []) (home (cleared s))"
    unfolding h by (simp add: cleared_def)
  then have "ready_ok (cleared s) (\<lambda>_. []) (home (cleared s))" by (simp add: ready_ok_def)
  moreover have "next_ok (cleared s) (\<lambda>_. []) (home (cleared s))" by (simp add: next_ok_def)
  ultimately show ?thesis using nt assms by (simp add: kernel_ok_def sched_ok_def no_objects_def)
qed

section \<open>The first switch\<close>

definition link_ok :: "link_addresses \<Rightarrow> bool" where
  "link_ok k \<longleftrightarrow> timer_func k \<noteq> 0 \<and> timer_stack k \<noteq> 0 \<and> idle_func k \<noteq> 0 \<and> idle_stack k \<noteq> 0"

lemma start_unfold:
  "tn_start_system k s =
     do {
       (r, s) \<leftarrow> tn_task_create (Some 0) (timer_func k) 0 (timer_stack k) TN_TIMER_STACK_SIZE 0 TN_TASK_TIMER (cleared s);
       (r, s) \<leftarrow> tn_task_create (Some 1) (idle_func k) 31 (idle_stack k) TN_IDLE_STACK_SIZE 0 TN_TASK_IDLE s;
       s \<leftarrow> task_to_runnable 1 s;
       s \<leftarrow> task_to_runnable 0 s;
       tn_start_exe (s\<lparr>tn_curr_run_task := Some 1\<rparr>)
     }"
proof -
  have swap: "x\<lparr>qh := h1, tn_created_tasks_qty := a1, tn_system_state := a2, tn_enable_switch_context := a3,
      tn_ready_to_run_bmp := a4, tn_context_switch_request := a5, tn_int_counter := a6, tn_next_task_to_run := a7,
      tn_curr_run_task := a8, qh := h2\<rparr> =
    x\<lparr>qh := h2, tn_created_tasks_qty := a1, tn_system_state := a2, tn_next_task_to_run := a7,
      tn_curr_run_task := a8, tn_enable_switch_context := a3, tn_context_switch_request := a5, tn_int_counter := a6,
      tn_ready_to_run_bmp := a4\<rparr>" for x h1 h2 a1 a2 a3 a4 a5 a6 a7 a8
    by (cases x) simp
  show ?thesis by (simp add: tn_start_system_def Let_def swap cleared_def)
qed

lemma start_system:
  assumes z: "no_objects s" and k: "link_ok k"
  shows "\<exists>s' L. tn_start_system k s = Some s' \<and> kernel_ok s' L \<and> curr_ok s' \<and> other_ready s' \<and>
    tn_curr_run_task s' = Some 0 \<and> tn_system_state s' = TN_ST_STATE_RUNNING \<and> \<not> check_non_int_context s' \<and>
    L = (\<lambda>_. [])(CreateQueue := [CreateQ 0, CreateQ 1], ReadyList 0 := [TaskQ 0], ReadyList 31 := [TaskQ 1]) \<and>
    tn_created_tasks_qty s' = 2 \<and> is_task s' 1 \<and> task_state (tcb s' 1) = TSK_STATE_RUNNABLE \<and> tn_int_counter s' = 0 \<and>
    objects_kept (cleared s) s' \<and> (\<forall>t. is_task s' t \<longrightarrow> task_state (tcb s' t) = TSK_STATE_RUNNABLE) \<and>
    wakeup_count (tcb s' 0) = 0"
proof -
  have p0: "create_params_ok (timer_func k) 0 (timer_stack k) TN_TIMER_STACK_SIZE TN_TASK_TIMER"
    and p1: "create_params_ok (idle_func k) 31 (idle_stack k) TN_IDLE_STACK_SIZE TN_TASK_IDLE"
    using k by (simp_all add: create_params_ok_def link_ok_def has_bits_def)
  have nb: "\<not> has_bits TN_TASK_TIMER TN_TASK_START_ON_CREATION" "\<not> has_bits TN_TASK_IDLE TN_TASK_START_ON_CREATION"
    by (simp_all add: has_bits_def)
  let ?x0 = "new_tcb (timer_func k) 0 (timer_stack k) TN_TIMER_STACK_SIZE 0 (tcb s 0)"
  let ?x1 = "new_tcb (idle_func k) 31 (idle_stack k) TN_IDLE_STACK_SIZE 0 (tcb s 1)"
  have f0: "id_task (tcb (cleared s) 0) = 0" using z by (simp add: no_objects_def)
  have c0: "\<not> check_non_int_context (cleared s)" by (simp add: check_non_int_context_def)
  obtain s1 where s1: "tn_task_create (Some 0) (timer_func k) 0 (timer_stack k) TN_TIMER_STACK_SIZE 0 TN_TASK_TIMER (cleared s)
      = Some (ret TERR_NO_ERR, s1)" "kernel_ok s1 (create_lists 0 (\<lambda>_. []))" "tcb s1 = (tcb s)(0 := ?x0)"
    "tn_created_tasks_qty s1 = 1" "tn_system_state s1 = TN_ST_STATE_NOT_RUN" "tn_int_counter s1 = 0"
    "objects_kept (cleared s) s1"
    using create_task [OF cleared_ok [OF z] f0 c0 p0, of 0] nb(1) by auto
  have f1: "id_task (tcb s1 1) = 0" using z s1(3) by (simp add: no_objects_def)
  have c1: "\<not> check_non_int_context s1" using s1(5,6) by (simp add: check_non_int_context_def)
  obtain s2 where s2: "tn_task_create (Some 1) (idle_func k) 31 (idle_stack k) TN_IDLE_STACK_SIZE 0 TN_TASK_IDLE s1
      = Some (ret TERR_NO_ERR, s2)" "kernel_ok s2 (create_lists 1 (create_lists 0 (\<lambda>_. [])))" "tcb s2 = (tcb s1)(1 := ?x1)"
    "tn_created_tasks_qty s2 = 2" "tn_system_state s2 = TN_ST_STATE_NOT_RUN" "tn_int_counter s2 = 0"
    "objects_kept s1 s2"
    using create_task [OF s1(2) f1 c1 p1, of 0] nb(2) s1(3,4,5,6) by auto
  let ?C = "create_lists 1 (create_lists 0 (\<lambda>_. []))"
  have t2: "is_task s2 1" "task_state (tcb s2 1) = TSK_STATE_DORMANT" "priority (tcb s2 1) = 31"
    "is_task s2 0" "task_state (tcb s2 0) = TSK_STATE_DORMANT" "priority (tcb s2 0) = 0"
    "wakeup_count (tcb s2 0) = 0"
    unfolding is_task_def s2(3) s1(3) by (simp_all add: new_tcb_def)
  obtain h3 b3 n3 where r3: "task_to_runnable 1 s2 =
      Some ((upd_tcb 1 ready_tcb s2)\<lparr>qh := h3, tn_ready_to_run_bmp := b3, tn_next_task_to_run := n3\<rparr>)"
    "kernel_ok ((upd_tcb 1 ready_tcb s2)\<lparr>qh := h3, tn_ready_to_run_bmp := b3, tn_next_task_to_run := n3\<rparr>)
      (?C(ReadyList 31 := [TaskQ 1]))"
    using enter_ready [OF s2(2) t2(1)] t2(2,3) by (auto simp: create_lists_def)
  define s3 where "s3 = (upd_tcb 1 ready_tcb s2)\<lparr>qh := h3, tn_ready_to_run_bmp := b3, tn_next_task_to_run := n3\<rparr>"
  note r3' = r3 [folded s3_def]
  have t3: "is_task s3 0" "task_state (tcb s3 0) = TSK_STATE_DORMANT" "priority (tcb s3 0) = 0"
    "is_task s3 1" "task_state (tcb s3 1) = TSK_STATE_RUNNABLE" "priority (tcb s3 1) = 31"
    "tn_created_tasks_qty s3 = 2" "tn_int_counter s3 = 0" "wakeup_count (tcb s3 0) = 0"
    using t2 s2(4,6) by (simp_all add: s3_def ready_tcb_def)
  obtain h4 b4 n4 where r4: "task_to_runnable 0 s3 =
      Some ((upd_tcb 0 ready_tcb s3)\<lparr>qh := h4, tn_ready_to_run_bmp := b4, tn_next_task_to_run := n4\<rparr>)"
    "kernel_ok ((upd_tcb 0 ready_tcb s3)\<lparr>qh := h4, tn_ready_to_run_bmp := b4, tn_next_task_to_run := n4\<rparr>)
      ((?C(ReadyList 31 := [TaskQ 1]))(ReadyList 0 := [TaskQ 0]))"
    using enter_ready [OF r3'(2) t3(1)] t3(2,3) by (auto simp: create_lists_def)
  define s4 where "s4 = (upd_tcb 0 ready_tcb s3)\<lparr>qh := h4, tn_ready_to_run_bmp := b4, tn_next_task_to_run := n4\<rparr>"
  note r4' = r4 [folded s4_def]
  have t4: "is_task s4 0" "task_state (tcb s4 0) = TSK_STATE_RUNNABLE" "priority (tcb s4 0) = 0"
    "is_task s4 1" "task_state (tcb s4 1) = TSK_STATE_RUNNABLE" "priority (tcb s4 1) = 31"
    "tn_created_tasks_qty s4 = 2" "tn_int_counter s4 = 0" "wakeup_count (tcb s4 0) = 0"
    using t3 by (simp_all add: s4_def ready_tcb_def)
  obtain n where n: "tn_next_task_to_run s4 = Some n"
    using next_ok_None [OF r4'(2) _ t4(1)] t4(2) by (cases "tn_next_task_to_run s4") auto
  have "n = 0"
  proof -
    have "priority (tcb s4 n) \<le> 0" using next_ok_runnable(3) [OF r4'(2) n t4(1,2)] t4(3) by simp
    moreover have "0 \<le> priority (tcb s4 n)" using kernel_task [OF r4'(2) next_ok_runnable(1) [OF r4'(2) n]]
      by (simp add: task_fields_ok_def)
    ultimately have "home s4 (TaskQ n) = Some (ReadyList 0)"
      using runnable_home [OF r4'(2) next_ok_runnable(1,2) [OF r4'(2) n]] by simp
    then show ?thesis using kernel_entry [OF r4'(2), of "ReadyList 0" "TaskQ n"] by simp
  qed
  define s' where "s' = s4\<lparr>tn_curr_run_task := Some 0, tn_system_state := TN_ST_STATE_RUNNING, cpsr := cpsr s4 AND NOT 0xC0\<rparr>"
  have swap: "x\<lparr>tn_curr_run_task := a, tn_system_state := b, tn_curr_run_task := c, cpsr := d\<rparr> =
      x\<lparr>tn_curr_run_task := c, tn_system_state := b, cpsr := d\<rparr>" for x a b c d by (cases x) simp
  have "tn_start_exe (s4\<lparr>tn_curr_run_task := Some 1\<rparr>) = Some s'"
    using n \<open>n = 0\<close> by (simp add: tn_start_exe_def tn_switch_context_def s'_def swap)
  then have "tn_start_system k s = Some s'"
    unfolding start_unfold s1(1) by (simp add: s2(1) [unfolded One_nat_def] r3'(1) [unfolded One_nat_def] r4'(1))
  moreover have "kernel_ok s' ((?C(ReadyList 31 := [TaskQ 1]))(ReadyList 0 := [TaskQ 0]))"
    using r4'(2) by (simp add: s'_def)
  moreover have "(?C(ReadyList 31 := [TaskQ 1]))(ReadyList 0 := [TaskQ 0]) =
      (\<lambda>_. [])(CreateQueue := [CreateQ 0, CreateQ 1], ReadyList 0 := [TaskQ 0], ReadyList 31 := [TaskQ 1])"
    by (auto simp: create_lists_def fun_eq_iff)
  moreover have "other_ready s'"
    unfolding other_ready_def using t4 by (intro exI [of _ 1]) (simp add: s'_def)
  moreover have "curr_ok s'" "tn_curr_run_task s' = Some 0" "tn_system_state s' = TN_ST_STATE_RUNNING"
    "tn_created_tasks_qty s' = 2"
    using t4 by (simp_all add: s'_def curr_ok_def)
  moreover have "objects_kept (cleared s) s'"
    using objects_kept_trans [OF s1(7) s2(7)] by (simp add: objects_kept_def s'_def s4_def s3_def)
  moreover have "task_state (tcb s' v) = TSK_STATE_RUNNABLE" if "is_task s' v" for v
  proof -
    have "v = 0 \<or> v = 1"
      using that z by (auto simp: is_task_def no_objects_def s'_def s4_def s3_def s2(3) s1(3) split: if_splits)
    then show ?thesis using t4(2,5) by (auto simp: s'_def)
  qed
  moreover have "is_task s' 1" "task_state (tcb s' 1) = TSK_STATE_RUNNABLE" "tn_int_counter s' = 0" "wakeup_count (tcb s' 0) = 0"
    using t4(4,5,8,9) by (simp_all add: s'_def)
  moreover have "\<not> check_non_int_context s'"
    using t4(8) by (simp add: s'_def check_non_int_context_def tn_chk_irq_disabled_def ac_simps)
  ultimately show ?thesis by (intro exI [of _ s'] exI) auto
qed

text \<open>C4. \<open>tn_start_system\<close>, started on memory without objects, ends with the first switch: the invariant of the kernel
  holds, the timer task runs, the timer and the idle task are the only ones, both ready, each alone in its ready
  list, no other list has an entry, and service calls are possible.\<close>

theorem start_system_ok:
  assumes "no_objects s" and "link_ok k"
  shows "\<exists>s' L. tn_start_system k s = Some s' \<and> kernel_ok s' L \<and> curr_ok s' \<and> other_ready s' \<and>
    tn_curr_run_task s' = Some 0 \<and> tn_system_state s' = TN_ST_STATE_RUNNING \<and> \<not> check_non_int_context s' \<and>
    L = (\<lambda>_. [])(CreateQueue := [CreateQ 0, CreateQ 1], ReadyList 0 := [TaskQ 0], ReadyList 31 := [TaskQ 1]) \<and>
    tn_created_tasks_qty s' = 2"
  using start_system [OF assms] by blast

text \<open>The memory at reset: every variable is 0.\<close>

definition boot :: kernel where
  "boot = \<lparr>qh = (\<lambda>_. \<lparr>q_prev = None, q_next = None\<rparr>), mem = (\<lambda>_. 0), tcb = (\<lambda>_. zero_tcb),
     sem = (\<lambda>_. \<lparr>count = 0, max_count = 0, id_sem = 0\<rparr>),
     event = (\<lambda>_. \<lparr>e_attr = 0, pattern = 0, id_event = 0\<rparr>),
     dque = (\<lambda>_. \<lparr>data_fifo = 0, num_entries = 0, tail_cnt = 0, header_cnt = 0, id_dque = 0\<rparr>),
     fmp = (\<lambda>_. \<lparr>block_size = 0, num_blocks = 0, start_addr = 0, free_list = 0, fblkcnt = 0, id_fmp = 0\<rparr>),
     mutex = (\<lambda>_. \<lparr>m_attr = 0, holder = None, ceil_priority = 0, cnt = 0, id_mutex = 0\<rparr>),
     tn_created_tasks_qty = 0, tn_tslice_ticks = (\<lambda>_. 0), tn_system_state = 0,
     tn_next_task_to_run = None, tn_curr_run_task = None, tn_enable_switch_context = 0,
     tn_context_switch_request = 0, tn_int_counter = 0, tn_ready_to_run_bmp = 0,
     tn_idle_count = 0, cpsr = 0xD3, addr_tn_task_exit = 0x8000\<rparr>"

definition boot_links :: link_addresses where
  "boot_links = \<lparr>timer_func = 0x8100, timer_stack = 0x40000100, idle_func = 0x8200, idle_stack = 0x40000200\<rparr>"

theorem start_system_ok_witness:
  "\<exists>s' L. tn_start_system boot_links boot = Some s' \<and> kernel_ok s' L \<and> curr_ok s' \<and> tn_curr_run_task s' = Some 0 \<and>
     L (ReadyList 31) = [TaskQ 1]"
proof -
  have "no_objects boot" "link_ok boot_links"
    by (simp_all add: no_objects_def boot_def zero_tcb_def link_ok_def boot_links_def)
  from start_system_ok [OF this] obtain s' L where m: "tn_start_system boot_links boot = Some s'" "kernel_ok s' L" "curr_ok s'"
    "tn_curr_run_task s' = Some 0"
    "L = (\<lambda>_. [])(CreateQueue := [CreateQ 0, CreateQ 1], ReadyList 0 := [TaskQ 0], ReadyList 31 := [TaskQ 1])" by blast
  have "L (ReadyList 31) = [TaskQ 1]" using m(5) by simp
  with m show ?thesis by blast
qed

end
