(* ===== verification/TN_Run.thy ===== *)
theory TN_Run
  imports TN_Tick TN_Start
begin

text \<open>
  The running system: calls of the tasks and interrupts, one after the other, as the steps of a
  machine. Every state that is reached from \<open>tn_start_system\<close> satisfies the invariant of the kernel and no step
  gets stuck; and a task that sleeps with a timeout wakes up, whichever of these steps the other tasks and the interrupts make,
  as long as the timer ticks.
\<close>

section \<open>The steps\<close>

text \<open>The calls that the tasks of the machine make, and the interrupts: the timer's, and interrupts whose handler signals a
  semaphore or wakes up a task. A call that ends in a switch
  goes on, when its task runs again, with a \<open>return\<close> only (\<open>RetNoErr\<close>, \<open>RetWaitRc\<close>).\<close>

datatype sys_event =
    Tick
  | IrqSignal oid
  | IrqWakeup tid
  | Sleep u32
  | Wakeup tid
  | ReleaseWait tid
  | Suspend tid
  | Resume tid
  | Activate tid
  | ChangePriority tid int
  | NewTask tid u32 int u32 int u32 u32
  | NewSem oid int int
  | Signal oid
  | Acquire oid u32
  | Polling oid

definition call :: "(kernel \<Rightarrow> (outcome \<times> kernel) option) \<Rightarrow> kernel \<Rightarrow> kernel option" where
  "call f s = do { (r, s') \<leftarrow> f s; Some s' }"

fun does :: "sys_event \<Rightarrow> kernel \<Rightarrow> kernel option" where
  "does Tick = tn_cpu_irq_isr tn_tick_int_processing"
| "does (IrqSignal i) = tn_cpu_irq_isr (call (tn_sem_isignal (Some i)))"
| "does (IrqWakeup u) = tn_cpu_irq_isr (call (tn_task_iwakeup (Some u)))"
| "does (Sleep timeout) = call (tn_task_sleep timeout)"
| "does (Wakeup u) = call (tn_task_wakeup (Some u))"
| "does (ReleaseWait u) = call (tn_task_release_wait (Some u))"
| "does (Suspend u) = call (tn_task_suspend (Some u))"
| "does (Resume u) = call (tn_task_resume (Some u))"
| "does (Activate u) = call (tn_task_activate (Some u))"
| "does (ChangePriority u np) = call (tn_task_change_priority (Some u) np)"
| "does (NewTask u func prio stack sz param opt) = call (tn_task_create (Some u) func prio stack sz param opt)"
| "does (NewSem i start mx) = call (tn_sem_create (Some i) start mx)"
| "does (Signal i) = call (tn_sem_signal (Some i))"
| "does (Acquire i timeout) = call (tn_sem_acquire (Some i) timeout)"
| "does (Polling i) = call (tn_sem_polling (Some i))"

text \<open>The idle task makes no call, nobody suspends it or changes its priority; objects are created once and used after that.
  Two kinds of steps after which the wait queue of an object holds a task that does not wait are left out: a tick at
  which a wait ends that is not a sleep, and \<open>tn_task_release_wait\<close> of a task that waits for an object.\<close>

fun may :: "sys_event \<Rightarrow> kernel \<Rightarrow> bool" where
  "may Tick s \<longleftrightarrow> (\<forall>u. timed s u \<and> over (tcb s u) \<longrightarrow> sleeping s u)"
| "may (IrqSignal i) s \<longleftrightarrow> id_sem (sem s i) = TN_ID_SEMAPHORE"
| "may (IrqWakeup u) s \<longleftrightarrow> is_task s u"
| "may (Sleep timeout) s \<longleftrightarrow> tn_curr_run_task s \<noteq> Some tn_idle_task \<and> timeout \<noteq> 0"
| "may (Wakeup u) s \<longleftrightarrow> tn_curr_run_task s \<noteq> Some tn_idle_task \<and> is_task s u"
| "may (ReleaseWait u) s \<longleftrightarrow> tn_curr_run_task s \<noteq> Some tn_idle_task \<and> is_task s u \<and>
     (has_bits (task_state (tcb s u)) TSK_STATE_WAIT \<longrightarrow> sleeping s u)"
| "may (Suspend u) s \<longleftrightarrow> tn_curr_run_task s \<noteq> Some tn_idle_task \<and> is_task s u \<and> u \<noteq> tn_idle_task"
| "may (Resume u) s \<longleftrightarrow> tn_curr_run_task s \<noteq> Some tn_idle_task \<and> is_task s u"
| "may (Activate u) s \<longleftrightarrow> tn_curr_run_task s \<noteq> Some tn_idle_task \<and> is_task s u"
| "may (ChangePriority u np) s \<longleftrightarrow> tn_curr_run_task s \<noteq> Some tn_idle_task \<and> is_task s u \<and> u \<noteq> tn_idle_task \<and>
     0 \<le> np \<and> np \<le> TN_NUM_PRIORITY - 2"
| "may (NewTask u func prio stack sz param opt) s \<longleftrightarrow> tn_curr_run_task s \<noteq> Some tn_idle_task \<and>
     id_task (tcb s u) = 0 \<and> create_params_ok func prio stack sz opt"
| "may (NewSem i start mx) s \<longleftrightarrow> tn_curr_run_task s \<noteq> Some tn_idle_task \<and>
     id_sem (sem s i) = 0 \<and> 0 < mx \<and> 0 \<le> start \<and> start \<le> mx"
| "may (Signal i) s \<longleftrightarrow> tn_curr_run_task s \<noteq> Some tn_idle_task \<and> id_sem (sem s i) = TN_ID_SEMAPHORE"
| "may (Acquire i timeout) s \<longleftrightarrow> tn_curr_run_task s \<noteq> Some tn_idle_task \<and> id_sem (sem s i) = TN_ID_SEMAPHORE \<and> timeout \<noteq> 0"
| "may (Polling i) s \<longleftrightarrow> tn_curr_run_task s \<noteq> Some tn_idle_task \<and> id_sem (sem s i) = TN_ID_SEMAPHORE"

definition kstep :: "sys_event \<Rightarrow> kernel \<Rightarrow> kernel \<Rightarrow> bool" where
  "kstep e s s' \<longleftrightarrow> may e s \<and> does e s = Some s'"

inductive runs :: "sys_event list \<Rightarrow> kernel \<Rightarrow> kernel \<Rightarrow> bool" where
  runs_Nil: "runs [] s s"
| runs_Cons: "kstep e s s' \<Longrightarrow> runs es s' s'' \<Longrightarrow> runs (e # es) s s''"

inductive_simps runs_simps: "runs [] s s'" "runs (e # es) s s'"

section \<open>The invariant of the running system\<close>

text \<open>No interrupt is being served, IRQs are enabled, and no switch is pending.\<close>

definition calm :: "kernel \<Rightarrow> bool" where
  "calm s \<longleftrightarrow> tn_system_state s = TN_ST_STATE_RUNNING \<and> tn_int_counter s = 0 \<and> tn_context_switch_request s = 0 \<and>
     tn_chk_irq_disabled s = 0"

definition idle_ready :: "kernel \<Rightarrow> bool" where
  "idle_ready s \<longleftrightarrow> is_task s tn_idle_task \<and> task_state (tcb s tn_idle_task) = TSK_STATE_RUNNABLE"

definition system_ok :: "kernel \<Rightarrow> bool" where
  "system_ok s \<longleftrightarrow> (\<exists>L. kernel_ok s L \<and> sem_ok s L) \<and> curr_ok s \<and> calm s \<and> idle_ready s"

lemma calm_ctx: "calm s \<Longrightarrow> \<not> check_non_int_context s"
  by (simp add: calm_def check_non_int_context_def)

lemma calm_call:
  assumes "calm s" and "sem_frame s s'" and "irq_kept (cpsr s) s'"
  shows "calm s'"
  using assms
  by (auto simp: calm_def sem_frame_def same_objects_def irq_kept_def tn_chk_irq_disabled_def ac_simps)

lemma sem_frame_same: "same_objects s s' \<Longrightarrow> sem_frame s s'"
  by (simp add: sem_frame_def same_objects_def)

lemma sem_ok_same:
  assumes "sem_ok s L" and "same_objects s s'" and "\<And>i. L' (SemWaitQ i) = L (SemWaitQ i)"
  shows "sem_ok s' L'"
  using assms by (simp add: sem_ok_def same_objects_def)

lemma other_ready_idle: "idle_ready s \<Longrightarrow> tn_curr_run_task s \<noteq> Some tn_idle_task \<Longrightarrow> other_ready s"
  unfolding other_ready_def idle_ready_def by blast

section \<open>What a step does to a task that sleeps\<close>

definition dozes :: "u32 \<Rightarrow> tn_tcb \<Rightarrow> bool" where
  "dozes c x \<longleftrightarrow> id_task x = TN_ID_TASK \<and> task_wait_reason x = TSK_WAIT_REASON_SLEEP \<and> tick_count x = c"

definition awake :: "tn_tcb \<Rightarrow> bool" where
  "awake x \<longleftrightarrow> task_state x = TSK_STATE_RUNNABLE \<or> task_state x = TSK_STATE_SUSPEND"

definition left :: "sys_event \<Rightarrow> u32 \<Rightarrow> u32" where
  "left e c = (if e = Tick \<and> 0 <s c then c - 1 else c)"

text \<open>The steps that wake up a given task.\<close>

fun wakes :: "sys_event \<Rightarrow> tid \<Rightarrow> bool" where
  "wakes (Wakeup v) u \<longleftrightarrow> v = u"
| "wakes (ReleaseWait v) u \<longleftrightarrow> v = u"
| "wakes (IrqWakeup v) u \<longleftrightarrow> v = u"
| "wakes _ u \<longleftrightarrow> False"

definition sleepers :: "sys_event \<Rightarrow> kernel \<Rightarrow> kernel \<Rightarrow> bool" where
  "sleepers e s s' \<longleftrightarrow> (\<forall>u c. dozes c (tcb s u) \<longrightarrow>
     (if wakes e u \<or> e = Tick \<and> c = 1 then awake (tcb s' u) else dozes (left e c) (tcb s' u)))"

lemma sleepersD: "sleepers e s s' \<Longrightarrow> dozes c (tcb s u) \<Longrightarrow>
    if wakes e u \<or> e = Tick \<and> c = 1 then awake (tcb s' u) else dozes (left e c) (tcb s' u)"
  by (simp add: sleepers_def)

lemma awake_complete [simp]: "awake (complete_tcb x)"
  by (simp add: awake_def complete_tcb_def)

text \<open>A call changes at most one control block.\<close>

lemma step_ok1:
  assumes sys: "system_ok s" and k: "kernel_ok s' L'" "sem_ok s' L'" "curr_ok s'" "calm s'" and t: "tcb s' = (tcb s)(t := x)"
    and idle: "t = tn_idle_task \<Longrightarrow> id_task x = TN_ID_TASK \<and> task_state x = TSK_STATE_RUNNABLE"
    and dz: "\<And>c. dozes c (tcb s t) \<Longrightarrow> if wakes e t then awake x else dozes c x"
    and e: "e \<noteq> Tick" "\<And>u c. wakes e u \<Longrightarrow> dozes c (tcb s u) \<Longrightarrow> u = t"
  shows "system_ok s' \<and> sleepers e s s'"
proof
  have "idle_ready s'" using sys idle by (auto simp: system_ok_def idle_ready_def is_task_def t)
  then show "system_ok s'" using k by (auto simp: system_ok_def)
  show "sleepers e s s'"
    unfolding sleepers_def
  proof (intro allI impI)
    fix u c assume d: "dozes c (tcb s u)"
    show "if wakes e u \<or> e = Tick \<and> c = 1 then awake (tcb s' u) else dozes (left e c) (tcb s' u)"
      using d dz [of c] e(1) e(2) [of u c] by (cases "u = t") (auto simp: left_def t)
  qed
qed

lemma call_step:
  assumes sys: "system_ok s" and k: "kernel_ok s' L'" "sem_ok s' L'" "curr_ok s'"
    and fr: "sem_frame s s'" "irq_kept (cpsr s) s'" and t: "tcb s' = (tcb s)(t := x)"
    and idle: "t = tn_idle_task \<Longrightarrow> id_task x = TN_ID_TASK \<and> task_state x = TSK_STATE_RUNNABLE"
    and dz: "\<And>c. dozes c (tcb s t) \<Longrightarrow> if wakes e t then awake x else dozes c x"
    and e: "e \<noteq> Tick" "\<And>u c. wakes e u \<Longrightarrow> dozes c (tcb s u) \<Longrightarrow> u = t"
  shows "system_ok s' \<and> sleepers e s s'"
proof -
  have cm: "calm s'" using calm_call [OF _ fr] sys by (simp add: system_ok_def)
  show ?thesis by (rule step_ok1 [OF sys k cm t], erule idle, erule dz, rule e(1), erule (1) e(2))
qed

text \<open>The facts about the state before a call.\<close>

lemma system_okE:
  assumes "system_ok s"
  obtains L t where "kernel_ok s L" "sem_ok s L" "curr_ok s" "calm s" "idle_ready s" "\<not> check_non_int_context s"
    "tn_curr_run_task s = Some t" "is_task s t" "task_state (tcb s t) = TSK_STATE_RUNNABLE" "task_wait_reason (tcb s t) = 0"
    "tick_count (tcb s t) = TN_WAIT_INFINITE"
proof -
  obtain L where ok: "kernel_ok s L" "sem_ok s L" "curr_ok s" "calm s" "idle_ready s" using assms by (auto simp: system_ok_def)
  obtain t where t: "tn_curr_run_task s = Some t" "is_task s t" "task_state (tcb s t) = TSK_STATE_RUNNABLE"
    using ok(3) by (auto simp: curr_ok_def)
  have "task_wait_reason (tcb s t) = 0" "tick_count (tcb s t) = TN_WAIT_INFINITE"
    using kernel_task [OF ok(1) t(2)] t(3) by (simp_all add: task_fields_ok_def)
  then show thesis using that ok t calm_ctx [OF ok(4)] by blast
qed

lemma sleep_step:
  assumes sys: "system_ok s" and m: "may (Sleep n) s"
  shows "\<exists>s'. does (Sleep n) s = Some s' \<and> system_ok s' \<and> sleepers (Sleep n) s s'"
proof -
  obtain L t where s: "kernel_ok s L" "sem_ok s L" "curr_ok s" "calm s" "idle_ready s" "\<not> check_non_int_context s"
    "tn_curr_run_task s = Some t" "is_task s t" "task_state (tcb s t) = TSK_STATE_RUNNABLE" "task_wait_reason (tcb s t) = 0"
    "tick_count (tcb s t) = TN_WAIT_INFINITE"
    by (rule system_okE [OF sys])
  have o: "other_ready s" using other_ready_idle [OF s(5)] m by simp
  have ti: "t \<noteq> tn_idle_task" using m s(7) by simp
  obtain r s' L' where r: "tn_task_sleep n s = Some (r, s')" "kernel_ok s' L'" "curr_ok s'"
    "same_objects s s'" "irq_kept (cpsr s) s'" "\<forall>q. plain_head q \<longrightarrow> L' q = L q"
    "if wakeup_count (tcb s t) > 0
     then r = ret TERR_NO_ERR \<and> s' = upd_tcb t (\<lambda>x. x\<lparr>wakeup_count := wakeup_count x - 1\<rparr>) s
     else r = Switch RetNoErr \<and> tn_curr_run_task s' \<noteq> Some t \<and>
          tcb s' = (tcb s)(t := wait_tcb None TSK_WAIT_REASON_SLEEP n (tcb s t))"
    using task_sleep_ok [OF s(1,6,3) o s(7), of n] m by auto
  have so: "sem_ok s' L'" by (rule sem_ok_same [OF s(2) r(4)]) (use r(6) in simp)
  have d: "does (Sleep n) s = Some s'" using r(1) by (simp add: call_def)
  show ?thesis
  proof (cases "wakeup_count (tcb s t) > 0")
    case True
    have t': "tcb s' = (tcb s)(t := (tcb s t)\<lparr>wakeup_count := wakeup_count (tcb s t) - 1\<rparr>)"
      using r(7) True by (simp add: fun_eq_iff)
    have "system_ok s' \<and> sleepers (Sleep n) s s'"
      by (rule call_step [OF sys r(2) so r(3) sem_frame_same [OF r(4)] r(5) t']) (use s ti in \<open>simp_all add: dozes_def\<close>)
    with d show ?thesis by blast
  next
    case False
    then have t': "tcb s' = (tcb s)(t := wait_tcb None TSK_WAIT_REASON_SLEEP n (tcb s t))" using r(7) by simp
    have "system_ok s' \<and> sleepers (Sleep n) s s'"
      by (rule call_step [OF sys r(2) so r(3) sem_frame_same [OF r(4)] r(5) t'])
        (use s ti in \<open>simp_all add: dozes_def wait_tcb_def\<close>)
    with d show ?thesis by blast
  qed
qed

lemma same_tcbs:
  assumes sys: "system_ok s" and k: "kernel_ok s' L'" "sem_ok s' L'" "curr_ok s'" "calm s'" and t: "tcb s' = tcb s" and e: "e \<noteq> Tick"
    and w: "\<And>u c. wakes e u \<Longrightarrow> \<not> dozes c (tcb s u)"
  shows "system_ok s' \<and> sleepers e s s'"
proof -
  obtain L t where s: "kernel_ok s L" "sem_ok s L" "curr_ok s" "calm s" "idle_ready s" "\<not> check_non_int_context s"
    "tn_curr_run_task s = Some t" "is_task s t" "task_state (tcb s t) = TSK_STATE_RUNNABLE" "task_wait_reason (tcb s t) = 0"
    "tick_count (tcb s t) = TN_WAIT_INFINITE"
    by (rule system_okE [OF sys])
  have t': "tcb s' = (tcb s)(t := tcb s t)" using t by simp
  show ?thesis
    by (rule step_ok1 [OF sys k t' _ _ e]) (use s w in \<open>auto simp: dozes_def is_task_def\<close>)
qed

lemma call_same:
  assumes sys: "system_ok s" and k: "kernel_ok s' L'" "sem_ok s' L'" "curr_ok s'"
    and fr: "sem_frame s s'" "irq_kept (cpsr s) s'" and t: "tcb s' = tcb s" and e: "e \<noteq> Tick"
    and w: "\<And>u c. wakes e u \<Longrightarrow> \<not> dozes c (tcb s u)"
  shows "system_ok s' \<and> sleepers e s s'"
proof -
  have cm: "calm s'" using calm_call [OF _ fr] sys by (simp add: system_ok_def)
  show ?thesis by (rule same_tcbs [OF sys k cm t e], erule w)
qed

lemma tcb_upd_eq: "tcb (upd_tcb t f s) = (tcb s)(t := f (tcb s t))"
  by (simp add: fun_eq_iff)

lemma wakeup_step:
  assumes sys: "system_ok s" and m: "may (Wakeup u) s"
  shows "\<exists>s'. does (Wakeup u) s = Some s' \<and> system_ok s' \<and> sleepers (Wakeup u) s s'"
proof -
  obtain L t where s: "kernel_ok s L" "sem_ok s L" "curr_ok s" "calm s" "idle_ready s" "\<not> check_non_int_context s"
    "tn_curr_run_task s = Some t" "is_task s t" "task_state (tcb s t) = TSK_STATE_RUNNABLE" "task_wait_reason (tcb s t) = 0"
    "tick_count (tcb s t) = TN_WAIT_INFINITE"
    by (rule system_okE [OF sys])
  obtain r s' L' where r: "tn_task_wakeup (Some u) s = Some (r, s')" "kernel_ok s' L'" "curr_ok s'"
    "same_objects s s'" "irq_kept (cpsr s) s'" "\<forall>q. plain_head q \<longrightarrow> L' q = L q"
    "if task_state (tcb s u) = TSK_STATE_DORMANT then r = ret TERR_WCONTEXT \<and> s' = s
     else if task_wait_reason (tcb s u) = TSK_WAIT_REASON_SLEEP
     then r = (if task_state (tcb s u) = TSK_STATE_WAIT then Switch RetNoErr else ret TERR_NO_ERR) \<and>
          tcb s' = (tcb s)(u := complete_tcb (tcb s u))
     else if wakeup_count (tcb s t) = 0 then r = ret TERR_NO_ERR \<and> s' = upd_tcb t (\<lambda>x. x\<lparr>wakeup_count := 1\<rparr>) s
     else r = ret TERR_OVERFLOW \<and> s' = s"
    using task_wakeup_ok [OF s(1) _ s(6,3,7), of u] m by auto
  have nd: "task_wait_reason (tcb s u) \<noteq> TSK_WAIT_REASON_SLEEP" if "task_state (tcb s u) = TSK_STATE_DORMANT"
    using kernel_task [OF s(1), of u] m that by (auto simp: task_fields_ok_def)
  have t: "task_wait_reason (tcb s u) = TSK_WAIT_REASON_SLEEP \<and> tcb s' = (tcb s)(u := complete_tcb (tcb s u)) \<or>
     task_wait_reason (tcb s u) \<noteq> TSK_WAIT_REASON_SLEEP \<and> tcb s' = tcb s \<or>
     task_wait_reason (tcb s u) \<noteq> TSK_WAIT_REASON_SLEEP \<and> tcb s' = (tcb s)(t := (tcb s t)\<lparr>wakeup_count := 1\<rparr>)"
    using r(7) nd by (simp add: tcb_upd_eq split: if_splits)
  have so: "sem_ok s' L'" by (rule sem_ok_same [OF s(2) r(4)]) (use r(6) in simp)
  note step = call_step [OF sys r(2) so r(3) sem_frame_same [OF r(4)] r(5)]
  have idle: "u \<noteq> tn_idle_task" if "task_wait_reason (tcb s u) = TSK_WAIT_REASON_SLEEP"
    using that s(5) kernel_task [OF s(1), of u] by (auto simp: idle_ready_def task_fields_ok_def)
  have "system_ok s' \<and> sleepers (Wakeup u) s s'"
    using t
  proof (elim disjE conjE)
    assume w: "task_wait_reason (tcb s u) \<noteq> TSK_WAIT_REASON_SLEEP" and t': "tcb s' = tcb s"
    show ?thesis
      by (rule call_same [OF sys r(2) so r(3) sem_frame_same [OF r(4)] r(5) t']) (use w in \<open>simp_all add: dozes_def\<close>)
  next
    assume w: "task_wait_reason (tcb s u) = TSK_WAIT_REASON_SLEEP" and t': "tcb s' = (tcb s)(u := complete_tcb (tcb s u))"
    show ?thesis by (rule step [OF t']) (use idle [OF w] in \<open>simp_all add: complete_tcb_def awake_def\<close>)
  next
    assume w: "task_wait_reason (tcb s u) \<noteq> TSK_WAIT_REASON_SLEEP" and t': "tcb s' = (tcb s)(t := (tcb s t)\<lparr>wakeup_count := 1\<rparr>)"
    show ?thesis by (rule step [OF t']) (use s w in \<open>simp_all add: dozes_def is_task_def\<close>)
  qed
  then show ?thesis using r(1) by (simp add: call_def)
qed

text \<open>Suspending and resuming leaves the waits alone.\<close>

lemma state_step:
  assumes sys: "system_ok s" and k: "kernel_ok s' L'" "sem_ok s' L'" "curr_ok s'"
    and fr: "same_objects s s'" "irq_kept (cpsr s) s'" and t: "tcb s' = (tcb s)(u := x)"
    and x: "id_task x = id_task (tcb s u)" "task_wait_reason x = task_wait_reason (tcb s u)" "tick_count x = tick_count (tcb s u)"
    and u: "u \<noteq> tn_idle_task" and e: "e \<noteq> Tick" "\<And>v. \<not> wakes e v"
  shows "system_ok s' \<and> sleepers e s s'"
  by (rule call_step [OF sys k sem_frame_same [OF fr(1)] fr(2) t _ _ e(1)]) (use x u e(2) in \<open>simp_all add: dozes_def\<close>)

lemma suspend_step:
  assumes sys: "system_ok s" and m: "may (Suspend u) s"
  shows "\<exists>s'. does (Suspend u) s = Some s' \<and> system_ok s' \<and> sleepers (Suspend u) s s'"
proof -
  obtain L t where s: "kernel_ok s L" "sem_ok s L" "curr_ok s" "calm s" "idle_ready s" "\<not> check_non_int_context s"
    "tn_curr_run_task s = Some t" "is_task s t" "task_state (tcb s t) = TSK_STATE_RUNNABLE" "task_wait_reason (tcb s t) = 0"
    "tick_count (tcb s t) = TN_WAIT_INFINITE"
    by (rule system_okE [OF sys])
  have o: "other_ready s" using other_ready_idle [OF s(5)] m by simp
  have u: "is_task s u" "u \<noteq> tn_idle_task" using m by simp_all
  obtain r s' L' where r: "tn_task_suspend (Some u) s = Some (r, s')" "kernel_ok s' L'" "curr_ok s'"
    "same_objects s s'" "irq_kept (cpsr s) s'" "\<forall>q. plain_head q \<longrightarrow> L' q = L q"
    "if suspended s u then r = ret TERR_OVERFLOW \<and> s' = s
     else if task_state (tcb s u) = TSK_STATE_DORMANT then r = ret TERR_WSTATE \<and> s' = s
     else if tn_curr_run_task s = Some u \<and> tn_enable_switch_context s = 0 then r = ret TERR_WCONTEXT \<and> s' = s
     else if task_state (tcb s u) = TSK_STATE_RUNNABLE
     then tcb s' = (tcb s)(u := (tcb s u)\<lparr>task_state := TSK_STATE_SUSPEND\<rparr>) \<and>
          L' = L(ReadyList (priority (tcb s u)) := remove1 (TaskQ u) (L (ReadyList (priority (tcb s u))))) \<and>
          (tn_curr_run_task s = Some u \<longrightarrow> r = Switch RetNoErr \<and> tn_curr_run_task s' \<noteq> Some u)
     else r = ret TERR_NO_ERR \<and> s' = upd_tcb u (\<lambda>x. x\<lparr>task_state := TSK_STATE_WAITSUSP\<rparr>) s \<and> L' = L"
    using task_suspend_ok [OF s(1) u(1) s(6,3) o] by blast
  have so: "sem_ok s' L'" by (rule sem_ok_same [OF s(2) r(4)]) (use r(6) in simp)
  define st where "st = task_state (tcb s' u)"
  have "tcb s' = tcb s \<or> tcb s' = (tcb s)(u := (tcb s u)\<lparr>task_state := st\<rparr>)"
    unfolding st_def using r(7) by (simp add: tcb_upd_eq split: if_splits)
  then have "system_ok s' \<and> sleepers (Suspend u) s s'"
  proof
    assume t': "tcb s' = tcb s"
    show ?thesis by (rule call_same [OF sys r(2) so r(3) sem_frame_same [OF r(4)] r(5) t']) simp_all
  next
    assume t': "tcb s' = (tcb s)(u := (tcb s u)\<lparr>task_state := st\<rparr>)"
    show ?thesis by (rule state_step [OF sys r(2) so r(3-5) t' _ _ _ u(2)]) simp_all
  qed
  then show ?thesis using r(1) by (simp add: call_def)
qed

lemma resume_step:
  assumes sys: "system_ok s" and m: "may (Resume u) s"
  shows "\<exists>s'. does (Resume u) s = Some s' \<and> system_ok s' \<and> sleepers (Resume u) s s'"
proof -
  obtain L t where s: "kernel_ok s L" "sem_ok s L" "curr_ok s" "calm s" "idle_ready s" "\<not> check_non_int_context s"
    "tn_curr_run_task s = Some t" "is_task s t" "task_state (tcb s t) = TSK_STATE_RUNNABLE" "task_wait_reason (tcb s t) = 0"
    "tick_count (tcb s t) = TN_WAIT_INFINITE"
    by (rule system_okE [OF sys])
  have u: "is_task s u" using m by simp
  obtain r s' L' where r: "tn_task_resume (Some u) s = Some (r, s')" "kernel_ok s' L'" "curr_ok s'"
    "same_objects s s'" "irq_kept (cpsr s) s'" "\<forall>q. plain_head q \<longrightarrow> L' q = L q"
    "if \<not> suspended s u then r = ret TERR_WSTATE \<and> s' = s
     else if task_state (tcb s u) = TSK_STATE_SUSPEND
     then tcb s' = (tcb s)(u := ready_tcb (tcb s u)) \<and>
          L' = L(ReadyList (priority (tcb s u)) := L (ReadyList (priority (tcb s u))) @ [TaskQ u]) \<and>
          r \<in> {Switch RetNoErr, ret TERR_NO_ERR}
     else r = ret TERR_NO_ERR \<and> s' = upd_tcb u (\<lambda>x. x\<lparr>task_state := TSK_STATE_WAIT\<rparr>) s \<and> L' = L"
    using task_resume_ok [OF s(1) u s(6,3)] by blast
  have t: "tcb s' = tcb s \<or> suspended s u \<and> tcb s' = (tcb s)(u := ready_tcb (tcb s u)) \<or>
     suspended s u \<and> tcb s' = (tcb s)(u := (tcb s u)\<lparr>task_state := TSK_STATE_WAIT\<rparr>)"
    using r(7) by (simp add: tcb_upd_eq split: if_splits)
  have so: "sem_ok s' L'" by (rule sem_ok_same [OF s(2) r(4)]) (use r(6) in simp)
  note step = state_step [OF sys r(2) so r(3-5)]
  have idle: "u \<noteq> tn_idle_task" if "suspended s u" using that s(5) by (auto simp: suspended_def idle_ready_def)
  have "system_ok s' \<and> sleepers (Resume u) s s'"
    using t
  proof (elim disjE conjE)
    assume t': "tcb s' = tcb s"
    show ?thesis by (rule call_same [OF sys r(2) so r(3) sem_frame_same [OF r(4)] r(5) t']) simp_all
  next
    assume w: "suspended s u" and t': "tcb s' = (tcb s)(u := ready_tcb (tcb s u))"
    show ?thesis by (rule step [OF t' _ _ _ idle [OF w]]) (simp_all add: ready_tcb_def)
  next
    assume w: "suspended s u" and t': "tcb s' = (tcb s)(u := (tcb s u)\<lparr>task_state := TSK_STATE_WAIT\<rparr>)"
    show ?thesis by (rule step [OF t' _ _ _ idle [OF w]]) simp_all
  qed
  then show ?thesis using r(1) by (simp add: call_def)
qed

lemma signal_step:
  assumes sys: "system_ok s" and m: "may (Signal i) s"
  shows "\<exists>s'. does (Signal i) s = Some s' \<and> system_ok s' \<and> sleepers (Signal i) s s'"
proof -
  obtain L t where s: "kernel_ok s L" "sem_ok s L" "curr_ok s" "calm s" "idle_ready s" "\<not> check_non_int_context s"
    "tn_curr_run_task s = Some t" "is_task s t" "task_state (tcb s t) = TSK_STATE_RUNNABLE" "task_wait_reason (tcb s t) = 0"
    "tick_count (tcb s t) = TN_WAIT_INFINITE"
    by (rule system_okE [OF sys])
  have id: "id_sem (sem s i) = TN_ID_SEMAPHORE" using m by simp
  obtain r s' L' where r: "tn_sem_signal (Some i) s = Some (r, s')" "kernel_ok s' L'" "sem_ok s' L'"
    "sem_frame s s'" "irq_kept (cpsr s) s'" "curr_ok s \<longrightarrow> curr_ok s'"
    "tcb s' = (case L (SemWaitQ i) of TaskQ t # ws \<Rightarrow> (tcb s)(t := complete_tcb (tcb s t)) | _ \<Rightarrow> tcb s)"
    using sem_signal_ok [OF s(1,2) id s(6)] by blast
  have c: "curr_ok s'" using r(6) s(3) by simp
  have "system_ok s' \<and> sleepers (Signal i) s s'"
  proof (cases "L (SemWaitQ i)")
    case Nil
    then have t': "tcb s' = tcb s" using r(7) by simp
    show ?thesis by (rule call_same [OF sys r(2,3) c r(4,5) t']) simp_all
  next
    case (Cons e ws)
    obtain u where u: "e = TaskQ u" "is_task s u" "task_state (tcb s u) = TSK_STATE_WAIT \<or> task_state (tcb s u) = TSK_STATE_WAITSUSP"
      "task_wait_reason (tcb s u) = TSK_WAIT_REASON_SEM"
      using wait_queue_entry [OF s(1), of "SemWaitQ i" e] Cons id by auto
    have t': "tcb s' = (tcb s)(u := complete_tcb (tcb s u))" using r(7) Cons u(1) by simp
    have ui: "u \<noteq> tn_idle_task" using u(3) s(5) by (auto simp: idle_ready_def)
    show ?thesis by (rule call_step [OF sys r(2,3) c r(4,5) t']) (use ui u(4) in \<open>simp_all add: complete_tcb_def dozes_def\<close>)
  qed
  then show ?thesis using r(1) by (simp add: call_def)
qed

lemma acquire_step:
  assumes sys: "system_ok s" and m: "may (Acquire i n) s"
  shows "\<exists>s'. does (Acquire i n) s = Some s' \<and> system_ok s' \<and> sleepers (Acquire i n) s s'"
proof -
  obtain L t where s: "kernel_ok s L" "sem_ok s L" "curr_ok s" "calm s" "idle_ready s" "\<not> check_non_int_context s"
    "tn_curr_run_task s = Some t" "is_task s t" "task_state (tcb s t) = TSK_STATE_RUNNABLE" "task_wait_reason (tcb s t) = 0"
    "tick_count (tcb s t) = TN_WAIT_INFINITE"
    by (rule system_okE [OF sys])
  have o: "other_ready s" using other_ready_idle [OF s(5)] m by simp
  have ti: "t \<noteq> tn_idle_task" using m s(7) by simp
  have id: "id_sem (sem s i) = TN_ID_SEMAPHORE" using m by simp
  have tm: "n \<noteq> 0" using m by simp
  obtain r s' L' where r: "tn_sem_acquire (Some i) n s = Some (r, s')" "kernel_ok s' L'" "sem_ok s' L'" "curr_ok s'"
    "sem_frame s s'" "irq_kept (cpsr s) s'"
    "tcb s' = tcb s \<or> tcb s' = (tcb s)(t := wait_tcb (Some (SemWaitQ i)) TSK_WAIT_REASON_SEM n (tcb s t))"
    using sem_acquire_ok [OF s(1,2) id s(6,3) o s(7) tm] by blast
  have "system_ok s' \<and> sleepers (Acquire i n) s s'"
    using r(7)
  proof
    assume t': "tcb s' = tcb s"
    show ?thesis by (rule call_same [OF sys r(2-6) t']) simp_all
  next
    assume t': "tcb s' = (tcb s)(t := wait_tcb (Some (SemWaitQ i)) TSK_WAIT_REASON_SEM n (tcb s t))"
    show ?thesis by (rule call_step [OF sys r(2-6) t']) (use s ti in \<open>simp_all add: dozes_def wait_tcb_def\<close>)
  qed
  then show ?thesis using r(1) by (simp add: call_def)
qed

lemma polling_step:
  assumes sys: "system_ok s" and m: "may (Polling i) s"
  shows "\<exists>s'. does (Polling i) s = Some s' \<and> system_ok s' \<and> sleepers (Polling i) s s'"
proof -
  obtain L t where s: "kernel_ok s L" "sem_ok s L" "curr_ok s" "calm s" "idle_ready s" "\<not> check_non_int_context s"
    "tn_curr_run_task s = Some t" "is_task s t" "task_state (tcb s t) = TSK_STATE_RUNNABLE" "task_wait_reason (tcb s t) = 0"
    "tick_count (tcb s t) = TN_WAIT_INFINITE"
    by (rule system_okE [OF sys])
  have id: "id_sem (sem s i) = TN_ID_SEMAPHORE" using m by simp
  obtain r s' where r: "tn_sem_polling (Some i) s = Some (r, s')" "kernel_ok s' L" "sem_ok s' L" "sem_frame s s'"
    "cpsr s' = cpsr s" "tcb s' = tcb s" "tn_curr_run_task s' = tn_curr_run_task s"
    using sem_polling_ok [OF s(1,2) id s(6)] by blast
  have "curr_ok s'" using s(3) r(6,7) by (simp add: curr_ok_def is_task_def)
  moreover have "irq_kept (cpsr s) s'" using r(5) by (simp add: irq_kept_def)
  ultimately have "system_ok s' \<and> sleepers (Polling i) s s'"
    using call_same [OF sys r(2,3) _ r(4) _ r(6), of "Polling i"] by simp
  then show ?thesis using r(1) by (simp add: call_def)
qed

lemma activate_step:
  assumes sys: "system_ok s" and m: "may (Activate u) s"
  shows "\<exists>s'. does (Activate u) s = Some s' \<and> system_ok s' \<and> sleepers (Activate u) s s'"
proof -
  obtain L t where s: "kernel_ok s L" "sem_ok s L" "curr_ok s" "calm s" "idle_ready s" "\<not> check_non_int_context s"
    "tn_curr_run_task s = Some t" "is_task s t" "task_state (tcb s t) = TSK_STATE_RUNNABLE" "task_wait_reason (tcb s t) = 0"
    "tick_count (tcb s t) = TN_WAIT_INFINITE"
    by (rule system_okE [OF sys])
  have u: "is_task s u" using m by simp
  obtain r s' L' where r: "tn_task_activate (Some u) s = Some (r, s')" "kernel_ok s' L'" "curr_ok s'"
    "same_objects s s'" "irq_kept (cpsr s) s'" "\<forall>q. plain_head q \<longrightarrow> L' q = L q"
    "if task_state (tcb s u) = TSK_STATE_DORMANT
     then r \<in> {Switch RetNoErr, ret TERR_NO_ERR} \<and> tcb s' = (tcb s)(u := ready_tcb (tcb s u)) \<and>
          L' = L(ReadyList (priority (tcb s u)) := L (ReadyList (priority (tcb s u))) @ [TaskQ u])
     else if activate_count (tcb s u) = 0 then r = ret TERR_NO_ERR \<and> s' = upd_tcb u (\<lambda>x. x\<lparr>activate_count := 1\<rparr>) s
     else r = ret TERR_OVERFLOW \<and> s' = s"
    using task_activate_ok [OF s(1) u s(6,3)] by blast
  have t: "tcb s' = tcb s \<or> task_state (tcb s u) = TSK_STATE_DORMANT \<and> tcb s' = (tcb s)(u := ready_tcb (tcb s u)) \<or>
     tcb s' = (tcb s)(u := (tcb s u)\<lparr>activate_count := 1\<rparr>)"
    using r(7) by (simp add: tcb_upd_eq split: if_splits)
  have so: "sem_ok s' L'" by (rule sem_ok_same [OF s(2) r(4)]) (use r(6) in simp)
  have "system_ok s' \<and> sleepers (Activate u) s s'"
    using t
  proof (elim disjE conjE)
    assume t': "tcb s' = tcb s"
    show ?thesis by (rule call_same [OF sys r(2) so r(3) sem_frame_same [OF r(4)] r(5) t']) simp_all
  next
    assume w: "task_state (tcb s u) = TSK_STATE_DORMANT" and t': "tcb s' = (tcb s)(u := ready_tcb (tcb s u))"
    have "u \<noteq> tn_idle_task" using w s(5) by (auto simp: idle_ready_def)
    then show ?thesis by (intro state_step [OF sys r(2) so r(3-5) t']) (simp_all add: ready_tcb_def)
  next
    assume t': "tcb s' = (tcb s)(u := (tcb s u)\<lparr>activate_count := 1\<rparr>)"
    show ?thesis
      by (rule call_step [OF sys r(2) so r(3) sem_frame_same [OF r(4)] r(5) t']) (use s in \<open>auto simp: dozes_def idle_ready_def is_task_def\<close>)
  qed
  then show ?thesis using r(1) by (simp add: call_def)
qed

lemma change_priority_step:
  assumes sys: "system_ok s" and m: "may (ChangePriority u np) s"
  shows "\<exists>s'. does (ChangePriority u np) s = Some s' \<and> system_ok s' \<and> sleepers (ChangePriority u np) s s'"
proof -
  obtain L t where s: "kernel_ok s L" "sem_ok s L" "curr_ok s" "calm s" "idle_ready s" "\<not> check_non_int_context s"
    "tn_curr_run_task s = Some t" "is_task s t" "task_state (tcb s t) = TSK_STATE_RUNNABLE" "task_wait_reason (tcb s t) = 0"
    "tick_count (tcb s t) = TN_WAIT_INFINITE"
    by (rule system_okE [OF sys])
  have u: "is_task s u" "u \<noteq> tn_idle_task" "0 \<le> np" "np \<le> TN_NUM_PRIORITY - 2" using m by simp_all
  obtain r s' L' where r: "tn_task_change_priority (Some u) np s = Some (r, s')" "kernel_ok s' L'" "curr_ok s'"
    "same_objects s s'" "irq_kept (cpsr s) s'" "\<forall>q. plain_head q \<longrightarrow> L' q = L q"
    "tcb s' = tcb s \<or> tcb s' = (tcb s)(u := (tcb s u)\<lparr>priority := if np = 0 then base_priority (tcb s u) else np\<rparr>)"
    using task_change_priority_ok [OF s(1) u(1) s(6,3) u(3,4)] by (auto split: if_splits)
  have so: "sem_ok s' L'" by (rule sem_ok_same [OF s(2) r(4)]) (use r(6) in simp)
  have "system_ok s' \<and> sleepers (ChangePriority u np) s s'"
    using r(7)
  proof
    assume t': "tcb s' = tcb s"
    show ?thesis by (rule call_same [OF sys r(2) so r(3) sem_frame_same [OF r(4)] r(5) t']) simp_all
  next
    assume t': "tcb s' = (tcb s)(u := (tcb s u)\<lparr>priority := if np = 0 then base_priority (tcb s u) else np\<rparr>)"
    show ?thesis by (rule state_step [OF sys r(2) so r(3-5) t' _ _ _ u(2)]) simp_all
  qed
  then show ?thesis using r(1) by (simp add: call_def)
qed

lemma release_wait_step:
  assumes sys: "system_ok s" and m: "may (ReleaseWait u) s"
  shows "\<exists>s'. does (ReleaseWait u) s = Some s' \<and> system_ok s' \<and> sleepers (ReleaseWait u) s s'"
proof -
  obtain L t where s: "kernel_ok s L" "sem_ok s L" "curr_ok s" "calm s" "idle_ready s" "\<not> check_non_int_context s"
    "tn_curr_run_task s = Some t" "is_task s t" "task_state (tcb s t) = TSK_STATE_RUNNABLE" "task_wait_reason (tcb s t) = 0"
    "tick_count (tcb s t) = TN_WAIT_INFINITE"
    by (rule system_okE [OF sys])
  have u: "is_task s u" "has_bits (task_state (tcb s u)) TSK_STATE_WAIT \<Longrightarrow> task_wait_reason (tcb s u) = TSK_WAIT_REASON_SLEEP"
    using m by (simp_all add: sleeping_def)
  obtain r s' L' where r: "tn_task_release_wait (Some u) s = Some (r, s')" "kernel_ok s' L'" "curr_ok s'"
    "same_objects s s'" "irq_kept (cpsr s) s'" "\<forall>q. plain_head q \<longrightarrow> L' q = L q"
    "if task_wait_reason (tcb s u) = TSK_WAIT_REASON_SLEEP
     then r = (if task_state (tcb s u) = TSK_STATE_WAIT then Switch RetNoErr else ret TERR_NO_ERR) \<and>
          tcb s' = (tcb s)(u := complete_tcb (tcb s u))
     else r = ret TERR_WCONTEXT \<and> s' = s"
    using task_release_sleep_ok [OF s(1) u(1) s(6,3) u(2)] by blast
  have so: "sem_ok s' L'" by (rule sem_ok_same [OF s(2) r(4)]) (use r(6) in simp)
  have "system_ok s' \<and> sleepers (ReleaseWait u) s s'"
  proof (cases "task_wait_reason (tcb s u) = TSK_WAIT_REASON_SLEEP")
    case True
    have ui: "u \<noteq> tn_idle_task" using True s(5) kernel_task [OF s(1), of u] by (auto simp: idle_ready_def task_fields_ok_def)
    have t': "tcb s' = (tcb s)(u := complete_tcb (tcb s u))" using r(7) True by simp
    show ?thesis
      by (rule call_step [OF sys r(2) so r(3) sem_frame_same [OF r(4)] r(5) t']) (use ui in simp_all)
  next
    case False
    then have t': "tcb s' = tcb s" using r(7) by simp
    show ?thesis
      by (rule call_same [OF sys r(2) so r(3) sem_frame_same [OF r(4)] r(5) t']) (use False in \<open>simp_all add: dozes_def\<close>)
  qed
  then show ?thesis using r(1) by (simp add: call_def)
qed

lemma new_sem_step:
  assumes sys: "system_ok s" and m: "may (NewSem i start mx) s"
  shows "\<exists>s'. does (NewSem i start mx) s = Some s' \<and> system_ok s' \<and> sleepers (NewSem i start mx) s s'"
proof -
  obtain L t where s: "kernel_ok s L" "sem_ok s L" "curr_ok s" "calm s" "idle_ready s" "\<not> check_non_int_context s"
    "tn_curr_run_task s = Some t" "is_task s t" "task_state (tcb s t) = TSK_STATE_RUNNABLE" "task_wait_reason (tcb s t) = 0"
    "tick_count (tcb s t) = TN_WAIT_INFINITE"
    by (rule system_okE [OF sys])
  have id: "id_sem (sem s i) = 0" "0 < mx \<and> 0 \<le> start \<and> start \<le> mx" using m by simp_all
  obtain s' where r: "tn_sem_create (Some i) start mx s = Some (ret TERR_NO_ERR, s')"
    "kernel_ok s' (L(SemWaitQ i := []))" "sem_ok s' (L(SemWaitQ i := []))" "sem_frame s s'" "cpsr s' = cpsr s" "tcb s' = tcb s"
    "tn_curr_run_task s' = tn_curr_run_task s"
    using sem_create_new [OF s(1,2) id(1) s(6) id(2)] by blast
  have "curr_ok s'" using s(3) r(6,7) by (simp add: curr_ok_def is_task_def)
  moreover have "irq_kept (cpsr s) s'" using r(5) by (simp add: irq_kept_def)
  ultimately have "system_ok s' \<and> sleepers (NewSem i start mx) s s'"
    using call_same [OF sys r(2,3) _ r(4) _ r(6), of "NewSem i start mx"] by simp
  then show ?thesis using r(1) by (simp add: call_def)
qed

lemma new_task_step:
  assumes sys: "system_ok s" and m: "may (NewTask u func prio stack sz param opt) s"
  shows "\<exists>s'. does (NewTask u func prio stack sz param opt) s = Some s' \<and> system_ok s' \<and>
    sleepers (NewTask u func prio stack sz param opt) s s'"
proof -
  obtain L t where s: "kernel_ok s L" "sem_ok s L" "curr_ok s" "calm s" "idle_ready s" "\<not> check_non_int_context s"
    "tn_curr_run_task s = Some t" "is_task s t" "task_state (tcb s t) = TSK_STATE_RUNNABLE" "task_wait_reason (tcb s t) = 0"
    "tick_count (tcb s t) = TN_WAIT_INFINITE"
    by (rule system_okE [OF sys])
  have id: "id_task (tcb s u) = 0" "create_params_ok func prio stack sz opt" using m by simp_all
  let ?x = "(if has_bits opt TN_TASK_START_ON_CREATION then ready_tcb else id) (new_tcb func prio stack sz param (tcb s u))"
  obtain s' L' where r: "tn_task_create (Some u) func prio stack sz param opt s = Some (ret TERR_NO_ERR, s')" "kernel_ok s' L'"
    "tcb s' = (tcb s)(u := ?x)" "tn_curr_run_task s' = tn_curr_run_task s" "cpsr s' = cpsr s"
    "\<forall>q. (\<forall>p. q \<noteq> ReadyList p) \<longrightarrow> L' q = create_lists u L q" "tn_system_state s' = tn_system_state s"
    "tn_int_counter s' = tn_int_counter s" "objects_kept s s'"
    using create_task [OF s(1) id(1) s(6) id(2), of param] by blast
  have nu: "u \<noteq> t" "u \<noteq> tn_idle_task" using id(1) s(5,8) by (auto simp: is_task_def idle_ready_def)
  have c: "curr_ok s'" using s(7-9) r(3,4) nu by (auto simp: curr_ok_def is_task_def)
  have so: "sem_ok s' L'" using s(2) r(6,9) by (simp add: sem_ok_def objects_kept_def create_lists_def)
  have calm: "calm s'" using s(4) r(5,7-9) by (simp add: calm_def objects_kept_def tn_chk_irq_disabled_def)
  have "idle_ready s'" using s(5) nu(2) r(3) by (simp add: idle_ready_def is_task_def)
  then have "system_ok s'" using r(2) so c calm by (auto simp: system_ok_def)
  moreover have "sleepers (NewTask u func prio stack sz param opt) s s'"
    using id(1) by (auto simp: sleepers_def dozes_def left_def r(3))
  ultimately show ?thesis using r(1) by (simp add: call_def)
qed

section \<open>The interrupts\<close>

lemma irq_enabled: "(x AND NOT 0xC0) AND 0x80 = (0 :: u32)"
proof -
  have "(x AND NOT 0xC0) AND 0x80 = x AND (NOT 0xC0 AND 0x80)" by (simp only: and.assoc)
  then show ?thesis by simp
qed

text \<open>The end of an interrupt, which may be a switch to another task.\<close>

abbreviation (input) in_irq :: "kernel \<Rightarrow> kernel" where
  "in_irq s \<equiv> s\<lparr>tn_int_counter := tn_int_counter s + 1, cpsr := cpsr s OR 0x80\<rparr>"

lemma isr_ok:
  assumes s: "calm s" and f: "f (in_irq s) = Some s2"
    and k: "kernel_ok s2 L2" "sem_ok s2 L2" "curr_ok s2"
    and fr: "tn_int_counter s2 = 1" "tn_system_state s2 = TN_ST_STATE_RUNNING" "cpsr s2 = cpsr s OR 0x80"
  shows "\<exists>s'. tn_cpu_irq_isr f s = Some s' \<and> kernel_ok s' L2 \<and> sem_ok s' L2 \<and> curr_ok s' \<and> calm s' \<and> tcb s' = tcb s2"
proof -
  obtain u where u: "tn_curr_run_task s2 = Some u" "is_task s2 u" "task_state (tcb s2 u) = TSK_STATE_RUNNABLE"
    using k(3) by (auto simp: curr_ok_def)
  obtain n where n: "tn_next_task_to_run s2 = Some n"
    using next_ok_None [OF k(1) _ u(2)] u(3) by (cases "tn_next_task_to_run s2") auto
  define s' where "s' = (if tn_context_switch_request s2 = 0 then s2\<lparr>tn_int_counter := 0, cpsr := cpsr s\<rparr>
    else s2\<lparr>tn_int_counter := 0, tn_context_switch_request := 0, tn_curr_run_task := Some n, cpsr := cpsr s2 AND NOT 0xC0\<rparr>)"
  have "tn_cpu_irq_isr f s = Some s'"
    using f fr(1) n by (simp add: tn_cpu_irq_isr_def s'_def tn_switch_context_def)
  moreover have "tcb s' = tcb s2" by (simp add: s'_def)
  moreover have "kernel_ok s' L2" using k(1) by (simp add: s'_def)
  moreover have "sem_ok s' L2" using k(2) by (simp add: s'_def sem_ok_def)
  moreover have "curr_ok s'"
    using u next_ok_runnable(1,2) [OF k(1) n] by (auto simp: s'_def curr_ok_def is_task_def)
  moreover have "calm s'"
    using fr(1,2) s irq_enabled [of "cpsr s2"] unfolding calm_def tn_chk_irq_disabled_def s'_def by simp
  ultimately show ?thesis by blast
qed

lemma in_irq_ok:
  assumes "kernel_ok s L" "sem_ok s L" "curr_ok s" "calm s"
  shows "kernel_ok (in_irq s) L" "sem_ok (in_irq s) L" "curr_ok (in_irq s)" "\<not> check_int_context (in_irq s)" "tn_int_counter (in_irq s) = 1"
    "tn_system_state (in_irq s) = TN_ST_STATE_RUNNING" "cpsr (in_irq s) = cpsr s OR 0x80"
  using assms by (simp_all add: curr_ok_def is_task_def sem_ok_def check_int_context_def calm_def)

lemma irq_signal_step:
  assumes sys: "system_ok s" and m: "may (IrqSignal i) s"
  shows "\<exists>s'. does (IrqSignal i) s = Some s' \<and> system_ok s' \<and> sleepers (IrqSignal i) s s'"
proof -
  obtain L t where s: "kernel_ok s L" "sem_ok s L" "curr_ok s" "calm s" "idle_ready s" "\<not> check_non_int_context s"
    "tn_curr_run_task s = Some t" "is_task s t" "task_state (tcb s t) = TSK_STATE_RUNNABLE" "task_wait_reason (tcb s t) = 0"
    "tick_count (tcb s t) = TN_WAIT_INFINITE"
    by (rule system_okE [OF sys])
  note q = in_irq_ok [OF s(1-4)]
  have id: "id_sem (sem (in_irq s) i) = TN_ID_SEMAPHORE" using m by simp
  obtain rc s2 L2 where r: "tn_sem_isignal (Some i) (in_irq s) = Some (ret rc, s2)" "kernel_ok s2 L2" "sem_ok s2 L2"
    "sem_frame ((in_irq s)\<lparr>tn_context_switch_request := tn_context_switch_request s2\<rparr>) s2" "curr_ok s2" "cpsr s2 = cpsr (in_irq s)"
    "tcb s2 = (case L (SemWaitQ i) of TaskQ t # ws \<Rightarrow> (tcb (in_irq s))(t := complete_tcb (tcb (in_irq s) t)) | _ \<Rightarrow> tcb (in_irq s))"
    using sem_isignal_ok [OF q(1,2) id q(4)] q(3) by blast
  have fr: "call (tn_sem_isignal (Some i)) (in_irq s) = Some s2" "tn_int_counter s2 = 1" "tn_system_state s2 = TN_ST_STATE_RUNNING"
    using r(1,4) q(5,6) by (simp_all add: call_def sem_frame_def same_objects_def)
  obtain s' where s': "does (IrqSignal i) s = Some s'" "kernel_ok s' L2" "sem_ok s' L2" "curr_ok s'" "calm s'" "tcb s' = tcb s2"
    using isr_ok [where f = "call (tn_sem_isignal (Some i))", OF s(4) fr(1) r(2,3,5) fr(2,3)] r(6) q(7) by auto
  have "system_ok s' \<and> sleepers (IrqSignal i) s s'"
  proof (cases "L (SemWaitQ i)")
    case Nil
    then have t': "tcb s' = tcb s" using r(7) s'(6) by simp
    show ?thesis by (rule same_tcbs [OF sys s'(2-5) t']) simp_all
  next
    case (Cons e ws)
    obtain u where u: "e = TaskQ u" "is_task s u" "task_state (tcb s u) = TSK_STATE_WAIT \<or> task_state (tcb s u) = TSK_STATE_WAITSUSP"
      "task_wait_reason (tcb s u) = TSK_WAIT_REASON_SEM"
      using wait_queue_entry [OF s(1), of "SemWaitQ i" e] Cons id by auto
    have t': "tcb s' = (tcb s)(u := complete_tcb (tcb s u))" using r(7) s'(6) Cons u(1) by simp
    have ui: "u \<noteq> tn_idle_task" using u(3) s(5) by (auto simp: idle_ready_def)
    show ?thesis by (rule step_ok1 [OF sys s'(2-5) t']) (use ui u(4) in \<open>simp_all add: complete_tcb_def dozes_def\<close>)
  qed
  then show ?thesis using s'(1) by blast
qed

lemma irq_wakeup_step:
  assumes sys: "system_ok s" and m: "may (IrqWakeup u) s"
  shows "\<exists>s'. does (IrqWakeup u) s = Some s' \<and> system_ok s' \<and> sleepers (IrqWakeup u) s s'"
proof -
  obtain L t where s: "kernel_ok s L" "sem_ok s L" "curr_ok s" "calm s" "idle_ready s" "\<not> check_non_int_context s"
    "tn_curr_run_task s = Some t" "is_task s t" "task_state (tcb s t) = TSK_STATE_RUNNABLE" "task_wait_reason (tcb s t) = 0"
    "tick_count (tcb s t) = TN_WAIT_INFINITE"
    by (rule system_okE [OF sys])
  note q = in_irq_ok [OF s(1-4)]
  have it: "is_task (in_irq s) u" "is_task s u" using m by simp_all
  have tc: "tn_curr_run_task (in_irq s) = Some t" using s(7) by simp
  obtain r s2 L2 where r: "tn_task_iwakeup (Some u) (in_irq s) = Some (r, s2)" "kernel_ok s2 L2" "curr_ok s2"
    "same_objects ((in_irq s)\<lparr>tn_context_switch_request := tn_context_switch_request s2\<rparr>) s2" "cpsr s2 = cpsr (in_irq s)"
    "\<forall>q. plain_head q \<longrightarrow> L2 q = L q"
    "tcb s2 = tcb s \<and> (task_state (tcb s u) = TSK_STATE_DORMANT \<or> task_wait_reason (tcb s u) \<noteq> TSK_WAIT_REASON_SLEEP) \<or>
     task_wait_reason (tcb s u) = TSK_WAIT_REASON_SLEEP \<and> tcb s2 = (tcb s)(u := complete_tcb (tcb s u)) \<or>
     task_wait_reason (tcb s u) \<noteq> TSK_WAIT_REASON_SLEEP \<and> tcb s2 = (tcb s)(t := (tcb s t)\<lparr>wakeup_count := 1\<rparr>)"
    using task_iwakeup_ok [OF q(1) it(1) q(4,3) tc] by (auto simp: tcb_upd_eq split: if_splits)
  have nd: "task_wait_reason (tcb s u) \<noteq> TSK_WAIT_REASON_SLEEP" if "task_state (tcb s u) = TSK_STATE_DORMANT"
    using kernel_task [OF s(1) it(2)] that by (auto simp: task_fields_ok_def)
  have so: "sem_ok s2 L2"
    using s(2) r(4,6) by (simp add: sem_ok_def same_objects_def)
  have fr: "call (tn_task_iwakeup (Some u)) (in_irq s) = Some s2" "tn_int_counter s2 = 1" "tn_system_state s2 = TN_ST_STATE_RUNNING"
    using r(1,4) q(5,6) by (simp_all add: call_def same_objects_def)
  obtain s' where s': "does (IrqWakeup u) s = Some s'" "kernel_ok s' L2" "sem_ok s' L2" "curr_ok s'" "calm s'" "tcb s' = tcb s2"
    using isr_ok [where f = "call (tn_task_iwakeup (Some u))", OF s(4) fr(1) r(2) so r(3) fr(2,3)] r(5) q(7) by auto
  have idle: "u \<noteq> tn_idle_task" if "task_wait_reason (tcb s u) = TSK_WAIT_REASON_SLEEP"
    using that s(5) kernel_task [OF s(1), of u] by (auto simp: idle_ready_def task_fields_ok_def)
  have "system_ok s' \<and> sleepers (IrqWakeup u) s s'"
    using r(7)
  proof (elim disjE conjE)
    assume "tcb s2 = tcb s" and w: "task_wait_reason (tcb s u) \<noteq> TSK_WAIT_REASON_SLEEP"
    then have t': "tcb s' = tcb s" using s'(6) by simp
    show ?thesis by (rule same_tcbs [OF sys s'(2-5) t']) (use w in \<open>simp_all add: dozes_def\<close>)
  next
    assume "tcb s2 = tcb s" and "task_state (tcb s u) = TSK_STATE_DORMANT"
    then have w: "task_wait_reason (tcb s u) \<noteq> TSK_WAIT_REASON_SLEEP" and t': "tcb s' = tcb s" using s'(6) nd by simp_all
    show ?thesis by (rule same_tcbs [OF sys s'(2-5) t']) (use w in \<open>simp_all add: dozes_def\<close>)
  next
    assume w: "task_wait_reason (tcb s u) = TSK_WAIT_REASON_SLEEP" and "tcb s2 = (tcb s)(u := complete_tcb (tcb s u))"
    then have t': "tcb s' = (tcb s)(u := complete_tcb (tcb s u))" using s'(6) by simp
    show ?thesis by (rule step_ok1 [OF sys s'(2-5) t']) (use idle [OF w] in simp_all)
  next
    assume w: "task_wait_reason (tcb s u) \<noteq> TSK_WAIT_REASON_SLEEP" and "tcb s2 = (tcb s)(t := (tcb s t)\<lparr>wakeup_count := 1\<rparr>)"
    then have t': "tcb s' = (tcb s)(t := (tcb s t)\<lparr>wakeup_count := 1\<rparr>)" using s'(6) by simp
    show ?thesis by (rule step_ok1 [OF sys s'(2-5) t']) (use s w in \<open>simp_all add: dozes_def is_task_def\<close>)
  qed
  then show ?thesis using s'(1) by blast
qed

text \<open>One entry of the list of timeouts, seen by the task.\<close>

lemma ticked_dozes:
  assumes "dozes c x" and "task_state x = TSK_STATE_WAIT \<or> task_state x = TSK_STATE_WAITSUSP"
  shows "if c = 1 then awake (ticked x) else dozes (left Tick c) (ticked x)"
proof (cases "c = 1")
  case True
  have "(0 :: u32) <s 1" by (simp add: word_sless_alt)
  with True assms show ?thesis by (auto simp: dozes_def ticked_def awake_def complete_tcb_def)
next
  case False
  have "\<not> 0 <s (TN_WAIT_INFINITE :: u32)" by (simp add: word_sless_alt)
  with False assms show ?thesis by (auto simp: dozes_def ticked_def left_def)
qed

lemma ticked_timed:
  assumes "task_wait_reason x = TSK_WAIT_REASON_SLEEP" and "tick_count (ticked x) \<noteq> TN_WAIT_INFINITE"
  shows "task_wait_reason (ticked x) = TSK_WAIT_REASON_SLEEP" "id_task (ticked x) = id_task x"
  using assms by (auto simp: ticked_def complete_tcb_def split: if_splits)

text \<open>If all timed tasks sleep, that is so after a tick as well.\<close>

lemma tick_timed:
  assumes tt: "tick_tcbs s s'" and sl: "\<And>u. timed s u \<Longrightarrow> sleeping s u" and u: "timed s' u"
  shows "sleeping s' u"
proof (cases "timed s u")
  case True
  then have "tcb s' u = ticked (tcb s u)" using tt by (simp add: tick_tcbs_def)
  then show ?thesis
    using sl [OF True] u ticked_timed [of "tcb s u"] by (simp add: timed_def sleeping_def is_task_def)
next
  case False
  have "tcb s' u = tcb s u \<or> (\<exists>n. tcb s' u = (tcb s u)\<lparr>tslice_count := n\<rparr>)"
    using False tt by (cases "tn_curr_run_task s = Some u") (simp_all add: tick_tcbs_def)
  then show ?thesis using False u by (auto simp: timed_def is_task_def)
qed

lemma tick_sleepers:
  assumes ok: "kernel_ok s L" and tt: "tick_tcbs s s'" and c: "curr_ok s"
  shows "sleepers Tick s s'" "idle_ready s \<Longrightarrow> idle_ready s'"
proof -
  obtain t where t: "tn_curr_run_task s = Some t" "is_task s t" "task_state (tcb s t) = TSK_STATE_RUNNABLE"
    using c by (auto simp: curr_ok_def)
  have nt: "\<not> timed s u" if "task_state (tcb s u) = TSK_STATE_RUNNABLE" for u using timed_waits [OF ok, of u] that by auto
  obtain n where n: "tcb s' t = (tcb s t)\<lparr>tslice_count := n\<rparr>" using tt t(1) by (auto simp: tick_tcbs_def)
  have tcb: "tcb s' u = (if timed s u then ticked (tcb s u) else if u = t then (tcb s t)\<lparr>tslice_count := n\<rparr> else tcb s u)" for u
    using tt t(1) n by (auto simp: tick_tcbs_def)
  have t0: "task_wait_reason (tcb s t) = 0" using kernel_task [OF ok t(2)] t(3) by (simp add: task_fields_ok_def)
  show "sleepers Tick s s'"
    unfolding sleepers_def
  proof (intro allI impI)
    fix u c assume d: "dozes c (tcb s u)"
    show "if wakes Tick u \<or> Tick = Tick \<and> c = 1 then awake (tcb s' u) else dozes (left Tick c) (tcb s' u)"
    proof (cases "timed s u")
      case True
      then show ?thesis using ticked_dozes [OF d timed_waits [OF ok True]] tcb [of u] by simp
    next
      case False
      then have c: "c = TN_WAIT_INFINITE" "u \<noteq> t" using d t0 by (auto simp: dozes_def timed_def is_task_def)
      have "\<not> 0 <s (TN_WAIT_INFINITE :: u32)" by (simp add: word_sless_alt)
      then have "dozes (left Tick c) (tcb s' u)" using d c False tcb [of u] by (simp add: left_def)
      moreover have "c \<noteq> 1" using c(1) by simp
      ultimately show ?thesis by simp
    qed
  qed
  show "idle_ready s'" if "idle_ready s"
    using that nt [of tn_idle_task] tcb [of tn_idle_task] by (auto simp: idle_ready_def is_task_def)
qed

lemma tick_step:
  assumes sys: "system_ok s" and m: "may Tick s"
  shows "\<exists>s'. does Tick s = Some s' \<and> system_ok s' \<and> sleepers Tick s s' \<and> tick_tcbs s s'"
proof -
  obtain L t where s: "kernel_ok s L" "sem_ok s L" "curr_ok s" "calm s" "idle_ready s" "\<not> check_non_int_context s"
    "tn_curr_run_task s = Some t" "is_task s t" "task_state (tcb s t) = TSK_STATE_RUNNABLE" "task_wait_reason (tcb s t) = 0"
    "tick_count (tcb s t) = TN_WAIT_INFINITE"
    by (rule system_okE [OF sys])
  note q = in_irq_ok [OF s(1-4)]
  have sm: "is_task (in_irq s) = is_task s" "timed (in_irq s) = timed s" "sleeping (in_irq s) = sleeping s"
    by (simp_all add: fun_eq_iff timed_def sleeping_def is_task_def)
  have sl: "sleeping (in_irq s) u" if "timed (in_irq s) u" "over (tcb (in_irq s) u)" for u
    using m that unfolding sm by simp
  obtain s2 L2 where s2: "tn_tick_int_processing (in_irq s) = Some s2" "kernel_ok s2 L2" "curr_ok s2" "tick_frame (in_irq s) s2"
    "tick_tcbs (in_irq s) s2" "\<forall>q. plain_head q \<longrightarrow> L2 q = L q"
    using tick_ok [OF q(1,3,4) sl] by blast
  have fr: "tn_int_counter s2 = 1" "sem s2 = sem s" "tn_system_state s2 = TN_ST_STATE_RUNNING" "cpsr s2 = cpsr s OR 0x80"
    using s2(4) s(4) by (simp_all add: tick_frame_def same_objects_def calm_def)
  have so: "sem_ok s2 L2" using s(2) s2(6) fr(2) by (simp add: sem_ok_def)
  obtain s' where s': "does Tick s = Some s'" "kernel_ok s' L2" "sem_ok s' L2" "curr_ok s'" "calm s'" "tcb s' = tcb s2"
    using isr_ok [where f = tn_tick_int_processing, OF s(4) s2(1,2) so s2(3) fr(1,3,4)] by auto
  have t': "tick_tcbs s s'" using s2(5) sm s'(6) by (simp add: tick_tcbs_def)
  note tick_sleepers [OF s(1) t' s(3)]
  then show ?thesis using s' s(5) t' by (auto simp: system_ok_def)
qed

text \<open>Every step that may be made is made, and keeps the invariant.\<close>

lemma step_ok:
  assumes sys: "system_ok s" and m: "may e s"
  shows "\<exists>s'. kstep e s s' \<and> system_ok s' \<and> sleepers e s s'"
proof -
  have "\<exists>s'. does e s = Some s' \<and> system_ok s' \<and> sleepers e s s'"
  proof (cases e)
    case Tick
    then show ?thesis using tick_step [OF sys] m by blast
  next
    case (IrqSignal i)
    then show ?thesis using irq_signal_step [OF sys] m by blast
  next
    case (IrqWakeup u)
    then show ?thesis using irq_wakeup_step [OF sys] m by blast
  next
    case (ReleaseWait u)
    then show ?thesis using release_wait_step [OF sys] m by blast
  next
    case (Activate u)
    then show ?thesis using activate_step [OF sys] m by blast
  next
    case (ChangePriority u np)
    then show ?thesis using change_priority_step [OF sys] m by blast
  next
    case (Polling i)
    then show ?thesis using polling_step [OF sys] m by blast
  next
    case (Sleep n)
    then show ?thesis using sleep_step [OF sys] m by blast
  next
    case (Wakeup u)
    then show ?thesis using wakeup_step [OF sys] m by blast
  next
    case (Suspend u)
    then show ?thesis using suspend_step [OF sys] m by blast
  next
    case (Resume u)
    then show ?thesis using resume_step [OF sys] m by blast
  next
    case (NewTask u f p st sz a opt)
    then show ?thesis using new_task_step [OF sys] m by blast
  next
    case (NewSem i start mx)
    then show ?thesis using new_sem_step [OF sys] m by blast
  next
    case (Signal i)
    then show ?thesis using signal_step [OF sys] m by blast
  next
    case (Acquire i n)
    then show ?thesis using acquire_step [OF sys] m by blast
  qed
  then show ?thesis using m by (auto simp: kstep_def)
qed

lemma kstep_ok:
  assumes "system_ok s" and "kstep e s s'"
  shows "system_ok s' \<and> sleepers e s s'"
  using step_ok [OF assms(1), of e] assms(2) by (auto simp: kstep_def)

lemma runs_ok: "runs es s s' \<Longrightarrow> system_ok s \<Longrightarrow> system_ok s'"
proof (induction rule: runs.induct)
  case (runs_Cons e s s1 es s2)
  then show ?case using kstep_ok by blast
qed

section \<open>Reachable states\<close>

lemma cleared_request: "tn_context_switch_request (cleared s) = 0"
  by (simp add: cleared_def)

lemma started:
  assumes z: "no_objects s0" and k: "link_ok k"
  shows "\<exists>s. tn_start_system k s0 = Some s \<and> system_ok s \<and> tn_curr_run_task s = Some tn_timer_task \<and>
    wakeup_count (tcb s tn_timer_task) = 0 \<and> (\<forall>u. \<not> timed s u)"
proof -
  obtain s L where s: "tn_start_system k s0 = Some s" "kernel_ok s L" "curr_ok s" "tn_curr_run_task s = Some 0"
    "tn_system_state s = TN_ST_STATE_RUNNING" "\<not> check_non_int_context s" "is_task s 1"
    "task_state (tcb s 1) = TSK_STATE_RUNNABLE" "tn_int_counter s = 0" "objects_kept (cleared s0) s"
    "\<forall>t. is_task s t \<longrightarrow> task_state (tcb s t) = TSK_STATE_RUNNABLE" "wakeup_count (tcb s 0) = 0"
    using start_system [OF z k] by blast
  have "sem_ok s L" using z s(10) by (simp add: sem_ok_def objects_kept_def no_objects_def)
  moreover have "calm s"
    using s(5,6,9,10) cleared_request by (simp add: calm_def check_non_int_context_def objects_kept_def)
  moreover have "idle_ready s" using s(7,8) by (simp add: idle_ready_def)
  moreover have "\<forall>u. \<not> timed s u"
    using s(11) timed_waits [OF s(2)] by (auto simp: timed_def)
  ultimately show ?thesis using s(1-4,12) by (auto simp: system_ok_def)
qed

text \<open>The first call of the timer task in a system that has just been started: it sleeps for ten ticks.\<close>

lemma started_sleep:
  "\<exists>s0 s1. tn_start_system boot_links boot = Some s0 \<and> system_ok s0 \<and> kstep (Sleep 10) s0 s1 \<and> system_ok s1 \<and>
     dozes 10 (tcb s1 tn_timer_task) \<and> (\<forall>u. timed s1 u \<longrightarrow> sleeping s1 u)"
proof -
  have "no_objects boot" "link_ok boot_links" by (simp_all add: no_objects_def boot_def zero_tcb_def link_ok_def boot_links_def)
  then obtain s0 where s0: "tn_start_system boot_links boot = Some s0" "system_ok s0" "tn_curr_run_task s0 = Some 0"
    "wakeup_count (tcb s0 0) = 0" "\<forall>u. \<not> timed s0 u" using started by blast
  have m: "may (Sleep 10) s0" using s0(3) by simp
  obtain s1 where s1: "kstep (Sleep 10) s0 s1" "system_ok s1" using step_ok [OF s0(2) m] by blast
  obtain L where k: "kernel_ok s0 L" "curr_ok s0" "idle_ready s0" "calm s0" using s0(2) by (auto simp: system_ok_def)
  have o: "other_ready s0" using other_ready_idle [OF k(3)] s0(3) by simp
  have t: "is_task s0 0" using k(2) s0(3) by (simp add: curr_ok_def)
  have t1: "tcb s1 = (tcb s0)(0 := wait_tcb None TSK_WAIT_REASON_SLEEP 10 (tcb s0 0))"
    using task_sleep_ok [OF k(1) calm_ctx [OF k(4)] k(2) o s0(3), of 10] s0(4) s1(1)
    by (auto simp: kstep_def call_def)
  have "dozes 10 (tcb s1 0)" using t by (simp add: t1 dozes_def wait_tcb_def is_task_def)
  moreover have "timed s1 u \<longrightarrow> sleeping s1 u" for u
    using s0(5) t by (cases "u = 0") (auto simp: timed_def sleeping_def t1 wait_tcb_def is_task_def)
  ultimately show ?thesis using s0(1,2) s1 by blast
qed

text \<open>C1. The start of the system, followed by any sequence of the steps of the machine: \<open>tn_task_sleep\<close>, \<open>wakeup\<close>,
  \<open>release_wait\<close>, \<open>suspend\<close>, \<open>resume\<close>, \<open>activate\<close>, \<open>change_priority\<close>, \<open>create\<close>, \<open>tn_sem_create\<close>, \<open>signal\<close>, \<open>acquire\<close>,
  \<open>polling\<close>, called by any task but the idle task, and the timer interrupt, \<open>tn_sem_isignal\<close> and \<open>tn_task_iwakeup\<close> as interrupts, as far
  as \<open>may\<close> admits them. Every state satisfies the
  invariant of the kernel and of the semaphores, IRQs are enabled, no switch is pending, the idle task is
  ready; and every step that may come next is carried out to its end.\<close>

theorem system_runs:
  assumes "no_objects s0" and "link_ok k"
  shows "\<exists>s1. tn_start_system k s0 = Some s1 \<and>
    (\<forall>es s. runs es s1 s \<longrightarrow> system_ok s \<and> (\<forall>e. may e s \<longrightarrow> (\<exists>s'. does e s = Some s' \<and> system_ok s')))"
proof -
  obtain s1 where "tn_start_system k s0 = Some s1" "system_ok s1" using started [OF assms] by blast
  then show ?thesis using runs_ok step_ok by (fastforce simp: kstep_def)
qed

theorem system_runs_witness:
  "\<exists>s1 s. tn_start_system boot_links boot = Some s1 \<and> runs [Sleep 10, Tick] s1 s \<and> system_ok s"
proof -
  have b: "no_objects boot" "link_ok boot_links"
    by (simp_all add: no_objects_def boot_def zero_tcb_def link_ok_def boot_links_def)
  obtain s1 s2 where s1: "tn_start_system boot_links boot = Some s1" "kstep (Sleep 10) s1 s2" "\<forall>u. timed s2 u \<longrightarrow> sleeping s2 u"
    using started_sleep by blast
  have all: "may e s \<Longrightarrow> \<exists>s'. kstep e s s'" if "runs es s1 s" for es s e
    using system_runs [OF b] s1(1) that unfolding kstep_def by fastforce
  have s2: "runs [Sleep 10] s1 s2" using s1(2) by (simp add: runs_simps)
  have "may Tick s2" using s1(3) by simp
  then obtain s3 where "kstep Tick s2 s3" using all [OF s2] by blast
  then have "runs [Sleep 10, Tick] s1 s3" using s2 by (auto simp: runs_simps)
  moreover from this have "system_ok s3" using system_runs [OF b] s1(1) by fastforce
  ultimately show ?thesis using s1(1) by blast
qed

section \<open>A task that sleeps wakes up\<close>

text \<open>A run of the machine that never ends, and the number of timer interrupts between two of its states.\<close>

definition run_of :: "(nat \<Rightarrow> sys_event) \<Rightarrow> (nat \<Rightarrow> kernel) \<Rightarrow> bool" where
  "run_of ev \<sigma> \<longleftrightarrow> (\<forall>n. kstep (ev n) (\<sigma> n) (\<sigma> (Suc n)))"

definition ticks :: "(nat \<Rightarrow> sys_event) \<Rightarrow> nat \<Rightarrow> nat \<Rightarrow> nat" where
  "ticks ev i j = length (filter (\<lambda>n. ev n = Tick) [i..<j])"

lemma ticks_split: "i \<le> m \<Longrightarrow> m \<le> j \<Longrightarrow> ticks ev i j = ticks ev i m + ticks ev m j"
  using upt_add_eq_append [of i m "j - m"] by (simp add: ticks_def)

lemma ticks_none: "(\<And>n. i \<le> n \<Longrightarrow> n < j \<Longrightarrow> ev n \<noteq> Tick) \<Longrightarrow> ticks ev i j = 0"
  by (simp add: ticks_def filter_empty_conv)

lemma ticks_one: "ticks ev m (Suc m) = (if ev m = Tick then 1 else 0)"
  by (simp add: ticks_def)

lemma run_ok: "run_of ev \<sigma> \<Longrightarrow> system_ok (\<sigma> 0) \<Longrightarrow> system_ok (\<sigma> n)"
  by (induction n) (use kstep_ok in \<open>auto simp: run_of_def\<close>)

lemma run_sleepers: "run_of ev \<sigma> \<Longrightarrow> system_ok (\<sigma> 0) \<Longrightarrow> sleepers (ev n) (\<sigma> n) (\<sigma> (Suc n))"
  using run_ok [of ev \<sigma> n] kstep_ok by (auto simp: run_of_def)

text \<open>Nothing happens to the task between the ticks, unless it is woken up.\<close>

lemma dozes_until:
  assumes run: "run_of ev \<sigma>" "system_ok (\<sigma> 0)" and d: "dozes c (tcb (\<sigma> i) u)"
    and q: "\<And>n. i \<le> n \<Longrightarrow> n < m \<Longrightarrow> ev n \<noteq> Tick \<and> \<not> wakes (ev n) u"
  shows "i \<le> n \<Longrightarrow> n \<le> m \<Longrightarrow> dozes c (tcb (\<sigma> n) u)"
proof (induction n)
  case 0
  then show ?case using d by simp
next
  case (Suc n)
  show ?case
  proof (cases "Suc n = i")
    case False
    then have n: "i \<le> n" "n < m" using Suc.prems by simp_all
    have "dozes c (tcb (\<sigma> n) u)" using Suc.IH n by simp
    from sleepersD [OF run_sleepers [OF run, of n] this] show ?thesis using q [OF n] by (simp add: left_def)
  qed (use d in simp)
qed

lemma count_down:
  fixes c :: u32
  assumes "0 <s c" and "c \<noteq> 1"
  shows "0 <s c - 1" "unat (c - 1) = unat c - 1" "1 < unat c"
proof -
  have c: "0 < sint c" "c \<noteq> 0" using assms(1) by (auto simp: word_sless_alt)
  have r: "sint c < 2 ^ 31" using sint_lt [of c] by simp
  have "sint (c - 1) = signed_take_bit 31 (sint c - 1)" by (simp add: sint_word_ariths)
  also have "\<dots> = sint c - 1" using c r by (intro signed_take_bit_int_eq_self) simp_all
  finally have e: "sint (c - 1) = sint c - 1" .
  have "sint c \<noteq> 1"
  proof
    assume "sint c = 1"
    then have "word_of_int (sint c) = (1 :: u32)" by simp
    with assms(2) show False by simp
  qed
  with c e show "0 <s c - 1" by (simp add: word_sless_alt)
  show "unat (c - 1) = unat c - 1" using c(2) by (simp add: unat_minus_one)
  have "unat c \<noteq> 0" using c(2) by (simp add: unat_eq_0)
  moreover have "unat c \<noteq> 1" 
  proof
    assume "unat c = 1"
    then have "of_nat (unat c) = (1 :: u32)" by simp
    with assms(2) show False by simp
  qed
  ultimately show "1 < unat c" by simp
qed

lemma sleeper_wakes:
  assumes run: "run_of ev \<sigma>" "system_ok (\<sigma> 0)" and fair: "\<And>n. \<exists>m\<ge>n. ev m = Tick"
  shows "dozes c (tcb (\<sigma> i) u) \<Longrightarrow> 0 <s c \<Longrightarrow>
    \<exists>j>i. awake (tcb (\<sigma> j) u) \<and> (\<forall>n. i \<le> n \<and> n < j \<longrightarrow> sleeping (\<sigma> n) u) \<and>
      (if wakes (ev (j - 1)) u then ticks ev i j < unat c else ticks ev i j = unat c)"
proof (induction "unat c" arbitrary: c i rule: less_induct)
  case less
  let ?stop = "\<lambda>m. i \<le> m \<and> (ev m = Tick \<or> wakes (ev m) u)"
  define m where "m = (LEAST m. ?stop m)"
  obtain m0 where "?stop m0" using fair [of i] by blast
  then have m: "?stop m" unfolding m_def by (rule LeastI)
  have q: "ev n \<noteq> Tick \<and> \<not> wakes (ev n) u" if "i \<le> n" "n < m" for n
    using not_less_Least [of n ?stop] that by (auto simp: m_def)
  have d: "dozes c (tcb (\<sigma> n) u)" if "i \<le> n" "n \<le> m" for n by (rule dozes_until [OF run less.prems(1) q that])
  have sl: "sleeping (\<sigma> n) u" if "i \<le> n" "n < Suc m" for n
    using d [of n] that by (simp add: dozes_def sleeping_def is_task_def)
  have st: "if wakes (ev m) u \<or> ev m = Tick \<and> c = 1 then awake (tcb (\<sigma> (Suc m)) u) else dozes (left (ev m) c) (tcb (\<sigma> (Suc m)) u)"
    by (rule sleepersD [OF run_sleepers [OF run, of m]]) (use d [of m] m in simp)
  have t0: "ticks ev i (Suc m) = (if ev m = Tick then 1 else 0)"
    using ticks_split [of i m "Suc m" ev] ticks_none [of i m ev] q m by (simp add: ticks_one)
  have pos: "0 < unat c" using less.prems(2) by (auto simp: word_sless_alt unat_gt_0)
  consider (wake) "wakes (ev m) u" | (last) "ev m = Tick" "c = 1" | (down) "ev m = Tick" "c \<noteq> 1" using m by blast
  then show ?case
  proof cases
    case wake
    then have "ev m \<noteq> Tick" by auto
    with wake show ?thesis using st t0 pos sl m by (intro exI [of _ "Suc m"]) simp
  next
    case last
    then show ?thesis using st t0 sl m by (intro exI [of _ "Suc m"]) simp
  next
    case down
    note cd = count_down [OF less.prems(2) down(2)]
    have "dozes (c - 1) (tcb (\<sigma> (Suc m)) u)" using st down less.prems(2) by (simp add: left_def)
    then obtain j where j: "j > Suc m" "awake (tcb (\<sigma> j) u)" "\<forall>n. Suc m \<le> n \<and> n < j \<longrightarrow> sleeping (\<sigma> n) u"
      "if wakes (ev (j - 1)) u then ticks ev (Suc m) j < unat (c - 1) else ticks ev (Suc m) j = unat (c - 1)"
      using less.hyps [of "c - 1" "Suc m"] cd by auto
    have "ticks ev i j = 1 + ticks ev (Suc m) j"
      using ticks_split [of i "Suc m" j ev] t0 down(1) j(1) m by simp
    moreover have "sleeping (\<sigma> n) u" if "i \<le> n" "n < j" for n using sl [of n] j(3) that by (cases "n < Suc m") auto
    ultimately show ?thesis using j cd m by (intro exI [of _ j]) (auto split: if_splits)
  qed
qed

text \<open>C2. In every run of the machine, whichever of its steps the other tasks and the interrupts make, a task that sleeps with
  a timeout between 1 and \<open>0x7FFFFFFF\<close> ticks sleeps until it is
  woken up by \<open>tn_task_wakeup\<close>, \<open>tn_task_iwakeup\<close> or \<open>tn_task_release_wait\<close> or, if it is not, for as many ticks as its
  timeout says; and as long as the timer goes on ticking, that happens.\<close>

theorem sleep_ends:
  assumes "run_of ev \<sigma>" and "system_ok (\<sigma> 0)" and "\<forall>n. \<exists>m\<ge>n. ev m = Tick"
    and "sleeping (\<sigma> i) u" and "0 <s tick_count (tcb (\<sigma> i) u)"
  shows "\<exists>j>i. awake (tcb (\<sigma> j) u) \<and> (\<forall>n. i \<le> n \<and> n < j \<longrightarrow> sleeping (\<sigma> n) u) \<and>
    (if wakes (ev (j - 1)) u then ticks ev i j < unat (tick_count (tcb (\<sigma> i) u))
     else ticks ev i j = unat (tick_count (tcb (\<sigma> i) u)))"
proof -
  have f: "\<And>n. \<exists>m\<ge>n. ev m = Tick" using assms(3) by blast
  have d: "dozes (tick_count (tcb (\<sigma> i) u)) (tcb (\<sigma> i) u)" using assms(4) by (simp add: dozes_def sleeping_def is_task_def)
  show ?thesis by (rule sleeper_wakes [OF assms(1,2) f d assms(5)])
qed

text \<open>As long as all timed tasks sleep, the machine can go on with ticks.\<close>

lemma tick_run:
  assumes "system_ok s" and "\<forall>u. timed s u \<longrightarrow> sleeping s u"
  shows "\<exists>\<sigma>. \<sigma> 0 = s \<and> run_of (\<lambda>_. Tick) \<sigma>"
proof -
  define \<sigma> where "\<sigma> n = ((\<lambda>x. the (does Tick x)) ^^ n) s" for n
  have st: "kstep Tick x (the (does Tick x)) \<and> system_ok (the (does Tick x)) \<and>
      (\<forall>u. timed (the (does Tick x)) u \<longrightarrow> sleeping (the (does Tick x)) u)"
    if x: "system_ok x" "\<forall>u. timed x u \<longrightarrow> sleeping x u" for x
  proof -
    have m: "may Tick x" using x(2) by simp
    obtain s' where s': "does Tick x = Some s'" "system_ok s'" "tick_tcbs x s'" using tick_step [OF x(1) m] by blast
    then show ?thesis using m tick_timed [OF s'(3)] x(2) unfolding kstep_def by auto
  qed
  have "system_ok (\<sigma> n) \<and> (\<forall>u. timed (\<sigma> n) u \<longrightarrow> sleeping (\<sigma> n) u)" for n
    by (induction n) (use assms st in \<open>simp_all add: \<sigma>_def\<close>)
  then have "kstep Tick (\<sigma> n) (\<sigma> (Suc n))" for n using st [of "\<sigma> n"] by (simp add: \<sigma>_def)
  then show ?thesis by (intro exI [of _ \<sigma>]) (simp add: run_of_def \<sigma>_def)
qed

text \<open>The timer task of a system that has just been started sleeps for ten ticks.\<close>

definition sleep_10 :: "nat \<Rightarrow> sys_event" where
  "sleep_10 n = (if n = 0 then Sleep 10 else Tick)"

theorem sleep_ends_witness:
  "\<exists>\<sigma> j. tn_start_system boot_links boot = Some (\<sigma> 0) \<and> run_of sleep_10 \<sigma> \<and> sleeping (\<sigma> 1) tn_timer_task \<and>
     1 < j \<and> awake (tcb (\<sigma> j) tn_timer_task) \<and> ticks sleep_10 1 j = 10"
proof -
  obtain s0 s1 where s0: "tn_start_system boot_links boot = Some s0" "system_ok s0"
    and s1: "kstep (Sleep 10) s0 s1" "system_ok s1" and z: "dozes 10 (tcb s1 0)" and sl1: "\<forall>u. timed s1 u \<longrightarrow> sleeping s1 u"
    using started_sleep by blast
  obtain \<tau> where t: "\<tau> 0 = s1" "run_of (\<lambda>_. Tick) \<tau>" using tick_run [OF s1(2) sl1] by blast
  define \<sigma> where "\<sigma> n = (case n of 0 \<Rightarrow> s0 | Suc n \<Rightarrow> \<tau> n)" for n
  have r: "run_of sleep_10 \<sigma>"
    unfolding run_of_def
  proof
    fix n show "kstep (sleep_10 n) (\<sigma> n) (\<sigma> (Suc n))"
      using t s1(1) by (cases n) (simp_all add: \<sigma>_def sleep_10_def run_of_def)
  qed
  have f: "\<forall>n. \<exists>m\<ge>n. sleep_10 m = Tick"
  proof
    fix n show "\<exists>m\<ge>n. sleep_10 m = Tick" by (rule exI [of _ "Suc n"]) (simp add: sleep_10_def)
  qed
  have sl: "sleeping (\<sigma> 1) 0" and c: "tick_count (tcb (\<sigma> 1) 0) = 10"
    using z t(1) by (simp_all add: \<sigma>_def dozes_def sleeping_def is_task_def)
  have pos: "0 <s tick_count (tcb (\<sigma> 1) 0)" unfolding c by (simp add: word_sless_alt)
  have sys: "system_ok (\<sigma> 0)" and 0: "\<sigma> 0 = s0" using s0(2) by (simp_all add: \<sigma>_def)
  obtain j where j: "1 < j" "awake (tcb (\<sigma> j) 0)" "if wakes (sleep_10 (j - 1)) 0 then ticks sleep_10 1 j < unat (tick_count (tcb (\<sigma> 1) 0))
      else ticks sleep_10 1 j = unat (tick_count (tcb (\<sigma> 1) 0))"
    using sleep_ends [OF r sys f sl pos] by blast
  have "\<not> wakes (sleep_10 (j - 1)) 0" by (simp add: sleep_10_def)
  then have "ticks sleep_10 1 j = 10" using j(3) unfolding c by simp
  then show ?thesis using s0(1) r sl 0 j(1,2) by blast
qed

end
