(* ===== verification/TN_Sem_Delete.thy ===== *)
theory TN_Sem_Delete
  imports TN_System
begin

text \<open>
  \<open>tn_sem_delete\<close> (\<^verbatim>\<open>TNKernel/tn_sem.c\<close>) from its start to its end. The call gives the processor away after
  every task it makes ready, so it runs in several stretches; what happens between two of them, the other tasks and
  the interrupts, is a parameter: one function per switch, from the state at the switch to
  the state in which the caller runs again.
\<close>

section \<open>A call in stretches\<close>

text \<open>The results of the stretches of a call, in order: switches, and the return at the end. There is no
  result if the functions are used up before the call returns.\<close>

fun stretches :: "(kernel \<Rightarrow> kernel) list \<Rightarrow> outcome \<times> kernel \<Rightarrow> (outcome \<times> kernel) list option" where
  "stretches es (Done rc v, s) = Some [(Done rc v, s)]"
| "stretches [] (Switch c, s) = None"
| "stretches (e # es) (Switch c, s) =
     do {
       x \<leftarrow> resume c (e s);
       xs \<leftarrow> stretches es x;
       Some ((Switch c, s) # xs)
     }"

text \<open>What the call relies on: when the caller \<open>c\<close> runs again, interrupts are enabled as they were when it
  called, the data of the kernel are in order, the semaphore is still there, and no task has joined or left its wait queue.
  All else may be different: the states of all tasks, time, and the other objects.\<close>

definition others_run :: "tid \<Rightarrow> oid \<Rightarrow> (kernel \<Rightarrow> kernel) \<Rightarrow> bool" where
  "others_run c i e \<longleftrightarrow>
     (\<forall>s L. kernel_ok s L \<and> sem_ok s L \<and> curr_ok s \<and> id_sem (sem s i) = TN_ID_SEMAPHORE \<longrightarrow>
        (\<exists>L'. kernel_ok (e s) L' \<and> sem_ok (e s) L' \<and> id_sem (sem (e s) i) = TN_ID_SEMAPHORE \<and>
           L' (SemWaitQ i) = L (SemWaitQ i) \<and> tn_curr_run_task (e s) = Some c \<and> tn_chk_irq_disabled (e s) = 0))"

section \<open>The whole call\<close>

lemma sem_delete_stretches:
  "kernel_ok s L \<Longrightarrow> sem_ok s L \<Longrightarrow> id_sem (sem s i) = TN_ID_SEMAPHORE \<Longrightarrow> sr_ok sr s \<Longrightarrow>
   \<forall>e\<in>set es. others_run c i e \<Longrightarrow> length (L (SemWaitQ i)) \<le> length es \<Longrightarrow>
   \<exists>xs s' L'. sem_delete_loop i sr s \<bind> stretches es = Some (xs @ [(ret TERR_NO_ERR, s')]) \<and>
     length xs \<le> length (L (SemWaitQ i)) \<and> kernel_ok s' L' \<and> sem_ok s' L' \<and> id_sem (sem s' i) = 0 \<and>
     (\<forall>u. TaskQ u \<in> set (L (SemWaitQ i)) \<longrightarrow>
        (\<exists>x\<in>set (xs @ [(ret TERR_NO_ERR, s')]). made_ready (tcb (snd x) u) \<or> kept_suspended (tcb (snd x) u)))"
proof (induction es arbitrary: s L sr)
  case Nil
  then have e: "L (SemWaitQ i) = []" by simp
  from sem_delete_stretch [OF Nil(1-4)] obtain s' L' where
    "sem_delete_loop i sr s = Some (ret TERR_NO_ERR, s')" "kernel_ok s' L'" "sem_ok s' L'" "id_sem (sem s' i) = 0"
    by (auto simp: e)
  then show ?case using e by (intro exI [of _ "[]"] exI [of _ s'] exI [of _ L']) simp
next
  case (Cons e es)
  from sem_delete_stretch [OF Cons.prems(1-4)] show ?case
  proof (elim disjE exE conjE)
    fix s' L' assume "sem_delete_loop i sr s = Some (ret TERR_NO_ERR, s')" "kernel_ok s' L'" "sem_ok s' L'"
      "id_sem (sem s' i) = 0" "\<forall>t. TaskQ t \<in> set (L (SemWaitQ i)) \<longrightarrow> kept_suspended (tcb s' t)"
    then show ?thesis by (intro exI [of _ "[]"] exI [of _ s'] exI [of _ L']) simp
  next
    fix pre t post s1 L1
    assume a: "L (SemWaitQ i) = pre @ TaskQ t # post"
      "sem_delete_loop i sr s = Some (Switch (SemDeleteLoop i (entry_sr sr s)), s1)"
      "kernel_ok s1 L1" "sem_ok s1 L1" "curr_ok s1" "id_sem (sem s1 i) = TN_ID_SEMAPHORE" "L1 (SemWaitQ i) = post"
      "\<forall>u. TaskQ u \<in> set pre \<longrightarrow> kept_suspended (tcb s1 u)" "made_ready (tcb s1 t)"
    have "others_run c i e" using Cons.prems(5) by simp
    then obtain L2 where e: "kernel_ok (e s1) L2" "sem_ok (e s1) L2" "id_sem (sem (e s1) i) = TN_ID_SEMAPHORE"
      "L2 (SemWaitQ i) = post" "tn_curr_run_task (e s1) = Some c" "tn_chk_irq_disabled (e s1) = 0"
      unfolding others_run_def using a(3-7) by metis
    have sr: "sr_ok (entry_sr sr s) (e s1)" using e(6) by (simp add: sr_ok_def)
    have es: "\<forall>e\<in>set es. others_run c i e" "length (L2 (SemWaitQ i)) \<le> length es"
      using Cons.prems(5,6) a(1) e(4) by simp_all
    from Cons.IH [OF e(1-3) sr es] obtain xs s' L' where ih:
      "sem_delete_loop i (entry_sr sr s) (e s1) \<bind> stretches es = Some (xs @ [(ret TERR_NO_ERR, s')])"
      "length xs \<le> length post" "kernel_ok s' L'" "sem_ok s' L'" "id_sem (sem s' i) = 0"
      "\<forall>u. TaskQ u \<in> set post \<longrightarrow>
        (\<exists>x\<in>set (xs @ [(ret TERR_NO_ERR, s')]). made_ready (tcb (snd x) u) \<or> kept_suspended (tcb (snd x) u))"
      unfolding e(4) by blast
    let ?x = "(Switch (SemDeleteLoop i (entry_sr sr s)), s1)"
    have "sem_delete_loop i sr s \<bind> stretches (e # es) = Some ((?x # xs) @ [(ret TERR_NO_ERR, s')])"
      using ih(1) a(2) e(5) by (auto simp: resume_def bind_eq_Some_conv)
    then show ?thesis
      using ih(2-6) a(1,8,9) by (intro exI [of _ "?x # xs"] exI [of _ s'] exI [of _ L']) auto
  qed
qed



end
