(* ===== verification/TN_Mutex_Unlock.thy ===== *)
theory TN_Mutex_Unlock
  imports TN_Mutex_Inv
begin

text \<open>
  Unlocking a mutex: the priority the task keeps, the hand-over to the first waiting task with the
  priority inheritance protocol, and what happens with the ceiling protocol when no task is blocked.
\<close>

section \<open>The mutex leaves the lists of its holder\<close>

lemma lock_cell_self:
  assumes ok: "kernel_ok s L" and m: "LockMutexQ m \<in> heads s"
  shows "L (LockMutexQ m) = []"
proof -
  have "home s e \<noteq> Some (LockMutexQ m)" for e
  proof (cases e)
    case (TaskQ t)
    then show ?thesis
      using kernel_task [OF ok, of t] by (auto simp: task_home_def task_fields_ok_def split: if_splits)
  qed (auto simp: timer_home_def block_home_def mutex_home_def lock_home_def)
  then show ?thesis using kernel_entry [OF ok m] by (metis last_in_set)
qed

lemma unlink_mutex:
  assumes ok: "kernel_ok s L" and id: "id_mutex (mutex s m) = TN_ID_MUTEX" and a: "m_attr (mutex s m) = TN_MUTEX_ATTR_INHERIT"
    and h: "holder (mutex s m) = Some t"
  shows "\<exists>h'. upd_qh (queue_remove_entry (MutexQ m)) s = Some (s\<lparr>qh := h'\<rparr>) \<and>
    upd_qh (queue_remove_entry (LockMutexQ m)) (s\<lparr>qh := h'\<rparr>) = Some (s\<lparr>qh := h'\<rparr>) \<and>
    placed h' (heads s) (L(TaskMutexQ t := remove1 (MutexQ m) (L (TaskMutexQ t)))) ((home s)(MutexQ m := None, LockMutexQ m := None))"
proof -
  have t: "TaskMutexQ t \<in> heads s" using kernel_mutex [OF ok id] h by simp
  have e: "home s (MutexQ m) = Some (TaskMutexQ t)" using id h by (simp add: mutex_home_def)
  obtain h' where h': "queue_remove_entry (MutexQ m) (qh s) = Some h'"
    "placed h' (heads s) (L(TaskMutexQ t := remove1 (MutexQ m) (L (TaskMutexQ t)))) ((home s)(MutexQ m := None))"
    using placed_remove_entry [OF kernel_placed [OF ok] t e] by blast
  have lm: "LockMutexQ m \<in> heads s" using id a by simp
  have "is_queue_empty (LockMutexQ m) h'"
    using placed_empty [OF h'(2) lm] lock_cell_self [OF ok lm] by simp
  moreover have "(home s)(MutexQ m := None, LockMutexQ m := None) = (home s)(MutexQ m := None)"
    using a by (auto simp: fun_eq_iff lock_home_def)
  ultimately show ?thesis
    using queue_remove_entry_self [of "LockMutexQ m" h'] h' by (intro exI [of _ h']) (simp add: upd_qh_def)
qed

section \<open>The priority the task keeps\<close>

text \<open>The priorities of the tasks in a queue, and of the tasks that wait for the mutexes of a list.\<close>

definition queue_prios :: "kernel \<Rightarrow> qaddr list \<Rightarrow> int set" where
  "queue_prios s es = {priority (tcb s u) | u. TaskQ u \<in> set es}"

definition held_prios :: "kernel \<Rightarrow> (qaddr \<Rightarrow> qaddr list) \<Rightarrow> qaddr list \<Rightarrow> int set" where
  "held_prios s L es = (\<Union>n \<in> {n. MutexQ n \<in> set es}. queue_prios s (L (MutexWaitQ n)))"

text \<open>The priority that a task has when it holds the mutexes of a list.\<close>

definition held_priority :: "kernel \<Rightarrow> (qaddr \<Rightarrow> qaddr list) \<Rightarrow> tid \<Rightarrow> qaddr list \<Rightarrow> int" where
  "held_priority s L t es = Min (insert (base_priority (tcb s t)) (held_prios s L es))"

lemma finite_prios [simp]: "finite (queue_prios s es)" "finite (held_prios s L es)"
proof -
  have "queue_prios s es = (\<lambda>u. priority (tcb s u)) ` (TaskQ -` set es)" for es
    by (auto simp: queue_prios_def)
  then show q: "finite (queue_prios s es)" for es
    by (simp add: finite_vimageI inj_def)
  have "{n. MutexQ n \<in> set es} = MutexQ -` set es" by auto
  then show "finite (held_prios s L es)"
    unfolding held_prios_def using q by (simp add: finite_vimageI inj_def)
qed

lemma held_prios_simps [simp]:
  "held_prios s L [] = {}"
  "held_prios s L (MutexQ n # es) = queue_prios s (L (MutexWaitQ n)) \<union> held_prios s L es"
  by (auto simp: held_prios_def)

lemma Min_insert_Min:
  "finite A \<Longrightarrow> finite B \<Longrightarrow> Min (insert (Min (insert p A)) B) = Min (insert p (A \<union> B))" for p :: int
  by (cases "A = {}"; cases "B = {}") (simp_all add: Min_Un min.assoc)

lemma held_loop_eq:
  assumes pl: "placed (qh s) H L P" and me: "TaskMutexQ me \<in> H"
    and held: "\<And>e. e \<in> set (L (TaskMutexQ me)) \<Longrightarrow> \<exists>n. e = MutexQ n \<and> MutexWaitQ n \<in> H \<and>
      m_attr (mutex s n) \<in> {TN_MUTEX_ATTR_CEILING, TN_MUTEX_ATTR_INHERIT} \<and>
      (\<forall>e \<in> set (L (MutexWaitQ n)). \<exists>t. e = TaskQ t)"
  shows "L (TaskMutexQ me) = pre @ e # es \<Longrightarrow>
    held_loop me (Some e) pr s = Some (Min (insert pr (held_prios s L (e # es))))"
proof (induction es arbitrary: pre e pr)
  case Nil
  obtain n where n: "e = MutexQ n" "MutexWaitQ n \<in> H" "m_attr (mutex s n) \<in> {TN_MUTEX_ATTR_CEILING, TN_MUTEX_ATTR_INHERIT}"
    "\<And>x. x \<in> set (L (MutexWaitQ n)) \<Longrightarrow> \<exists>t. x = TaskQ t"
    using held [of e] Nil by auto
  have nx: "q_next (qh s e) = Some (TaskMutexQ me)" using placed_next_entry [OF pl me Nil] by simp
  show ?case
    using find_max_at [OF pl n(2) n(4,3), of pr] n(1) nx
    by (subst held_loop.simps) (simp add: queue_prios_def)
next
  case (Cons x xs)
  obtain n where n: "e = MutexQ n" "MutexWaitQ n \<in> H" "m_attr (mutex s n) \<in> {TN_MUTEX_ATTR_CEILING, TN_MUTEX_ATTR_INHERIT}"
    "\<And>x. x \<in> set (L (MutexWaitQ n)) \<Longrightarrow> \<exists>t. x = TaskQ t"
    using held [of e] Cons.prems by auto
  have nx: "q_next (qh s e) = Some x" using placed_next_entry [OF pl me Cons.prems] by simp
  have "x \<in> set (L (TaskMutexQ me))" using Cons.prems by simp
  then have xq: "x \<noteq> TaskMutexQ me"
    using cdll_distinct [OF lists_ok_cdll [OF placed_lists_ok [OF pl] me]] by auto
  let ?p = "Min (insert pr (queue_prios s (L (MutexWaitQ n))))"
  have "held_loop me (Some e) pr s = held_loop me (Some x) ?p s"
    using find_max_at [OF pl n(2) n(4,3), of pr] n(1) nx xq
    by (subst held_loop.simps) (simp add: queue_prios_def)
  moreover have "L (TaskMutexQ me) = (pre @ [e]) @ x # xs" using Cons.prems by simp
  ultimately show ?case
    using Cons.IH [of "pre @ [e]" x ?p] n(1) Min_insert_Min [of "queue_prios s (L (MutexWaitQ n))" "held_prios s L (x # xs)" pr]
    by simp
qed

section \<open>The running task takes another priority\<close>

lemma ready_priority_sched:
  assumes ok: "sched_ok s L P" and st: "task_state (tcb s t) = TSK_STATE_RUNNABLE"
    and p: "0 \<le> priority (tcb s t)" "priority (tcb s t) < TN_NUM_PRIORITY" and q: "0 \<le> q" "q < TN_NUM_PRIORITY"
    and t: "P (TaskQ t) = Some (ReadyList (priority (tcb s t)))"
  shows "\<exists>rc h b n L'. set_current_priority t q s =
      Some (rc, (upd_tcb t (prio_tcb q) s)\<lparr>qh := h, tn_ready_to_run_bmp := b, tn_next_task_to_run := n\<rparr>) \<and>
    sched_ok ((upd_tcb t (prio_tcb q) s)\<lparr>qh := h, tn_ready_to_run_bmp := b, tn_next_task_to_run := n\<rparr>) L'
      (P(TaskQ t := Some (ReadyList q))) \<and> (\<forall>w. (\<forall>p. w \<noteq> ReadyList p) \<longrightarrow> L' w = L w)"
proof (cases "priority (tcb s t) = q")
  case True
  have "prio_tcb q (tcb s t) = tcb s t" using True by (cases "tcb s t") (simp add: prio_tcb_def)
  then have "upd_tcb t (prio_tcb q) s = s"
    using upd_cong(1) [of "prio_tcb q" s t "\<lambda>x. x"] by simp
  moreover have "set_current_priority t q s = Some (0, s)"
    using True by (simp add: set_current_priority_def) (subst set_priority_loop.simps, simp)
  ultimately show ?thesis
    using ok t True
    by (intro exI [of _ 0] exI [of _ "qh s"] exI [of _ "tn_ready_to_run_bmp s"] exI [of _ "tn_next_task_to_run s"] exI [of _ L])
      (simp add: fun_upd_idem)
next
  case False
  have f: "(\<lambda>t. t\<lparr>priority := q\<rparr>) = prio_tcb q" by (simp add: fun_eq_iff prio_tcb_def)
  have "set_current_priority t q s = change_running_task_priority t q s"
    using False st by (simp add: set_current_priority_def) (subst set_priority_loop.simps, simp)
  with change_running_task_priority_ok [OF ok p q refl t, unfolded f] show ?thesis by force
qed

text \<open>The completion of a wait for a mutex does not touch the priority of the holder, unless the holder
  runs with the inherited priority of the very task; then its priority is computed again, from the tasks that
  wait for this mutex.\<close>

lemma complete_mutex_eq:
  assumes w: "waits_for_mutex (tcb s u)" "pwait_queue (tcb s u) = Some (MutexWaitQ m)"
    and h: "holder (mutex s m) = Some t" "t \<noteq> u"
    and r: "task_wait_complete (Some u) (upd_tcb u (\<lambda>x. x\<lparr>task_wait_reason := 0\<rparr>) s) = Some (rc, s')"
    and s': "tcb s' = (tcb s)(u := complete_tcb (tcb s u))" "mutex s' = mutex s"
  shows "task_wait_complete (Some u) s =
    (if priority (tcb s t) \<noteq> base_priority (tcb s t) \<and> priority (tcb s t) = priority (tcb s u)
     then do {
       p \<leftarrow> find_max_blocked_priority m (base_priority (tcb s t)) s';
       (r, s) \<leftarrow> set_current_priority t p s';
       Some (r \<noteq> 0 \<or> rc, s)
     }
     else Some (rc, s'))"
proof -
  let ?s = "upd_tcb u (\<lambda>x. x\<lparr>task_wait_reason := 0\<rparr>) s"
  let ?f = "\<lambda>x. x\<lparr>task_wait_reason := 0, pwait_queue := None, task_wait_rc := TERR_NO_ERR\<rparr>"
  have nm: "\<not> waits_for_mutex (tcb ?s u)" by (simp add: waits_for_mutex_def)
  have eq: "upd_tcb u ?f ?s = upd_tcb u ?f s" by (simp add: upd_upd)
  let ?s1 = "upd_tcb u ?f s"
  define A where "A = do {
    s \<leftarrow> (if tick_count (tcb ?s1 u) \<noteq> TN_WAIT_INFINITE then upd_qh (queue_remove_entry (TimerQ u)) ?s1 else Some ?s1);
    let s = upd_tcb u (\<lambda>t. t\<lparr>tick_count := TN_WAIT_INFINITE\<rparr>) s;
    (if \<not> has_bits (task_state (tcb s u)) TSK_STATE_SUSPEND
     then do { s \<leftarrow> task_to_runnable u s; Some (True, s) }
     else Some (False, upd_tcb u (\<lambda>t. t\<lparr>task_state := TSK_STATE_SUSPEND\<rparr>) s)) }"
  have "task_wait_complete (Some u) ?s = do { (rc, s) \<leftarrow> A; Some (rc, s) }"
    unfolding task_wait_complete_def A_def Let_def option.case eq nm if_False Option.bind_assoc by (simp only: nm if_False)
  then have A: "A = Some (rc, s')" using r by (cases A) auto
  have "task_wait_complete (Some u) s = do { (rc, s) \<leftarrow> A; (do {
      mp \<leftarrow> get_mutex_by_wait_queque (Some (MutexWaitQ m));
      tmp_task \<leftarrow> (if task_wait_reason (tcb s u) = TSK_WAIT_REASON_MUTEX_C_BLK
                   then Some (blk_task (tcb s u)) else do { m \<leftarrow> mp; Some (holder (mutex s m)) });
      (case tmp_task of
         None \<Rightarrow> Some (rc, s)
       | Some tt \<Rightarrow>
           if priority (tcb s tt) \<noteq> base_priority (tcb s tt) \<and> priority (tcb s tt) = priority (tcb s u)
           then do {
             m \<leftarrow> mp;
             curr_priority \<leftarrow> find_max_blocked_priority m (base_priority (tcb s tt)) s;
             (r, s) \<leftarrow> set_current_priority tt curr_priority s;
             Some (r \<noteq> 0 \<or> rc, s)
           }
           else Some (rc, s)) }) }"
    unfolding task_wait_complete_def A_def Let_def option.case w if_True Option.bind_assoc by (simp only: w if_True)
  then show ?thesis
    unfolding A using h s' by (simp add: complete_tcb_def)
qed

section \<open>Unlock with priority inheritance\<close>

text \<open>The mutexes that a task holds besides \<open>m\<close>.\<close>

definition other_mutexes :: "(qaddr \<Rightarrow> qaddr list) \<Rightarrow> tid \<Rightarrow> oid \<Rightarrow> qaddr list" where
  "other_mutexes L t m = remove1 (MutexQ m) (L (TaskMutexQ t))"

lemma held_entry:
  assumes ok: "kernel_ok s L" and t: "is_task s t" and e: "e \<in> set (L (TaskMutexQ t))"
  shows "\<exists>n. e = MutexQ n \<and> id_mutex (mutex s n) = TN_ID_MUTEX \<and> holder (mutex s n) = Some t"
proof -
  have h: "home s e = Some (TaskMutexQ t)" using kernel_entry [OF ok, of "TaskMutexQ t" e] t e by simp
  show ?thesis
  proof (cases e)
    case (MutexQ m)
    then show ?thesis using h by (auto simp: mutex_home_def split: if_splits)
  next
    case (TaskQ u)
    then have "is_task s u" "task_home (tcb s u) = Some (TaskMutexQ t)" using h by (simp_all split: if_splits)
    then have False using kernel_task [OF ok, of u] by (auto simp: task_home_def task_fields_ok_def split: if_splits)
    then show ?thesis ..
  qed (use h in \<open>auto simp: timer_home_def block_home_def lock_home_def split: if_splits\<close>)
qed

lemma held_priority_bounds:
  assumes ok: "kernel_ok s L" and t: "is_task s t" and es: "\<And>n. MutexQ n \<in> set es \<Longrightarrow> id_mutex (mutex s n) = TN_ID_MUTEX"
  shows "0 \<le> held_priority s L t es" "held_priority s L t es < TN_NUM_PRIORITY" "held_priority s L t es \<le> base_priority (tcb s t)"
proof -
  have b: "0 \<le> base_priority (tcb s t)" "base_priority (tcb s t) < TN_NUM_PRIORITY"
    using kernel_task [OF ok t] by (simp_all add: task_fields_ok_def)
  have p: "0 \<le> p \<and> p < TN_NUM_PRIORITY" if "p \<in> held_prios s L es" for p
  proof -
    obtain n u where nu: "MutexQ n \<in> set es" "TaskQ u \<in> set (L (MutexWaitQ n))" "p = priority (tcb s u)"
      using \<open>p \<in> held_prios s L es\<close> by (auto simp: held_prios_def queue_prios_def)
    have "is_task s u" using wait_queue_entry [OF ok _ _ nu(2)] es [OF nu(1)] by auto
    then show ?thesis using kernel_task [OF ok, of u] nu(3) by (simp add: task_fields_ok_def)
  qed
  then show "0 \<le> held_priority s L t es" using b(1) by (simp add: held_priority_def)
  show le: "held_priority s L t es \<le> base_priority (tcb s t)" by (simp add: held_priority_def)
  show "held_priority s L t es < TN_NUM_PRIORITY" using le b(2) by simp
qed

lemma unlock_priority_ok:
  assumes ok: "kernel_ok s L" and id: "id_mutex (mutex s m) = TN_ID_MUTEX"
    and t: "is_task s t" "task_state (tcb s t) = TSK_STATE_RUNNABLE"
    and pl: "placed h' (heads s) L1 ((home s)(MutexQ m := None, LockMutexQ m := None))"
    and L1: "\<And>w. w \<noteq> LockedMutexes \<Longrightarrow> L1 w = (if w = TaskMutexQ t then other_mutexes L t m else L w)"
  defines "pr \<equiv> held_priority s L t (other_mutexes L t m)"
  shows "\<exists>need h b n L'. unlock_priority m t (s\<lparr>qh := h'\<rparr>) =
      Some (need, (upd_tcb t (prio_tcb pr) s)\<lparr>qh := h, tn_ready_to_run_bmp := b, tn_next_task_to_run := n\<rparr>) \<and>
    sched_ok ((upd_tcb t (prio_tcb pr) s)\<lparr>qh := h, tn_ready_to_run_bmp := b, tn_next_task_to_run := n\<rparr>) L'
      ((home s)(MutexQ m := None, LockMutexQ m := None, TaskQ t := Some (ReadyList pr))) \<and>
    (\<forall>w. (\<forall>p. w \<noteq> ReadyList p) \<longrightarrow> L' w = L1 w)"
proof -
  let ?L = L1
  have a: "m_attr (mutex s m) = TN_MUTEX_ATTR_INHERIT \<or> m_attr (mutex s m) = TN_MUTEX_ATTR_CEILING"
    using kernel_mutex [OF ok id] by auto
  let ?s = "s\<lparr>qh := h'\<rparr>"
  have sch: "sched_ok ?s ?L ((home s)(MutexQ m := None, LockMutexQ m := None))"
    by (rule sched_other [OF kernel_sched [OF ok] pl]) (simp add: L1)
  note rh = runnable_home [OF ok t]
  have mem: "MutexQ n \<in> set (other_mutexes L t m) \<Longrightarrow> MutexQ n \<in> set (L (TaskMutexQ t))" for n
    by (auto simp: other_mutexes_def dest: notin_set_remove1 split: if_splits intro: set_remove1_subset [THEN subsetD])
  have ids: "id_mutex (mutex s n) = TN_ID_MUTEX" if "MutexQ n \<in> set (other_mutexes L t m)" for n
    using held_entry [OF ok t(1) mem [OF that]] by auto
  have pr: "0 \<le> pr" "pr < TN_NUM_PRIORITY"
    unfolding pr_def by (rule held_priority_bounds [OF ok t(1)], erule ids)+
  have te: "is_queue_empty (TaskMutexQ t) h' \<longleftrightarrow> other_mutexes L t m = []"
    using placed_empty [OF pl, of "TaskMutexQ t"] t(1) by (simp add: L1)
  have p0: "((home s)(MutexQ m := None, LockMutexQ m := None)) (TaskQ t) = Some (ReadyList (priority (tcb ?s t)))" using rh(1) by simp
  have st: "task_state (tcb ?s t) = TSK_STATE_RUNNABLE" "0 \<le> priority (tcb ?s t)" "priority (tcb ?s t) < TN_NUM_PRIORITY"
    using t(2) rh by simp_all
  have u: "upd_tcb t f ?s\<lparr>qh := h\<rparr> = upd_tcb t f s\<lparr>qh := h\<rparr>" for f h by simp
  obtain rc h b n L' where r: "set_current_priority t pr ?s =
      Some (rc, (upd_tcb t (prio_tcb pr) s)\<lparr>qh := h, tn_ready_to_run_bmp := b, tn_next_task_to_run := n\<rparr>)"
    "sched_ok ((upd_tcb t (prio_tcb pr) s)\<lparr>qh := h, tn_ready_to_run_bmp := b, tn_next_task_to_run := n\<rparr>) L'
      ((home s)(MutexQ m := None, LockMutexQ m := None, TaskQ t := Some (ReadyList pr)))"
    "\<forall>w. (\<forall>p. w \<noteq> ReadyList p) \<longrightarrow> L' w = ?L w"
    using ready_priority_sched [OF sch st pr(1,2) p0, unfolded u] by blast
  have "\<exists>need. unlock_priority m t ?s = Some (need,
      (upd_tcb t (prio_tcb pr) s)\<lparr>qh := h, tn_ready_to_run_bmp := b, tn_next_task_to_run := n\<rparr>)"
  proof (cases "other_mutexes L t m")
    case Nil
    then have "pr = base_priority (tcb s t)" by (simp add: pr_def held_priority_def)
    then show ?thesis using r(1) te Nil by (simp add: unlock_priority_def)
  next
    case (Cons e es)
    have nx: "q_next (h' (TaskMutexQ t)) = Some e" by (rule placed_next [OF pl]) (use t Cons in \<open>simp_all add: L1\<close>)
    have "held_loop t (Some e) (base_priority (tcb s t)) ?s =
        Some (Min (insert (base_priority (tcb s t)) (held_prios ?s ?L (e # es))))"
    proof (rule held_loop_eq [where pre = "[]" and P = "(home s)(MutexQ m := None, LockMutexQ m := None)" and H = "heads s"])
      fix x assume "x \<in> set (?L (TaskMutexQ t))"
      then have "x \<in> set (L (TaskMutexQ t))"
        using set_remove1_subset [of "MutexQ m" "L (TaskMutexQ t)"] by (auto simp: other_mutexes_def L1)
      then obtain k where k: "x = MutexQ k" "id_mutex (mutex s k) = TN_ID_MUTEX"
        using held_entry [OF ok t(1)] by blast
      then show "\<exists>n. x = MutexQ n \<and> MutexWaitQ n \<in> heads s \<and>
          m_attr (mutex ?s n) \<in> {TN_MUTEX_ATTR_CEILING, TN_MUTEX_ATTR_INHERIT} \<and>
          (\<forall>e \<in> set (?L (MutexWaitQ n)). \<exists>t. e = TaskQ t)"
        using kernel_mutex [OF ok k(2)] mutex_waiter [OF ok k(2)] by (auto simp: L1)
    qed (use pl t Cons in \<open>simp_all add: L1\<close>)
    moreover have "held_prios ?s ?L (e # es) = held_prios s L (other_mutexes L t m)"
      using Cons by (simp add: held_prios_def queue_prios_def L1)
    ultimately have hl: "held_loop t (Some e) (base_priority (tcb s t)) ?s = Some pr"
      by (simp add: pr_def held_priority_def)
    show ?thesis
    proof (cases "pr = priority (tcb s t)")
      case True
      have "set_current_priority t pr ?s = Some (0, ?s)"
        using True by (simp add: set_current_priority_def) (subst set_priority_loop.simps, simp)
      then have e: "(upd_tcb t (prio_tcb pr) s)\<lparr>qh := h, tn_ready_to_run_bmp := b, tn_next_task_to_run := n\<rparr> = ?s"
        using r(1) by simp
      have "unlock_priority m t ?s = Some (False, ?s)"
        using te Cons nx hl True a by (simp add: unlock_priority_def)
      then show ?thesis unfolding e by blast
    next
      case False
      then show ?thesis using r(1) te Cons nx hl a by (simp add: unlock_priority_def)
    qed
  qed
  then show ?thesis using r(2,3) by blast
qed

lemma sched_upd_mutex:
  assumes "id_mutex (f (mutex s m)) = id_mutex (mutex s m)" "m_attr (f (mutex s m)) = m_attr (mutex s m)"
  shows "sched_ok (upd_mutex m f s) L P = sched_ok s L P"
  using assms by (simp add: sched_ok_def ready_ok_def next_ok_def cong: option.case_cong)

text \<open>The invariant of the kernel from the scheduler's, when a mutex and some tasks have changed.\<close>

lemma kernel_from_sched:
  assumes ok: "kernel_ok s L" and sch: "sched_ok s' L' (home s')" and hd: "heads s' = heads s"
    and tasks: "\<And>u. is_task s' u \<longleftrightarrow> is_task s u" "\<And>u. is_task s u \<Longrightarrow> tcb s' u = tcb s u \<or> task_fields_ok s (tcb s' u)"
    and mut: "\<And>k. id_mutex (mutex s' k) = id_mutex (mutex s k)" "\<And>k. m_attr (mutex s' k) = m_attr (mutex s k)"
      "\<And>k u. id_mutex (mutex s k) = TN_ID_MUTEX \<Longrightarrow> holder (mutex s' k) = Some u \<Longrightarrow> is_task s u"
  shows "kernel_ok s' L'"
proof -
  have "task_fields_ok s' (tcb s' u)" if u: "is_task s' u" for u
    using kernel_task [OF ok, of u] tasks(1) tasks(2) [of u] u unfolding task_fields_cong [OF hd] by metis
  moreover have "m_attr (mutex s' k) \<in> {TN_MUTEX_ATTR_CEILING, TN_MUTEX_ATTR_INHERIT} \<and>
      (\<forall>u. holder (mutex s' k) = Some u \<longrightarrow> is_task s' u)" if k: "id_mutex (mutex s' k) = TN_ID_MUTEX" for k
    using kernel_mutex [OF ok, of k] mut tasks(1) k by simp
  ultimately show ?thesis using sch by (simp add: kernel_ok_def)
qed

text \<open>The state after the first part of \<open>do_unlock_mutex\<close>, and the hand-over to nobody.\<close>

lemma hand_over_none:
  assumes ok: "kernel_ok s L" and id: "id_mutex (mutex s m) = TN_ID_MUTEX" and a: "m_attr (mutex s m) = TN_MUTEX_ATTR_INHERIT"
    and t: "is_task s t" "task_state (tcb s t) = TSK_STATE_RUNNABLE" and q: "0 \<le> pr" "pr < TN_NUM_PRIORITY"
    and s2: "s2 = (upd_tcb t (prio_tcb pr) s)\<lparr>qh := h, tn_ready_to_run_bmp := b, tn_next_task_to_run := n\<rparr>"
    and sch: "sched_ok s2 L2 ((home s)(MutexQ m := None, LockMutexQ m := None, TaskQ t := Some (ReadyList pr)))"
    and L2: "L2 (MutexWaitQ m) = []"
  shows "\<exists>hi s'. hand_over m t need s2 = Some (hi, need, s') \<and> kernel_ok s' L2 \<and>
    s' = upd_mutex m (\<lambda>x. x\<lparr>holder := None\<rparr>) s2"
proof -
  let ?s' = "upd_mutex m (\<lambda>x. x\<lparr>holder := None\<rparr>) s2"
  have "is_queue_empty (MutexWaitQ m) (qh s2)"
    using placed_empty [OF sched_placed [OF sch], of "MutexWaitQ m"] L2 id by (simp add: s2 prio_tcb_def)
  then have run: "hand_over m t need s2 = Some (Some t, need, ?s')" by (simp add: hand_over_def)
  note rh = runnable_home [OF ok t]
  have P: "home ?s' = (home s)(MutexQ m := None, LockMutexQ m := None, TaskQ t := Some (ReadyList pr))"
    using t a rh
    by (auto simp: s2 home_upd_mutex home_upd_tcb prio_tcb_def task_home_def timer_home_def block_home_def
        mutex_home_def lock_home_def fun_eq_iff)
  have "kernel_ok ?s' L2"
  proof (rule kernel_from_sched [OF ok])
    show "sched_ok ?s' L2 (home ?s')" using sch unfolding P by (simp add: sched_upd_mutex)
    show "heads ?s' = heads s" by (simp add: s2 prio_tcb_def)
    show "tcb ?s' u = tcb s u \<or> task_fields_ok s (tcb ?s' u)" if "is_task s u" for u
      using kernel_task [OF ok that] q t(2) by (cases "u = t") (simp_all add: s2 prio_tcb_def task_fields_ok_def)
    show "is_task s u" if "id_mutex (mutex s k) = TN_ID_MUTEX" "holder (mutex ?s' k) = Some u" for k u
      using kernel_mutex [OF ok that(1)] that(2) by (simp add: s2 split: if_splits)
  qed (simp_all add: s2 prio_tcb_def)
  with run show ?thesis by blast
qed

text \<open>The priority that is computed again if the inherited priority \<open>pr\<close> of \<open>t\<close> is that of the task \<open>u\<close> that gets the
  mutex: the tasks \<open>es\<close> wait for it after that.\<close>

definition recomputed :: "kernel \<Rightarrow> tid \<Rightarrow> int \<Rightarrow> tid \<Rightarrow> qaddr list \<Rightarrow> int" where
  "recomputed s t pr u es =
     (if pr \<noteq> base_priority (tcb s t) \<and> pr = priority (tcb s u)
      then Min (insert (base_priority (tcb s t)) (queue_prios s es)) else pr)"

lemma recomputed_bounds:
  assumes ok: "kernel_ok s L" and id: "id_mutex (mutex s m) = TN_ID_MUTEX" and t: "is_task s t"
    and es: "set es \<subseteq> set (L (MutexWaitQ m))" and q: "0 \<le> pr" "pr < TN_NUM_PRIORITY"
  shows "0 \<le> recomputed s t pr u es" "recomputed s t pr u es < TN_NUM_PRIORITY"
proof -
  have b: "0 \<le> base_priority (tcb s t)" "base_priority (tcb s t) < TN_NUM_PRIORITY"
    using kernel_task [OF ok t] by (simp_all add: task_fields_ok_def)
  have p: "0 \<le> p" if "p \<in> queue_prios s es" for p
  proof -
    obtain v where v: "TaskQ v \<in> set es" "p = priority (tcb s v)" using \<open>p \<in> queue_prios s es\<close> by (auto simp: queue_prios_def)
    have "is_task s v" using wait_queue_entry [OF ok, of "MutexWaitQ m" "TaskQ v"] id es v(1) by auto
    then show ?thesis using kernel_task [OF ok, of v] v(2) by (simp add: task_fields_ok_def)
  qed
  then show "0 \<le> recomputed s t pr u es" using b q by (simp add: recomputed_def)
  have "Min (insert (base_priority (tcb s t)) (queue_prios s es)) \<le> base_priority (tcb s t)" by (rule Min_le) simp_all
  then have "Min (insert (base_priority (tcb s t)) (queue_prios s es)) < TN_NUM_PRIORITY" using b(2) by linarith
  then show "recomputed s t pr u es < TN_NUM_PRIORITY" using q(2) unfolding recomputed_def by simp
qed

text \<open>The hand-over to the first waiting task.\<close>

lemma hand_over_first:
  assumes ok: "kernel_ok s L" and mo: "mutex_ok s L" and id: "id_mutex (mutex s m) = TN_ID_MUTEX" and a: "m_attr (mutex s m) = TN_MUTEX_ATTR_INHERIT"
    and hl: "holder (mutex s m) = Some t"
    and t: "is_task s t" "task_state (tcb s t) = TSK_STATE_RUNNABLE" and q: "0 \<le> pr" "pr < TN_NUM_PRIORITY"
    and s2: "s2 = (upd_tcb t (prio_tcb pr) s)\<lparr>qh := h, tn_ready_to_run_bmp := b, tn_next_task_to_run := n\<rparr>"
    and sch: "sched_ok s2 L2 ((home s)(MutexQ m := None, LockMutexQ m := None, TaskQ t := Some (ReadyList pr)))"
    and L2: "L2 (MutexWaitQ m) = e # es" and L: "e \<in> set (L (MutexWaitQ m))"
    and sub: "set es \<subseteq> set (L (MutexWaitQ m))"
  shows "\<exists>u need' s' L'. e = TaskQ u \<and> u \<noteq> t \<and> is_task s u \<and>
    hand_over m t need s2 = Some (None, need', s') \<and> kernel_ok s' L' \<and>
    (task_state (tcb s u) = TSK_STATE_WAIT \<or> task_state (tcb s u) = TSK_STATE_WAITSUSP) \<and>
    tcb s' = (tcb s)(t := prio_tcb (recomputed s t pr u es) (tcb s t), u := complete_tcb (tcb s u)) \<and>
    mutex s' = (mutex s)(m := (mutex s m)\<lparr>holder := Some u\<rparr>) \<and> cpsr s' = cpsr s \<and> tn_curr_run_task s' = tn_curr_run_task s \<and>
    (\<forall>w. (\<forall>p. w \<noteq> ReadyList p) \<and> w \<noteq> TimeoutList \<longrightarrow> L' w =
       (if w = MutexWaitQ m then es else if w = TaskMutexQ u then L2 w @ [MutexQ m] else L2 w))"
proof -
  let ?P2 = "(home s)(MutexQ m := None, LockMutexQ m := None, TaskQ t := Some (ReadyList pr))"
  obtain u where u: "e = TaskQ u" "is_task s u" "pwait_queue (tcb s u) = Some (MutexWaitQ m)"
    "task_state (tcb s u) = TSK_STATE_WAIT \<or> task_state (tcb s u) = TSK_STATE_WAITSUSP"
    using wait_queue_entry [OF ok _ _ L] id by auto
  have r: "task_wait_reason (tcb s u) = TSK_WAIT_REASON_MUTEX_I" using mo id a L u(1) by (simp add: mutex_ok_def)
  have ut: "u \<noteq> t" using u(4) t(2) by auto
  note rh = runnable_home [OF ok t]
  have hd2: "heads s2 = heads s" by (simp add: s2 prio_tcb_def)
  have q2: "MutexWaitQ m \<in> heads s2" using id by (simp add: hd2)
  obtain h3 where h3: "queue_remove_head (Some (MutexWaitQ m)) (qh s2) = Some (Some (TaskQ u), h3)"
    "placed h3 (heads s2) (L2(MutexWaitQ m := es)) (?P2(TaskQ u := None))"
    using placed_remove_head [OF sched_placed [OF sch] q2 L2] u(1) by blast
  let ?s3 = "s2\<lparr>qh := h3\<rparr>" let ?L3 = "L2(MutexWaitQ m := es)" let ?P3 = "?P2(TaskQ u := None)"
  let ?g = "\<lambda>x. x\<lparr>task_wait_reason := 0\<rparr>"
  let ?s0 = "upd_tcb u ?g ?s3"
  have sch3: "sched_ok ?s3 ?L3 ?P3" by (rule sched_other [OF sch h3(2)]) simp
  have sch0: "sched_ok ?s0 ?L3 ?P3" by (rule sched_upd_tcb [OF sch3]) simp_all
  have tu: "tcb s2 u = tcb s u" "tcb s2 t = prio_tcb pr (tcb s t)" "mutex s2 = mutex s" using ut by (simp_all add: s2 fun_eq_iff)
  have pu: "0 \<le> priority (tcb ?s0 u)" "priority (tcb ?s0 u) < TN_NUM_PRIORITY"
    using kernel_task [OF ok u(2)] tu by (simp_all add: task_fields_ok_def)
  have P0: "?P3 (TaskQ u) = None" "?P3 (TimerQ u) = timer_home (tcb ?s0 u)"
    using u(2) tu by (simp_all add: timer_home_def)
  have nm: "\<not> waits_for_mutex (tcb ?s0 u)" by (simp add: waits_for_mutex_def)
  have susp: "(\<not> has_bits (task_state (tcb ?s0 u)) TSK_STATE_SUSPEND) = (task_state (tcb s u) = TSK_STATE_WAIT)"
    using u(4) tu by auto
  have "complete_tcb (?g x) = complete_tcb x" for x by (simp add: complete_tcb_def)
  then have c0: "upd_tcb u complete_tcb ?s0\<lparr>qh := hh\<rparr> = upd_tcb u complete_tcb s2\<lparr>qh := hh\<rparr>" for hh
    by (simp add: upd_upd)
  obtain hh bb nn where c: "task_wait_complete (Some u) ?s0 = Some (task_state (tcb s u) = TSK_STATE_WAIT,
      (upd_tcb u complete_tcb s2)\<lparr>qh := hh, tn_ready_to_run_bmp := bb, tn_next_task_to_run := nn\<rparr>)"
    and sch4: "sched_ok ((upd_tcb u complete_tcb s2)\<lparr>qh := hh, tn_ready_to_run_bmp := bb, tn_next_task_to_run := nn\<rparr>)
      (complete_lists u (tcb ?s0 u) ?L3) (?P3(TimerQ u := None, TaskQ u :=
         if has_bits (task_state (tcb ?s0 u)) TSK_STATE_SUSPEND then None else Some (ReadyList (priority (tcb ?s0 u)))))"
    using task_wait_complete_ok [OF sch0 pu P0 nm, unfolded susp c0] by blast
  let ?s4 = "(upd_tcb u complete_tcb s2)\<lparr>qh := hh, tn_ready_to_run_bmp := bb, tn_next_task_to_run := nn\<rparr>"
  let ?L4 = "complete_lists u (tcb ?s0 u) ?L3"
  let ?P4 = "?P3(TimerQ u := None, TaskQ u := if has_bits (task_state (tcb ?s0 u)) TSK_STATE_SUSPEND then None
               else Some (ReadyList (priority (tcb ?s0 u))))"
  let ?pf = "recomputed s t pr u es"
  note pf = recomputed_bounds [OF ok id t(1) sub q, of u]
  have base: "base_priority (tcb s2 t) = base_priority (tcb s t)" "priority (tcb s2 t) = pr" using tu by (simp_all add: prio_tcb_def)
  have run4: "task_wait_complete (Some u) ?s3 =
    (if pr \<noteq> base_priority (tcb s t) \<and> pr = priority (tcb s u)
     then do {
       p \<leftarrow> find_max_blocked_priority m (base_priority (tcb s t)) ?s4;
       (r, s') \<leftarrow> set_current_priority t p ?s4;
       Some (r \<noteq> 0 \<or> task_state (tcb s u) = TSK_STATE_WAIT, s')
     }
     else Some (task_state (tcb s u) = TSK_STATE_WAIT, ?s4))"
  proof -
    have w: "waits_for_mutex (tcb ?s3 u)" using r tu by (simp add: waits_for_mutex_def)
    have p: "pwait_queue (tcb ?s3 u) = Some (MutexWaitQ m)" "holder (mutex ?s3 m) = Some t" "t \<noteq> u" using u(3) hl ut tu by simp_all
    have s4: "tcb ?s4 = (tcb ?s3)(u := complete_tcb (tcb ?s3 u))" "mutex ?s4 = mutex ?s3" by (simp_all add: fun_eq_iff)
    have e: "priority (tcb ?s3 t) = pr" "base_priority (tcb ?s3 t) = base_priority (tcb s t)" "priority (tcb ?s3 u) = priority (tcb s u)"
      using base tu by simp_all
    note eq = complete_mutex_eq [OF w p c s4]
    show ?thesis unfolding eq by (simp only: e)
  qed
  have t4: "tcb ?s4 t = prio_tcb pr (tcb s t)" using tu ut by simp
  obtain rc hh' bb' nn' L4 where run: "task_wait_complete (Some u) ?s3 = Some (rc,
      (upd_tcb t (prio_tcb ?pf) (upd_tcb u complete_tcb s2))\<lparr>qh := hh', tn_ready_to_run_bmp := bb', tn_next_task_to_run := nn'\<rparr>)"
    and sch4': "sched_ok ((upd_tcb t (prio_tcb ?pf) (upd_tcb u complete_tcb s2))
        \<lparr>qh := hh', tn_ready_to_run_bmp := bb', tn_next_task_to_run := nn'\<rparr>) L4 (?P4(TaskQ t := Some (ReadyList ?pf)))"
    and L4: "\<forall>w. (\<forall>p. w \<noteq> ReadyList p) \<longrightarrow> L4 w = ?L4 w"
  proof (cases "pr \<noteq> base_priority (tcb s t) \<and> pr = priority (tcb s u)")
    case False
    then have p: "?pf = pr" by (auto simp: recomputed_def)
    have "prio_tcb pr (tcb (upd_tcb u complete_tcb s2) t) = tcb (upd_tcb u complete_tcb s2) t"
      using tu ut by (simp add: prio_tcb_def)
    then have "upd_tcb t (prio_tcb ?pf) (upd_tcb u complete_tcb s2) = upd_tcb u complete_tcb s2"
      using upd_cong(1) [of "prio_tcb pr" "upd_tcb u complete_tcb s2" t "\<lambda>x. x"] unfolding p by simp
    moreover have "?P4(TaskQ t := Some (ReadyList ?pf)) = ?P4" using ut unfolding p by (auto simp: fun_eq_iff)
    ultimately show thesis using that [of "task_state (tcb s u) = TSK_STATE_WAIT" nn bb hh ?L4] run4 sch4 False by simp
  next
    case True
    have hd: "MutexWaitQ m \<in> heads s2" by (rule q2)
    have es: "?L4 (MutexWaitQ m) = es" by simp
    have te: "x \<in> set (?L4 (MutexWaitQ m)) \<Longrightarrow> \<exists>v. x = TaskQ v" for x
      using mutex_waiter [OF ok id, of x] sub unfolding es by auto
    have at: "m_attr (mutex ?s4 m) \<in> {TN_MUTEX_ATTR_CEILING, TN_MUTEX_ATTR_INHERIT}" using a tu by simp
    have prios: "{priority (tcb ?s4 v) | v. TaskQ v \<in> set (?L4 (MutexWaitQ m))} = queue_prios s es"
    proof -
      have "priority (tcb ?s4 v) = priority (tcb s v)" if "TaskQ v \<in> set es" for v
      proof -
        have "v \<noteq> t" using ready_not_waiting [OF ok t(2), of "MutexWaitQ m"] id sub that by auto
        then show ?thesis using tu by (cases "v = u") (simp_all add: s2 complete_tcb_def)
      qed
      then show ?thesis unfolding es queue_prios_def by force
    qed
    have pl4: "placed (qh ?s4) (heads s2) ?L4 ?P4" using sched_placed [OF sch4] by (simp add: complete_tcb_def)
    have "find_max_blocked_priority m (base_priority (tcb s t)) ?s4 =
        Some (Min (insert (base_priority (tcb s t)) {priority (tcb ?s4 v) | v. TaskQ v \<in> set (?L4 (MutexWaitQ m))}))"
      by (rule find_max_at [OF pl4 hd _ at], erule te)
    then have "find_max_blocked_priority m (base_priority (tcb s t)) ?s4 = Some ?pf"
      unfolding prios using True by (simp add: recomputed_def)
    moreover have "?P4 (TaskQ t) = Some (ReadyList (priority (tcb ?s4 t)))" using ut t4 by (simp add: prio_tcb_def)
    moreover have st4: "task_state (tcb ?s4 t) = TSK_STATE_RUNNABLE" "0 \<le> priority (tcb ?s4 t)" "priority (tcb ?s4 t) < TN_NUM_PRIORITY"
      using t4 t(2) q by (simp_all add: prio_tcb_def)
    ultimately obtain rc h'' b'' n'' L' where x: "set_current_priority t ?pf ?s4 =
        Some (rc, (upd_tcb t (prio_tcb ?pf) ?s4)\<lparr>qh := h'', tn_ready_to_run_bmp := b'', tn_next_task_to_run := n''\<rparr>)"
      "sched_ok ((upd_tcb t (prio_tcb ?pf) ?s4)\<lparr>qh := h'', tn_ready_to_run_bmp := b'', tn_next_task_to_run := n''\<rparr>) L'
        (?P4(TaskQ t := Some (ReadyList ?pf)))" "\<forall>w. (\<forall>p. w \<noteq> ReadyList p) \<longrightarrow> L' w = ?L4 w"
      "find_max_blocked_priority m (base_priority (tcb s t)) ?s4 = Some ?pf"
      using ready_priority_sched [OF sch4 st4 pf] by blast
    from that [of "rc \<noteq> 0 \<or> task_state (tcb s u) = TSK_STATE_WAIT" n'' b'' h'' L'] show thesis
      using x run4 True by simp
  qed
  let ?s4' = "(upd_tcb t (prio_tcb ?pf) (upd_tcb u complete_tcb s2))\<lparr>qh := hh', tn_ready_to_run_bmp := bb', tn_next_task_to_run := nn'\<rparr>"
  let ?P4' = "?P4(TaskQ t := Some (ReadyList ?pf))"
  have hd4: "heads ?s4' = heads s" by (simp add: complete_tcb_def prio_tcb_def hd2)
  obtain h5 where h5: "queue_add_tail (TaskMutexQ u) (MutexQ m) hh' = Some h5"
    "placed h5 (heads s) (L4(TaskMutexQ u := L4 (TaskMutexQ u) @ [MutexQ m])) (?P4'(MutexQ m := Some (TaskMutexQ u)))"
    using placed_add_tail [OF sched_placed [OF sch4'], of "TaskMutexQ u" "MutexQ m"] u(2) unfolding hd4 by auto
  let ?L5 = "L4(TaskMutexQ u := L4 (TaskMutexQ u) @ [MutexQ m])"
  let ?P5 = "?P4'(MutexQ m := Some (TaskMutexQ u))"
  let ?f = "\<lambda>x. x\<lparr>holder := Some u\<rparr>"
  let ?s5 = "(upd_mutex m ?f ?s4')\<lparr>qh := h5\<rparr>"
  have "sched_ok (?s4'\<lparr>qh := h5\<rparr>) ?L5 ?P5"
    by (rule sched_other [OF sch4']) (use h5(2) hd4 in simp_all)
  then have sch5: "sched_ok ?s5 ?L5 ?P5"
    using sched_upd_mutex [of ?f "?s4'\<lparr>qh := h5\<rparr>" m] by simp
  have st0: "has_bits (task_state (tcb s u)) TSK_STATE_SUSPEND \<longleftrightarrow> task_state (tcb s u) \<noteq> TSK_STATE_WAIT"
    using susp tu by auto
  have bu: "block_home (tcb s u) = None" using r by (simp add: block_home_def)
  have P5: "home ?s5 = ?P5"
    using t u(2) ut id a rh(1,4) bu st0
    by (auto simp: s2 home_upd_mutex home_upd_tcb prio_tcb_def complete_tcb_def task_home_def timer_home_def block_home_def
        mutex_home_def lock_home_def fun_eq_iff)
  have ok5: "kernel_ok ?s5 ?L5"
  proof (rule kernel_from_sched [OF ok])
    show "sched_ok ?s5 ?L5 (home ?s5)" using sch5 unfolding P5 .
    show "heads ?s5 = heads s" using hd4 by simp
    show "is_task ?s5 v \<longleftrightarrow> is_task s v" for v by (simp add: s2 prio_tcb_def complete_tcb_def)
    show "tcb ?s5 v = tcb s v \<or> task_fields_ok s (tcb ?s5 v)" if "is_task s v" for v
    proof -
      note k = kernel_task [OF ok that]
      have tv: "tcb ?s5 v = (if v = t then prio_tcb ?pf (tcb s t) else if v = u then complete_tcb (tcb s u) else tcb s v)"
        using ut by (simp add: s2 prio_tcb_def)
      consider "v = t" | "v = u" "v \<noteq> t" | "v \<noteq> t" "v \<noteq> u" by blast
      then show ?thesis
      proof cases
        case 1
        then show ?thesis unfolding tv using k pf t(2) by (simp add: prio_tcb_def task_fields_ok_def)
      next
        case 2
        then show ?thesis unfolding tv using k by (auto simp: complete_tcb_def task_fields_ok_def)
      next
        case 3
        then show ?thesis unfolding tv by simp
      qed
    qed
    show "is_task s v" if "id_mutex (mutex s k) = TN_ID_MUTEX" "holder (mutex ?s5 k) = Some v" for k v
      using kernel_mutex [OF ok that(1)] that(2) u(2) tu by (auto split: if_splits)
  qed (use tu in auto)
  have ne: "\<not> is_queue_empty (MutexWaitQ m) (qh s2)"
    using placed_empty [OF sched_placed [OF sch] q2] L2 by simp
  have "hand_over m t need s2 = Some (None, need \<or> rc, ?s5)"
    using ne a tu h3(1) run h5(1)
    by (simp add: hand_over_def dequeue_task_def upd_qh_def)
  moreover have "tcb ?s5 = (tcb s)(t := prio_tcb ?pf (tcb s t), u := complete_tcb (tcb s u))"
    using ut by (simp add: fun_eq_iff s2 prio_tcb_def)
  moreover have "mutex ?s5 = (mutex s)(m := (mutex s m)\<lparr>holder := Some u\<rparr>)" using tu by (simp add: fun_eq_iff)
  moreover have "\<forall>w. (\<forall>p. w \<noteq> ReadyList p) \<and> w \<noteq> TimeoutList \<longrightarrow> ?L5 w =
       (if w = MutexWaitQ m then es else if w = TaskMutexQ u then L2 w @ [MutexQ m] else L2 w)"
    using L4 by (auto simp: complete_lists_def Let_def)
  ultimately show ?thesis
    using u(1,2,4) ut ok5 by (intro exI [of _ u] exI [of _ "need \<or> rc"] exI [of _ ?s5] exI [of _ ?L5]) (simp add: s2)
qed

lemma held_priority_cpsr [simp]: "held_priority (s\<lparr>cpsr := c\<rparr>) = held_priority s"
  by (simp add: held_priority_def held_prios_def queue_prios_def fun_eq_iff)

text \<open>What the call has done before it leaves.\<close>

definition kept_priority :: "kernel \<Rightarrow> (qaddr \<Rightarrow> qaddr list) \<Rightarrow> tid \<Rightarrow> oid \<Rightarrow> int" where
  "kept_priority s L t m =
     (case L (MutexWaitQ m) of
        TaskQ u # es \<Rightarrow> recomputed s t (held_priority s L t (other_mutexes L t m)) u es
      | _ \<Rightarrow> held_priority s L t (other_mutexes L t m))"

definition unlocked :: "kernel \<Rightarrow> (qaddr \<Rightarrow> qaddr list) \<Rightarrow> tid \<Rightarrow> oid \<Rightarrow> kernel \<Rightarrow> (qaddr \<Rightarrow> qaddr list) \<Rightarrow> bool" where
  "unlocked s L t m s' L' \<longleftrightarrow>
     tcb s' t = (tcb s t)\<lparr>priority := kept_priority s L t m\<rparr> \<and>
     L' (TaskMutexQ t) = other_mutexes L t m \<and>
     (case L (MutexWaitQ m) of
        [] \<Rightarrow> mutex s' = (mutex s)(m := (mutex s m)\<lparr>holder := None\<rparr>) \<and> (\<forall>u. u \<noteq> t \<longrightarrow> tcb s' u = tcb s u)
      | e # es \<Rightarrow> \<exists>u. e = TaskQ u \<and> mutex s' = (mutex s)(m := (mutex s m)\<lparr>holder := Some u\<rparr>) \<and>
          tcb s' u = complete_tcb (tcb s u) \<and> (\<forall>v. v \<noteq> t \<longrightarrow> v \<noteq> u \<longrightarrow> tcb s' v = tcb s v) \<and>
          L' (MutexWaitQ m) = es \<and> L' (TaskMutexQ u) = L (TaskMutexQ u) @ [MutexQ m])"

lemma do_unlock_inherit:
  assumes ok: "kernel_ok s L" and mo: "mutex_ok s L" and id: "id_mutex (mutex s m) = TN_ID_MUTEX" and a: "m_attr (mutex s m) = TN_MUTEX_ATTR_INHERIT"
    and hl: "holder (mutex s m) = Some t" and tc: "tn_curr_run_task s = Some t"
    and t: "is_task s t" "task_state (tcb s t) = TSK_STATE_RUNNABLE"
  shows "\<exists>need s' L'. do_unlock_mutex m s = Some (need, s') \<and> kernel_ok s' L' \<and> mutex_ok s' L' \<and>
    unlocked s L t m s' L' \<and> cpsr s' = cpsr s \<and> tn_curr_run_task s' = tn_curr_run_task s"
proof -
  let ?o = "other_mutexes L t m"
  let ?pr = "held_priority s L t ?o"
  obtain h' where h': "upd_qh (queue_remove_entry (MutexQ m)) s = Some (s\<lparr>qh := h'\<rparr>)"
    "upd_qh (queue_remove_entry (LockMutexQ m)) (s\<lparr>qh := h'\<rparr>) = Some (s\<lparr>qh := h'\<rparr>)"
    "placed h' (heads s) (L(TaskMutexQ t := ?o)) ((home s)(MutexQ m := None, LockMutexQ m := None))"
    using unlink_mutex [OF ok id a hl] unfolding other_mutexes_def by blast
  obtain need h b n L2 where u: "unlock_priority m t (s\<lparr>qh := h'\<rparr>) =
      Some (need, (upd_tcb t (prio_tcb ?pr) s)\<lparr>qh := h, tn_ready_to_run_bmp := b, tn_next_task_to_run := n\<rparr>)"
    "sched_ok ((upd_tcb t (prio_tcb ?pr) s)\<lparr>qh := h, tn_ready_to_run_bmp := b, tn_next_task_to_run := n\<rparr>) L2
      ((home s)(MutexQ m := None, LockMutexQ m := None, TaskQ t := Some (ReadyList ?pr)))"
    "\<forall>w. (\<forall>p. w \<noteq> ReadyList p) \<longrightarrow> L2 w = (if w = TaskMutexQ t then ?o else L w)"
    using unlock_priority_ok [OF ok id t h'(3)] by auto
  let ?s2 = "(upd_tcb t (prio_tcb ?pr) s)\<lparr>qh := h, tn_ready_to_run_bmp := b, tn_next_task_to_run := n\<rparr>"
  have ids: "id_mutex (mutex s k) = TN_ID_MUTEX" if "MutexQ k \<in> set ?o" for k
    using held_entry [OF ok t(1)] set_remove1_subset [of "MutexQ m" "L (TaskMutexQ t)"] that
    by (auto simp: other_mutexes_def)
  have pr: "0 \<le> ?pr" "?pr < TN_NUM_PRIORITY" by (rule held_priority_bounds [OF ok t(1)], erule ids)+
  have L2m: "L2 (MutexWaitQ k) = L (MutexWaitQ k)" "L2 (TaskMutexQ t) = ?o" for k using u(3) by simp_all
  show ?thesis
  proof (cases "L (MutexWaitQ m)")
    case Nil
    then obtain hi where r: "hand_over m t need ?s2 = Some (hi, need, upd_mutex m (\<lambda>x. x\<lparr>holder := None\<rparr>) ?s2)"
      "kernel_ok (upd_mutex m (\<lambda>x. x\<lparr>holder := None\<rparr>) ?s2) L2"
      using hand_over_none [OF ok id a t pr refl u(2), of need] L2m(1) [of m] by auto
    let ?s' = "upd_mutex m (\<lambda>x. x\<lparr>holder := None\<rparr>) ?s2"
    have "do_unlock_mutex m s = Some (need, ?s')"
      using h'(1,2) u(1) r(1) tc a by (simp add: do_unlock_mutex_def)
    moreover have "mutex_ok ?s' L2" using mo L2m by (auto simp: mutex_ok_def prio_tcb_def)
    moreover have "unlocked s L t m ?s' L2" using Nil L2m(2) by (simp add: unlocked_def kept_priority_def prio_tcb_def fun_eq_iff)
    ultimately show ?thesis using r(2) by (intro exI [of _ need] exI [of _ ?s'] exI [of _ L2]) simp
  next
    case (Cons e es)
    have L2e: "L2 (MutexWaitQ m) = e # es" using Cons L2m(1) by simp
    have em: "e \<in> set (L (MutexWaitQ m))" using Cons by simp
    have sub: "set es \<subseteq> set (L (MutexWaitQ m))" using Cons by auto
    obtain v need' s' L' where r: "e = TaskQ v" "v \<noteq> t" "is_task s v"
      "hand_over m t need ?s2 = Some (None, need', s')" "kernel_ok s' L'"
      "tcb s' = (tcb s)(t := prio_tcb (recomputed s t ?pr v es) (tcb s t), v := complete_tcb (tcb s v))"
      "mutex s' = (mutex s)(m := (mutex s m)\<lparr>holder := Some v\<rparr>)" "cpsr s' = cpsr s" "tn_curr_run_task s' = tn_curr_run_task s"
      "\<forall>w. (\<forall>p. w \<noteq> ReadyList p) \<and> w \<noteq> TimeoutList \<longrightarrow> L' w =
       (if w = MutexWaitQ m then es else if w = TaskMutexQ v then L2 w @ [MutexQ m] else L2 w)"
      using hand_over_first [OF ok mo id a hl t pr refl u(2) L2e em sub, of need] by blast
    have "do_unlock_mutex m s = Some (need', s')"
      using h'(1,2) u(1) r(4,7) tc a by (simp add: do_unlock_mutex_def)
    moreover have "mutex_ok s' L'"
    proof -
      have "distinct (L (MutexWaitQ m))" using placed_distinct [OF kernel_placed [OF ok]] id by simp
      then have ve: "TaskQ v \<notin> set es" using Cons r(1) by simp
      have vk: "TaskQ v \<notin> set (L (MutexWaitQ k))" if "id_mutex (mutex s k) = TN_ID_MUTEX" "k \<noteq> m" for k
        using kernel_entry_unique [OF ok, of "MutexWaitQ k" "MutexWaitQ m" "TaskQ v"] that id em r(1) by auto
      have "\<forall>w. TaskQ w \<in> set (L (MutexWaitQ m)) \<longrightarrow> task_wait_reason (tcb s w) = TSK_WAIT_REASON_MUTEX_I"
        using mo id a unfolding mutex_ok_def by blast
      then have es1: "TaskQ w \<in> set es \<Longrightarrow> task_wait_reason (tcb s w) = TSK_WAIT_REASON_MUTEX_I" for w
        using Cons by simp
      have Lw: "L' (MutexWaitQ k) = (if k = m then es else L (MutexWaitQ k))" for k using r(10) L2m(1) by simp
      show ?thesis
        unfolding mutex_ok_def r(6,7) Lw
        using mo ve vk es1 by (auto simp: mutex_ok_def prio_tcb_def split: if_splits)
    qed
    moreover have "unlocked s L t m s' L'"
      using Cons r(1,2,6,7,10) L2m u(3) by (simp add: unlocked_def kept_priority_def prio_tcb_def)
    ultimately show ?thesis using r(5,8,9)
      by (intro exI [of _ need'] exI [of _ s'] exI [of _ L']) simp
  qed
qed

lemma kept_priority_cpsr [simp]: "kept_priority (s\<lparr>cpsr := c\<rparr>) = kept_priority s"
proof -
  have e: "recomputed (s\<lparr>cpsr := c\<rparr>) = recomputed s" by (intro ext) (simp add: recomputed_def queue_prios_def)
  show ?thesis by (intro ext) (simp only: kept_priority_def e held_priority_cpsr)
qed

lemma unlocked_cpsr [simp]: "unlocked (s\<lparr>cpsr := c\<rparr>) = unlocked s"
  by (simp add: unlocked_def fun_eq_iff cong: list.case_cong)

lemma unlocked_cong:
  "tcb s1 = tcb s' \<Longrightarrow> mutex s1 = mutex s' \<Longrightarrow> unlocked s L t m s1 L' \<Longrightarrow> unlocked s L t m s' L'"
  by (simp add: unlocked_def cong: list.case_cong)

text \<open>C5. \<open>tn_mutex_unlock\<close> with the priority inheritance protocol. The mutex leaves the list of its holder. The
  first waiting task becomes the holder and its wait ends; without a waiting task the mutex is free. The caller keeps the
  highest priority of the tasks that wait for the mutexes it still holds, and at least its
  base priority; but if it inherits that priority, and the task that gets the mutex has the very same one, the caller is left with
  the highest priority of its own and of the tasks that still wait for this mutex, whoever waits for its other mutexes.\<close>

theorem mutex_unlock_inherit:
  assumes ok: "kernel_ok s L" and mo: "mutex_ok s L" and id: "id_mutex (mutex s m) = TN_ID_MUTEX" and a: "m_attr (mutex s m) = TN_MUTEX_ATTR_INHERIT"
    and hl: "holder (mutex s m) = Some t" and tc: "tn_curr_run_task s = Some t" and c: "curr_ok s"
    and ctx: "\<not> check_non_int_context s"
  shows "\<exists>r s' L'. tn_mutex_unlock (Some m) s = Some (r, s') \<and> r \<in> {ret TERR_NO_ERR, Switch RetNoErr} \<and>
    kernel_ok s' L' \<and> mutex_ok s' L' \<and> curr_ok s' \<and> unlocked s L t m s' L'"
proof -
  let ?s = "s\<lparr>cpsr := cpsr s OR 0xC0\<rparr>"
  have t: "is_task ?s t" "task_state (tcb ?s t) = TSK_STATE_RUNNABLE" using c tc by (simp_all add: curr_ok_def)
  obtain need s1 L' where d: "do_unlock_mutex m ?s = Some (need, s1)" "kernel_ok s1 L'" "mutex_ok s1 L'"
    "unlocked ?s L t m s1 L'" "cpsr s1 = cpsr s OR 0xC0" "tn_curr_run_task s1 = Some t"
    using do_unlock_inherit [of ?s L m t] ok mo id a hl tc t by auto
  have t1: "need \<longrightarrow> is_task s1 t \<and> task_state (tcb s1 t) = TSK_STATE_RUNNABLE"
    using d(4) t by (simp add: unlocked_def is_task_def)
  obtain s' where s': "(if need then leave_switch (cpsr s) RetNoErr s1 else leave (cpsr s) TERR_NO_ERR s1) =
      Some (if need then Switch RetNoErr else ret TERR_NO_ERR, s')" "kernel_ok s' L'" "tcb s' = tcb s1" "same_objects s1 s'"
    "if need then curr_ok s' else cpsr s' = cpsr s \<and> tn_curr_run_task s' = tn_curr_run_task s1"
    using leave_either [OF d(2) t1 d(5), of RetNoErr TERR_NO_ERR] by blast
  have "tn_mutex_unlock (Some m) s = Some (if need then Switch RetNoErr else ret TERR_NO_ERR, s')"
    using d(1) s'(1) id ctx hl tc by (simp add: tn_mutex_unlock_def save_sr_eq)
  moreover have "curr_ok s'"
    using s'(3,5) d(4,6) t by (auto simp: curr_ok_def unlocked_def is_task_def split: if_splits)
  moreover have mu: "mutex s1 = mutex s'" using s'(4) by (simp add: same_objects_def)
  moreover have "unlocked s L t m s' L'" using unlocked_cong [OF s'(3) [symmetric] mu] d(4) by simp
  ultimately show ?thesis
    using d(3) s'(2,3)
    by (intro exI [of _ "if need then Switch RetNoErr else ret TERR_NO_ERR"] exI [of _ s'] exI [of _ L'])
      (simp add: mutex_ok_def)
qed

theorem mutex_unlock_inherit_witness:
  "\<exists>r s' L'. tn_mutex_unlock (Some 0) demo = Some (r, s') \<and> kernel_ok s' L' \<and> holder (mutex s' 0) = Some 8 \<and>
     task_state (tcb s' 8) = TSK_STATE_RUNNABLE \<and> L' (TaskMutexQ 2) = []"
proof -
  have m: "id_mutex (mutex demo 0) = TN_ID_MUTEX" "m_attr (mutex demo 0) = TN_MUTEX_ATTR_INHERIT" "holder (mutex demo 0) = Some 2"
    by (simp_all add: demo_def)
  have L: "demo_lists (TaskMutexQ 2) = [MutexQ 0]" "demo_lists (MutexWaitQ 0) = [TaskQ 8]"
    "k \<noteq> 0 \<Longrightarrow> demo_lists (MutexWaitQ k) = []" for k
    by (simp_all add: demo_lists_def lists_of_def demo_lists_alist_def)
  have mo: "mutex_ok demo demo_lists"
    unfolding mutex_ok_def using L by (auto simp: demo_defs split: if_splits)
  have o: "other_mutexes demo_lists 2 0 = []" by (simp add: other_mutexes_def L)
  have kp: "kept_priority demo demo_lists 2 0 = base_priority (tcb demo 2)"
    by (simp add: o kept_priority_def recomputed_def held_priority_def L)
  have "task_state (complete_tcb (tcb demo 8)) = TSK_STATE_RUNNABLE" by (simp add: complete_tcb_def demo_defs has_bits_def)
  with mutex_unlock_inherit [OF demo_ok mo m demo_curr(3,1,4)] kp L o show ?thesis
    by (auto simp: unlocked_def)
qed

section \<open>Unlock with the ceiling protocol\<close>

lemma unlink_ceiling:
  assumes ok: "kernel_ok s L" and id: "id_mutex (mutex s m) = TN_ID_MUTEX" and a: "m_attr (mutex s m) = TN_MUTEX_ATTR_CEILING"
    and h: "holder (mutex s m) = Some t"
  shows "\<exists>h1 h'. upd_qh (queue_remove_entry (MutexQ m)) s = Some (s\<lparr>qh := h1\<rparr>) \<and>
    upd_qh (queue_remove_entry (LockMutexQ m)) (s\<lparr>qh := h1\<rparr>) = Some (s\<lparr>qh := h'\<rparr>) \<and>
    placed h' (heads s) (L(TaskMutexQ t := other_mutexes L t m, LockedMutexes := remove1 (LockMutexQ m) (L LockedMutexes)))
      ((home s)(MutexQ m := None, LockMutexQ m := None))"
proof -
  have t: "TaskMutexQ t \<in> heads s" using kernel_mutex [OF ok id] h by simp
  have e: "home s (MutexQ m) = Some (TaskMutexQ t)" "home s (LockMutexQ m) = Some LockedMutexes"
    using id h a by (simp_all add: mutex_home_def lock_home_def)
  obtain h1 where h1: "queue_remove_entry (MutexQ m) (qh s) = Some h1"
    "placed h1 (heads s) (L(TaskMutexQ t := other_mutexes L t m)) ((home s)(MutexQ m := None))"
    using placed_remove_entry [OF kernel_placed [OF ok] t e(1)] unfolding other_mutexes_def by blast
  have lm: "LockedMutexes \<in> heads s" "((home s)(MutexQ m := None)) (LockMutexQ m) = Some LockedMutexes" using e(2) by simp_all
  have l: "(L(TaskMutexQ t := other_mutexes L t m)) LockedMutexes = L LockedMutexes" by simp
  obtain h' where "queue_remove_entry (LockMutexQ m) h1 = Some h'"
    "placed h' (heads s) (L(TaskMutexQ t := other_mutexes L t m, LockedMutexes := remove1 (LockMutexQ m) (L LockedMutexes)))
      ((home s)(MutexQ m := None, LockMutexQ m := None))"
    using placed_remove_entry [OF h1(2) lm] unfolding l by blast
  then show ?thesis using h1(1) by (intro exI [of _ h1] exI [of _ h']) (simp add: upd_qh_def)
qed

text \<open>C30. Unlocking a ceiling mutex for which no task waits, while no task is in the list of blocked tasks, does
  not end properly: the loop over \<open>tn_blocked_tasks_list\<close> takes the head of the empty list for the
  queue field of a task, and the call reads a control block that does not exist.\<close>

theorem ceiling_unlock_reads_no_task:
  assumes ok: "kernel_ok s L" and id: "id_mutex (mutex s m) = TN_ID_MUTEX" and a: "m_attr (mutex s m) = TN_MUTEX_ATTR_CEILING"
    and hl: "holder (mutex s m) = Some t" and tc: "tn_curr_run_task s = Some t" and c: "curr_ok s"
    and ctx: "\<not> check_non_int_context s" and nw: "L (MutexWaitQ m) = []" and nb: "L BlockedTasks = []"
  shows "tn_mutex_unlock (Some m) s = None"
proof -
  let ?s = "s\<lparr>cpsr := cpsr s OR 0xC0\<rparr>"
  have t: "is_task ?s t" "task_state (tcb ?s t) = TSK_STATE_RUNNABLE" using c tc by (simp_all add: curr_ok_def)
  have pre: "kernel_ok ?s L" "id_mutex (mutex ?s m) = TN_ID_MUTEX" "m_attr (mutex ?s m) = TN_MUTEX_ATTR_CEILING"
    "holder (mutex ?s m) = Some t" using ok id a hl by simp_all
  obtain h1 h' where h: "upd_qh (queue_remove_entry (MutexQ m)) ?s = Some (?s\<lparr>qh := h1\<rparr>)"
    "upd_qh (queue_remove_entry (LockMutexQ m)) (?s\<lparr>qh := h1\<rparr>) = Some (?s\<lparr>qh := h'\<rparr>)"
    "placed h' (heads ?s) (L(TaskMutexQ t := other_mutexes L t m, LockedMutexes := remove1 (LockMutexQ m) (L LockedMutexes)))
      ((home ?s)(MutexQ m := None, LockMutexQ m := None))"
    using unlink_ceiling [OF pre] by blast
  let ?pr = "held_priority ?s L t (other_mutexes L t m)"
  obtain need hh b n L2 where u: "unlock_priority m t (?s\<lparr>qh := h'\<rparr>) =
      Some (need, (upd_tcb t (prio_tcb ?pr) ?s)\<lparr>qh := hh, tn_ready_to_run_bmp := b, tn_next_task_to_run := n\<rparr>)"
    "sched_ok ((upd_tcb t (prio_tcb ?pr) ?s)\<lparr>qh := hh, tn_ready_to_run_bmp := b, tn_next_task_to_run := n\<rparr>) L2
      ((home ?s)(MutexQ m := None, LockMutexQ m := None, TaskQ t := Some (ReadyList ?pr)))"
    "\<forall>w. (\<forall>p. w \<noteq> ReadyList p) \<longrightarrow> L2 w =
      (L(TaskMutexQ t := other_mutexes L t m, LockedMutexes := remove1 (LockMutexQ m) (L LockedMutexes))) w"
    using unlock_priority_ok [OF pre(1,2) t h(3)] by auto
  let ?s2 = "(upd_tcb t (prio_tcb ?pr) ?s)\<lparr>qh := hh, tn_ready_to_run_bmp := b, tn_next_task_to_run := n\<rparr>"
  have hd: "MutexWaitQ m \<in> heads ?s2" "BlockedTasks \<in> heads ?s2" using id by (simp_all add: prio_tcb_def)
  have e: "is_queue_empty (MutexWaitQ m) hh" "is_queue_empty BlockedTasks hh"
    using placed_empty [OF sched_placed [OF u(2)] hd(1)] placed_empty [OF sched_placed [OF u(2)] hd(2)] u(3) nw nb by simp_all
  then have nx: "q_next (hh BlockedTasks) = Some BlockedTasks" by (simp add: is_queue_empty_def)
  have "try_blocked_loop hi (Some BlockedTasks) need' s' = None" for hi need' s'
    by (subst try_blocked_loop.simps) (simp add: get_task_by_block_queque_def)
  then have "do_unlock_mutex m ?s = None"
    using h(1,2) u(1) e nx a tc by (simp add: do_unlock_mutex_def hand_over_def)
  then show ?thesis using id ctx hl tc by (simp add: tn_mutex_unlock_def save_sr_eq)
qed

theorem ceiling_unlock_reads_no_task_witness:
  "\<exists>s L. kernel_ok s L \<and> curr_ok s \<and> tn_curr_run_task s = Some 2 \<and> holder (mutex s 1) = Some 2 \<and>
     m_attr (mutex s 1) = TN_MUTEX_ATTR_CEILING \<and> tn_mutex_unlock (Some 1) s = None"
proof -
  have m: "id_mutex (mutex demo 1) = TN_ID_MUTEX" "m_attr (mutex demo 1) = TN_MUTEX_ATTR_CEILING" "holder (mutex demo 1) = None"
    by (simp_all add: demo_def)
  obtain s' h where s': "s' = (upd_mutex 1 (\<lambda>x. x\<lparr>holder := Some 2\<rparr>) demo)\<lparr>qh := h\<rparr>" "kernel_ok s' (hold_lists 1 2 True demo_lists)"
    using hold_ceiling [OF demo_ok m demo_tasks(2)] by blast
  have id: "id_mutex (mutex s' 1) = TN_ID_MUTEX" "m_attr (mutex s' 1) = TN_MUTEX_ATTR_CEILING" "holder (mutex s' 1) = Some 2"
    "tn_curr_run_task s' = Some 2" "curr_ok s'"
    using m(1,2) demo_curr(1,3) by (simp_all add: s'(1) curr_ok_def)
  have ctx: "\<not> check_non_int_context s'"
    using demo_curr(4) by (simp add: s'(1) check_non_int_context_def tn_chk_irq_disabled_def)
  have L: "hold_lists 1 2 True demo_lists (MutexWaitQ 1) = []" "hold_lists 1 2 True demo_lists BlockedTasks = []"
    by (simp_all add: hold_lists_def demo_lists_def lists_of_def demo_lists_alist_def)
  from ceiling_unlock_reads_no_task [OF s'(2) id ctx L] s'(2) id show ?thesis by blast
qed

end
