(* ===== verification/USB_Hw.thy ===== *)
theory USB_Hw
  imports TN_Kernel
begin

text \<open>
  The hardware layer of the USB test devices, \<^verbatim>\<open>tn_usb_hw.c\<close>: the registers of the LPC214x device
  controller, the commands of its protocol engine, packet reads and writes, and the
  configuration of end points.

  The controller is not under \<^verbatim>\<open>src\<close>. It is the parameter \<open>device\<close>: the value a register read
  gives, as a function of all accesses to registers so far, latest first. The model records the
  accesses in \<open>io\<close>. A loop that waits for a register never ends if the controller never answers; then
  the value of the function is \<open>None\<close>.
\<close>

section \<open>Registers\<close>

datatype usb_reg =
    rUSBDevIntSt | rUSBDevIntEn | rUSBDevIntClr | rUSBCmdCode | rUSBCmdData
  | rUSBEpIntSt | rUSBEpIntEn | rUSBEpIntClr | rUSBReEp | rUSBEpInd | rUSBMaxPSize
  | rUSBRxData | rUSBRxPLen | rUSBTxData | rUSBTxPLen | rUSBCtrl
  | rUSBDMAIntSt | rUSBDMAIntEn | rUSBUDCAH | rUSBDMARClr | rUSBEpDMAEn | rUSBEpDMADis
  | rUSBEoTIntSt | rUSBEoTIntClr | rUSBNDDRIntSt | rUSBNDDRIntClr | rUSBSysErrIntClr
  | VICVectAddr | VICIntEnable | VICDefVectAddr | VICVectAddr0 | VICVectAddr1 | VICVectCntl0 | VICVectCntl1
  | rT0IR | rT0PR | rT0PC | rT0MR0 | rT0MCR | rT0TCR | rU0IIR | rU0LCR | rU0DLM | rU0DLL | rU0IER | rU0FCR
  | rVPBDIV | rPLL0CFG | rPLL0CON | rPLL0FEED | rPLL1CFG | rPLL1CON | rPLL1FEED | rPLL1STAT | rPCONP | rMEMMAP
  | rPINSEL0 | rPINSEL1 | rIO0DIR | rIO0SET | rIO0CLR | rIO1DIR | rIO1SET

datatype io_event = Rd usb_reg u32 | Wr usb_reg u32

type_synonym device = "io_event list \<Rightarrow> usb_reg \<Rightarrow> u32"

section \<open>State\<close>

text \<open>The structures of \<^verbatim>\<open>tn_usb.h\<close> and \<^verbatim>\<open>tn_usb_ep.h\<close>. Pointers are addresses in the memory \<open>mem\<close> of
  the kernel; a queue or a pool is its number.\<close>

record usb_ep_status =
  nbytes :: int
  pdata :: u32
  pbuf :: u32

record usb_setup_packet =
  bmRequestType :: u8
  bRequest :: u8
  wValue :: u16
  wIndex :: u16
  wLength :: u16

record usb_device_info =
  EP0Status :: usb_ep_status
  EP0SetupPacket :: usb_setup_packet
  Descriptors :: u32
  Configuration :: int

record ep_info =
  ei_queue :: oid
  ei_mem_pool :: oid
  ei_ep_num_phys :: nat

text \<open>The structures of \<^verbatim>\<open>tn_usb_ep_dma.h\<close>; \<open>pUDCA_pos\<close> is the address of the head of the end point's
  descriptor list in USB RAM.\<close>

record ep_dma_addr =
  word_1 :: u32
  nbuffers :: nat
  pDD :: u32
  p_data_buffers :: u32
  p_iso_packets :: u32

record ep_dma_info =
  edi_dma_addr :: ep_dma_addr
  edi_dd_ptr :: u32
  pUDCA_pos :: u32
  edi_queue :: oid
  edi_mem_pool :: oid
  edi_ep_num_phys :: nat

record machine =
  krn :: kernel
  io :: "io_event list"
  gUSBInfo :: usb_device_info

abbreviation eps :: "machine \<Rightarrow> usb_ep_status" where "eps s \<equiv> EP0Status (gUSBInfo s)"
abbreviation usp :: "machine \<Rightarrow> usb_setup_packet" where "usp s \<equiv> EP0SetupPacket (gUSBInfo s)"
abbreviation ram :: "machine \<Rightarrow> u32 \<Rightarrow> u32" where "ram s \<equiv> mem (krn s)"

definition upd_udi :: "(usb_device_info \<Rightarrow> usb_device_info) \<Rightarrow> machine \<Rightarrow> machine" where
  "upd_udi f s = s\<lparr>gUSBInfo := f (gUSBInfo s)\<rparr>"

definition upd_eps :: "(usb_ep_status \<Rightarrow> usb_ep_status) \<Rightarrow> machine \<Rightarrow> machine" where
  "upd_eps f = upd_udi (\<lambda>u. u\<lparr>EP0Status := f (EP0Status u)\<rparr>)"

definition upd_ram :: "((u32 \<Rightarrow> u32) \<Rightarrow> u32 \<Rightarrow> u32) \<Rightarrow> machine \<Rightarrow> machine" where
  "upd_ram f s = s\<lparr>krn := (krn s)\<lparr>mem := f (mem (krn s))\<rparr>\<rparr>"

section \<open>Memory\<close>

text \<open>The memory holds a word at every address that is a multiple of 4; ARM7 is little endian.
  A word store ignores the two low bits of its address. \<open>ld16\<close> joins two bytes; the code reads a half-word, which at an odd address
  is unpredictable on an ARM7.\<close>

definition ld8 :: "(u32 \<Rightarrow> u32) \<Rightarrow> u32 \<Rightarrow> u8" where
  "ld8 m a = ucast (drop_bit (8 * unat (a AND 3)) (m (a AND NOT 3)))"

definition st8 :: "u32 \<Rightarrow> u8 \<Rightarrow> (u32 \<Rightarrow> u32) \<Rightarrow> u32 \<Rightarrow> u32" where
  "st8 a b m = (let sh = 8 * unat (a AND 3)
                in m(a AND NOT 3 := (m (a AND NOT 3) AND NOT (push_bit sh 0xFF)) OR push_bit sh (ucast b)))"

definition ld16 :: "(u32 \<Rightarrow> u32) \<Rightarrow> u32 \<Rightarrow> u16" where
  "ld16 m a = ucast (ld8 m a) OR push_bit 8 (ucast (ld8 m (a + 1)))"

definition st32 :: "u32 \<Rightarrow> u32 \<Rightarrow> (u32 \<Rightarrow> u32) \<Rightarrow> u32 \<Rightarrow> u32" where
  "st32 a w m = m(a AND NOT 3 := w)"

text \<open>\<open>union { BYTE b[4]; unsigned int w; }\<close>\<close>

definition le32 :: "u8 \<Rightarrow> u8 \<Rightarrow> u8 \<Rightarrow> u8 \<Rightarrow> u32" where
  "le32 b0 b1 b2 b3 = ucast b0 OR push_bit 8 (ucast b1) OR push_bit 16 (ucast b2) OR push_bit 24 (ucast b3)"

section \<open>Register access\<close>

definition reg_write :: "usb_reg \<Rightarrow> u32 \<Rightarrow> machine \<Rightarrow> machine" where
  "reg_write r v s = s\<lparr>io := Wr r v # io s\<rparr>"

definition reg_read :: "device \<Rightarrow> usb_reg \<Rightarrow> machine \<Rightarrow> u32 \<times> machine" where
  "reg_read dev r s = (let v = dev (io s) r in (v, s\<lparr>io := Rd r v # io s\<rparr>))"

text \<open>\<open>r |= m;\<close> on a register\<close>

definition reg_or :: "device \<Rightarrow> usb_reg \<Rightarrow> u32 \<Rightarrow> machine \<Rightarrow> machine" where
  "reg_or dev r m s = (let (v, s) = reg_read dev r s in reg_write r (v OR m) s)"

text \<open>\<open>while(!(r & m));\<close>, with the value read last\<close>

partial_function (option) poll :: "device \<Rightarrow> usb_reg \<Rightarrow> u32 \<Rightarrow> machine \<Rightarrow> (u32 \<times> machine) option" where
  "poll dev r m s =
     (case reg_read dev r s of
        (v, s) \<Rightarrow> if v AND m = 0 then poll dev r m s else Some (v, s))"

section \<open>Commands of the protocol engine\<close>

abbreviation (input) CCEMTY :: u32 where "CCEMTY \<equiv> 0x10"
abbreviation (input) CDFULL :: u32 where "CDFULL \<equiv> 0x20"
abbreviation (input) RD_EN :: u32 where "RD_EN \<equiv> 1"
abbreviation (input) WR_EN :: u32 where "WR_EN \<equiv> 2"
abbreviation (input) PKT_RDY :: u32 where "PKT_RDY \<equiv> 0x800"
abbreviation (input) PKT_LNGTH_MASK :: u32 where "PKT_LNGTH_MASK \<equiv> 0x3FF"
abbreviation (input) EP_RLZED :: u32 where "EP_RLZED \<equiv> 0x100"
abbreviation (input) DEV_STAT :: u32 where "DEV_STAT \<equiv> 8"
abbreviation (input) EP_SLOW :: u32 where "EP_SLOW \<equiv> 4"
abbreviation (input) CMD_DEV_STATUS :: u32 where "CMD_DEV_STATUS \<equiv> 0xFE"
abbreviation (input) CMD_DEV_CONFIG :: u32 where "CMD_DEV_CONFIG \<equiv> 0xD8"
abbreviation (input) CMD_DEV_SET_ADDRESS :: u32 where "CMD_DEV_SET_ADDRESS \<equiv> 0xD0"
abbreviation (input) CMD_DEV_SET_MODE :: u32 where "CMD_DEV_SET_MODE \<equiv> 0xF3"
abbreviation (input) CMD_EP_SELECT :: u32 where "CMD_EP_SELECT \<equiv> 0"
abbreviation (input) CMD_EP_SELECT_CLEAR :: u32 where "CMD_EP_SELECT_CLEAR \<equiv> 0x40"
abbreviation (input) CMD_EP_SET_STATUS :: u32 where "CMD_EP_SET_STATUS \<equiv> 0x40"
abbreviation (input) CMD_EP_CLEAR_BUFFER :: u32 where "CMD_EP_CLEAR_BUFFER \<equiv> 0xF2"
abbreviation (input) CMD_EP_VALIDATE_BUFFER :: u32 where "CMD_EP_VALIDATE_BUFFER \<equiv> 0xFA"
abbreviation (input) EP_ST :: u32 where "EP_ST \<equiv> 1"
abbreviation (input) CONF_DEVICE :: u32 where "CONF_DEVICE \<equiv> 1"
abbreviation (input) CON :: u32 where "CON \<equiv> 1"
abbreviation (input) CON_CH :: u32 where "CON_CH \<equiv> 2"
abbreviation (input) SUS :: u32 where "SUS \<equiv> 4"
abbreviation (input) SUS_CH :: u32 where "SUS_CH \<equiv> 8"
abbreviation (input) RST :: u32 where "RST \<equiv> 0x10"
abbreviation (input) STP :: u32 where "STP \<equiv> 4"
abbreviation (input) USB_MAX_PACKET0 :: int where "USB_MAX_PACKET0 \<equiv> 64"

definition ep_num_lg2ph :: "u32 \<Rightarrow> u32" where
  "ep_num_lg2ph x = push_bit 1 (x AND 0x0F) OR drop_bit 7 (x AND 0x80)"

definition tn_usb_lpc_cmd :: "device \<Rightarrow> u32 \<Rightarrow> machine \<Rightarrow> machine option" where
  "tn_usb_lpc_cmd dev cmd s =
     do {
       let s = reg_write rUSBDevIntClr (CDFULL OR CCEMTY) s;
       let s = reg_write rUSBCmdCode (0x500 OR push_bit 16 cmd) s;
       (_, s) \<leftarrow> poll dev rUSBDevIntSt CCEMTY s;
       Some (reg_write rUSBDevIntClr CCEMTY s)
     }"

definition tn_usb_lpc_cmd_write :: "device \<Rightarrow> u32 \<Rightarrow> u32 \<Rightarrow> machine \<Rightarrow> machine option" where
  "tn_usb_lpc_cmd_write dev cmd data s =
     do {
       let s = reg_write rUSBDevIntClr (CDFULL OR CCEMTY) s;
       let s = reg_write rUSBCmdCode (0x500 OR push_bit 16 cmd) s;
       (_, s) \<leftarrow> poll dev rUSBDevIntSt CCEMTY s;
       let s = reg_write rUSBDevIntClr CCEMTY s;
       let s = reg_write rUSBCmdCode (0x100 OR push_bit 16 data) s;
       (_, s) \<leftarrow> poll dev rUSBDevIntSt CCEMTY s;
       Some (reg_write rUSBDevIntClr CCEMTY s)
     }"

definition tn_usb_lpc_cmd_read :: "device \<Rightarrow> u32 \<Rightarrow> machine \<Rightarrow> (u32 \<times> machine) option" where
  "tn_usb_lpc_cmd_read dev cmd s =
     do {
       let s = reg_write rUSBDevIntClr (CDFULL OR CCEMTY) s;
       let s = reg_write rUSBCmdCode (0x500 OR push_bit 16 cmd) s;
       (_, s) \<leftarrow> poll dev rUSBDevIntSt CCEMTY s;
       let s = reg_write rUSBDevIntClr CCEMTY s;
       let s = reg_write rUSBCmdCode (0x200 OR push_bit 16 cmd) s;
       (_, s) \<leftarrow> poll dev rUSBDevIntSt CDFULL s;
       let (ret_val, s) = reg_read dev rUSBCmdData s;
       Some (ret_val, reg_write rUSBDevIntClr CDFULL s)
     }"

section \<open>Packets\<close>

text \<open>Where a packet that is read goes: nowhere, to the memory, or to the set-up packet. The
  words behind the 8 bytes of the set-up packet are the fields \<open>Descriptors\<close> and \<open>Configuration\<close>
  of the same structure; what lies behind the structure is not in the model.\<close>

datatype rx_ptr = RxNull | RxMem u32 | RxSetup nat

fun setup_store :: "nat \<Rightarrow> u32 \<Rightarrow> usb_device_info \<Rightarrow> usb_device_info option" where
  "setup_store n w u =
     (let p = EP0SetupPacket u in
      if n = 0 then Some (u\<lparr>EP0SetupPacket := p\<lparr>bmRequestType := ucast w, bRequest := ucast (drop_bit 8 w),
                             wValue := ucast (drop_bit 16 w)\<rparr>\<rparr>)
      else if n = 1 then Some (u\<lparr>EP0SetupPacket := p\<lparr>wIndex := ucast w, wLength := ucast (drop_bit 16 w)\<rparr>\<rparr>)
      else if n = 2 then Some (u\<lparr>Descriptors := w\<rparr>)
      else if n = 3 then Some (u\<lparr>Configuration := sint w\<rparr>)
      else None)"

fun rx_put :: "rx_ptr \<Rightarrow> u32 \<Rightarrow> machine \<Rightarrow> (rx_ptr \<times> machine) option" where
  "rx_put RxNull w s = Some (RxNull, s)"
| "rx_put (RxMem a) w s = Some (RxMem (a + 4), upd_ram (st32 a w) s)"
| "rx_put (RxSetup n) w s = do { u \<leftarrow> setup_store n w (gUSBInfo s); Some (RxSetup (Suc n), s\<lparr>gUSBInfo := u\<rparr>) }"

text \<open>\<open>while(rUSBCtrl & RD_EN) *ptr++ = rUSBRxData;\<close>\<close>

partial_function (option) rx_loop :: "device \<Rightarrow> rx_ptr \<Rightarrow> machine \<Rightarrow> machine option" where
  "rx_loop dev p s =
     (case reg_read dev rUSBCtrl s of
        (c, s) \<Rightarrow>
          if c AND RD_EN \<noteq> 0 then
            (case reg_read dev rUSBRxData s of
               (w, s) \<Rightarrow> do { (p, s) \<leftarrow> rx_put p w s; rx_loop dev p s })
          else Some s)"

definition tn_usb_ep_read :: "device \<Rightarrow> u32 \<Rightarrow> rx_ptr \<Rightarrow> machine \<Rightarrow> (int \<times> machine) option" where
  "tn_usb_ep_read dev ep_num_logical buf s =
     do {
       let ep = ep_num_logical AND 0x8F;
       let s = reg_write rUSBCtrl (RD_EN OR push_bit 2 ep) s;
       (len, s) \<leftarrow> poll dev rUSBRxPLen PKT_RDY s;
       s \<leftarrow> rx_loop dev buf s;
       let s = reg_write rUSBCtrl 0 s;
       s \<leftarrow> tn_usb_lpc_cmd dev (CMD_EP_SELECT OR ep_num_lg2ph ep) s;
       s \<leftarrow> tn_usb_lpc_cmd dev CMD_EP_CLEAR_BUFFER s;
       Some (uint (len AND PKT_LNGTH_MASK), s)
     }"

text \<open>\<open>while(rUSBCtrl & WR_EN) { data.b[0] = *buf++; ... rUSBTxData = data.w; }\<close>\<close>

partial_function (option) tx_loop :: "device \<Rightarrow> u32 \<Rightarrow> machine \<Rightarrow> machine option" where
  "tx_loop dev buf s =
     (case reg_read dev rUSBCtrl s of
        (c, s) \<Rightarrow>
          if c AND WR_EN \<noteq> 0 then
            tx_loop dev (buf + 4)
              (reg_write rUSBTxData (le32 (ld8 (ram s) buf) (ld8 (ram s) (buf + 1))
                                          (ld8 (ram s) (buf + 2)) (ld8 (ram s) (buf + 3))) s)
          else Some s)"

definition tn_usb_ep0_write :: "device \<Rightarrow> u32 \<Rightarrow> u32 \<Rightarrow> int \<Rightarrow> machine \<Rightarrow> (int \<times> machine) option" where
  "tn_usb_ep0_write dev ep_num_logical buf nb s =
     do {
       let ep = ep_num_logical AND 0x8F;
       let s = reg_write rUSBCtrl (WR_EN OR push_bit 2 (ep AND 0x0F)) s;
       let s = reg_write rUSBTxPLen (word_of_int nb) s;
       s \<leftarrow> (if nb > 0 then tx_loop dev buf s else Some s);
       let s = reg_write rUSBCtrl 0 s;
       s \<leftarrow> tn_usb_lpc_cmd dev (CMD_EP_SELECT OR ep_num_lg2ph ep) s;
       s \<leftarrow> tn_usb_lpc_cmd dev CMD_EP_VALIDATE_BUFFER s;
       Some (nb, s)
     }"

section \<open>End points and device\<close>

definition tn_usb_stall_ep :: "device \<Rightarrow> u32 \<Rightarrow> bool \<Rightarrow> machine \<Rightarrow> machine option" where
  "tn_usb_stall_ep dev ep_num_logical mode =
     tn_usb_lpc_cmd_write dev (CMD_EP_SET_STATUS OR ep_num_lg2ph (ep_num_logical AND 0x8F))
       (if mode then EP_ST else 0)"

definition tn_usb_reset_ep :: "device \<Rightarrow> u32 \<Rightarrow> machine \<Rightarrow> machine option" where
  "tn_usb_reset_ep dev ep_num_logical =
     tn_usb_lpc_cmd_write dev (CMD_EP_SET_STATUS OR ep_num_lg2ph (ep_num_logical AND 0x8F)) 0"

definition tn_usb_set_addr :: "device \<Rightarrow> u32 \<Rightarrow> machine \<Rightarrow> machine option" where
  "tn_usb_set_addr dev addr s =
     do {
       s \<leftarrow> tn_usb_lpc_cmd_write dev CMD_DEV_SET_ADDRESS (0x80 OR (addr AND 0xFF)) s;
       tn_usb_lpc_cmd_write dev CMD_DEV_SET_MODE 0x60 s
     }"

definition ep_bulk_release :: "device \<Rightarrow> nat \<Rightarrow> u32 \<Rightarrow> machine \<Rightarrow> machine option" where
  "ep_bulk_release dev ep_num_phys packet_size s =
     do {
       let s = reg_or dev rUSBReEp (push_bit ep_num_phys 1) s;
       let s = reg_write rUSBEpInd (of_nat ep_num_phys) s;
       let s = reg_write rUSBMaxPSize packet_size s;
       (_, s) \<leftarrow> poll dev rUSBDevIntSt EP_RLZED s;
       Some (reg_write rUSBDevIntClr EP_RLZED s)
     }"

definition tn_usb_config_EP0 :: "device \<Rightarrow> machine \<Rightarrow> machine option" where
  "tn_usb_config_EP0 dev s =
     do {
       s \<leftarrow> ep_bulk_release dev 0 64 s;
       s \<leftarrow> ep_bulk_release dev 1 64 s;
       Some (reg_or dev rUSBEpIntEn 3 s)
     }"

definition tn_usb_configure_device :: "device \<Rightarrow> bool \<Rightarrow> machine \<Rightarrow> machine option" where
  "tn_usb_configure_device dev mode = tn_usb_lpc_cmd_write dev CMD_DEV_CONFIG (if mode then CONF_DEVICE else 0)"

text \<open>\<open>for(data = 0; data < 32; data++) { if(rUSBEpIntEn & mask) ...; mask <<=1; }\<close>\<close>

fun configure_loop :: "device \<Rightarrow> usb_reg \<Rightarrow> nat \<Rightarrow> nat \<Rightarrow> machine \<Rightarrow> machine option" where
  "configure_loop dev r data 0 s = Some s"
| "configure_loop dev r data (Suc n) s =
     do {
       let (v, s) = reg_read dev r s;
       s \<leftarrow> (if v AND push_bit data 1 \<noteq> 0
              then tn_usb_lpc_cmd_write dev (CMD_EP_SET_STATUS OR of_nat data) 0 s else Some s);
       configure_loop dev r (Suc data) n s
     }"

definition tn_usb_configure :: "device \<Rightarrow> bool \<Rightarrow> machine \<Rightarrow> machine option" where
  "tn_usb_configure dev mode s =
     do {
       let (v, s) = reg_read dev rUSBEpIntEn s;
       let s = reg_write rUSBReEp v s;
       s \<leftarrow> configure_loop dev rUSBEpIntEn 0 32 s;
       tn_usb_lpc_cmd_write dev CMD_DEV_CONFIG (if mode then CONF_DEVICE else 0) s
     }"

text \<open>\<open>ptr\<close> is the address of an end point descriptor.\<close>

definition tn_usb_config_ep :: "device \<Rightarrow> u32 \<Rightarrow> machine \<Rightarrow> machine option" where
  "tn_usb_config_ep dev ptr s =
     do {
       let ep_num_phys = ep_num_lg2ph (ucast (ld8 (ram s) (ptr + 2)) AND 0x8F);
       let s = reg_or dev rUSBReEp (push_bit (unat ep_num_phys) 1) s;
       let s = reg_write rUSBEpInd ep_num_phys s;
       let s = reg_write rUSBMaxPSize (ucast (ld16 (ram s) (ptr + 4))) s;
       (_, s) \<leftarrow> poll dev rUSBDevIntSt EP_RLZED s;
       let s = reg_write rUSBDevIntClr EP_RLZED s;
       s \<leftarrow> tn_usb_lpc_cmd_write dev (CMD_EP_SET_STATUS OR ep_num_phys) 0 s;
       s \<leftarrow> tn_usb_lpc_cmd_write dev (CMD_EP_SET_STATUS OR ep_num_phys) 0 s;
       Some (reg_or dev rUSBEpIntEn (push_bit (unat ep_num_phys) 1) s)
     }"

text \<open>The requests call two functions of this layer that are different in the device with DMA: the
  requests are modelled over a layer that holds them and the controller.\<close>

record hw_layer =
  hw_dev :: device
  hw_set_addr :: "u32 \<Rightarrow> machine \<Rightarrow> machine option"
  hw_config_ep :: "u32 \<Rightarrow> machine \<Rightarrow> machine option"

definition no_dma :: "device \<Rightarrow> hw_layer" where
  "no_dma dev = \<lparr>hw_dev = dev, hw_set_addr = tn_usb_set_addr dev, hw_config_ep = tn_usb_config_ep dev\<rparr>"

text \<open>\<open>tn_usb_connect\<close>, the one function here that is called by a task.\<close>

definition tn_usb_connect :: "device \<Rightarrow> bool \<Rightarrow> machine \<Rightarrow> (int \<times> machine) option" where
  "tn_usb_connect dev mode s =
     (if check_non_int_context (krn s) then Some (TERR_WCONTEXT, s)
      else do {
        let (sr, k) = tn_cpu_save_sr (krn s);
        s \<leftarrow> tn_usb_lpc_cmd_write dev CMD_DEV_STATUS (if mode then CON else 0) (s\<lparr>krn := k\<rparr>);
        Some (TERR_NO_ERR, s\<lparr>krn := tn_cpu_restore_sr sr (krn s)\<rparr>)
      })"

end
