(* ===== verification/USB_Bytes.thy ===== *)
theory USB_Bytes
  imports USB_Hw
begin

text \<open>
  The bytes of the word memory: what a byte load finds after a byte or word store, and the words that
  four bytes make.
\<close>

section \<open>Addresses\<close>

lemma masks: "(3 :: u32) = mask 2" "(0xFF :: u32) = mask 8"
  by (simp_all add: mask_eq_exp_minus_1)

lemma bit_255: "bit (0xFF :: u32) n \<longleftrightarrow> n < 8" "bit (0xFF :: int) n \<longleftrightarrow> n < 8"
proof -
  show "bit (0xFF :: u32) n \<longleftrightarrow> n < 8" unfolding masks by (auto simp: bit_mask_iff)
  have m: "(0xFF :: int) = mask 8" by (simp add: mask_eq_exp_minus_1)
  show "bit (0xFF :: int) n \<longleftrightarrow> n < 8" unfolding m by (auto simp: bit_mask_iff)
qed

lemma and_3_lt: "unat ((a :: u32) AND 3) < 4"
  using word_and_le1 [of a 3] by (simp add: word_le_nat_alt)

lemma addr_eq_iff: "(a :: u32) = c \<longleftrightarrow> a AND NOT 3 = c AND NOT 3 \<and> a AND 3 = c AND 3"
proof
  assume "a AND NOT 3 = c AND NOT 3 \<and> a AND 3 = c AND 3"
  then have "(a AND NOT 3) OR (a AND 3) = (c AND NOT 3) OR (c AND 3)" by simp
  moreover have "(x AND NOT 3) OR (x AND 3) = x" for x :: u32 by (rule bit_word_eqI) (auto simp: bit_simps)
  ultimately show "a = c" by simp
qed simp

lemma mask_3: "(a :: u32) AND 3 = a mod 4" "unat (a AND 3) = unat a mod 4"
proof -
  show "a AND 3 = a mod 4" using take_bit_eq_mod [of 2 a] by (simp add: masks(1) take_bit_eq_mask)
  then show "unat (a AND 3) = unat a mod 4" by (simp add: unat_mod)
qed

section \<open>Loads after stores\<close>

lemma bit_put8:
  "bit ((w AND NOT (push_bit k 0xFF)) OR push_bit k (ucast (b :: u8)) :: u32) n \<longleftrightarrow>
     (if k \<le> n \<and> n < k + 8 \<and> n < 32 then bit b (n - k) else bit w n)"
proof -
  have "bit w n \<Longrightarrow> n < 32" "bit b (n - k) \<Longrightarrow> n - k < 8" using bit_imp_le_length by fastforce+
  then show ?thesis
    by (auto simp: bit_or_iff bit_and_iff bit_not_iff bit_push_bit_iff bit_255 bit_ucast_iff)
qed

lemma bit_ld8: "bit (ld8 m a) i \<longleftrightarrow> i < 8 \<and> bit (m (a AND NOT 3)) (8 * unat (a AND 3) + i)"
  by (auto simp: ld8_def bit_ucast_iff bit_drop_bit_eq)

lemma bit_st8:
  "bit (st8 a b m q) n \<longleftrightarrow>
     (if q = a AND NOT 3 \<and> 8 * unat (a AND 3) \<le> n \<and> n < 8 * unat (a AND 3) + 8
      then bit b (n - 8 * unat (a AND 3)) else bit (m q) n)"
proof -
  have "8 * unat (a AND 3) + 8 \<le> 32" using and_3_lt [of a] by simp
  then show ?thesis by (auto simp: st8_def Let_def bit_put8)
qed

lemma ld8_st8: "ld8 (st8 a b m) c = (if c = a then b else ld8 m c)"
proof (rule bit_word_eqI)
  fix i assume "i < LENGTH(8)"
  then have i: "i < 8" by simp
  show "bit (ld8 (st8 a b m) c) i = bit (if c = a then b else ld8 m c) i"
  proof (cases "c AND NOT 3 = a AND NOT 3 \<and> c AND 3 = a AND 3")
    case True
    then have "c = a" using addr_eq_iff by blast
    then show ?thesis using i by (simp add: bit_ld8 bit_st8)
  next
    case False
    then have "c \<noteq> a" by auto
    moreover have "unat (c AND 3) \<noteq> unat (a AND 3)" if "c AND NOT 3 = a AND NOT 3"
      using False that by (simp add: word_unat_eq_iff)
    then have "\<not> (c AND NOT 3 = a AND NOT 3 \<and> 8 * unat (a AND 3) \<le> 8 * unat (c AND 3) + i \<and>
        8 * unat (c AND 3) + i < 8 * unat (a AND 3) + 8)"
      using i by (cases "unat (c AND 3)" "unat (a AND 3)" rule: linorder_cases) auto
    ultimately show ?thesis using i by (simp only: bit_ld8 bit_st8 if_False simp_thms)
  qed
qed

lemma ld8_st32: "ld8 (st32 a w m) c = (if c AND NOT 3 = a AND NOT 3 then ucast (drop_bit (8 * unat (c AND 3)) w) else ld8 m c)"
  by (simp add: ld8_def st32_def)

lemma aligned_low: "a AND 3 = 0 \<Longrightarrow> (a :: u32) AND NOT 3 = a"
  using addr_eq_iff [of a "a AND NOT 3"] by (simp add: and.assoc)

lemma aligned_add:
  assumes "(a :: u32) AND 3 = 0" and "k < 4"
  shows "(a + of_nat k) AND NOT 3 = a" "unat ((a + of_nat k) AND 3) = k"
proof -
  have d: "a AND of_nat k = 0"
  proof (rule bit_word_eqI)
    fix i assume i: "i < LENGTH(32)"
    have "bit (a AND 3) i \<longleftrightarrow> False" using assms(1) by simp
    then have lo: "i < 2 \<Longrightarrow> \<not> bit a i" using i unfolding masks by (auto simp: bit_and_iff bit_mask_iff)
    have "k = k mod 2 ^ 2" using assms(2) by simp
    then have "(of_nat k :: u32) = take_bit 2 (of_nat k)" by (metis of_nat_take_bit take_bit_eq_mod)
    then have "2 \<le> i \<Longrightarrow> \<not> bit (of_nat k :: u32) i" by (metis bit_take_bit_iff not_less)
    with lo show "bit (a AND of_nat k) i = bit (0 :: u32) i" by (cases "i < 2") (simp_all add: bit_and_iff)
  qed
  then have s: "a + of_nat k = a OR of_nat k" by (rule disjunctive_add_eq_or)
  have k3: "(of_nat k :: u32) AND 3 = of_nat k" "(of_nat k :: u32) AND NOT 3 = 0"
    using assms(2) by (auto simp: numeral_eq_Suc less_Suc_eq)
  show "(a + of_nat k) AND NOT 3 = a" "unat ((a + of_nat k) AND 3) = k"
    using assms aligned_low [OF assms(1)] k3 unfolding s bit.conj_disj_distrib2 by (simp_all add: unat_of_nat)
qed

text \<open>A word at a multiple of 4 is its four bytes, lowest first.\<close>

lemma ld8_aligned:
  assumes "(a :: u32) AND 3 = 0" and "k < 4"
  shows "ld8 m (a + of_nat k) = ucast (drop_bit (8 * k) (m a))"
  using aligned_add [OF assms] by (simp add: ld8_def)

lemma le32_bytes:
  "le32 (ucast w) (ucast (drop_bit 8 w)) (ucast (drop_bit 16 w)) (ucast (drop_bit 24 w)) = (w :: u32)"
proof (rule bit_word_eqI)
  fix i assume "i < LENGTH(32)"
  then consider "i < 8" | "8 \<le> i" "i < 16" | "16 \<le> i" "i < 24" | "24 \<le> i" "i < 32" by force
  then show "bit (le32 (ucast w) (ucast (drop_bit 8 w)) (ucast (drop_bit 16 w)) (ucast (drop_bit 24 w))) i = bit w i"
    by cases (auto simp: le32_def bit_or_iff bit_push_bit_iff bit_ucast_iff bit_drop_bit_eq)
qed

lemma le32_aligned:
  assumes "(a :: u32) AND 3 = 0"
  shows "le32 (ld8 m a) (ld8 m (a + 1)) (ld8 m (a + 2)) (ld8 m (a + 3)) = m a"
  using ld8_aligned [OF assms, of 0 m] ld8_aligned [OF assms, of 1 m] ld8_aligned [OF assms, of 2 m]
    ld8_aligned [OF assms, of 3 m] le32_bytes [of "m a"] by simp

lemma bytes_le32:
  "ucast (le32 b0 b1 b2 b3) = b0" "ucast (drop_bit 8 (le32 b0 b1 b2 b3)) = b1"
  "ucast (drop_bit 16 (le32 b0 b1 b2 b3)) = b2" "ucast (drop_bit 24 (le32 b0 b1 b2 b3)) = b3"
  by (rule bit_word_eqI;
      auto simp: le32_def bit_or_iff bit_push_bit_iff bit_ucast_iff bit_drop_bit_eq dest: bit_imp_le_length)+

end
