(* ===== verification/USB_Req.thy ===== *)
theory USB_Req
  imports USB_Hw
begin

text \<open>
  The standard requests of the USB devices, \<^verbatim>\<open>tn_usb_req.c\<close>, on the set-up packet in \<open>gUSBInfo\<close>, and
  the data stage of an IN transfer. A BOOL result is a \<open>bool\<close>.
\<close>

abbreviation (input) CMD_MASK_RECIP :: u8 where "CMD_MASK_RECIP \<equiv> 0x1F"
abbreviation (input) CMD_RECIP_DEVICE :: u8 where "CMD_RECIP_DEVICE \<equiv> 0"
abbreviation (input) CMD_RECIP_INTERFACE :: u8 where "CMD_RECIP_INTERFACE \<equiv> 1"
abbreviation (input) CMD_RECIP_ENDPOINT :: u8 where "CMD_RECIP_ENDPOINT \<equiv> 2"
abbreviation (input) USB_DESCR_TYPE_CONFIGURATION :: u8 where "USB_DESCR_TYPE_CONFIGURATION \<equiv> 2"
abbreviation (input) USB_DESCR_TYPE_INTERFACE :: u8 where "USB_DESCR_TYPE_INTERFACE \<equiv> 4"
abbreviation (input) USB_DESCR_TYPE_ENDPOINT :: u8 where "USB_DESCR_TYPE_ENDPOINT \<equiv> 5"

definition recip :: "machine \<Rightarrow> u8" where
  "recip s = bmRequestType (usp s) AND CMD_MASK_RECIP"

definition tn_usb_reset_data :: "machine \<Rightarrow> machine" where
  "tn_usb_reset_data s = upd_eps (\<lambda>e. e\<lparr>nbytes := 0\<rparr>) (upd_udi (\<lambda>u. u\<lparr>Configuration := 0\<rparr>) s)"

text \<open>\<open>pdata\<close> is a pointer to \<open>unsigned int\<close>: \<open>eps->pdata += bytes\<close> advances the address by four times
  \<open>bytes\<close>.\<close>

definition tn_usb_st_DATAIN :: "device \<Rightarrow> machine \<Rightarrow> machine option" where
  "tn_usb_st_DATAIN dev s =
     do {
       let bytes = (if nbytes (eps s) > USB_MAX_PACKET0 then USB_MAX_PACKET0 else nbytes (eps s));
       (bytes, s) \<leftarrow> tn_usb_ep0_write dev 0x80 (pdata (eps s)) bytes s;
       Some (upd_eps (\<lambda>e. e\<lparr>nbytes := nbytes e - bytes, pdata := pdata e + 4 * word_of_int bytes\<rparr>) s)
     }"

section \<open>OUT requests\<close>

definition usb_SET_ADDRESS :: "hw_layer \<Rightarrow> machine \<Rightarrow> (bool \<times> machine) option" where
  "usb_SET_ADDRESS l s =
     (if recip s = CMD_RECIP_DEVICE
      then do { s \<leftarrow> hw_set_addr l (ucast (wValue (usp s))) s; Some (True, s) }
      else Some (False, s))"

definition usb_SET_FEATURE :: "machine \<Rightarrow> (bool \<times> machine) option" where
  "usb_SET_FEATURE s = Some (False, s)"

definition usb_CLEAR_FEATURE :: "device \<Rightarrow> machine \<Rightarrow> (bool \<times> machine) option" where
  "usb_CLEAR_FEATURE dev s =
     (if recip s = CMD_RECIP_ENDPOINT \<and> wValue (usp s) = 0
      then do { s \<leftarrow> tn_usb_stall_ep dev (ucast (wIndex (usp s))) False s; Some (True, s) }
      else Some (False, s))"

text \<open>The scan over the descriptors in \<open>SET_CONFIGURATION\<close>; \<open>aset\<close> is the alternate setting of the
  interface the scan is in, \<open>rc\<close> the result so far.\<close>

partial_function (option) set_config_loop ::
    "hw_layer \<Rightarrow> u32 \<Rightarrow> u8 \<Rightarrow> bool \<Rightarrow> machine \<Rightarrow> (bool \<times> machine) option" where
  "set_config_loop l ptr aset rc s =
     (if ld8 (ram s) ptr = 0 then Some (rc, s)
      else
        let dt = ld8 (ram s) (ptr + 1); cv = wValue (usp s) AND 0xFF in
        if dt = USB_DESCR_TYPE_CONFIGURATION then
          if ucast (ld8 (ram s) (ptr + 5)) = cv then
            do {
              s \<leftarrow> tn_usb_configure_device (hw_dev l) True (upd_udi (\<lambda>u. u\<lparr>Configuration := uint cv\<rparr>) s);
              set_config_loop l (ptr + ucast (ld8 (ram s) ptr)) aset True s
            }
          else set_config_loop l (ptr + ucast (ld16 (ram s) (ptr + 2))) aset rc s
        else if dt = USB_DESCR_TYPE_INTERFACE then
          set_config_loop l (ptr + ucast (ld8 (ram s) ptr)) (ld8 (ram s) (ptr + 3)) rc s
        else if dt = USB_DESCR_TYPE_ENDPOINT \<and> aset = 0 then
          do {
            s \<leftarrow> hw_config_ep l ptr s;
            set_config_loop l (ptr + ucast (ld8 (ram s) ptr)) aset rc s
          }
        else set_config_loop l (ptr + ucast (ld8 (ram s) ptr)) aset rc s)"

definition usb_SET_CONFIGURATION :: "hw_layer \<Rightarrow> machine \<Rightarrow> (bool \<times> machine) option" where
  "usb_SET_CONFIGURATION l s =
     do {
       (rc, s) \<leftarrow> (if wValue (usp s) AND 0xFF \<noteq> 0
         then set_config_loop l (Descriptors (gUSBInfo s)) 0 False s
         else do {
           s \<leftarrow> tn_usb_configure_device (hw_dev l) False (upd_udi (\<lambda>u. u\<lparr>Configuration := 0\<rparr>) s);
           Some (False, s)
         });
       Some (rc \<or> Configuration (gUSBInfo s) = uint (wValue (usp s) AND 0xFF), s)
     }"

definition usb_SET_INTERFACE :: "machine \<Rightarrow> (bool \<times> machine) option" where
  "usb_SET_INTERFACE s = Some (False, s)"

definition usb_exch_stage_STALLOUT :: "device \<Rightarrow> machine \<Rightarrow> machine option" where
  "usb_exch_stage_STALLOUT dev s =
     do { s \<leftarrow> tn_usb_stall_ep dev 0 True s; Some (upd_eps (\<lambda>e. e\<lparr>nbytes := 0\<rparr>) s) }"

section \<open>IN requests\<close>

text \<open>\<open>eps->pdata[0] = 0\<close> stores a word.\<close>

definition usb_GET_STATUS :: "machine \<Rightarrow> (bool \<times> machine) option" where
  "usb_GET_STATUS s =
     (if recip s = CMD_RECIP_DEVICE \<or> recip s = CMD_RECIP_INTERFACE \<or> recip s = CMD_RECIP_ENDPOINT
      then Some (True, upd_eps (\<lambda>e. e\<lparr>nbytes := 2\<rparr>)
                   (upd_ram (\<lambda>m. st32 (pdata (eps s) + 4) 0 (st32 (pdata (eps s)) 0 m)) s))
      else Some (False, s))"

partial_function (option) get_descr_loop ::
    "(u32 \<Rightarrow> u32) \<Rightarrow> u32 \<Rightarrow> int \<Rightarrow> u8 \<Rightarrow> int \<Rightarrow> (u32 option) option" where
  "get_descr_loop m ptr ind req_type req_index =
     (if ld8 m ptr = 0 then Some None
      else if ld8 m (ptr + 1) = req_type then
        if ind = req_index then Some (Some ptr)
        else get_descr_loop m (ptr + ucast (ld8 m ptr)) (ind + 1) req_type req_index
      else get_descr_loop m (ptr + ucast (ld8 m ptr)) ind req_type req_index)"

definition usb_GET_DESCRIPTOR :: "machine \<Rightarrow> (bool \<times> machine) option" where
  "usb_GET_DESCRIPTOR s =
     (if recip s = CMD_RECIP_DEVICE then
        do {
          let req_type = ucast (drop_bit 8 (wValue (usp s)));
          let req_index = uint (wValue (usp s) AND 0xFF);
          found \<leftarrow> get_descr_loop (ram s) (Descriptors (gUSBInfo s)) 0 req_type req_index;
          (case found of
             None \<Rightarrow> Some (False, s)
           | Some ptr \<Rightarrow> Some (True, upd_eps (\<lambda>e. e\<lparr>pdata := ptr,
               nbytes := (if req_type = USB_DESCR_TYPE_CONFIGURATION then uint (ld16 (ram s) (ptr + 2))
                          else uint (ld8 (ram s) ptr))\<rparr>) s))
        }
      else Some (False, s))"

definition usb_GET_CONFIGURATION :: "machine \<Rightarrow> (bool \<times> machine) option" where
  "usb_GET_CONFIGURATION s =
     (if recip s = CMD_RECIP_DEVICE
      then Some (True, upd_eps (\<lambda>e. e\<lparr>nbytes := 1\<rparr>)
                   (upd_ram (st32 (pdata (eps s)) (word_of_int (Configuration (gUSBInfo s)))) s))
      else Some (False, s))"

definition usb_GET_INTERFACE :: "machine \<Rightarrow> (bool \<times> machine) option" where
  "usb_GET_INTERFACE s = Some (False, s)"

definition tn_usb_class_request :: "machine \<Rightarrow> (bool \<times> machine) option" where
  "tn_usb_class_request s =
     (if bRequest (usp s) = 0xFE
      then Some (True, upd_eps (\<lambda>e. e\<lparr>nbytes := 1\<rparr>) (upd_ram (st32 (pdata (eps s)) 0) s))
      else Some (bRequest (usp s) = 0xFF, s))"

section \<open>Dispatch\<close>

definition std_out_request :: "hw_layer \<Rightarrow> machine \<Rightarrow> (bool \<times> machine) option" where
  "std_out_request l s =
     (let r = bRequest (usp s) in
      if r = 5 then usb_SET_ADDRESS l s
      else if r = 3 then usb_SET_FEATURE s
      else if r = 1 then usb_CLEAR_FEATURE (hw_dev l) s
      else if r = 9 then usb_SET_CONFIGURATION l s
      else if r = 11 then usb_SET_INTERFACE s
      else if r = 7 then do { s \<leftarrow> usb_exch_stage_STALLOUT (hw_dev l) s; Some (False, s) }
      else Some (False, s))"

definition std_in_request :: "machine \<Rightarrow> (bool \<times> machine) option" where
  "std_in_request s =
     (let r = bRequest (usp s) in
      if r = 0 then usb_GET_STATUS s
      else if r = 6 then usb_GET_DESCRIPTOR s
      else if r = 8 then usb_GET_CONFIGURATION s
      else if r = 10 then usb_GET_INTERFACE s
      else Some (False, s))"

definition tn_usb_EP0_SETUP :: "hw_layer \<Rightarrow> machine \<Rightarrow> (bool \<times> machine) option" where
  "tn_usb_EP0_SETUP l s =
     (let c = bmRequestType (usp s) AND 0xE0 in
      if c = 0 then std_out_request l s
      else if c = 0x80 then std_in_request s
      else if c = 0xA0 \<or> c = 0x20 then tn_usb_class_request s
      else Some (False, s))"

section \<open>Interrupts of end point 0\<close>

definition tn_usb_EP0_tx_int_func :: "device \<Rightarrow> machine \<Rightarrow> machine option" where
  "tn_usb_EP0_tx_int_func dev s =
     do {
       (_, s) \<leftarrow> tn_usb_lpc_cmd_read dev (CMD_EP_SELECT_CLEAR OR 1) s;
       s \<leftarrow> tn_usb_st_DATAIN dev s;
       Some (reg_write rUSBEpIntClr 2 s)
     }"

definition ep0_setup_stage :: "hw_layer \<Rightarrow> machine \<Rightarrow> machine option" where
  "ep0_setup_stage l s =
     do {
       (_, s) \<leftarrow> tn_usb_ep_read (hw_dev l) 0 (RxSetup 0) s;
       let s = upd_eps (\<lambda>e. e\<lparr>pdata := pbuf e, nbytes := uint (wLength (usp s))\<rparr>) s;
       (if wLength (usp s) = 0 \<or> bmRequestType (usp s) AND 0x80 \<noteq> 0 then
          do {
            (rc, s) \<leftarrow> tn_usb_EP0_SETUP l s;
            (if \<not> rc then tn_usb_stall_ep (hw_dev l) 0 True s
             else tn_usb_st_DATAIN (hw_dev l)
                    (if nbytes (eps s) > uint (wLength (usp s))
                     then upd_eps (\<lambda>e. e\<lparr>nbytes := uint (wLength (usp s))\<rparr>) s else s))
          }
        else Some s)
     }"

definition ep0_data_stage :: "hw_layer \<Rightarrow> machine \<Rightarrow> machine option" where
  "ep0_data_stage l s =
     (if nbytes (eps s) > 0 then
        do {
          (bytes, s) \<leftarrow> tn_usb_ep_read (hw_dev l) 0 (RxMem (pdata (eps s))) s;
          let s = upd_eps (\<lambda>e. e\<lparr>nbytes := nbytes e - bytes, pdata := pdata e + 4 * word_of_int bytes\<rparr>) s;
          (if nbytes (eps s) = 0 then
             do {
               (rc, s) \<leftarrow> tn_usb_EP0_SETUP l (upd_eps (\<lambda>e. e\<lparr>pdata := pbuf e\<rparr>) s);
               (if \<not> rc then tn_usb_stall_ep (hw_dev l) 0 True s else tn_usb_st_DATAIN (hw_dev l) s)
             }
           else do { (_, s) \<leftarrow> tn_usb_ep_read (hw_dev l) 0 RxNull s; Some s })
        }
      else Some s)"

definition tn_usb_EP0_rx_int_func :: "hw_layer \<Rightarrow> machine \<Rightarrow> machine option" where
  "tn_usb_EP0_rx_int_func l s =
     do {
       (ep_status, s) \<leftarrow> tn_usb_lpc_cmd_read (hw_dev l) (CMD_EP_SELECT_CLEAR OR 0) s;
       s \<leftarrow> (if ep_status AND STP \<noteq> 0 then ep0_setup_stage l s else ep0_data_stage l s);
       Some (reg_write rUSBEpIntClr 1 s)
     }"

section \<open>Device interrupts\<close>

definition tn_usb_int_reset :: "device \<Rightarrow> machine \<Rightarrow> machine option" where
  "tn_usb_int_reset dev s =
     do {
       let s = reg_write rUSBEpIntClr 0xFFFFFFFF s;
       s \<leftarrow> tn_usb_config_EP0 dev s;
       let s = reg_write rUSBDevIntClr 0xFFFFFFFF s;
       let s = reg_or dev rUSBDevIntEn 0xC s;
       Some (tn_usb_reset_data s)
     }"

definition tn_usb_int_con_ch :: "device \<Rightarrow> u32 \<Rightarrow> machine \<Rightarrow> machine option" where
  "tn_usb_int_con_ch dev dev_status s = tn_usb_int_reset dev s"

definition tn_usb_int_suspend :: "machine \<Rightarrow> machine" where "tn_usb_int_suspend s = s"

definition tn_usb_int_resume :: "machine \<Rightarrow> machine" where "tn_usb_int_resume s = s"

end
