(* ===== verification/USB_Control.thy ===== *)
theory USB_Control
  imports USB_Bytes USB_Req TN_Demo
begin

text \<open>
  Properties of the hardware layer and of the data stage of a control transfer. What is assumed of
  the controller is in the user manual of the LPC214x: a command ends (\<open>answers\<close>), the write enable bit
  stays set until as many bytes are written as the packet length says (\<open>accepts\<close>), and the read enable
  bit until the packet is read (\<open>delivers\<close>). \<open>sim\<close> is a controller that does so.
\<close>

section \<open>A controller that answers\<close>

lemma io_update_eq [simp]: "(s :: machine)\<lparr>io := h\<rparr> = s\<lparr>io := h'\<rparr> \<longleftrightarrow> h = h'"
  by (cases s) simp

lemma reg_read_eq: "reg_read dev r s = (dev (io s) r, s\<lparr>io := Rd r (dev (io s) r) # io s\<rparr>)"
  by (simp add: reg_read_def Let_def)

fun polled :: "device \<Rightarrow> usb_reg \<Rightarrow> nat \<Rightarrow> io_event list \<Rightarrow> io_event list" where
  "polled dev r 0 h = h"
| "polled dev r (Suc n) h = polled dev r n (Rd r (dev h r) # h)"

definition answers :: "device \<Rightarrow> bool" where
  "answers dev \<longleftrightarrow> (\<forall>h. \<forall>m\<in>{CCEMTY, CDFULL, EP_RLZED}. \<exists>n. dev (polled dev rUSBDevIntSt n h) rUSBDevIntSt AND m \<noteq> 0)"

lemma poll_returns:
  assumes "dev (polled dev r n (io s)) r AND m \<noteq> 0"
  shows "\<exists>k v. k \<le> n \<and> poll dev r m s = Some (v, s\<lparr>io := polled dev r (Suc k) (io s)\<rparr>) \<and> v AND m \<noteq> 0 \<and>
    v = dev (polled dev r k (io s)) r"
  using assms
proof (induction n arbitrary: s)
  case 0
  then show ?case by (intro exI [of _ "0 :: nat"]) (simp add: poll.simps [of dev r m s] reg_read_eq)
next
  case (Suc n)
  show ?case
  proof (cases "dev (io s) r AND m = 0")
    case False
    then show ?thesis by (intro exI [of _ "0 :: nat"]) (simp add: poll.simps [of dev r m s] reg_read_eq)
  next
    case True
    let ?s = "s\<lparr>io := Rd r (dev (io s) r) # io s\<rparr>"
    have "poll dev r m s = poll dev r m ?s" using True by (simp add: poll.simps [of dev r m s] reg_read_eq)
    moreover obtain k v where "k \<le> n" "poll dev r m ?s = Some (v, ?s\<lparr>io := polled dev r (Suc k) (io ?s)\<rparr>)" "v AND m \<noteq> 0"
      "v = dev (polled dev r k (io ?s)) r"
      using Suc.IH [of ?s] Suc.prems by auto
    ultimately show ?thesis by (intro exI [of _ "Suc k"] exI [of _ v]) simp
  qed
qed

lemma poll_answers:
  assumes "answers dev" and "m \<in> {CCEMTY, CDFULL, EP_RLZED}"
  shows "\<exists>v k. poll dev rUSBDevIntSt m s = Some (v, s\<lparr>io := polled dev rUSBDevIntSt (Suc k) (io s)\<rparr>)"
proof -
  obtain n where "dev (polled dev rUSBDevIntSt n (io s)) rUSBDevIntSt AND m \<noteq> 0"
    using assms unfolding answers_def by meson
  then show ?thesis using poll_returns by blast
qed

text \<open>The registers that are written, in order, latest first.\<close>

fun writes :: "io_event list \<Rightarrow> io_event list" where
  "writes [] = []"
| "writes (Wr r v # h) = Wr r v # writes h"
| "writes (Rd r v # h) = writes h"

lemma writes_polled [simp]: "writes (polled dev r n h) = writes h"
  by (induction n arbitrary: h) simp_all

definition cmd_writes :: "u32 \<Rightarrow> io_event list" where
  "cmd_writes cmd = [Wr rUSBDevIntClr 0x10, Wr rUSBCmdCode (0x500 OR push_bit 16 cmd), Wr rUSBDevIntClr 0x30]"

definition data_writes :: "u32 \<Rightarrow> io_event list" where
  "data_writes d = [Wr rUSBDevIntClr 0x10, Wr rUSBCmdCode (0x100 OR push_bit 16 d)]"

lemma lpc_cmd_returns:
  assumes "answers dev"
  shows "\<exists>h. tn_usb_lpc_cmd dev cmd s = Some (s\<lparr>io := h\<rparr>) \<and> writes h = cmd_writes cmd @ writes (io s)"
proof -
  let ?s = "reg_write rUSBCmdCode (0x500 OR push_bit 16 cmd) (reg_write rUSBDevIntClr (CDFULL OR CCEMTY) s)"
  obtain v k where "poll dev rUSBDevIntSt CCEMTY ?s = Some (v, ?s\<lparr>io := polled dev rUSBDevIntSt (Suc k) (io ?s)\<rparr>)"
    using poll_answers [OF assms, of CCEMTY ?s] by auto
  then show ?thesis
    by (simp add: tn_usb_lpc_cmd_def Let_def reg_write_def cmd_writes_def)
qed

lemma lpc_cmd_write_returns:
  assumes "answers dev"
  shows "\<exists>h. tn_usb_lpc_cmd_write dev cmd data s = Some (s\<lparr>io := h\<rparr>) \<and>
    writes h = data_writes data @ cmd_writes cmd @ writes (io s)"
proof -
  let ?s = "reg_write rUSBCmdCode (0x500 OR push_bit 16 cmd) (reg_write rUSBDevIntClr (CDFULL OR CCEMTY) s)"
  obtain v k where p: "poll dev rUSBDevIntSt CCEMTY ?s = Some (v, ?s\<lparr>io := polled dev rUSBDevIntSt (Suc k) (io ?s)\<rparr>)"
    using poll_answers [OF assms, of CCEMTY ?s] by auto
  let ?t = "reg_write rUSBCmdCode (0x100 OR push_bit 16 data) (reg_write rUSBDevIntClr CCEMTY
    (?s\<lparr>io := polled dev rUSBDevIntSt (Suc k) (io ?s)\<rparr>))"
  obtain v' k' where "poll dev rUSBDevIntSt CCEMTY ?t = Some (v', ?t\<lparr>io := polled dev rUSBDevIntSt (Suc k') (io ?t)\<rparr>)"
    using poll_answers [OF assms, of CCEMTY ?t] by auto
  with p show ?thesis
    by (simp add: tn_usb_lpc_cmd_write_def Let_def reg_write_def cmd_writes_def data_writes_def)
qed

lemma lpc_cmd_read_returns:
  assumes "answers dev"
  shows "\<exists>v h. tn_usb_lpc_cmd_read dev cmd s = Some (v, s\<lparr>io := h\<rparr>) \<and>
    writes h = [Wr rUSBDevIntClr 0x20, Wr rUSBCmdCode (0x200 OR push_bit 16 cmd)] @ cmd_writes cmd @ writes (io s) \<and>
    (\<exists>h'. v = dev h' rUSBCmdData)"
proof -
  let ?s = "reg_write rUSBCmdCode (0x500 OR push_bit 16 cmd) (reg_write rUSBDevIntClr (CDFULL OR CCEMTY) s)"
  obtain v k where p: "poll dev rUSBDevIntSt CCEMTY ?s = Some (v, ?s\<lparr>io := polled dev rUSBDevIntSt (Suc k) (io ?s)\<rparr>)"
    using poll_answers [OF assms, of CCEMTY ?s] by auto
  let ?t = "reg_write rUSBCmdCode (0x200 OR push_bit 16 cmd) (reg_write rUSBDevIntClr CCEMTY
    (?s\<lparr>io := polled dev rUSBDevIntSt (Suc k) (io ?s)\<rparr>))"
  obtain v' k' where "poll dev rUSBDevIntSt CDFULL ?t = Some (v', ?t\<lparr>io := polled dev rUSBDevIntSt (Suc k') (io ?t)\<rparr>)"
    using poll_answers [OF assms, of CDFULL ?t] by auto
  with p show ?thesis
    by (auto simp: tn_usb_lpc_cmd_read_def Let_def reg_write_def reg_read_eq cmd_writes_def)
qed

section \<open>Packets to the host\<close>

text \<open>The packets the controller was given, latest first: the length and the bytes.\<close>

definition word_bytes :: "u32 \<Rightarrow> u8 list" where
  "word_bytes w = [ucast w, ucast (drop_bit 8 w), ucast (drop_bit 16 w), ucast (drop_bit 24 w)]"

fun tx_add :: "u32 \<Rightarrow> (nat \<times> u8 list) list \<Rightarrow> (nat \<times> u8 list) list" where
  "tx_add w [] = []"
| "tx_add w ((n, bs) # ps) = (n, bs @ word_bytes w) # ps"

fun tx_packets :: "io_event list \<Rightarrow> (nat \<times> u8 list) list" where
  "tx_packets [] = []"
| "tx_packets (e # h) =
     (case e of
        Wr r v \<Rightarrow> if r = rUSBTxPLen then (unat v, []) # tx_packets h
                  else if r = rUSBTxData then tx_add v (tx_packets h) else tx_packets h
      | Rd r v \<Rightarrow> tx_packets h)"

definition sent :: "machine \<Rightarrow> u8 list list" where
  "sent s = rev (map (\<lambda>(n, bs). take n bs) (tx_packets (io s)))"

lemma tx_packets_writes: "tx_packets (writes h) = tx_packets h"
  by (induction h rule: writes.induct) simp_all

text \<open>The end points written to the controller with the maximal size of their packets, in order.\<close>

fun last_ind :: "io_event list \<Rightarrow> u32" where
  "last_ind [] = 0"
| "last_ind (Wr r v # h) = (if r = rUSBEpInd then v else last_ind h)"
| "last_ind (Rd r v # h) = last_ind h"

fun realized :: "io_event list \<Rightarrow> (u32 \<times> u32) list" where
  "realized [] = []"
| "realized (Wr r v # h) = (if r = rUSBMaxPSize then realized h @ [(last_ind h, v)] else realized h)"
| "realized (Rd r v # h) = realized h"

lemma writes_realized: "last_ind (writes h) = last_ind h" "realized (writes h) = realized h"
proof -
  show i: "last_ind (writes h) = last_ind h" for h by (induction h rule: writes.induct) simp_all
  show "realized (writes h) = realized h" by (induction h rule: writes.induct) (simp_all add: i)
qed

lemma no_packets_after:
  assumes "writes h' = data_writes d @ cmd_writes c @ writes h"
  shows "realized h' = realized h" "tx_packets h' = tx_packets h"
  using writes_realized(2) [of h'] tx_packets_writes [of h'] assms
  by (simp_all add: data_writes_def cmd_writes_def writes_realized tx_packets_writes)

fun takes :: "device \<Rightarrow> u32 list \<Rightarrow> io_event list \<Rightarrow> bool" where
  "takes dev [] h \<longleftrightarrow> dev h rUSBCtrl AND WR_EN = 0"
| "takes dev (w # ws) h \<longleftrightarrow> dev h rUSBCtrl AND WR_EN \<noteq> 0 \<and>
     takes dev ws (Wr rUSBTxData w # Rd rUSBCtrl (dev h rUSBCtrl) # h)"

definition accepts :: "device \<Rightarrow> bool" where
  "accepts dev \<longleftrightarrow> (\<forall>h n ws. 0 < n \<and> n \<le> 64 \<and> length ws = (n + 3) div 4 \<longrightarrow> takes dev ws (Wr rUSBTxPLen (of_nat n) # h))"

text \<open>The words that \<open>tx_loop\<close> makes of the bytes of the memory.\<close>

fun quads :: "(u32 \<Rightarrow> u32) \<Rightarrow> u32 \<Rightarrow> nat \<Rightarrow> u32 list" where
  "quads m a 0 = []"
| "quads m a (Suc k) = le32 (ld8 m a) (ld8 m (a + 1)) (ld8 m (a + 2)) (ld8 m (a + 3)) # quads m (a + 4) k"

lemma length_quads [simp]: "length (quads m a k) = k"
  by (induction k arbitrary: a) simp_all

definition bytes_at :: "(u32 \<Rightarrow> u32) \<Rightarrow> u32 \<Rightarrow> nat \<Rightarrow> u8 list" where
  "bytes_at m a n = map (\<lambda>i. ld8 m (a + of_nat i)) [0..<n]"

lemma bytes_at_add: "bytes_at m a (j + k) = bytes_at m a j @ bytes_at m (a + of_nat j) k"
proof -
  have u: "[j..<j + k] = map (\<lambda>i. i + j) [0..<k]" by (simp only: map_add_upt add.commute [of j k])
  have "map (\<lambda>i. ld8 m (a + of_nat i)) [j..<j + k] = map (\<lambda>i. ld8 m (a + of_nat j + of_nat i)) [0..<k]"
    unfolding u by (simp add: comp_def algebra_simps)
  then show ?thesis by (simp add: bytes_at_def upt_add_eq_append [of 0 j k])
qed

lemma take_bytes_at: "n \<le> k \<Longrightarrow> take n (bytes_at m a k) = bytes_at m a n"
  by (simp add: bytes_at_def take_map)

lemma quads_bytes: "concat (map word_bytes (quads m a k)) = bytes_at m a (4 * k)"
proof (induction k arbitrary: a)
  case 0
  show ?case by (simp add: bytes_at_def)
next
  case (Suc k)
  have "bytes_at m a (4 + 4 * k) = bytes_at m a 4 @ bytes_at m (a + 4) (4 * k)"
    using bytes_at_add [of m a 4 "4 * k"] by simp
  moreover have "bytes_at m a 4 = [ld8 m a, ld8 m (a + 1), ld8 m (a + 2), ld8 m (a + 3)]"
    by (simp add: bytes_at_def upt_rec)
  ultimately show ?case using Suc [of "a + 4"] by (simp add: word_bytes_def bytes_le32)
qed

lemma tx_loop_sends:
  assumes "takes dev (quads (ram s) a k) (io s)" and "tx_packets (io s) = (n, bs) # ps"
  shows "\<exists>h. tx_loop dev a s = Some (s\<lparr>io := h\<rparr>) \<and> tx_packets h = (n, bs @ bytes_at (ram s) a (4 * k)) # ps \<and>
    realized h = realized (io s)"
  using assms
proof (induction k arbitrary: a s bs)
  case 0
  then show ?case by (simp add: tx_loop.simps [of dev a s] reg_read_eq bytes_at_def)
next
  case (Suc k)
  let ?w = "le32 (ld8 (ram s) a) (ld8 (ram s) (a + 1)) (ld8 (ram s) (a + 2)) (ld8 (ram s) (a + 3))"
  let ?s = "s\<lparr>io := Wr rUSBTxData ?w # Rd rUSBCtrl (dev (io s) rUSBCtrl) # io s\<rparr>"
  have en: "dev (io s) rUSBCtrl AND WR_EN \<noteq> 0" using Suc.prems(1) by simp
  have "tx_loop dev a s = tx_loop dev (a + 4) ?s"
    using en by (simp add: tx_loop.simps [of dev a s] reg_read_eq reg_write_def)
  moreover obtain h where "tx_loop dev (a + 4) ?s = Some (?s\<lparr>io := h\<rparr>)"
    "tx_packets h = (n, (bs @ word_bytes ?w) @ bytes_at (ram ?s) (a + 4) (4 * k)) # ps" "realized h = realized (io ?s)"
    using Suc.IH [where a = "a + 4" and s = ?s and bs = "bs @ word_bytes ?w"] Suc.prems by auto
  moreover have "word_bytes ?w @ bytes_at (ram s) (a + 4) (4 * k) = bytes_at (ram s) a (4 * Suc k)"
    using quads_bytes [of "ram s" a "Suc k"] quads_bytes [of "ram s" "a + 4" k] by simp
  ultimately show ?case by (intro exI [of _ h]) simp
qed

lemma ep0_write_sends:
  assumes dev: "answers dev" "accepts dev" and n: "n \<le> 64"
  shows "\<exists>h. tn_usb_ep0_write dev ep a (int n) s = Some (int n, s\<lparr>io := h\<rparr>) \<and>
    map (\<lambda>(n, bs). take n bs) (tx_packets h) = bytes_at (ram s) a n # map (\<lambda>(n, bs). take n bs) (tx_packets (io s)) \<and>
    realized h = realized (io s)"
proof -
  let ?e = "ep AND 0x8F"
  define s1 where "s1 = reg_write rUSBTxPLen (word_of_int (int n)) (reg_write rUSBCtrl (WR_EN OR push_bit 2 (?e AND 0x0F)) s)"
  have un: "unat (word_of_int (int n) :: u32) = n" using n by (simp add: unat_of_nat)
  have s1: "ram s1 = ram s" "tx_packets (io s1) = (n, []) # tx_packets (io s)"
    "realized (io s1) = realized (io s)" and s1_eq: "s1\<lparr>io := h\<rparr> = s\<lparr>io := h\<rparr>" for h
    using un by (simp_all add: s1_def reg_write_def)
  have "\<exists>h bs. (if int n > 0 then tx_loop dev a s1 else Some s1) = Some (s\<lparr>io := h\<rparr>) \<and>
      tx_packets h = (n, bs) # tx_packets (io s) \<and> take n bs = bytes_at (ram s) a n \<and> realized h = realized (io s)"
  proof (cases "n = 0")
    case True
    have "s1 = s\<lparr>io := io s1\<rparr>" by (simp add: s1_def reg_write_def)
    then show ?thesis using True s1 by (intro exI [of _ "io s1"] exI [of _ "[]"]) (simp add: bytes_at_def)
  next
    case False
    let ?k = "(n + 3) div 4"
    have "takes dev (quads (ram s1) a ?k) (io s1)"
      using dev(2) n False unfolding accepts_def s1_def reg_write_def by simp
    from tx_loop_sends [OF this s1(2)] obtain h where h: "tx_loop dev a s1 = Some (s1\<lparr>io := h\<rparr>)"
      "tx_packets h = (n, bytes_at (ram s1) a (4 * ?k)) # tx_packets (io s)" "realized h = realized (io s1)" by auto
    moreover have "n \<le> 4 * ?k" by linarith
    ultimately show ?thesis using False s1(1,3) s1_eq take_bytes_at [of n "4 * ?k"] by (auto simp: mult.commute)
  qed
  then obtain h bs where h: "(if int n > 0 then tx_loop dev a s1 else Some s1) = Some (s\<lparr>io := h\<rparr>)"
    "tx_packets h = (n, bs) # tx_packets (io s)" "take n bs = bytes_at (ram s) a n" "realized h = realized (io s)" by blast
  obtain h2 where h2: "tn_usb_lpc_cmd dev (CMD_EP_SELECT OR ep_num_lg2ph ?e) (s\<lparr>io := Wr rUSBCtrl 0 # h\<rparr>) = Some (s\<lparr>io := h2\<rparr>)"
    "writes h2 = cmd_writes (CMD_EP_SELECT OR ep_num_lg2ph ?e) @ writes (Wr rUSBCtrl 0 # h)"
    using lpc_cmd_returns [OF dev(1), of _ "s\<lparr>io := Wr rUSBCtrl 0 # h\<rparr>"] by auto
  obtain h3 where h3: "tn_usb_lpc_cmd dev CMD_EP_VALIDATE_BUFFER (s\<lparr>io := h2\<rparr>) = Some (s\<lparr>io := h3\<rparr>)"
    "writes h3 = cmd_writes CMD_EP_VALIDATE_BUFFER @ writes h2"
    using lpc_cmd_returns [OF dev(1), of _ "s\<lparr>io := h2\<rparr>"] by auto
  have "tx_packets h3 = tx_packets (writes h3)" by (simp only: tx_packets_writes)
  then have "tx_packets h3 = tx_packets h"
    by (simp add: h3(2) h2(2) cmd_writes_def tx_packets_writes)
  moreover have "realized h3 = realized (writes h3)" by (simp only: writes_realized)
  then have "realized h3 = realized (io s)"
    using h(4) by (simp add: h3(2) h2(2) cmd_writes_def writes_realized)
  moreover have "tn_usb_ep0_write dev ep a (int n) s = Some (int n, s\<lparr>io := h3\<rparr>)"
    unfolding tn_usb_ep0_write_def Let_def s1_def [symmetric] h(1)
    using h2(1) h3(1) by (simp add: reg_write_def)
  ultimately show ?thesis using h(2,3) by (intro exI [of _ h3]) simp
qed

lemma tx_packets_cmd_read:
  "writes h = [Wr rUSBDevIntClr a, Wr rUSBCmdCode b] @ cmd_writes cmd @ writes (io s) \<Longrightarrow> tx_packets h = tx_packets (io s)"
  using tx_packets_writes [of h] by (simp add: cmd_writes_def tx_packets_writes)

section \<open>The data stage of an IN transfer\<close>

lemma upd_eps_simps [simp]:
  "io (upd_eps f s) = io s" "krn (upd_eps f s) = krn s" "EP0Status (gUSBInfo (upd_eps f s)) = f (eps s)"
  "EP0SetupPacket (gUSBInfo (upd_eps f s)) = usp s" "Descriptors (gUSBInfo (upd_eps f s)) = Descriptors (gUSBInfo s)"
  "Configuration (gUSBInfo (upd_eps f s)) = Configuration (gUSBInfo s)"
  by (simp_all add: upd_eps_def upd_udi_def)

lemma datain_sends:
  assumes dev: "answers dev" "accepts dev" and n: "nbytes (eps s) = int n"
  shows "\<exists>s'. tn_usb_st_DATAIN dev s = Some s' \<and>
    sent s' = sent s @ [bytes_at (ram s) (pdata (eps s)) (min n 64)] \<and>
    eps s' = (eps s)\<lparr>nbytes := int (n - 64), pdata := pdata (eps s) + 4 * of_nat (min n 64)\<rparr> \<and>
    krn s' = krn s \<and> usp s' = usp s \<and> Descriptors (gUSBInfo s') = Descriptors (gUSBInfo s) \<and>
    Configuration (gUSBInfo s') = Configuration (gUSBInfo s) \<and> realized (io s') = realized (io s)"
proof -
  have b: "(if nbytes (eps s) > USB_MAX_PACKET0 then USB_MAX_PACKET0 else nbytes (eps s)) = int (min n 64)"
    using n by auto
  obtain h where h: "tn_usb_ep0_write dev 0x80 (pdata (eps s)) (int (min n 64)) s = Some (int (min n 64), s\<lparr>io := h\<rparr>)"
    "map (\<lambda>(n, bs). take n bs) (tx_packets h) =
      bytes_at (ram s) (pdata (eps s)) (min n 64) # map (\<lambda>(n, bs). take n bs) (tx_packets (io s))"
    "realized h = realized (io s)"
    using ep0_write_sends [OF dev, where n = "min n 64" and ep = "0x80" and a = "pdata (eps s)" and s = s] by auto
  let ?s' = "upd_eps (\<lambda>e. e\<lparr>nbytes := nbytes e - int (min n 64), pdata := pdata e + 4 * word_of_int (int (min n 64))\<rparr>) (s\<lparr>io := h\<rparr>)"
  have "tn_usb_st_DATAIN dev s = Some ?s'"
    unfolding tn_usb_st_DATAIN_def Let_def b by (simp add: h(1))
  moreover have "sent ?s' = sent s @ [bytes_at (ram s) (pdata (eps s)) (min n 64)]" using h(2) by (simp add: sent_def)
  moreover have "int n - int (min n 64) = int (n - 64)" by auto
  ultimately show ?thesis using n h(3) by (intro exI [of _ ?s']) (simp add: min_def)
qed

lemma sent_write [simp]: "r \<noteq> rUSBTxPLen \<Longrightarrow> r \<noteq> rUSBTxData \<Longrightarrow> sent (reg_write r v s) = sent s"
  by (simp add: sent_def reg_write_def)

lemma tx_int_sends:
  assumes dev: "answers dev" "accepts dev" and n: "nbytes (eps s) = int n"
  shows "\<exists>s'. tn_usb_EP0_tx_int_func dev s = Some s' \<and>
    sent s' = sent s @ [bytes_at (ram s) (pdata (eps s)) (min n 64)] \<and>
    eps s' = (eps s)\<lparr>nbytes := int (n - 64), pdata := pdata (eps s) + 4 * of_nat (min n 64)\<rparr> \<and> krn s' = krn s"
proof -
  obtain v h where h: "tn_usb_lpc_cmd_read dev (CMD_EP_SELECT_CLEAR OR 1) s = Some (v, s\<lparr>io := h\<rparr>)"
    "writes h = [Wr rUSBDevIntClr 0x20, Wr rUSBCmdCode (0x200 OR push_bit 16 (CMD_EP_SELECT_CLEAR OR 1))] @
       cmd_writes (CMD_EP_SELECT_CLEAR OR 1) @ writes (io s)"
    using lpc_cmd_read_returns [OF dev(1)] by blast
  have "tx_packets h = tx_packets (writes h)" by (simp only: tx_packets_writes)
  then have h': "sent (s\<lparr>io := h\<rparr>) = sent s" by (simp add: sent_def h(2) cmd_writes_def tx_packets_writes)
  obtain s' where s': "tn_usb_st_DATAIN dev (s\<lparr>io := h\<rparr>) = Some s'"
    "sent s' = sent (s\<lparr>io := h\<rparr>) @ [bytes_at (ram s) (pdata (eps s)) (min n 64)]"
    "eps s' = (eps s)\<lparr>nbytes := int (n - 64), pdata := pdata (eps s) + 4 * of_nat (min n 64)\<rparr>" "krn s' = krn s"
    using datain_sends [OF dev, of "s\<lparr>io := h\<rparr>"] n by auto
  have "tn_usb_EP0_tx_int_func dev s = Some (reg_write rUSBEpIntClr 2 s')"
    using h(1) s'(1) by (simp add: tn_usb_EP0_tx_int_func_def)
  with s' h' show ?thesis by (simp add: reg_write_def sent_def)
qed

text \<open>\<open>k\<close> packets are taken by the host: as many interrupts of the IN end point.\<close>

fun tx_ints :: "device \<Rightarrow> nat \<Rightarrow> machine \<Rightarrow> machine option" where
  "tx_ints dev 0 s = Some s"
| "tx_ints dev (Suc k) s = do { s \<leftarrow> tn_usb_EP0_tx_int_func dev s; tx_ints dev k s }"

lemma tx_ints_send:
  assumes dev: "answers dev" "accepts dev" and n: "nbytes (eps s) = int n"
  shows "\<exists>s'. tx_ints dev k s = Some s' \<and> krn s' = krn s \<and> nbytes (eps s') = int (n - 64 * k) \<and>
    sent s' = sent s @ map (\<lambda>i. bytes_at (ram s) (pdata (eps s) + 256 * of_nat i) (min 64 (n - 64 * i))) [0..<k]"
  using n
proof (induction k arbitrary: s n)
  case 0
  then show ?case by simp
next
  case (Suc k)
  obtain s1 where s1: "tn_usb_EP0_tx_int_func dev s = Some s1"
    "sent s1 = sent s @ [bytes_at (ram s) (pdata (eps s)) (min n 64)]"
    "eps s1 = (eps s)\<lparr>nbytes := int (n - 64), pdata := pdata (eps s) + 4 * of_nat (min n 64)\<rparr>" "krn s1 = krn s"
    using tx_int_sends [OF dev Suc.prems] by blast
  obtain s' where s': "tx_ints dev k s1 = Some s'" "krn s' = krn s1" "nbytes (eps s') = int (n - 64 - 64 * k)"
    "sent s' = sent s1 @ map (\<lambda>i. bytes_at (ram s1) (pdata (eps s1) + 256 * of_nat i) (min 64 (n - 64 - 64 * i))) [0..<k]"
    using Suc.IH [of s1 "n - 64"] s1(3) by auto
  have "map (\<lambda>i. bytes_at (ram s1) (pdata (eps s1) + 256 * of_nat i) (min 64 (n - 64 - 64 * i))) [0..<k] =
      map (\<lambda>i. bytes_at (ram s) (pdata (eps s) + 256 * of_nat (Suc i)) (min 64 (n - 64 * Suc i))) [0..<k]"
  proof (rule map_cong [OF refl])
    fix i
    show "bytes_at (ram s1) (pdata (eps s1) + 256 * of_nat i) (min 64 (n - 64 - 64 * i)) =
        bytes_at (ram s) (pdata (eps s) + 256 * of_nat (Suc i)) (min 64 (n - 64 * Suc i))"
    proof (cases "64 \<le> n")
      case True
      then have "pdata (eps s1) + 256 * of_nat i = pdata (eps s) + 256 * of_nat (Suc i)"
        by (simp add: s1(3) algebra_simps)
      moreover have "n - 64 - 64 * i = n - 64 * Suc i" by simp
      ultimately show ?thesis using s1(4) by (simp only:)
    next
      case False
      then show ?thesis by (simp add: bytes_at_def)
    qed
  qed
  moreover have "map f [0..<Suc k] = f 0 # map (\<lambda>i. f (Suc i)) [0..<k]" for f :: "nat \<Rightarrow> u8 list"
    by (simp add: upt_rec [of 0 "Suc k"] map_Suc_upt [symmetric] comp_def del: upt_Suc)
  ultimately show ?case using s1 s' by (simp add: min.commute del: upt_Suc)
qed

text \<open>C36. The data stage of an IN transfer of \<open>n\<close> bytes sends packets of at most 64 bytes, and nothing is left after
  \<open>n / 64\<close>, rounded up, interrupts of the end point. Because \<open>pdata\<close> points to words, packet \<open>i\<close> is read
  256 bytes, not 64, behind the one before it: a transfer of more than 64 bytes sends wrong data.\<close>

theorem in_transfer_packets:
  assumes "answers dev" and "accepts dev" and "nbytes (eps s) = int n"
  shows "\<exists>s'. tx_ints dev k s = Some s' \<and> nbytes (eps s') = int (n - 64 * k) \<and> krn s' = krn s \<and>
    sent s' = sent s @ map (\<lambda>i. bytes_at (ram s) (pdata (eps s) + 256 * of_nat i) (min 64 (n - 64 * i))) [0..<k]"
  using tx_ints_send [OF assms, of k] by blast

section \<open>Packets from the host\<close>

fun feeds :: "device \<Rightarrow> u32 list \<Rightarrow> io_event list \<Rightarrow> bool" where
  "feeds dev [] h \<longleftrightarrow> dev h rUSBCtrl AND RD_EN = 0"
| "feeds dev (w # ws) h \<longleftrightarrow> dev h rUSBCtrl AND RD_EN \<noteq> 0 \<and>
     dev (Rd rUSBCtrl (dev h rUSBCtrl) # h) rUSBRxData = w \<and>
     feeds dev ws (Rd rUSBRxData w # Rd rUSBCtrl (dev h rUSBCtrl) # h)"

definition delivers :: "device \<Rightarrow> nat \<Rightarrow> u32 list \<Rightarrow> bool" where
  "delivers dev len ws \<longleftrightarrow> (\<forall>h v. v AND RD_EN \<noteq> 0 \<longrightarrow>
     (\<exists>n. dev (polled dev rUSBRxPLen n (Wr rUSBCtrl v # h)) rUSBRxPLen AND PKT_RDY \<noteq> 0) \<and>
     (\<forall>n. dev (polled dev rUSBRxPLen n (Wr rUSBCtrl v # h)) rUSBRxPLen AND PKT_LNGTH_MASK = of_nat len \<and>
          feeds dev ws (polled dev rUSBRxPLen (Suc n) (Wr rUSBCtrl v # h))))"

text \<open>The words of a packet go where the pointer says.\<close>

fun rx_puts :: "rx_ptr \<Rightarrow> u32 list \<Rightarrow> machine \<Rightarrow> machine option" where
  "rx_puts p [] s = Some s"
| "rx_puts p (w # ws) s = do { (p, s) \<leftarrow> rx_put p w s; rx_puts p ws s }"

lemma rx_put_io: "rx_put p w (s\<lparr>io := h\<rparr>) = map_option (\<lambda>(p, s). (p, s\<lparr>io := h\<rparr>)) (rx_put p w s)"
proof -
  have u: "upd_ram f (s\<lparr>io := h\<rparr>) = (upd_ram f s)\<lparr>io := h\<rparr>" for f by (simp add: upd_ram_def)
  show ?thesis by (cases p) (simp_all add: u del: setup_store.simps split: bind_split)
qed

lemma rx_loop_reads:
  assumes "feeds dev ws (io s)" and "rx_puts p ws s = Some s1"
  shows "\<exists>h. rx_loop dev p s = Some (s1\<lparr>io := h\<rparr>) \<and> writes h = writes (io s)"
  using assms
proof (induction ws arbitrary: p s s1)
  case Nil
  then show ?case by (simp add: rx_loop.simps [of dev p s1] reg_read_eq)
next
  case (Cons w ws)
  let ?c = "dev (io s) rUSBCtrl"
  let ?h = "Rd rUSBRxData w # Rd rUSBCtrl ?c # io s"
  obtain p' s' where put: "rx_put p w s = Some (p', s')" and rest: "rx_puts p' ws s' = Some s1"
    using Cons.prems(2) by (auto split: bind_splits)
  have "rx_loop dev p s = rx_loop dev p' (s'\<lparr>io := ?h\<rparr>)"
    using Cons.prems(1) put by (simp add: rx_loop.simps [of dev p s] reg_read_eq rx_put_io)
  moreover have puts_io: "rx_puts p' ws (s'\<lparr>io := h\<rparr>) = map_option (\<lambda>s. s\<lparr>io := h\<rparr>) (rx_puts p' ws s')" for p' ws s' h
    by (induction ws arbitrary: p' s') (auto simp: rx_put_io split: bind_split)
  moreover obtain h where "rx_loop dev p' (s'\<lparr>io := ?h\<rparr>) = Some ((s1\<lparr>io := ?h\<rparr>)\<lparr>io := h\<rparr>)" "writes h = writes ?h"
    using Cons.IH [of "s'\<lparr>io := ?h\<rparr>" p' "s1\<lparr>io := ?h\<rparr>"] Cons.prems(1) rest puts_io by auto
  ultimately show ?case by (intro exI [of _ h]) simp
qed

lemma ep_read_returns:
  assumes dev: "answers dev" "delivers dev len ws" and p: "rx_puts p ws s = Some s1" and len: "len < 1024"
  shows "\<exists>h. tn_usb_ep_read dev ep p s = Some (int len, s1\<lparr>io := h\<rparr>) \<and>
    tx_packets h = tx_packets (io s) \<and> realized h = realized (io s)"
proof -
  let ?e = "ep AND 0x8F"
  let ?v = "RD_EN OR push_bit 2 ?e"
  let ?s = "reg_write rUSBCtrl ?v s"
  have v: "?v AND RD_EN \<noteq> 0" by (simp add: bit.conj_disj_distrib2)
  have io: "io ?s = Wr rUSBCtrl ?v # io s" by (simp add: reg_write_def)
  note del = dev(2) [unfolded delivers_def, rule_format, OF v, of "io s", folded io]
  obtain n where "dev (polled dev rUSBRxPLen n (io ?s)) rUSBRxPLen AND PKT_RDY \<noteq> 0" using del by blast
  from poll_returns [where s = ?s and dev = dev and r = rUSBRxPLen, OF this] obtain k l where poll: "poll dev rUSBRxPLen PKT_RDY ?s =
      Some (l, ?s\<lparr>io := polled dev rUSBRxPLen (Suc k) (io ?s)\<rparr>)" "l = dev (polled dev rUSBRxPLen k (io ?s)) rUSBRxPLen" by blast
  have l: "uint (l AND PKT_LNGTH_MASK) = int len" and feeds: "feeds dev ws (polled dev rUSBRxPLen (Suc k) (io ?s))"
  proof -
    have "l AND PKT_LNGTH_MASK = of_nat len" using del poll(2) by blast
    then show "uint (l AND PKT_LNGTH_MASK) = int len" using len by (simp add: unsigned_of_nat take_bit_nat_eq_self)
    show "feeds dev ws (polled dev rUSBRxPLen (Suc k) (io ?s))" using del by blast
  qed
  have puts_io: "rx_puts q us (t\<lparr>io := h\<rparr>) = map_option (\<lambda>s. s\<lparr>io := h\<rparr>) (rx_puts q us t)" for q us t h
    by (induction us arbitrary: q t) (auto simp: rx_put_io split: bind_split)
  let ?t = "?s\<lparr>io := polled dev rUSBRxPLen (Suc k) (io ?s)\<rparr>"
  have "rx_puts p ws ?t = Some (s1\<lparr>io := polled dev rUSBRxPLen (Suc k) (io ?s)\<rparr>)"
    using p by (simp add: reg_write_def puts_io del: polled.simps)
  then obtain h where h: "rx_loop dev p ?t = Some (s1\<lparr>io := h\<rparr>)" "writes h = writes (io ?t)"
    using rx_loop_reads [of dev ws ?t p] feeds by auto
  obtain h2 where h2: "tn_usb_lpc_cmd dev (CMD_EP_SELECT OR ep_num_lg2ph ?e) (s1\<lparr>io := Wr rUSBCtrl 0 # h\<rparr>) = Some (s1\<lparr>io := h2\<rparr>)"
    "writes h2 = cmd_writes (CMD_EP_SELECT OR ep_num_lg2ph ?e) @ writes (Wr rUSBCtrl 0 # h)"
    using lpc_cmd_returns [OF dev(1), of _ "s1\<lparr>io := Wr rUSBCtrl 0 # h\<rparr>"] by auto
  obtain h3 where h3: "tn_usb_lpc_cmd dev CMD_EP_CLEAR_BUFFER (s1\<lparr>io := h2\<rparr>) = Some (s1\<lparr>io := h3\<rparr>)"
    "writes h3 = cmd_writes CMD_EP_CLEAR_BUFFER @ writes h2"
    using lpc_cmd_returns [OF dev(1), of _ "s1\<lparr>io := h2\<rparr>"] by auto
  have "tn_usb_ep_read dev ep p s = Some (int len, s1\<lparr>io := h3\<rparr>)"
    unfolding tn_usb_ep_read_def Let_def poll(1)
    using h(1) h2(1) h3(1) l by (simp add: reg_write_def)
  moreover have "tx_packets h3 = tx_packets (writes h3)" by (simp only: tx_packets_writes)
  then have "tx_packets h3 = tx_packets (io s)"
    by (simp add: h3(2) h2(2) h(2) cmd_writes_def tx_packets_writes reg_write_def)
  moreover have "realized h3 = realized (writes h3)" by (simp only: writes_realized)
  then have "realized h3 = realized (io s)"
    by (simp add: h3(2) h2(2) h(2) cmd_writes_def writes_realized reg_write_def)
  ultimately show ?thesis by blast
qed

text \<open>The set-up packet of two words.\<close>

definition setup_of :: "u32 \<Rightarrow> u32 \<Rightarrow> usb_setup_packet" where
  "setup_of w0 w1 = \<lparr>bmRequestType = ucast w0, bRequest = ucast (drop_bit 8 w0), wValue = ucast (drop_bit 16 w0),
     wIndex = ucast w1, wLength = ucast (drop_bit 16 w1)\<rparr>"

lemma rx_puts_setup:
  "rx_puts (RxSetup 0) [w0, w1] s = Some (upd_udi (\<lambda>u. u\<lparr>EP0SetupPacket := setup_of w0 w1\<rparr>) s)"
  by (cases "EP0SetupPacket (gUSBInfo s)") (simp add: Let_def upd_udi_def setup_of_def)

section \<open>A controller for the examples\<close>

text \<open>\<open>sim st len ws\<close> answers at once, has status \<open>st\<close>, and holds one received packet of \<open>len\<close> bytes, the words \<open>ws\<close>,
  which every read finds again.\<close>

fun tx_left :: "io_event list \<Rightarrow> nat" where
  "tx_left [] = 0"
| "tx_left (Wr r v # h) = (if r = rUSBTxPLen then (unat v + 3) div 4
                           else if r = rUSBTxData then tx_left h - 1 else tx_left h)"
| "tx_left (Rd r v # h) = tx_left h"

fun rx_done :: "io_event list \<Rightarrow> nat" where
  "rx_done [] = 0"
| "rx_done (Wr r v # h) = (if r = rUSBCtrl then 0 else rx_done h)"
| "rx_done (Rd r v # h) = (if r = rUSBRxData then Suc (rx_done h) else rx_done h)"

definition sim :: "u32 \<Rightarrow> nat \<Rightarrow> u32 list \<Rightarrow> device" where
  "sim st len ws h r =
     (if r = rUSBDevIntSt then 0x130
      else if r = rUSBCmdData then st
      else if r = rUSBRxPLen then 0x800 OR of_nat len
      else if r = rUSBCtrl then (if tx_left h > 0 then 2 else 0) OR (if rx_done h < length ws then 1 else 0)
      else if r = rUSBRxData then ws ! rx_done h
      else 0)"

lemma sim_answers: "answers (sim st len ws)"
  unfolding answers_def
proof (intro allI ballI)
  fix h and m :: u32
  assume "m \<in> {CCEMTY, CDFULL, EP_RLZED}"
  then have "sim st len ws (polled (sim st len ws) rUSBDevIntSt 0 h) rUSBDevIntSt AND m \<noteq> 0" by (auto simp: sim_def)
  then show "\<exists>n. sim st len ws (polled (sim st len ws) rUSBDevIntSt n h) rUSBDevIntSt AND m \<noteq> 0" by blast
qed

lemma sim_takes: "tx_left h = length vs \<Longrightarrow> takes (sim st len ws) vs h"
proof (induction vs arbitrary: h)
  case (Cons v vs)
  then show ?case by (simp add: sim_def bit.conj_disj_distrib2)
qed (simp add: sim_def)

lemma sim_accepts: "accepts (sim st len ws)"
  unfolding accepts_def by (intro allI impI sim_takes) (simp add: unat_of_nat)

lemma sim_polled: "r \<noteq> rUSBRxData \<Longrightarrow> rx_done (polled dev r n h) = rx_done h"
  by (induction n arbitrary: h) simp_all

lemma sim_feeds: "rx_done h \<le> length ws \<Longrightarrow> feeds (sim st len ws) (drop (rx_done h) ws) h"
proof (induction "length ws - rx_done h" arbitrary: h)
  case 0
  then show ?case by (simp add: sim_def bit.conj_disj_distrib2)
next
  case (Suc n)
  then have l: "rx_done h < length ws" by simp
  let ?h = "Rd rUSBRxData (ws ! rx_done h) # Rd rUSBCtrl (sim st len ws h rUSBCtrl) # h"
  have "feeds (sim st len ws) (drop (rx_done ?h) ws) ?h" using Suc by (intro Suc.hyps) simp_all
  then show ?case using l by (simp add: Cons_nth_drop_Suc [OF l, symmetric]) (simp add: sim_def bit.conj_disj_distrib2)
qed

lemma sim_delivers: "len < 1024 \<Longrightarrow> delivers (sim st len ws) len ws"
proof -
  assume "len < 1024"
  have "sim st len ws h rUSBRxPLen AND PKT_RDY \<noteq> 0" for h
  proof
    assume "sim st len ws h rUSBRxPLen AND PKT_RDY = 0"
    then have "\<not> bit (sim st len ws h rUSBRxPLen AND PKT_RDY) 11" by simp
    then show False by (simp add: sim_def bit_and_iff bit_or_iff bit_numeral_rec)
  qed
  moreover have "sim st len ws h rUSBRxPLen AND PKT_LNGTH_MASK = of_nat len" for h
  proof -
    have m: "PKT_LNGTH_MASK = (mask 10 :: u32)" by (simp add: mask_eq_exp_minus_1)
    have "take_bit 10 (of_nat len :: u32) = of_nat len" using \<open>len < 1024\<close> by (simp add: take_bit_of_nat take_bit_nat_eq_self)
    then show ?thesis by (simp add: sim_def bit.conj_disj_distrib2 m take_bit_eq_mask [symmetric])
  qed
  moreover have "feeds (sim st len ws) ws (polled (sim st len ws) rUSBRxPLen (Suc n) (Wr rUSBCtrl v # h))" for n h v
    using sim_feeds [of "polled (sim st len ws) rUSBRxPLen (Suc n) (Wr rUSBCtrl v # h)" ws] by (simp add: sim_polled del: polled.simps)
  ultimately show "delivers (sim st len ws) len ws" unfolding delivers_def by blast
qed

text \<open>The device of the examples: the kernel \<open>demo\<close>, its EP0 buffer at 0x5000, descriptors at 0x6000.\<close>

definition demo_udi :: usb_device_info where
  "demo_udi = \<lparr>EP0Status = \<lparr>nbytes = 0, pdata = 0x5000, pbuf = 0x5000\<rparr>,
     EP0SetupPacket = \<lparr>bmRequestType = 0, bRequest = 0, wValue = 0, wIndex = 0, wLength = 0\<rparr>,
     Descriptors = 0x6000, Configuration = 0\<rparr>"

definition demo_machine :: machine where
  "demo_machine = \<lparr>krn = demo, io = [], gUSBInfo = demo_udi\<rparr>"

theorem in_transfer_packets_witness:
  "\<exists>s'. tx_ints (sim 0 0 []) 2 (upd_eps (\<lambda>e. e\<lparr>nbytes := 100\<rparr>) demo_machine) = Some s' \<and>
     nbytes (eps s') = 0 \<and> map length (sent s') = [64, 36] \<and>
     sent s' = [bytes_at (mem demo) 0x5000 64, bytes_at (mem demo) 0x5100 36]"
proof -
  have "nbytes (eps (upd_eps (\<lambda>e. e\<lparr>nbytes := 100\<rparr>) demo_machine)) = int 100" by simp
  from in_transfer_packets [OF sim_answers [of 0 0 "[]"] sim_accepts this, of 2] show ?thesis
    by (auto simp: demo_machine_def demo_udi_def sent_def upt_rec bytes_at_def)
qed

end
