(* ===== verification/USB_Ep.thy ===== *)
theory USB_Ep
  imports USB_Req TN_System
begin

text \<open>
  The bulk end points of the device without DMA (\<^verbatim>\<open>tn_usb_ep.c\<close>), where the USB stack uses the
  kernel: an OUT packet goes into a block of a memory pool whose address is sent to a data
  queue, an IN packet comes from a queue and gives its block back; and the interrupt handlers of
  \<^verbatim>\<open>tn_user.c\<close>.
\<close>

section \<open>Kernel calls in an interrupt\<close>

text \<open>A call of an interrupt handler always returns; its return code and output.\<close>

definition icall :: "(kernel \<Rightarrow> (outcome \<times> kernel) option) \<Rightarrow> machine \<Rightarrow> (int \<times> u32 option \<times> machine) option" where
  "icall f s =
     do {
       (r, k) \<leftarrow> f (krn s);
       (case r of Done rc out \<Rightarrow> Some (rc, out, s\<lparr>krn := k\<rparr>) | _ \<Rightarrow> None)
     }"

section \<open>Packets of a bulk end point\<close>

definition tn_usb_ep_rx_enable :: "device \<Rightarrow> nat \<Rightarrow> machine \<Rightarrow> machine option" where
  "tn_usb_ep_rx_enable dev ep_num_phys s =
     do {
       s \<leftarrow> tn_usb_lpc_cmd dev (CMD_EP_SELECT OR of_nat ep_num_phys) s;
       tn_usb_lpc_cmd dev CMD_EP_CLEAR_BUFFER s
     }"

definition tn_usb_ep_rx_int :: "device \<Rightarrow> ep_info \<Rightarrow> machine \<Rightarrow> machine option" where
  "tn_usb_ep_rx_int dev ei s =
     do {
       let ep = ei_ep_num_phys ei;
       (ep_status, s) \<leftarrow> tn_usb_lpc_cmd_read dev (CMD_EP_SELECT_CLEAR OR of_nat ep) s;
       s \<leftarrow> (if ep_status AND 0x60 \<noteq> 0 then
               do {
                 (rc, out, s) \<leftarrow> icall (tn_fmem_get_ipolling (Some (ei_mem_pool ei)) True) s;
                 (if rc = TERR_NO_ERR then
                    do {
                      ptr \<leftarrow> out;
                      let s = reg_write rUSBCtrl (RD_EN OR push_bit 2 (of_nat (ep div 2))) s;
                      (len, s) \<leftarrow> poll dev rUSBRxPLen PKT_RDY s;
                      s \<leftarrow> rx_loop dev (RxMem ptr) s;
                      let s = reg_write rUSBCtrl 0 s;
                      s \<leftarrow> tn_usb_ep_rx_enable dev ep s;
                      (rc, out, s) \<leftarrow> icall (tn_queue_isend_polling (Some (ei_queue ei)) ptr) s;
                      Some s
                    }
                  else Some s)
               }
             else Some s);
       Some (reg_write rUSBEpIntClr (push_bit ep 1) s)
     }"

text \<open>\<open>while(rUSBCtrl & WR_EN) rUSBTxData = *ptr1++;\<close> with a word-aligned \<open>ptr1\<close>\<close>

partial_function (option) tx_words :: "device \<Rightarrow> u32 \<Rightarrow> machine \<Rightarrow> machine option" where
  "tx_words dev ptr1 s =
     (case reg_read dev rUSBCtrl s of
        (c, s) \<Rightarrow>
          if c AND WR_EN \<noteq> 0
          then tx_words dev (ptr1 + 4) (reg_write rUSBTxData (ram s (ptr1 AND NOT 3)) s)
          else Some s)"

definition tn_usb_ep_tx_int :: "device \<Rightarrow> ep_info \<Rightarrow> machine \<Rightarrow> machine option" where
  "tn_usb_ep_tx_int dev ei s =
     do {
       let ep = ei_ep_num_phys ei;
       (rc, out, s) \<leftarrow> icall (tn_queue_ireceive (Some (ei_queue ei)) True) s;
       s \<leftarrow> (if rc = TERR_NO_ERR then
               do {
                 ptr \<leftarrow> out;
                 let s = reg_write rUSBCtrl (WR_EN OR push_bit 2 (of_nat (ep div 2))) s;
                 let s = reg_write rUSBTxPLen 64 s;
                 s \<leftarrow> tx_words dev ptr s;
                 let s = reg_write rUSBCtrl 0 s;
                 s \<leftarrow> tn_usb_lpc_cmd dev (CMD_EP_SELECT OR of_nat ep) s;
                 s \<leftarrow> tn_usb_lpc_cmd dev CMD_EP_VALIDATE_BUFFER s;
                 (rc, out, s) \<leftarrow> icall (tn_fmem_irelease (Some (ei_mem_pool ei)) ptr) s;
                 Some s
               }
             else Some s);
       Some (reg_write rUSBEpIntClr (push_bit ep 1) s)
     }"

section \<open>The USB interrupt\<close>

text \<open>The end points the program uses, \<open>gEP2RX_EI\<close> and so on, as \<open>main\<close> sets them; the numbers of the
  queues and pools are those of \<open>USB_App\<close>.\<close>

definition gEP2RX_EI :: ep_info where
  "gEP2RX_EI = \<lparr>ei_queue = 0, ei_mem_pool = 0, ei_ep_num_phys = 4\<rparr>"

definition gEP2TX_EI :: ep_info where
  "gEP2TX_EI = \<lparr>ei_queue = 1, ei_mem_pool = 1, ei_ep_num_phys = 5\<rparr>"

definition gEP5RX_EI :: ep_info where
  "gEP5RX_EI = \<lparr>ei_queue = 2, ei_mem_pool = 2, ei_ep_num_phys = 10\<rparr>"

definition gEP5TX_EI :: ep_info where
  "gEP5TX_EI = \<lparr>ei_queue = 3, ei_mem_pool = 3, ei_ep_num_phys = 11\<rparr>"

definition dev_stat_int :: "device \<Rightarrow> machine \<Rightarrow> machine option" where
  "dev_stat_int dev s =
     do {
       (dev_status, s) \<leftarrow> tn_usb_lpc_cmd_read dev CMD_DEV_STATUS s;
       s \<leftarrow> (if dev_status AND RST \<noteq> 0 then tn_usb_int_reset dev s else Some s);
       let s = (if dev_status AND SUS_CH \<noteq> 0
                then if dev_status AND SUS \<noteq> 0 then tn_usb_int_suspend s else tn_usb_int_resume s
                else s);
       s \<leftarrow> (if dev_status AND CON_CH \<noteq> 0 then tn_usb_int_con_ch dev dev_status s else Some s);
       Some (reg_write rUSBDevIntClr DEV_STAT s)
     }"

definition when_bit :: "u32 \<Rightarrow> nat \<Rightarrow> (machine \<Rightarrow> machine option) \<Rightarrow> machine \<Rightarrow> machine option" where
  "when_bit x n f s = (if x AND push_bit n 1 \<noteq> 0 then f s else Some s)"

definition tn_usb_int_func :: "device \<Rightarrow> machine \<Rightarrow> machine option" where
  "tn_usb_int_func dev s =
     do {
       let (v, s) = reg_read dev rUSBDevIntSt s;
       s \<leftarrow> (if v AND DEV_STAT \<noteq> 0 then dev_stat_int dev s else Some s);
       let (v, s) = reg_read dev rUSBDevIntSt s;
       s \<leftarrow> (if v AND EP_SLOW \<noteq> 0 then
               do {
                 let (st, s) = reg_read dev rUSBEpIntSt s;
                 s \<leftarrow> (if st AND 1 \<noteq> 0 then tn_usb_EP0_rx_int_func (no_dma dev) s
                        else when_bit st 1 (tn_usb_EP0_tx_int_func dev) s);
                 s \<leftarrow> when_bit st 4 (tn_usb_ep_rx_int dev gEP2RX_EI) s;
                 s \<leftarrow> when_bit st 5 (tn_usb_ep_tx_int dev gEP2TX_EI) s;
                 s \<leftarrow> when_bit st 10 (tn_usb_ep_rx_int dev gEP5RX_EI) s;
                 s \<leftarrow> when_bit st 11 (tn_usb_ep_tx_int dev gEP5TX_EI) s;
                 Some (reg_write rUSBDevIntClr EP_SLOW s)
               }
             else Some s);
       Some (reg_write VICVectAddr 0 s)
     }"

definition tn_timer0_int_func :: "machine \<Rightarrow> machine option" where
  "tn_timer0_int_func s =
     do {
       let s = reg_write rT0IR 0xFF s;
       k \<leftarrow> tn_tick_int_processing (krn s);
       Some (reg_write VICVectAddr 0xFF (s\<lparr>krn := k\<rparr>))
     }"

definition tn_uart0_int_func :: "device \<Rightarrow> machine \<Rightarrow> machine" where
  "tn_uart0_int_func dev s = reg_write VICVectAddr 0xFF (snd (reg_read dev rU0IIR s))"

definition tn_int_default_func :: "machine \<Rightarrow> machine" where
  "tn_int_default_func s = reg_write VICVectAddr 0xFF s"

text \<open>The vector register holds the address of a handler, \<open>None\<close> if the vector is null.\<close>

definition tn_cpu_irq_handler :: "device \<Rightarrow> (u32 \<Rightarrow> machine \<Rightarrow> machine option) \<Rightarrow> machine \<Rightarrow> machine option" where
  "tn_cpu_irq_handler dev handler s =
     (let (ifunc, s) = reg_read dev VICVectAddr s in if ifunc \<noteq> 0 then handler ifunc s else Some s)"

end
