(* ===== verification/USB_Utils.thy ===== *)
theory USB_Utils
  imports USB_Req "HOL-Library.Signed_Division"
begin

text \<open>
  \<^verbatim>\<open>utils.c\<close>: the copy, fill and number formatting routines of the devices, with their loops over the
  memory, and the set-up of the hardware, as the sequence of its register accesses. Empty delay loops
  are left out. The addresses of the interrupt functions are arguments.
\<close>

section \<open>Numbers\<close>

text \<open>\<open>do { ptr--; *ptr = (i % 10) + '0'; i /= 10; } while( i > 0);\<close>, with the division of C\<close>

function itoa_loop :: "u32 \<Rightarrow> int \<Rightarrow> (u32 \<Rightarrow> u32) \<Rightarrow> u32 \<times> (u32 \<Rightarrow> u32)" where
  "itoa_loop ptr i m =
     (let ptr = ptr - 1; m = st8 ptr (word_of_int (i smod 10 + 48)) m; i' = i sdiv 10
      in if i' > 0 then itoa_loop ptr i' m else (ptr, m))"
  by auto

termination itoa_loop
  by (relation "measure (\<lambda>(ptr, i, m). nat i)") (auto simp: signed_divide_int_def sgn_if split: if_splits)

declare itoa_loop.simps [simp del]

definition s_itoa :: "u32 \<Rightarrow> int \<Rightarrow> (u32 \<Rightarrow> u32) \<Rightarrow> u32 \<times> (u32 \<Rightarrow> u32)" where
  "s_itoa buffer i m = itoa_loop (buffer + 12) i (st8 (buffer + 12) 0 m)"

section \<open>Fill and copy\<close>

text \<open>\<open>while(length--) *++ptr = ch;\<close>; with a negative length the loop does not end in the memory.\<close>

partial_function (option) memset_loop :: "u32 \<Rightarrow> u8 \<Rightarrow> int \<Rightarrow> (u32 \<Rightarrow> u32) \<Rightarrow> (u32 \<Rightarrow> u32) option" where
  "memset_loop ptr ch len m =
     (if len = 0 then Some m else memset_loop (ptr + 1) ch (len - 1) (st8 (ptr + 1) ch m))"

definition s_memset :: "u32 \<Rightarrow> u8 \<Rightarrow> int \<Rightarrow> (u32 \<Rightarrow> u32) \<Rightarrow> (u32 \<Rightarrow> u32) option" where
  "s_memset dst ch len m = memset_loop (dst - 1) ch len m"

text \<open>The three loops of \<open>s_memcpy\<close> move an element of 1, 2 or 4 bytes.\<close>

definition move8 :: "u32 \<Rightarrow> u32 \<Rightarrow> (u32 \<Rightarrow> u32) \<Rightarrow> u32 \<Rightarrow> u32" where
  "move8 dst src m = st8 dst (ld8 m src) m"

definition move16 :: "u32 \<Rightarrow> u32 \<Rightarrow> (u32 \<Rightarrow> u32) \<Rightarrow> u32 \<Rightarrow> u32" where
  "move16 dst src m = st8 (dst + 1) (ld8 m (src + 1)) (st8 dst (ld8 m src) m)"

definition move32 :: "u32 \<Rightarrow> u32 \<Rightarrow> (u32 \<Rightarrow> u32) \<Rightarrow> u32 \<Rightarrow> u32" where
  "move32 dst src m = st32 dst (m (src AND NOT 3)) m"

text \<open>\<open>do { *dst++ = *src++; } while(n -= k);\<close>\<close>

partial_function (option) memcpy_loop ::
    "(u32 \<Rightarrow> u32 \<Rightarrow> (u32 \<Rightarrow> u32) \<Rightarrow> u32 \<Rightarrow> u32) \<Rightarrow> int \<Rightarrow> u32 \<Rightarrow> u32 \<Rightarrow> int \<Rightarrow> (u32 \<Rightarrow> u32) \<Rightarrow> (u32 \<Rightarrow> u32) option" where
  "memcpy_loop move k dst src n m =
     (let m = move dst src m
      in if n - k = 0 then Some m
         else memcpy_loop move k (dst + word_of_int k) (src + word_of_int k) (n - k) m)"

definition s_memcpy :: "u32 \<Rightarrow> u32 \<Rightarrow> int \<Rightarrow> (u32 \<Rightarrow> u32) \<Rightarrow> (u32 \<Rightarrow> u32) option" where
  "s_memcpy s1 s2 n m =
     (let mask = s1 OR s2 OR word_of_int n
      in if n = 0 then Some m
         else if mask AND 1 \<noteq> 0 then memcpy_loop move8 1 s1 s2 n m
         else if mask AND 2 \<noteq> 0 then memcpy_loop move16 2 s1 s2 n m
         else memcpy_loop move32 4 s1 s2 n m)"

section \<open>Hardware set-up\<close>

record int_vectors =
  addr_default :: u32
  addr_timer0 :: u32
  addr_usb :: u32

definition InitUART0 :: "device \<Rightarrow> machine \<Rightarrow> machine" where
  "InitUART0 dev s =
     (let s = reg_or dev rPINSEL0 5 s;
          s = reg_write rU0LCR 0x80 s;
          s = reg_write rU0DLM 0 s;
          s = reg_write rU0DLL 32 s;
          s = reg_write rU0LCR 0 s;
          s = reg_write rU0IER 3 s;
          s = reg_write rU0FCR 0xC1 s
      in reg_write rU0LCR 0x13 s)"

definition InitUSB :: "device \<Rightarrow> machine \<Rightarrow> machine option" where
  "InitUSB dev s =
     do {
       let s = reg_or dev rPINSEL1 (push_bit 14 1) s;
       let s = reg_or dev rPINSEL1 (push_bit 30 2) s;
       let s = reg_write rPLL1CFG 0x23 s;
       let s = reg_write rPLL1CON 3 s;
       let s = reg_write rPLL1FEED 0xAA s;
       let s = reg_write rPLL1FEED 0x55 s;
       (_, s) \<leftarrow> poll dev rPLL1STAT 0x400 s;
       let s = reg_or dev rPCONP (push_bit 31 1) s;
       s \<leftarrow> tn_usb_lpc_cmd_write dev CMD_DEV_STATUS 0 s;
       let s = reg_write rUSBEpIntClr 0xFFFFFFFF s;
       s \<leftarrow> tn_usb_config_EP0 dev s;
       let s = reg_write rUSBDevIntClr 0xFFFFFFFF s;
       let s = reg_or dev rUSBDevIntEn 0xC s;
       tn_usb_set_addr dev 0 s
     }"

definition init_pins :: "device \<Rightarrow> machine \<Rightarrow> machine" where
  "init_pins dev s =
     (let s = reg_or dev rIO0DIR 0x007FFFFC s;
          s = reg_or dev rIO0SET 0x007FFFFC s;
          s = reg_or dev rIO0DIR 0x7E000000 s;
          s = reg_or dev rIO0SET 0x7E000000 s;
          s = reg_or dev rIO0DIR 0x000F0000 s;
          s = reg_or dev rIO0SET 0x000F0000 s;
          s = reg_or dev rIO0DIR 0x03E00000 s
      in reg_or dev rIO0SET 0x03E00000 s)"

text \<open>The two devices differ in \<open>InitUSB\<close>.\<close>

definition hardware_init :: "(machine \<Rightarrow> machine option) \<Rightarrow> device \<Rightarrow> int_vectors \<Rightarrow> machine \<Rightarrow> machine option" where
  "hardware_init init_usb dev v s =
     do {
       let s = reg_write rVPBDIV 1 s;
       let s = reg_write rPLL0CFG 0x24 s;
       let s = reg_write rPLL0CON 3 s;
       let s = reg_write rPLL0FEED 0xAA s;
       let s = reg_write rPLL0FEED 0x55 s;
       let s = reg_write VICIntEnable 0 s;
       let s = reg_write VICDefVectAddr (addr_default v) s;
       let s = reg_write rT0PR 0 s;
       let s = reg_write rT0PC 0 s;
       let s = reg_write rT0MR0 600000 s;
       let s = reg_write rT0MCR 3 s;
       let s = reg_write rT0TCR 1 s;
       let s = reg_write VICVectAddr1 (addr_timer0 v) s;
       let s = reg_write VICVectCntl1 0x24 s;
       let s = reg_write VICIntEnable 0x10 s;
       let s = InitUART0 dev s;
       s \<leftarrow> init_usb s;
       let s = reg_write VICVectAddr0 (addr_usb v) s;
       let s = reg_write VICVectCntl0 0x36 s;
       let s = reg_write VICIntEnable 0x400000 s;
       Some (init_pins dev s)
     }"

definition HardwareInit :: "device \<Rightarrow> int_vectors \<Rightarrow> machine \<Rightarrow> machine option" where
  "HardwareInit dev = hardware_init (InitUSB dev) dev"

end
