(* ===== verification/USB_Dma.thy ===== *)
theory USB_Dma
  imports USB_Ep USB_Utils
begin

text \<open>
  The device with DMA: its end point descriptors in USB RAM (\<^verbatim>\<open>tn_usb_ep_dma.c\<close>) and what differs from
  the other device in \<^verbatim>\<open>tn_usb_hw.c\<close> and \<^verbatim>\<open>tn_user.c\<close>. A DMA descriptor is 6 words; word 2 is the
  address of its buffer, bit 0 of word 3 says that it is retired.
\<close>

abbreviation (input) USB_RAM_START :: u32 where "USB_RAM_START \<equiv> 0x7FD00000"
abbreviation (input) DD_SIZE :: u32 where "DD_SIZE \<equiv> 24"   \<comment> \<open>\<open>EP_DD_TOTAL_SIZE\<close> words\<close>

section \<open>USB RAM\<close>

definition EP2_RX_DD :: u32 where "EP2_RX_DD = USB_RAM_START + 128"
definition EP2_RX_DATABUF :: u32 where "EP2_RX_DATABUF = EP2_RX_DD + 24 * 8"
definition EP2_TX_DD :: u32 where "EP2_TX_DD = EP2_RX_DATABUF + 64 * 8"
definition EP2_TX_DATABUF :: u32 where "EP2_TX_DATABUF = EP2_TX_DD + 24 * 8"
definition EP5_RX_DD :: u32 where "EP5_RX_DD = EP2_TX_DATABUF + 64 * 8"
definition EP5_RX_DATABUF :: u32 where "EP5_RX_DATABUF = EP5_RX_DD + 24 * 8"
definition EP5_TX_DD :: u32 where "EP5_TX_DD = EP5_RX_DATABUF + 64 * 8"
definition EP5_TX_DATABUF :: u32 where "EP5_TX_DATABUF = EP5_TX_DD + 24 * 8"

text \<open>\<open>DMA_EP_BULK_WORD_1\<close>: packets of 64 bytes, buffers of 64 bytes\<close>

definition DMA_EP_BULK_WORD_1 :: u32 where
  "DMA_EP_BULK_WORD_1 = push_bit 16 64 OR push_bit 5 64"

definition gDMAAddresses :: "nat \<Rightarrow> ep_dma_addr" where
  "gDMAAddresses n =
     (let e = (\<lambda>d b. \<lparr>word_1 = DMA_EP_BULK_WORD_1, nbuffers = 8, pDD = d, p_data_buffers = b, p_iso_packets = 0\<rparr>) in
      if n = 4 then e EP2_RX_DD EP2_RX_DATABUF
      else if n = 5 then e EP2_TX_DD EP2_TX_DATABUF
      else if n = 10 then e EP5_RX_DD EP5_RX_DATABUF
      else if n = 11 then e EP5_TX_DD EP5_TX_DATABUF
      else \<lparr>word_1 = 0, nbuffers = 0, pDD = 0, p_data_buffers = 0, p_iso_packets = 0\<rparr>)"

text \<open>The four end points, as \<open>main\<close> of \<^verbatim>\<open>usb_tst2.c\<close> sets them.\<close>

definition edi :: "nat \<Rightarrow> oid \<Rightarrow> ep_dma_info" where
  "edi ep q = \<lparr>edi_dma_addr = gDMAAddresses ep, edi_dd_ptr = 0, pUDCA_pos = USB_RAM_START + of_nat (4 * ep),
     edi_queue = q, edi_mem_pool = q, edi_ep_num_phys = ep\<rparr>"

section \<open>Initial descriptors\<close>

text \<open>The loops of \<open>tn_usb_dma_rx_init\<close> and \<open>tn_usb_dma_tx_init\<close>; the two differ in the descriptor that
  is active first. \<open>buf_size\<close> is in words.\<close>

fun dma_rx_loop :: "ep_dma_info \<Rightarrow> nat \<Rightarrow> nat \<Rightarrow> u32 \<Rightarrow> u32 \<Rightarrow> u32 \<Rightarrow> (u32 \<Rightarrow> u32) \<Rightarrow> u32 \<Rightarrow> u32" where
  "dma_rx_loop e i 0 dd_ptr buf_ptr buf_size m = m"
| "dma_rx_loop e i (Suc n) dd_ptr buf_ptr buf_size m =
     (let m = st32 dd_ptr 0 m;
          m = st32 (dd_ptr + 4) (word_1 (edi_dma_addr e)) m;
          m = (if i = 0 then st32 (dd_ptr + 12) 0 (st32 (pUDCA_pos e) dd_ptr m) else st32 (dd_ptr + 12) 1 m);
          m = st32 (dd_ptr + 8) buf_ptr m;
          m = st32 (dd_ptr + 16) 0 m;
          m = st32 (dd_ptr + 20) buf_ptr m
      in dma_rx_loop e (Suc i) n (dd_ptr + DD_SIZE) (buf_ptr + buf_size) buf_size m)"

definition dma_buf_size :: "ep_dma_info \<Rightarrow> u32" where
  "dma_buf_size e = drop_bit 2 (drop_bit 16 (word_1 (edi_dma_addr e)) AND 0xFFFF)"

definition tn_usb_dma_rx_init :: "ep_dma_info \<Rightarrow> machine \<Rightarrow> machine" where
  "tn_usb_dma_rx_init e =
     upd_ram (dma_rx_loop e 0 (nbuffers (edi_dma_addr e)) (pDD (edi_dma_addr e))
                (p_data_buffers (edi_dma_addr e)) (dma_buf_size e))"

fun dma_tx_loop :: "ep_dma_info \<Rightarrow> nat \<Rightarrow> u32 \<Rightarrow> u32 \<Rightarrow> u32 \<Rightarrow> (u32 \<Rightarrow> u32) \<Rightarrow> u32 \<Rightarrow> u32" where
  "dma_tx_loop e 0 dd_ptr buf_ptr buf_size m = m"
| "dma_tx_loop e (Suc n) dd_ptr buf_ptr buf_size m =
     (let m = st32 dd_ptr 0 m;
          m = st32 (dd_ptr + 4) (word_1 (edi_dma_addr e)) m;
          m = (if n = 0
               then st32 (dd_ptr + 12) 0 (st32 (pUDCA_pos e) dd_ptr
                      (st32 (dd_ptr + 4) (m ((dd_ptr + 4) AND NOT 3) AND 0x1F) m))
               else st32 (dd_ptr + 12) 1 m);
          m = st32 (dd_ptr + 8) buf_ptr m;
          m = st32 (dd_ptr + 16) 0 m;
          m = st32 (dd_ptr + 20) buf_ptr m
      in dma_tx_loop e n (dd_ptr + DD_SIZE) (buf_ptr + buf_size) buf_size m)"

definition tn_usb_dma_tx_init :: "ep_dma_info \<Rightarrow> machine \<Rightarrow> machine" where
  "tn_usb_dma_tx_init e =
     upd_ram (dma_tx_loop e (nbuffers (edi_dma_addr e)) (pDD (edi_dma_addr e))
                (p_data_buffers (edi_dma_addr e)) (dma_buf_size e))"

section \<open>DMA interrupts\<close>

definition rd :: "machine \<Rightarrow> u32 \<Rightarrow> u32" where
  "rd s a = ram s (a AND NOT 3)"

definition wr :: "u32 \<Rightarrow> u32 \<Rightarrow> machine \<Rightarrow> machine" where
  "wr a w = upd_ram (st32 a w)"

definition memcpy_s :: "u32 \<Rightarrow> u32 \<Rightarrow> int \<Rightarrow> machine \<Rightarrow> machine option" where
  "memcpy_s dst src n s = do { m \<leftarrow> s_memcpy dst src n (ram s); Some (upd_ram (\<lambda>_. m) s) }"

definition ep_rx_end_of_transfer :: "ep_dma_info \<Rightarrow> machine \<Rightarrow> machine option" where
  "ep_rx_end_of_transfer e s =
     do {
       (rc, out, s) \<leftarrow> icall (tn_fmem_get_ipolling (Some (edi_mem_pool e)) True) s;
       s \<leftarrow> (if rc = TERR_NO_ERR then
               do {
                 ptr \<leftarrow> out;
                 let dd_ptr = rd s (pUDCA_pos e);
                 let buf = rd s (dd_ptr + 20);
                 s \<leftarrow> memcpy_s ptr buf USB_MAX_PACKET0 s;
                 (rc, out, s) \<leftarrow> icall (tn_queue_isend_polling (Some (edi_queue e)) ptr) s;
                 Some s
               }
             else Some s);
       Some (reg_write rUSBEoTIntClr (push_bit (edi_ep_num_phys e) 1) s)
     }"

fun rx_dd_loop :: "ep_dma_info \<Rightarrow> nat \<Rightarrow> u32 \<Rightarrow> machine \<Rightarrow> machine" where
  "rx_dd_loop e 0 dd_ptr s = s"
| "rx_dd_loop e (Suc n) dd_ptr s =
     (if dd_ptr \<noteq> rd s (pUDCA_pos e) \<and> rd s (dd_ptr + 12) AND 1 \<noteq> 0 then
        let s = wr dd_ptr 0 s;
            s = wr (dd_ptr + 12) 0 s;
            s = wr (dd_ptr + 8) (rd s (dd_ptr + 20)) s
        in wr (pUDCA_pos e) dd_ptr s
      else rx_dd_loop e n (dd_ptr + DD_SIZE) s)"

definition ep_rx_DD_request :: "ep_dma_info \<Rightarrow> machine \<Rightarrow> machine" where
  "ep_rx_DD_request e s =
     (let q = dque (krn s) (edi_queue e);
          bit = push_bit (edi_ep_num_phys e) 1
      in if tail_cnt q = 0 \<and> header_cnt q = num_entries q - 1 \<or> header_cnt q = tail_cnt q - 1
         then reg_write rUSBNDDRIntClr bit s
         else reg_write rUSBEpDMAEn bit (reg_write rUSBNDDRIntClr bit
                (rx_dd_loop e (nbuffers (edi_dma_addr e)) (pDD (edi_dma_addr e)) s)))"

text \<open>The search for a retired descriptor; it is cleared when found.\<close>

fun tx_dd_loop :: "nat \<Rightarrow> u32 \<Rightarrow> machine \<Rightarrow> u32 option \<times> machine" where
  "tx_dd_loop 0 dd_ptr s = (None, s)"
| "tx_dd_loop (Suc n) dd_ptr s =
     (if rd s (dd_ptr + 12) AND 1 \<noteq> 0 then
        let s = wr dd_ptr 0 s;
            s = wr (dd_ptr + 12) 0 s;
            s = wr (dd_ptr + 16) 0 s
        in (Some dd_ptr, wr (dd_ptr + 8) (dd_ptr + 20) s)
      else tx_dd_loop n (dd_ptr + DD_SIZE) s)"

definition tx_no_packet :: "ep_dma_info \<Rightarrow> machine \<Rightarrow> u32 \<times> machine" where
  "tx_no_packet e s =
     (let dd_ptr = pDD (edi_dma_addr e) + of_nat (nbuffers (edi_dma_addr e) - 1) * DD_SIZE;
          s = wr dd_ptr 0 s;
          s = wr (dd_ptr + 4) 0 s;
          s = wr (dd_ptr + 12) 0 s
      in (dd_ptr, wr (dd_ptr + 8) (rd s (dd_ptr + 20)) s))"

definition ep_tx_int_DD_request :: "ep_dma_info \<Rightarrow> machine \<Rightarrow> machine option" where
  "ep_tx_int_DD_request e s =
     do {
       (rc, out, s) \<leftarrow> icall (tn_queue_ireceive (Some (edi_queue e)) True) s;
       (dptr, s) \<leftarrow> (if rc = TERR_NO_ERR then
            do {
              q_ptr \<leftarrow> out;
              let (dptr, s) = tx_dd_loop (nbuffers (edi_dma_addr e) - 1) (pDD (edi_dma_addr e)) s;
              s \<leftarrow> (case dptr of
                      None \<Rightarrow> Some s
                    | Some dd_ptr \<Rightarrow> memcpy_s (rd s (dd_ptr + 8)) q_ptr USB_MAX_PACKET0 s);
              (rc2, out2, s) \<leftarrow> icall (tn_fmem_irelease (Some (edi_mem_pool e)) q_ptr) s;
              Some (dptr, s)
            }
          else Some (None, s));
       let (dd_ptr, s) = (case dptr of Some d \<Rightarrow> (d, s) | None \<Rightarrow> tx_no_packet e s);
       let s = wr (pUDCA_pos e) dd_ptr s;
       let s = reg_write rUSBNDDRIntClr (push_bit (edi_ep_num_phys e) 1) s;
       Some (reg_write rUSBEpDMAEn (push_bit (edi_ep_num_phys e) 1) s)
     }"

section \<open>Hardware layer with DMA\<close>

definition dma_regs_off :: "machine \<Rightarrow> machine" where
  "dma_regs_off s =
     (let s = reg_write rUSBUDCAH USB_RAM_START s;
          s = reg_write rUSBDMARClr 0xFFFFFFFF s;
          s = reg_write rUSBEpDMADis 0xFFFFFFFF s;
          s = reg_write rUSBEpDMAEn 0 s;
          s = reg_write rUSBEoTIntClr 0xFFFFFFFF s;
          s = reg_write rUSBNDDRIntClr 0xFFFFFFFF s
      in reg_write rUSBSysErrIntClr 0xFFFFFFFF s)"

definition tn_usb_int_reset_dma :: "device \<Rightarrow> machine \<Rightarrow> machine option" where
  "tn_usb_int_reset_dma dev s =
     do {
       let s = reg_write rUSBEpIntClr 0xFFFFFFFF s;
       s \<leftarrow> tn_usb_config_EP0 dev s;
       let s = reg_write rUSBDevIntClr 0xFFFFFFFF s;
       let s = reg_or dev rUSBDevIntEn 0xC s;
       let s = tn_usb_reset_data (dma_regs_off (reg_write rUSBDMAIntEn 0 s));
       let s = tn_usb_dma_rx_init (edi 4 0) s;
       let s = tn_usb_dma_tx_init (edi 5 1) s;
       let s = tn_usb_dma_rx_init (edi 10 2) s;
       let s = tn_usb_dma_tx_init (edi 11 3) s;
       Some (reg_write rUSBDMAIntEn 3 s)
     }"

definition tn_usb_set_addr_dma :: "device \<Rightarrow> u32 \<Rightarrow> machine \<Rightarrow> machine option" where
  "tn_usb_set_addr_dma dev addr s =
     do {
       s \<leftarrow> tn_usb_lpc_cmd_write dev CMD_DEV_SET_ADDRESS (0x80 OR (addr AND 0xFF)) s;
       tn_usb_lpc_cmd_write dev CMD_DEV_SET_MODE 0x20 s
     }"

definition tn_usb_configure_dma :: "device \<Rightarrow> bool \<Rightarrow> machine \<Rightarrow> machine option" where
  "tn_usb_configure_dma dev mode s =
     do {
       s \<leftarrow> configure_loop dev rUSBEpDMAEn 0 32 s;
       tn_usb_lpc_cmd_write dev CMD_DEV_CONFIG (if mode then CONF_DEVICE else 0) s
     }"

definition tn_usb_config_ep_dma :: "device \<Rightarrow> u32 \<Rightarrow> machine \<Rightarrow> machine option" where
  "tn_usb_config_ep_dma dev ptr s =
     do {
       let ep_num_phys = ep_num_lg2ph (ucast (ld8 (ram s) (ptr + 2)) AND 0x8F);
       let s = reg_or dev rUSBReEp (push_bit (unat ep_num_phys) 1) s;
       let s = reg_write rUSBEpInd ep_num_phys s;
       let s = reg_write rUSBMaxPSize (ucast (ld16 (ram s) (ptr + 4))) s;
       (_, s) \<leftarrow> poll dev rUSBDevIntSt EP_RLZED s;
       let s = reg_write rUSBDevIntClr EP_RLZED s;
       s \<leftarrow> tn_usb_lpc_cmd_write dev (CMD_EP_SET_STATUS OR ep_num_phys) 0 s;
       s \<leftarrow> tn_usb_lpc_cmd_write dev (CMD_EP_SET_STATUS OR ep_num_phys) 0 s;
       Some (reg_write rUSBEpDMAEn (push_bit (unat ep_num_phys) 1) s)
     }"

definition with_dma :: "device \<Rightarrow> hw_layer" where
  "with_dma dev = \<lparr>hw_dev = dev, hw_set_addr = tn_usb_set_addr_dma dev, hw_config_ep = tn_usb_config_ep_dma dev\<rparr>"

text \<open>\<open>InitUSB\<close> of this device, in its \<^verbatim>\<open>utils.c\<close>\<close>

definition InitUSB_dma :: "device \<Rightarrow> machine \<Rightarrow> machine option" where
  "InitUSB_dma dev s =
     do {
       let s = reg_or dev rPINSEL1 (push_bit 14 1) s;
       let s = reg_or dev rPINSEL1 (push_bit 30 2) s;
       let s = reg_write rPLL1CFG 0x23 s;
       let s = reg_write rPLL1CON 3 s;
       let s = reg_write rPLL1FEED 0xAA s;
       let s = reg_write rPLL1FEED 0x55 s;
       (_, s) \<leftarrow> poll dev rPLL1STAT 0x400 s;
       let s = reg_or dev rPCONP (push_bit 31 1) s;
       s \<leftarrow> tn_usb_lpc_cmd_write dev CMD_DEV_STATUS 0 s;
       let s = reg_write rUSBEpIntClr 0xFFFFFFFF s;
       s \<leftarrow> tn_usb_config_EP0 dev s;
       let s = reg_write rUSBDMAIntEn 3 (dma_regs_off s);
       let s = reg_write rUSBDevIntClr 0xFFFFFFFF s;
       let s = reg_or dev rUSBDevIntEn 0xC s;
       tn_usb_set_addr_dma dev 0 s
     }"

definition HardwareInit_dma :: "device \<Rightarrow> int_vectors \<Rightarrow> machine \<Rightarrow> machine option" where
  "HardwareInit_dma dev = hardware_init (InitUSB_dma dev) dev"

section \<open>The USB interrupt with DMA\<close>

definition dev_stat_int_dma :: "device \<Rightarrow> machine \<Rightarrow> machine option" where
  "dev_stat_int_dma dev s =
     do {
       (dev_status, s) \<leftarrow> tn_usb_lpc_cmd_read dev CMD_DEV_STATUS s;
       s \<leftarrow> (if dev_status AND RST \<noteq> 0 then tn_usb_int_reset_dma dev s else Some s);
       let s = (if dev_status AND SUS_CH \<noteq> 0
                then if dev_status AND SUS \<noteq> 0 then tn_usb_int_suspend s else tn_usb_int_resume s
                else s);
       s \<leftarrow> (if dev_status AND CON_CH \<noteq> 0 then tn_usb_int_reset_dma dev s else Some s);
       Some (reg_write rUSBDevIntClr DEV_STAT s)
     }"

definition eot_int :: "device \<Rightarrow> machine \<Rightarrow> machine option" where
  "eot_int dev s =
     do {
       let (st, s) = reg_read dev rUSBEoTIntSt s;
       s \<leftarrow> when_bit st 4 (ep_rx_end_of_transfer (edi 4 0)) s;
       s \<leftarrow> when_bit st 5 (\<lambda>s. Some (reg_write rUSBEoTIntClr (push_bit 5 1) s)) s;
       s \<leftarrow> when_bit st 10 (ep_rx_end_of_transfer (edi 10 2)) s;
       when_bit st 11 (\<lambda>s. Some (reg_write rUSBEoTIntClr (push_bit 11 1) s)) s
     }"

definition ddr_int :: "device \<Rightarrow> machine \<Rightarrow> machine option" where
  "ddr_int dev s =
     do {
       let (st, s) = reg_read dev rUSBNDDRIntSt s;
       s \<leftarrow> when_bit st 4 (\<lambda>s. Some (ep_rx_DD_request (edi 4 0) s)) s;
       s \<leftarrow> when_bit st 5 (ep_tx_int_DD_request (edi 5 1)) s;
       s \<leftarrow> when_bit st 10 (\<lambda>s. Some (ep_rx_DD_request (edi 10 2) s)) s;
       when_bit st 11 (ep_tx_int_DD_request (edi 11 3)) s
     }"

definition tn_usb_int_func_dma :: "device \<Rightarrow> machine \<Rightarrow> machine option" where
  "tn_usb_int_func_dma dev s =
     do {
       let (v, s) = reg_read dev rUSBDevIntSt s;
       s \<leftarrow> (if v AND DEV_STAT \<noteq> 0 then dev_stat_int_dma dev s else Some s);
       let (v, s) = reg_read dev rUSBDevIntSt s;
       s \<leftarrow> (if v AND EP_SLOW \<noteq> 0 then
               do {
                 let (st, s) = reg_read dev rUSBEpIntSt s;
                 s \<leftarrow> (if st AND 1 \<noteq> 0 then tn_usb_EP0_rx_int_func (with_dma dev) s
                        else when_bit st 1 (tn_usb_EP0_tx_int_func dev) s);
                 Some (reg_write rUSBDevIntClr EP_SLOW s)
               }
             else Some s);
       let (v, s) = reg_read dev rUSBDMAIntSt s;
       let s = (if v AND 4 \<noteq> 0 then snd (reg_read dev rUSBEoTIntSt s) else s);
       let (v, s) = reg_read dev rUSBDMAIntSt s;
       s \<leftarrow> (if v AND 1 \<noteq> 0 then eot_int dev s else Some s);
       let (v, s) = reg_read dev rUSBDMAIntSt s;
       s \<leftarrow> (if v AND 2 \<noteq> 0 then ddr_int dev s else Some s);
       Some (reg_write VICVectAddr 0 s)
     }"

end
