(* ===== verification/USB_App.thy ===== *)
theory USB_App
  imports USB_Dma
begin

text \<open>
  The application of the test device, \<^verbatim>\<open>usb_tst1.c\<close>, and its descriptors, \<^verbatim>\<open>tn_usb_descr.c\<close>: the
  initialisation in \<open>main\<close>, the objects \<open>tn_app_init\<close> creates, and the bodies of the tasks. Tasks, queues
  and pools are numbered in the order in which the program creates them; tasks 0 and 1 are
  those of the kernel. The addresses the linker chooses are arguments.
\<close>

section \<open>Descriptors\<close>

definition twobytes_le :: "u16 \<Rightarrow> u8 list" where
  "twobytes_le x = [ucast x, ucast (drop_bit 8 x)]"

definition device_descriptor :: "u8 list" where
  "device_descriptor = [18, 1] @ twobytes_le 0x0110 @ [0, 0, 0, 64] @ twobytes_le 0x1237 @ twobytes_le 0xABCD @
     twobytes_le 0x0100 @ [1, 2, 3, 1]"

definition configuration_descriptor :: "u8 list" where
  "configuration_descriptor = [9, 2] @ twobytes_le (9 + 9 + 4 * 7) @ [1, 1, 0, 0xA0, 50]"

definition interface_descriptor :: "u8 list" where
  "interface_descriptor = [9, 4, 0, 0, 4, 0, 0, 0, 0]"

definition endpoint_descriptor :: "u8 \<Rightarrow> u8 list" where
  "endpoint_descriptor addr = [7, 5, addr, 2] @ twobytes_le 64 @ [0]"

text \<open>A string descriptor: \<open>bLength\<close> is a number in the table, not computed from the characters.\<close>

definition string_descriptor :: "u8 \<Rightarrow> u8 list \<Rightarrow> u8 list" where
  "string_descriptor n cs = [n, 3] @ concat (map (\<lambda>c. [c, 0]) cs)"

text \<open>The descriptors in their order; the strings are LPC214x USB, TNKernel USB and 000011.\<close>

definition descriptor_list :: "u8 list list" where
  "descriptor_list =
     [device_descriptor, configuration_descriptor, interface_descriptor, endpoint_descriptor 2, endpoint_descriptor 0x82,
      endpoint_descriptor 5, endpoint_descriptor 0x85, [4, 3] @ twobytes_le 0x0409,
      string_descriptor 24 [76, 80, 67, 50, 49, 52, 120, 32, 85, 83, 66],
      string_descriptor 26 [84, 78, 75, 101, 114, 110, 101, 108, 32, 85, 83, 66],
      string_descriptor 14 [48, 48, 48, 48, 49, 49]]"

definition abDescriptors :: "u8 list" where
  "abDescriptors = concat descriptor_list @ [0]"

section \<open>Objects\<close>

record app_addresses =
  task_func :: "tid \<Rightarrow> u32"
  task_stack :: "tid \<Rightarrow> u32"     \<comment> \<open>the last word of the stack\<close>
  queue_mem :: "oid \<Rightarrow> u32"
  pool_mem :: "oid \<Rightarrow> u32"
  ep0_buf :: u32
  descr_addr :: u32

text \<open>\<open>task.id_task = 0; tn_task_create(...)\<close>, and the same for a queue and a pool\<close>

definition app_task :: "app_addresses \<Rightarrow> tid \<Rightarrow> int \<Rightarrow> kernel \<Rightarrow> kernel option" where
  "app_task a t prio k =
     do {
       (r, k) \<leftarrow> tn_task_create (Some t) (task_func a t) prio (task_stack a t) 128 0 TN_TASK_START_ON_CREATION
                  (upd_tcb t (\<lambda>x. x\<lparr>id_task := 0\<rparr>) k);
       Some k
     }"

definition app_queue :: "app_addresses \<Rightarrow> oid \<Rightarrow> int \<Rightarrow> kernel \<Rightarrow> kernel option" where
  "app_queue a q n k =
     do { (r, k) \<leftarrow> tn_queue_create (Some q) (queue_mem a q) n (upd_dque q (\<lambda>x. x\<lparr>id_dque := 0\<rparr>) k); Some k }"

definition app_pool :: "app_addresses \<Rightarrow> oid \<Rightarrow> int \<Rightarrow> kernel \<Rightarrow> kernel option" where
  "app_pool a f n k =
     do { (r, k) \<leftarrow> tn_fmem_create (Some f) (pool_mem a f) 64 n (upd_fmp f (\<lambda>x. x\<lparr>id_fmp := 0\<rparr>) k); Some k }"

definition app_tasks :: "app_addresses \<Rightarrow> kernel \<Rightarrow> kernel option" where
  "app_tasks a k =
     do {
       k \<leftarrow> app_task a 2 5 k;
       k \<leftarrow> app_task a 3 11 k;
       k \<leftarrow> app_task a 4 9 k;
       k \<leftarrow> app_task a 5 8 k;
       k \<leftarrow> app_task a 6 7 k;
       app_task a 7 6 k
     }"

definition app_queues :: "app_addresses \<Rightarrow> kernel \<Rightarrow> kernel option" where
  "app_queues a k =
     do {
       k \<leftarrow> app_queue a 0 8 k;
       k \<leftarrow> app_queue a 1 8 k;
       k \<leftarrow> app_queue a 2 8 k;
       k \<leftarrow> app_queue a 3 8 k;
       app_queue a 4 16 k
     }"

definition app_pools :: "app_addresses \<Rightarrow> kernel \<Rightarrow> kernel option" where
  "app_pools a k =
     do {
       k \<leftarrow> app_pool a 0 8 k;
       k \<leftarrow> app_pool a 1 8 k;
       k \<leftarrow> app_pool a 2 8 k;
       k \<leftarrow> app_pool a 3 8 k;
       app_pool a 4 16 k
     }"

definition tn_app_init :: "app_addresses \<Rightarrow> kernel \<Rightarrow> kernel option" where
  "tn_app_init a k = do { k \<leftarrow> app_tasks a k; k \<leftarrow> app_queues a k; app_pools a k }"

text \<open>\<open>tn_arm_enable_interrupts\<close>, called by \<open>tn_cpu_int_enable\<close>, clears the two interrupt bits of the status register.\<close>

definition tn_cpu_int_enable :: "kernel \<Rightarrow> kernel option" where
  "tn_cpu_int_enable k = Some (k\<lparr>cpsr := cpsr k AND NOT 0xC0\<rparr>)"

section \<open>Main\<close>

definition usb_main :: "device \<Rightarrow> int_vectors \<Rightarrow> link_addresses \<Rightarrow> app_addresses \<Rightarrow> machine \<Rightarrow> machine option" where
  "usb_main dev v l a s =
     do {
       let s = s\<lparr>krn := snd (tn_cpu_save_sr (krn s))\<rparr>;
       s \<leftarrow> HardwareInit dev v (reg_write rMEMMAP 1 s);
       let s = upd_udi (\<lambda>u. u\<lparr>Descriptors := descr_addr a\<rparr>) s;
       let s = tn_usb_reset_data (upd_eps (\<lambda>e. e\<lparr>pbuf := ep0_buf a\<rparr>) s);
       k \<leftarrow> tn_start_system l (krn s);
       Some (s\<lparr>krn := k\<rparr>)
     }"

section \<open>Tasks\<close>

text \<open>The body of the endless loop of a task: service calls, each followed by the rest of the body as a
  function of its return code and output, and steps that only touch memory. A service call that
  gives the processor away suspends the body.\<close>

datatype prog =
    Again
  | Call "kernel \<Rightarrow> (outcome \<times> kernel) option" "int \<Rightarrow> u32 \<Rightarrow> prog"
  | Local "machine \<Rightarrow> machine option" prog
  | Branch "machine \<Rightarrow> bool" prog prog

datatype progress = Ended | Waiting cont "int \<Rightarrow> u32 \<Rightarrow> prog"

primrec run :: "prog \<Rightarrow> machine \<Rightarrow> (progress \<times> machine) option" where
  "run Again s = Some (Ended, s)"
| "run (Call f g) s =
     do {
       (r, k) \<leftarrow> f (krn s);
       (case r of
          Done rc out \<Rightarrow> run (g rc (case out of Some v \<Rightarrow> v | None \<Rightarrow> 0)) (s\<lparr>krn := k\<rparr>)
        | Switch c \<Rightarrow> Some (Waiting c g, s\<lparr>krn := k\<rparr>)
        | Exited \<Rightarrow> None)
     }"
| "run (Local f p) s = do { s \<leftarrow> f s; run p s }"
| "run (Branch b p q) s = (if b s then run p s else run q s)"

definition task_ep2_rx_func :: prog where
  "task_ep2_rx_func =
     Call (tn_queue_receive (Some 0) True TN_WAIT_INFINITE) (\<lambda>rc ptr1.
       if rc = TERR_NO_ERR then
         Call (tn_fmem_get (Some 4) True TN_WAIT_INFINITE) (\<lambda>rc ptr.
           let finish = Call (tn_fmem_release (Some 0) ptr1) (\<lambda>_ _. Again)
           in if rc = TERR_NO_ERR
              then Local (memcpy_s ptr ptr1 64)
                     (Call (tn_queue_send (Some 4) ptr TN_WAIT_INFINITE) (\<lambda>_ _. finish))
              else finish)
       else Again)"

text \<open>\<open>for(i=12;i<62;i++) ptr[i] = ' ';\<close>\<close>

fun fill_blanks :: "nat \<Rightarrow> u32 \<Rightarrow> (u32 \<Rightarrow> u32) \<Rightarrow> u32 \<Rightarrow> u32" where
  "fill_blanks 0 p m = m"
| "fill_blanks (Suc n) p m = fill_blanks n (p + 1) (st8 p 32 m)"

definition fill_message :: "u32 \<Rightarrow> int \<Rightarrow> machine \<Rightarrow> machine option" where
  "fill_message ptr n s =
     do {
       m \<leftarrow> s_memset ptr 48 12 (ram s);
       let m = snd (s_itoa ptr n m);
       let m = fill_blanks 50 (ptr + 12) m;
       let m = st8 (ptr + 63) 10 (st8 (ptr + 62) 13 m);
       Some (upd_ram (\<lambda>_. m) s)
     }"

definition task_ep2_tx_func :: "int \<Rightarrow> prog" where
  "task_ep2_tx_func n =
     Call (tn_fmem_get (Some 1) True TN_WAIT_INFINITE) (\<lambda>rc ptr.
       if rc = TERR_NO_ERR
       then Local (fill_message ptr n) (Call (tn_queue_send (Some 1) ptr TN_WAIT_INFINITE) (\<lambda>_ _. Again))
       else Again)"

definition task_ep5_rx_func :: "u32 \<Rightarrow> prog" where
  "task_ep5_rx_func dbg_buf =
     Call (tn_queue_receive (Some 2) True TN_WAIT_INFINITE) (\<lambda>rc ptr.
       if rc = TERR_NO_ERR
       then Local (memcpy_s dbg_buf ptr 64) (Call (tn_fmem_release (Some 2) ptr) (\<lambda>_ _. Again))
       else Again)"

definition task_ep5_tx_func :: prog where
  "task_ep5_tx_func =
     Call (tn_queue_receive (Some 4) True TN_WAIT_INFINITE) (\<lambda>rc ptr1.
       if rc = TERR_NO_ERR then
         Call (tn_fmem_get (Some 3) True TN_WAIT_INFINITE) (\<lambda>rc ptr.
           let finish = Call (tn_fmem_release (Some 4) ptr1) (\<lambda>_ _. Again)
           in if rc = TERR_NO_ERR
              then Local (memcpy_s ptr ptr1 64)
                     (Call (tn_queue_send (Some 3) ptr TN_WAIT_INFINITE) (\<lambda>_ _. finish))
              else finish)
       else Again)"

text \<open>The task connects the device before its loop.\<close>

definition task_processing_func :: "device \<Rightarrow> bool \<Rightarrow> prog" where
  "task_processing_func dev first =
     (let p = Call (tn_task_sleep 10) (\<lambda>_ _. Again)
      in if first then Local (\<lambda>s. map_option snd (tn_usb_connect dev True s)) p else p)"

definition task_io_func :: "device \<Rightarrow> prog" where
  "task_io_func dev =
     Call (tn_task_sleep 10) (\<lambda>_ _.
       Branch (\<lambda>s. Configuration (gUSBInfo s) = 0)
         (Local (\<lambda>s. Some (reg_or dev rIO0SET (push_bit 14 1) s))
           (Call (tn_task_sleep 10) (\<lambda>_ _. Local (\<lambda>s. Some (reg_or dev rIO0CLR (push_bit 14 1) s)) Again)))
         Again)"

end
