(* ===== verification/USB_Descr.thy ===== *)
theory USB_Descr
  imports USB_Control USB_App
begin

text \<open>
  The requests that read the descriptors: an array of descriptors, each with its length in its first
  byte and its type in the second, ended by a 0. \<open>GET_DESCRIPTOR\<close> finds the descriptor the host asks for,
  \<open>SET_CONFIGURATION\<close> configures the end points of the configuration, and the table of the program is
  such an array.
\<close>

section \<open>An array of descriptors\<close>

definition descr_ok :: "u8 list \<Rightarrow> bool" where
  "descr_ok d \<longleftrightarrow> 2 \<le> length d \<and> length d < 256 \<and> hd d = of_nat (length d) \<and> (d ! 1 = 2 \<longrightarrow> 9 \<le> length d)
     \<and> (d ! 1 = 4 \<longrightarrow> 9 \<le> length d) \<and> (d ! 1 = 5 \<longrightarrow> 7 \<le> length d)"

definition descr_array :: "(u32 \<Rightarrow> u32) \<Rightarrow> u32 \<Rightarrow> u8 list list \<Rightarrow> bool" where
  "descr_array m a ds \<longleftrightarrow> (\<forall>d\<in>set ds. descr_ok d) \<and> bytes_at m a (length (concat ds) + 1) = concat ds @ [0]"

lemma bytes_at_nth: "i < n \<Longrightarrow> bytes_at m a n ! i = ld8 m (a + of_nat i)"
  by (simp add: bytes_at_def)

lemma length_bytes_at [simp]: "length (bytes_at m a n) = n"
  by (simp add: bytes_at_def)

lemma descr_array_Nil: "descr_array m a [] \<Longrightarrow> ld8 m a = 0"
  by (simp add: descr_array_def bytes_at_def)

lemma descr_array_append:
  assumes "descr_array m a (xs @ ys)"
  shows "bytes_at m a (length (concat xs)) = concat xs" "descr_array m (a + of_nat (length (concat xs))) ys"
proof -
  let ?k = "length (concat xs)"
  have "length (concat (xs @ ys)) + 1 = ?k + (length (concat ys) + 1)" by simp
  then have "bytes_at m a ?k @ bytes_at m (a + of_nat ?k) (length (concat ys) + 1) = concat xs @ (concat ys @ [0])"
    using assms bytes_at_add [of m a ?k "length (concat ys) + 1"] by (simp add: descr_array_def)
  then have "bytes_at m a ?k = concat xs" "bytes_at m (a + of_nat ?k) (length (concat ys) + 1) = concat ys @ [0]"
    by (simp_all add: append_eq_append_conv)
  then show "bytes_at m a (length (concat xs)) = concat xs" "descr_array m (a + of_nat (length (concat xs))) ys"
    using assms by (simp_all add: descr_array_def)
qed

lemma descr_array_Cons:
  assumes "descr_array m a (d # ds)"
  shows "descr_ok d" "\<And>i. i < length d \<Longrightarrow> ld8 m (a + of_nat i) = d ! i" "ld8 m a = of_nat (length d)" "ld8 m a \<noteq> 0"
    "ld8 m (a + 1) = d ! 1" "descr_array m (a + of_nat (length d)) ds" "a + ucast (ld8 m a) = a + of_nat (length d)"
proof -
  show ok: "descr_ok d" using assms by (simp add: descr_array_def)
  have b: "bytes_at m a (length d) = d" using descr_array_append(1) [of m a "[d]" ds] assms by simp
  show i: "ld8 m (a + of_nat i) = d ! i" if "i < length d" for i
    using bytes_at_nth [OF that, of m a] b by simp
  have len: "2 \<le> length d" "length d < 256" "hd d = of_nat (length d)" using ok by (simp_all add: descr_ok_def)
  then have "hd d = d ! 0" by (cases d) simp_all
  then show l: "ld8 m a = of_nat (length d)" using i [of 0] len by fastforce
  have "length d mod 256 = length d" "length d \<noteq> 0" using len by auto
  then show "ld8 m a \<noteq> 0" unfolding l by (simp add: word_unat_eq_iff unat_of_nat)
  show "ld8 m (a + 1) = d ! 1" using i [of 1] len by simp
  show "descr_array m (a + of_nat (length d)) ds" using descr_array_append(2) [of m a "[d]" ds] assms by simp
  have "(ucast (of_nat (length d) :: u8) :: u32) = of_nat (length d)"
    using len by (simp add: unsigned_of_nat take_bit_nat_eq_self)
  then show "a + ucast (ld8 m a) = a + of_nat (length d)" unfolding l by simp
qed

section \<open>Get descriptor\<close>

lemma get_descr_loop_finds:
  assumes "descr_array m a ds"
  shows "(k < length (filter (\<lambda>d. d ! 1 = t) ds) \<longrightarrow>
           (\<exists>p rest. get_descr_loop m a ind t (ind + int k) = Some (Some p) \<and>
                descr_array m p (filter (\<lambda>d. d ! 1 = t) ds ! k # rest))) \<and>
         (\<not> k < length (filter (\<lambda>d. d ! 1 = t) ds) \<longrightarrow> get_descr_loop m a ind t (ind + int k) = Some None)"
  using assms
proof (induction ds arbitrary: a ind k)
  case Nil
  then show ?case using descr_array_Nil [OF Nil] by (simp add: get_descr_loop.simps [of m a])
next
  case (Cons d ds)
  note c = descr_array_Cons [OF Cons.prems]
  have step: "get_descr_loop m a ind t i =
      (if d ! 1 = t then if ind = i then Some (Some a) else get_descr_loop m (a + of_nat (length d)) (ind + 1) t i
       else get_descr_loop m (a + of_nat (length d)) ind t i)" for i
    using c(4,5,7) by (simp add: get_descr_loop.simps [of m a])
  show ?case
  proof (cases "d ! 1 = t")
    case False
    then show ?thesis using Cons.IH [OF c(6), of k ind] step by simp
  next
    case True
    show ?thesis
    proof (cases k)
      case 0
      then show ?thesis using True step Cons.prems by auto
    next
      case (Suc j)
      then show ?thesis using True step Cons.IH [OF c(6), of j "ind + 1"] by (simp add: ac_simps)
    qed
  qed
qed

definition total_length :: "u8 list \<Rightarrow> int" where
  "total_length d = uint (d ! 2) + 256 * uint (d ! 3)"

lemma uint_ld16: "uint (ld16 m a) = uint (ld8 m a) + 256 * uint (ld8 m (a + 1))"
proof -
  have lt: "uint (b :: u8) < 256" "0 \<le> uint b" for b using uint_bounded [of b] by simp_all
  have "uint (push_bit 8 (ucast b) :: u16) = push_bit 8 (uint b)" for b :: u8
    using lt [of b] by (simp add: unsigned_push_bit_eq unsigned_ucast_eq take_bit_int_eq_self push_bit_eq_mult del: push_bit_numeral push_bit_eq_mult)
      (simp add: push_bit_eq_mult take_bit_int_eq_self)
  then have "uint (ld16 m a) = uint (ld8 m a) OR push_bit 8 (uint (ld8 m (a + 1)))"
    using lt [of "ld8 m a"] by (simp add: ld16_def unsigned_or_eq unsigned_ucast_eq take_bit_int_eq_self)
  moreover have "uint (ld8 m a) AND push_bit 8 (uint (ld8 m (a + 1))) = 0"
  proof (rule bit_eqI)
    fix n show "bit (uint (ld8 m a) AND push_bit 8 (uint (ld8 m (a + 1)))) n = bit (0 :: int) n"
      by (auto simp: bit_and_iff bit_push_bit_iff bit_uint_iff)
  qed
  ultimately show ?thesis by (simp add: disjunctive_add_eq_or [symmetric] push_bit_eq_mult)
qed

lemma descr_total:
  assumes "descr_array m a (d # ds)" and "d ! 1 = 2"
  shows "uint (ld16 m (a + 2)) = total_length d"
proof -
  have l: "9 \<le> length d" using descr_array_Cons(1) [OF assms(1)] assms(2) by (simp add: descr_ok_def)
  have "ld8 m (a + of_nat 2) = d ! 2" "ld8 m (a + of_nat 3) = d ! 3"
    using l by (intro descr_array_Cons(2) [OF assms(1)]; simp)+
  then show ?thesis by (simp add: uint_ld16 total_length_def add.assoc)
qed

lemma get_descriptor:
  assumes da: "descr_array (ram s) (Descriptors (gUSBInfo s)) ds" and r: "recip s = CMD_RECIP_DEVICE"
    and t: "ucast (drop_bit 8 (wValue (usp s))) = dt" and k: "unat (wValue (usp s) AND 0xFF) = k"
  shows "if k < length (filter (\<lambda>d. d ! 1 = dt) ds)
    then let d = filter (\<lambda>d. d ! 1 = dt) ds ! k in
      \<exists>p rest. usb_GET_DESCRIPTOR s = Some (True, upd_eps (\<lambda>e. e\<lparr>pdata := p,
          nbytes := (if dt = USB_DESCR_TYPE_CONFIGURATION then total_length d else int (length d))\<rparr>) s) \<and>
        descr_array (ram s) p (d # rest)
    else usb_GET_DESCRIPTOR s = Some (False, s)"
proof -
  have k': "uint (wValue (usp s) AND 0xFF) = 0 + int k" using k by (simp add: uint_nat)
  note lp = get_descr_loop_finds [OF da, of k dt 0]
  show ?thesis
  proof (cases "k < length (filter (\<lambda>d. d ! 1 = dt) ds)")
    case False
    then have l: "get_descr_loop (ram s) (Descriptors (gUSBInfo s)) 0 dt (0 + int k) = Some None" using lp by blast
    show ?thesis using False unfolding usb_GET_DESCRIPTOR_def Let_def t k' l r by simp
  next
    case True
    let ?d = "filter (\<lambda>d. d ! 1 = dt) ds ! k"
    obtain p rest where p: "get_descr_loop (ram s) (Descriptors (gUSBInfo s)) 0 dt (0 + int k) = Some (Some p)"
      "descr_array (ram s) p (?d # rest)" using lp True by blast
    have ty: "?d ! 1 = dt" using nth_mem [OF True] by auto
    have "length ?d < 256" using descr_array_Cons(1) [OF p(2)] by (simp add: descr_ok_def)
    then have ln: "uint (ld8 (ram s) p) = int (length ?d)"
      unfolding descr_array_Cons(3) [OF p(2)] by (simp add: unsigned_of_nat take_bit_nat_eq_self)
    have tl: "dt = USB_DESCR_TYPE_CONFIGURATION \<Longrightarrow> uint (ld16 (ram s) (p + 2)) = total_length ?d"
      using descr_total [OF p(2)] ty by simp
    have "usb_GET_DESCRIPTOR s = Some (True, upd_eps (\<lambda>e. e\<lparr>pdata := p,
          nbytes := (if dt = USB_DESCR_TYPE_CONFIGURATION then total_length ?d else int (length ?d))\<rparr>) s)"
      unfolding usb_GET_DESCRIPTOR_def Let_def t k' p(1) r using tl ln by simp
    with True p(2) show ?thesis unfolding Let_def by auto
  qed
qed

definition descr_size :: "u8 list \<Rightarrow> nat" where
  "descr_size d = (if d ! 1 = USB_DESCR_TYPE_CONFIGURATION then nat (total_length d) else length d)"

section \<open>A set-up packet\<close>

lemma setup_arrives:
  assumes dev: "answers (hw_dev l)" "delivers (hw_dev l) 8 [w0, w1]" and st: "\<And>h. hw_dev l h rUSBCmdData AND STP \<noteq> 0"
    and now: "wLength (setup_of w0 w1) = 0 \<or> bmRequestType (setup_of w0 w1) AND 0x80 \<noteq> 0"
  shows "\<exists>s2. tn_usb_EP0_rx_int_func l s = do {
        (rc, s) \<leftarrow> tn_usb_EP0_SETUP l s2;
        s \<leftarrow> (if \<not> rc then tn_usb_stall_ep (hw_dev l) 0 True s
               else tn_usb_st_DATAIN (hw_dev l) (if nbytes (eps s) > uint (wLength (usp s))
                       then upd_eps (\<lambda>e. e\<lparr>nbytes := uint (wLength (usp s))\<rparr>) s else s));
        Some (reg_write rUSBEpIntClr 1 s) } \<and>
    usp s2 = setup_of w0 w1 \<and> krn s2 = krn s \<and> Descriptors (gUSBInfo s2) = Descriptors (gUSBInfo s) \<and>
    Configuration (gUSBInfo s2) = Configuration (gUSBInfo s) \<and> sent s2 = sent s \<and> realized (io s2) = realized (io s) \<and>
    eps s2 = (eps s)\<lparr>pdata := pbuf (eps s), nbytes := uint (wLength (setup_of w0 w1))\<rparr>"
proof -
  let ?p = "setup_of w0 w1"
  obtain v h where rd: "tn_usb_lpc_cmd_read (hw_dev l) (CMD_EP_SELECT_CLEAR OR 0) s = Some (v, s\<lparr>io := h\<rparr>)"
    "writes h = [Wr rUSBDevIntClr 0x20, Wr rUSBCmdCode (0x200 OR push_bit 16 (CMD_EP_SELECT_CLEAR OR 0))] @
       cmd_writes (CMD_EP_SELECT_CLEAR OR 0) @ writes (io s)" "v AND STP \<noteq> 0"
    using lpc_cmd_read_returns [OF dev(1), of "CMD_EP_SELECT_CLEAR OR 0" s] st by metis
  have sh: "sent (s\<lparr>io := h\<rparr>) = sent s" "realized h = realized (io s)"
    using tx_packets_cmd_read [OF rd(2)] writes_realized(2) [of h] rd(2)
    by (simp_all add: sent_def cmd_writes_def writes_realized)
  let ?s1 = "upd_udi (\<lambda>u. u\<lparr>EP0SetupPacket := ?p\<rparr>) (s\<lparr>io := h\<rparr>)"
  obtain h1 where er: "tn_usb_ep_read (hw_dev l) 0 (RxSetup 0) (s\<lparr>io := h\<rparr>) = Some (int 8, ?s1\<lparr>io := h1\<rparr>)"
    "tx_packets h1 = tx_packets (io (s\<lparr>io := h\<rparr>))" "realized h1 = realized (io (s\<lparr>io := h\<rparr>))"
    using ep_read_returns [OF dev rx_puts_setup, where s = "s\<lparr>io := h\<rparr>" and ep = 0] by auto
  define s2 where "s2 = upd_eps (\<lambda>e. e\<lparr>pdata := pbuf e, nbytes := uint (wLength (usp (?s1\<lparr>io := h1\<rparr>)))\<rparr>) (?s1\<lparr>io := h1\<rparr>)"
  have s2: "usp s2 = ?p" "krn s2 = krn s" "Descriptors (gUSBInfo s2) = Descriptors (gUSBInfo s)"
    "Configuration (gUSBInfo s2) = Configuration (gUSBInfo s)" "sent s2 = sent s" "realized (io s2) = realized (io s)"
    "eps s2 = (eps s)\<lparr>pdata := pbuf (eps s), nbytes := uint (wLength ?p)\<rparr>"
    using sh er(2,3) by (simp_all add: s2_def upd_udi_def sent_def)
  have stage: "ep0_setup_stage l (s\<lparr>io := h\<rparr>) = do {
      (rc, s) \<leftarrow> tn_usb_EP0_SETUP l s2;
      (if \<not> rc then tn_usb_stall_ep (hw_dev l) 0 True s
       else tn_usb_st_DATAIN (hw_dev l) (if nbytes (eps s) > uint (wLength (usp s))
               then upd_eps (\<lambda>e. e\<lparr>nbytes := uint (wLength (usp s))\<rparr>) s else s)) }"
    unfolding ep0_setup_stage_def er(1) Let_def bind.bind_lunit prod.case s2_def [symmetric]
    using now s2(1) by simp
  have "tn_usb_EP0_rx_int_func l s = do { s \<leftarrow> ep0_setup_stage l (s\<lparr>io := h\<rparr>); Some (reg_write rUSBEpIntClr 1 s) }"
    using rd(1,3) by (simp add: tn_usb_EP0_rx_int_func_def)
  then show ?thesis using s2 unfolding stage by (intro exI [of _ s2]) (simp add: split_def)
qed

lemma stall_ep0:
  assumes "answers dev"
  shows "\<exists>h. tn_usb_stall_ep dev 0 True s = Some (s\<lparr>io := h\<rparr>) \<and>
    writes h = data_writes EP_ST @ cmd_writes CMD_EP_SET_STATUS @ writes (io s) \<and> realized h = realized (io s) \<and>
    sent (s\<lparr>io := h\<rparr>) = sent s"
proof -
  obtain h where h: "tn_usb_stall_ep dev 0 True s = Some (s\<lparr>io := h\<rparr>)"
      "writes h = data_writes EP_ST @ cmd_writes CMD_EP_SET_STATUS @ writes (io s)"
    using lpc_cmd_write_returns [OF assms, of CMD_EP_SET_STATUS EP_ST s] by (auto simp: tn_usb_stall_ep_def ep_num_lg2ph_def)
  then show ?thesis using no_packets_after [OF h(2)] by (simp add: sent_def)
qed

lemma if_int_min: "(if int x > int y then int y else int x) = int (min y x)" by simp

text \<open>C14. The whole way of a request \<open>GET_DESCRIPTOR\<close>: when the set-up packet arrives at end point 0, the interrupt
  handler finds the descriptor with the type and the index the host asks for and sends its first
  bytes, no more than the host wants and at most 64; what is left follows later. A descriptor that does not
  exist stalls the end point, and nothing is sent.\<close>

theorem ep0_get_descriptor:
  assumes dev: "answers (hw_dev l)" "accepts (hw_dev l)" "delivers (hw_dev l) 8 [w0, w1]" and st: "\<And>h. hw_dev l h rUSBCmdData AND STP \<noteq> 0"
    and da: "descr_array (ram s) (Descriptors (gUSBInfo s)) ds"
    and req: "bmRequestType (setup_of w0 w1) = 0x80" "bRequest (setup_of w0 w1) = 6"
    and dt: "ucast (drop_bit 8 (wValue (setup_of w0 w1))) = dt" and k: "unat (wValue (setup_of w0 w1) AND 0xFF) = k"
  shows "if k < length (filter (\<lambda>d. d ! 1 = dt) ds)
    then let d = filter (\<lambda>d. d ! 1 = dt) ds ! k; n = min (unat (wLength (setup_of w0 w1))) (descr_size d) in
      \<exists>s' a rest. tn_usb_EP0_rx_int_func l s = Some s' \<and> descr_array (ram s) a (d # rest) \<and>
        sent s' = sent s @ [bytes_at (ram s) a (min n 64)] \<and> nbytes (eps s') = int (n - 64) \<and> krn s' = krn s
    else \<exists>s' h. tn_usb_EP0_rx_int_func l s = Some s' \<and> sent s' = sent s \<and> krn s' = krn s \<and>
        writes (io s') = Wr rUSBEpIntClr 1 # data_writes EP_ST @ cmd_writes CMD_EP_SET_STATUS @ h"
proof -
  let ?p = "setup_of w0 w1"
  have in_req: "bmRequestType ?p AND 0x80 \<noteq> 0" using req by simp
  then obtain s2 where run: "tn_usb_EP0_rx_int_func l s = do {
        (rc, s) \<leftarrow> tn_usb_EP0_SETUP l s2;
        s \<leftarrow> (if \<not> rc then tn_usb_stall_ep (hw_dev l) 0 True s
               else tn_usb_st_DATAIN (hw_dev l) (if nbytes (eps s) > uint (wLength (usp s))
                       then upd_eps (\<lambda>e. e\<lparr>nbytes := uint (wLength (usp s))\<rparr>) s else s));
        Some (reg_write rUSBEpIntClr 1 s) }"
    and s2: "usp s2 = ?p" "krn s2 = krn s" "Descriptors (gUSBInfo s2) = Descriptors (gUSBInfo s)" "sent s2 = sent s"
    using setup_arrives [OF dev(1,3) st, of s] by blast
  have ep0: "tn_usb_EP0_SETUP l s2 = usb_GET_DESCRIPTOR s2"
    using req s2(1) by (simp add: tn_usb_EP0_SETUP_def std_in_request_def)
  have r: "recip s2 = CMD_RECIP_DEVICE" using req s2(1) by (simp add: recip_def)
  have g: "if k < length (filter (\<lambda>d. d ! 1 = dt) ds)
    then let d = filter (\<lambda>d. d ! 1 = dt) ds ! k in
      \<exists>p rest. usb_GET_DESCRIPTOR s2 = Some (True, upd_eps (\<lambda>e. e\<lparr>pdata := p,
          nbytes := (if dt = USB_DESCR_TYPE_CONFIGURATION then total_length d else int (length d))\<rparr>) s2) \<and>
        descr_array (ram s2) p (d # rest)
    else usb_GET_DESCRIPTOR s2 = Some (False, s2)"
    using da dt k s2 r by (intro get_descriptor) simp_all
  show ?thesis
  proof (cases "k < length (filter (\<lambda>d. d ! 1 = dt) ds)")
    case False
    then have "usb_GET_DESCRIPTOR s2 = Some (False, s2)" using g by simp
    moreover obtain h' where "tn_usb_stall_ep (hw_dev l) 0 True s2 = Some (s2\<lparr>io := h'\<rparr>)"
      "writes h' = data_writes EP_ST @ cmd_writes CMD_EP_SET_STATUS @ writes (io s2)" "sent (s2\<lparr>io := h'\<rparr>) = sent s2"
      using stall_ep0 [OF dev(1)] by blast
    ultimately show ?thesis using False s2(2,4) unfolding run ep0 by (simp add: sent_def reg_write_def)
  next
    case True
    define d where "d = filter (\<lambda>d. d ! 1 = dt) ds ! k"
    let ?n = "min (unat (wLength ?p)) (descr_size d)"
    have ty: "d ! 1 = dt" unfolding d_def using nth_mem [OF True] by auto
    have nn: "0 \<le> total_length d" by (simp add: total_length_def)
    have size: "(if dt = USB_DESCR_TYPE_CONFIGURATION then total_length d else int (length d)) = int (descr_size d)"
      using nn unfolding descr_size_def ty by simp
    obtain a rest where a: "usb_GET_DESCRIPTOR s2 = Some (True, upd_eps (\<lambda>e. e\<lparr>pdata := a, nbytes := int (descr_size d)\<rparr>) s2)"
      "descr_array (ram s) a (d # rest)" using g True s2(2) unfolding Let_def d_def [symmetric] size by auto
    define s3 where "s3 = upd_eps (\<lambda>e. e\<lparr>pdata := a, nbytes := int (descr_size d)\<rparr>) s2"
    define s4 where "s4 = (if nbytes (eps s3) > uint (wLength (usp s3))
        then upd_eps (\<lambda>e. e\<lparr>nbytes := uint (wLength (usp s3))\<rparr>) s3 else s3)"
    have w: "uint (wLength (usp s3)) = int (unat (wLength ?p))" "nbytes (eps s3) = int (descr_size d)"
      using s2(1) by (simp_all add: s3_def)
    have "nbytes (eps s4) = (if int (descr_size d) > int (unat (wLength ?p)) then int (unat (wLength ?p)) else int (descr_size d))"
      unfolding s4_def w by (simp add: w(2))
    then have s4: "nbytes (eps s4) = int ?n" unfolding if_int_min .
    have s4': "pdata (eps s4) = a" "ram s4 = ram s" "krn s4 = krn s" "sent s4 = sent s"
      using s2(2-4) by (simp_all add: s4_def s3_def sent_def)
    obtain s' where s': "tn_usb_st_DATAIN (hw_dev l) s4 = Some s'" "sent s' = sent s4 @ [bytes_at (ram s4) (pdata (eps s4)) (min ?n 64)]"
      "eps s' = (eps s4)\<lparr>nbytes := int (?n - 64), pdata := pdata (eps s4) + 4 * of_nat (min ?n 64)\<rparr>" "krn s' = krn s4"
      using datain_sends [OF dev(1,2) s4] by blast
    have "tn_usb_EP0_rx_int_func l s = Some (reg_write rUSBEpIntClr 1 s')"
      unfolding run ep0 a(1) using s'(1) by (simp add: s3_def [symmetric] s4_def [symmetric])
    moreover have "sent (reg_write rUSBEpIntClr 1 s') = sent s @ [bytes_at (ram s) a (min ?n 64)]"
      "nbytes (eps (reg_write rUSBEpIntClr 1 s')) = int (?n - 64)" "krn (reg_write rUSBEpIntClr 1 s') = krn s"
      using s' s4' by (simp_all add: reg_write_def sent_def s4)
    ultimately show ?thesis using True a(2) unfolding Let_def d_def [symmetric] by (simp only: if_True) blast
  qed
qed

section \<open>The table of the program\<close>

lemma bytes_at_0 [simp]: "bytes_at m a 0 = []" by (simp add: bytes_at_def)

lemma bytes_at_Suc: "bytes_at m a (Suc n) = ld8 m a # bytes_at m (a + 1) n"
  using bytes_at_add [of m a 1 n] by (simp add: bytes_at_def)

text \<open>A memory with given bytes from an address on.\<close>

fun store_bytes :: "u32 \<Rightarrow> u8 list \<Rightarrow> (u32 \<Rightarrow> u32) \<Rightarrow> u32 \<Rightarrow> u32" where
  "store_bytes a [] m = m"
| "store_bytes a (b # bs) m = st8 a b (store_bytes (a + 1) bs m)"

lemma unat_of_nat_small: "k < 2 ^ 32 \<Longrightarrow> unat (of_nat k :: u32) = k"
  by (simp add: unsigned_of_nat take_bit_nat_eq_self)

lemma bytes_at_st8: 
  assumes "n < 2 ^ 32" 
  shows "bytes_at (st8 a b m) (a + 1) (n - 1) = bytes_at m (a + 1) (n - 1)"
proof (rule nth_equalityI)
  fix i assume "i < length (bytes_at (st8 a b m) (a + 1) (n - 1))"
  then have i: "i < n - 1" by simp
  then have "unat (of_nat (Suc i) :: u32) = Suc i" using assms by (intro unat_of_nat_small) simp
  then have "(of_nat (Suc i) :: u32) \<noteq> 0" by (metis Zero_not_Suc unsigned_0)
  then have "a + 1 + of_nat i \<noteq> a" by (simp add: ac_simps)
  then show "bytes_at (st8 a b m) (a + 1) (n - 1) ! i = bytes_at m (a + 1) (n - 1) ! i"
    using i by (simp add: bytes_at_nth ld8_st8)
qed simp

lemma bytes_at_store: "length bs < 2 ^ 32 \<Longrightarrow> bytes_at (store_bytes a bs m) a (length bs) = bs"
proof (induction bs arbitrary: a)
  case (Cons b bs)
  have "bytes_at (st8 a b (store_bytes (a + 1) bs m)) (a + 1) (length bs) = bs"
    using Cons bytes_at_st8 [of "Suc (length bs)" a b "store_bytes (a + 1) bs m"] by simp
  then show ?case by (simp add: bytes_at_Suc ld8_st8)
qed simp

lemma descriptor_table:
  "abDescriptors = concat descriptor_list @ [0]" "\<forall>d\<in>set descriptor_list. descr_ok d"
  "length abDescriptors = 133"
  by (simp_all add: abDescriptors_def descriptor_list_def descr_ok_def device_descriptor_def configuration_descriptor_def
     interface_descriptor_def endpoint_descriptor_def string_descriptor_def twobytes_le_def)

lemma table_array: "bytes_at m a (length abDescriptors) = abDescriptors \<Longrightarrow> descr_array m a descriptor_list"
  unfolding descr_array_def using descriptor_table(2)
  by (simp only: descriptor_table(1) length_append length_Cons list.size add_0_right One_nat_def add_Suc_right simp_thms)

definition demo_usb :: machine where
  "demo_usb = upd_ram (store_bytes 0x6000 abDescriptors) demo_machine"

lemma demo_usb_array: "descr_array (ram demo_usb) (Descriptors (gUSBInfo demo_usb)) descriptor_list"
proof -
  have "bytes_at (ram demo_usb) 0x6000 (length abDescriptors) = abDescriptors"
    using bytes_at_store [of abDescriptors "0x6000" "ram demo_machine"] descriptor_table(3) by (simp add: demo_usb_def upd_ram_def)
  then show ?thesis by (intro table_array) (simp add: demo_usb_def upd_ram_def demo_machine_def demo_udi_def)
qed

theorem ep0_get_descriptor_witness:
  "\<exists>s'. tn_usb_EP0_rx_int_func (no_dma (sim 4 8 [0x03020680, 0x00400000])) demo_usb = Some s' \<and>
     sent s' = [string_descriptor 26 [84, 78, 75, 101, 114, 110, 101, 108, 32, 85, 83, 66]]"
proof -
  let ?l = "no_dma (sim 4 8 [0x03020680, 0x00400000])"
  let ?p = "setup_of 0x03020680 0x00400000"
  let ?d = "string_descriptor 26 [84, 78, 75, 101, 114, 110, 101, 108, 32, 85, 83, 66]"
  have dev: "answers (hw_dev ?l)" "accepts (hw_dev ?l)" "delivers (hw_dev ?l) 8 [0x03020680, 0x00400000]"
    by (simp_all add: no_dma_def sim_answers sim_accepts sim_delivers)
  have st: "\<And>h. hw_dev ?l h rUSBCmdData AND STP \<noteq> 0" by (simp add: no_dma_def sim_def)
  have req: "bmRequestType ?p = 0x80" "bRequest ?p = 6" "ucast (drop_bit 8 (wValue ?p)) = (3 :: u8)"
    "unat (wValue ?p AND 0xFF) = 2" "unat (wLength ?p) = 64"
    by (simp_all add: setup_of_def)
  have f: "filter (\<lambda>d. d ! 1 = 3) descriptor_list ! 2 = ?d" "2 < length (filter (\<lambda>d. d ! 1 = 3) descriptor_list)"
    "descr_size ?d = 26" "length ?d = 26"
    by (simp_all add: descriptor_list_def device_descriptor_def configuration_descriptor_def descr_size_def
       interface_descriptor_def endpoint_descriptor_def string_descriptor_def twobytes_le_def)
  have s: "sent demo_usb = []" by (simp add: demo_usb_def upd_ram_def demo_machine_def sent_def)
  have "\<exists>s' a rest. tn_usb_EP0_rx_int_func ?l demo_usb = Some s' \<and> descr_array (ram demo_usb) a (?d # rest) \<and>
      sent s' = sent demo_usb @ [bytes_at (ram demo_usb) a (min (min 64 26) 64)]"
    using ep0_get_descriptor [OF dev st demo_usb_array req(1-4)] unfolding f(1) Let_def req(5) f(3)
    by (simp only: f(2) if_True) blast
  then obtain s' a rest where r: "tn_usb_EP0_rx_int_func ?l demo_usb = Some s'" "descr_array (ram demo_usb) a (?d # rest)"
      "sent s' = sent demo_usb @ [bytes_at (ram demo_usb) a (min (min 64 26) 64)]" by blast
  have "bytes_at (ram demo_usb) a 26 = ?d"
    using descr_array_append(1) [of "ram demo_usb" a "[?d]" rest] r(2) f(4) by simp
  then show ?thesis using r(1,3) s by simp
qed

end
