(* ===== verification/USB_Config.thy ===== *)
theory USB_Config
  imports USB_Descr
begin

text \<open>
  \<open>SET_CONFIGURATION\<close>: the scan over the descriptors that configures the end points, seen as a selection from
  the list of configurations, each with the descriptors that belong to it.
\<close>

section \<open>An end point\<close>

definition ep_pair :: "u8 list \<Rightarrow> u32 \<times> u32" where
  "ep_pair d = (ep_num_lg2ph (ucast (d ! 2) AND 0x8F), ucast (ucast (d ! 4) OR push_bit 8 (ucast (d ! 5)) :: u16))"

lemma config_ep_realizes:
  assumes dev: "answers dev" and da: "descr_array (ram s) a (d # ds)" and ty: "d ! 1 = 5"
  shows "\<exists>h. tn_usb_config_ep dev a s = Some (s\<lparr>io := h\<rparr>) \<and> realized h = realized (io s) @ [ep_pair d] \<and>
    tx_packets h = tx_packets (io s)"
proof -
  have l: "7 \<le> length d" using descr_array_Cons(1) [OF da] ty by (simp add: descr_ok_def)
  have b: "ld8 (ram s) (a + of_nat 2) = d ! 2" "ld8 (ram s) (a + of_nat 4) = d ! 4" "ld8 (ram s) (a + of_nat 5) = d ! 5"
    using l by (intro descr_array_Cons(2) [OF da]; simp)+
  define i where "i = ep_num_lg2ph (ucast (d ! 2) AND 0x8F)"
  define w :: u16 where "w = ucast (d ! 4) OR push_bit 8 (ucast (d ! 5))"
  have addr: "ep_num_lg2ph (ucast (ld8 (ram s) (a + 2)) AND 0x8F) = i" using b(1) by (simp add: i_def)
  have sz: "ld16 (ram s) (a + 4) = w" using b(2,3) by (simp add: ld16_def w_def add.assoc)
  let ?v = "dev (io s) rUSBReEp"
  define s1 where "s1 = s\<lparr>io := Wr rUSBMaxPSize (ucast w) # Wr rUSBEpInd i # Wr rUSBReEp (?v OR push_bit (unat i) 1) # Rd rUSBReEp ?v # io s\<rparr>"
  obtain v k where p: "poll dev rUSBDevIntSt EP_RLZED s1 = Some (v, s1\<lparr>io := polled dev rUSBDevIntSt (Suc k) (io s1)\<rparr>)"
    using poll_answers [OF dev, of EP_RLZED s1] by auto
  define s2 where "s2 = s1\<lparr>io := Wr rUSBDevIntClr EP_RLZED # polled dev rUSBDevIntSt (Suc k) (io s1)\<rparr>"
  obtain h1 where h1: "tn_usb_lpc_cmd_write dev (CMD_EP_SET_STATUS OR i) 0 s2 = Some (s2\<lparr>io := h1\<rparr>)"
    "writes h1 = data_writes 0 @ cmd_writes (CMD_EP_SET_STATUS OR i) @ writes (io s2)"
    using lpc_cmd_write_returns [OF dev] by blast
  obtain h2 where h2: "tn_usb_lpc_cmd_write dev (CMD_EP_SET_STATUS OR i) 0 (s2\<lparr>io := h1\<rparr>) = Some (s2\<lparr>io := h2\<rparr>)"
    "writes h2 = data_writes 0 @ cmd_writes (CMD_EP_SET_STATUS OR i) @ writes h1"
    using lpc_cmd_write_returns [OF dev, of "CMD_EP_SET_STATUS OR i" 0 "s2\<lparr>io := h1\<rparr>"] by auto
  let ?u = "dev h2 rUSBEpIntEn"
  let ?h = "Wr rUSBEpIntEn (?u OR push_bit (unat i) 1) # Rd rUSBEpIntEn ?u # h2"
  have r1: "writes (io s2) = Wr rUSBDevIntClr EP_RLZED # writes (io s1)" by (simp add: s2_def del: polled.simps)
  have "realized (io s2) = realized (io s1)" "tx_packets (io s2) = tx_packets (io s1)"
    using writes_realized(2) [of "io s2"] tx_packets_writes [of "io s2"] unfolding r1
    by (simp_all add: writes_realized tx_packets_writes)
  then have "realized ?h = realized (io s) @ [ep_pair d]" "tx_packets ?h = tx_packets (io s)"
    using no_packets_after [OF h1(2)] no_packets_after [OF h2(2)] by (simp_all add: s1_def ep_pair_def i_def w_def)
  moreover have "tn_usb_config_ep dev a s = Some (s\<lparr>io := ?h\<rparr>)"
    unfolding tn_usb_config_ep_def Let_def addr sz using p h1(1) h2(1)
    by (simp add: reg_or_def reg_read_eq reg_write_def s1_def s2_def addr sz del: polled.simps)
  ultimately show ?thesis by blast
qed

section \<open>The scan\<close>

text \<open>The end point descriptors that count when the alternate setting of the interface is 0, and the
  alternate setting at the end.\<close>

fun conf_eps :: "u8 \<Rightarrow> u8 list list \<Rightarrow> u8 list list" where
  "conf_eps al [] = []"
| "conf_eps al (d # ds) =
     (if d ! 1 = 4 then conf_eps (d ! 3) ds
      else if d ! 1 = 5 \<and> al = 0 then d # conf_eps al ds
      else conf_eps al ds)"

fun last_alt :: "u8 \<Rightarrow> u8 list list \<Rightarrow> u8" where
  "last_alt al [] = al"
| "last_alt al (d # ds) = last_alt (if d ! 1 = 4 then d ! 3 else al) ds"

lemma scan_part:
  assumes dev: "answers dev" and "descr_array (ram s) a (sub @ rest)" and "\<forall>d\<in>set sub. d ! 1 \<noteq> 2"
  shows "\<exists>h. set_config_loop (no_dma dev) a al rc s =
      set_config_loop (no_dma dev) (a + of_nat (length (concat sub))) (last_alt al sub) rc (s\<lparr>io := h\<rparr>) \<and>
    realized h = realized (io s) @ map ep_pair (conf_eps al sub) \<and> tx_packets h = tx_packets (io s)"
  using assms(2,3)
proof (induction sub arbitrary: a al s)
  case Nil
  show ?case by (intro exI [of _ "io s"]) simp
next
  case (Cons d sub)
  have da: "descr_array (ram s) a (d # (sub @ rest))" using Cons.prems(1) by simp
  note c = descr_array_Cons [OF da]
  have ty: "d ! 1 \<noteq> 2" "\<forall>d\<in>set sub. d ! 1 \<noteq> 2" using Cons.prems(2) by simp_all
  have b3: "d ! 1 = 4 \<Longrightarrow> ld8 (ram s) (a + 3) = d ! 3"
    using c(1) c(2) [of 3] by (simp add: descr_ok_def)
  let ?al = "if d ! 1 = 4 then d ! 3 else al"
  have pos: "a + of_nat (length d) + of_nat (length (concat sub)) = a + of_nat (length (concat (d # sub)))" by simp
  obtain h where h: "set_config_loop (no_dma dev) a al rc s =
      set_config_loop (no_dma dev) (a + of_nat (length d)) ?al rc (s\<lparr>io := h\<rparr>)"
    "realized h = realized (io s) @ map ep_pair (conf_eps al [d])" "tx_packets h = tx_packets (io s)"
  proof (cases "d ! 1 = 5 \<and> al = 0")
    case True
    obtain h where "tn_usb_config_ep dev a s = Some (s\<lparr>io := h\<rparr>)" "realized h = realized (io s) @ [ep_pair d]"
      "tx_packets h = tx_packets (io s)" using config_ep_realizes [OF dev da] True by blast
    then show ?thesis using True c by (intro that [of h]) (simp_all add: set_config_loop.simps [of _ a] no_dma_def Let_def)
  next
    case False
    then show ?thesis using c b3 ty(1)
      by (intro that [of "io s"]) (auto simp: set_config_loop.simps [of _ a] no_dma_def Let_def)
  qed
  obtain h' where h': "set_config_loop (no_dma dev) (a + of_nat (length d)) ?al rc (s\<lparr>io := h\<rparr>) =
      set_config_loop (no_dma dev) (a + of_nat (length d) + of_nat (length (concat sub))) (last_alt ?al sub) rc (s\<lparr>io := h'\<rparr>)"
    "realized h' = realized h @ map ep_pair (conf_eps ?al sub)" "tx_packets h' = tx_packets h"
    using Cons.IH [of "s\<lparr>io := h\<rparr>" "a + of_nat (length d)" ?al] c(6) ty(2) by auto
  show ?case
  proof (intro exI conjI)
    show "set_config_loop (no_dma dev) a al rc s = set_config_loop (no_dma dev) (a + of_nat (length (concat (d # sub))))
        (last_alt al (d # sub)) rc (s\<lparr>io := h'\<rparr>)" unfolding h(1) h'(1) pos by simp
    show "realized h' = realized (io s) @ map ep_pair (conf_eps al (d # sub))" using h'(2) h(2) by simp
    show "tx_packets h' = tx_packets (io s)" using h'(3) h(3) by simp
  qed
qed

section \<open>Configurations\<close>

text \<open>A configuration: its descriptor, whose total length is right, and the descriptors that belong to it,
  the first of an interface.\<close>

type_synonym conf = "u8 list \<times> u8 list list"

definition conf_ok :: "conf \<Rightarrow> bool" where
  "conf_ok = (\<lambda>(c, sub). c ! 1 = 2 \<and> (\<forall>d\<in>set sub. d ! 1 \<noteq> 2) \<and> (sub = [] \<or> hd sub ! 1 = 4) \<and>
     total_length c = int (length (concat (c # sub))))"

definition conf_list :: "conf list \<Rightarrow> u8 list list" where
  "conf_list confs = concat (map (\<lambda>(c, sub). c # sub) confs)"

definition chosen :: "u8 \<Rightarrow> conf list \<Rightarrow> conf list" where
  "chosen v = filter (\<lambda>(c, sub). c ! 5 = v)"

definition chosen_eps :: "u8 \<Rightarrow> conf list \<Rightarrow> (u32 \<times> u32) list" where
  "chosen_eps v confs = concat (map (\<lambda>(c, sub). map ep_pair (conf_eps 0 sub)) (chosen v confs))"

definition set_conf :: "u8 \<Rightarrow> machine \<Rightarrow> machine" where
  "set_conf v = upd_udi (\<lambda>u. u\<lparr>Configuration := uint v\<rparr>)"

lemma set_conf_simps [simp]:
  "io (set_conf v s) = io s" "krn (set_conf v s) = krn s" "usp (set_conf v s) = usp s" "eps (set_conf v s) = eps s"
  "set_conf v ((set_conf v s)\<lparr>io := h\<rparr>) = (set_conf v s)\<lparr>io := h\<rparr>" "set_conf v (s\<lparr>io := h\<rparr>) = (set_conf v s)\<lparr>io := h\<rparr>"
  "set_conf v (set_conf v s) = set_conf v s"
  "Configuration (gUSBInfo (set_conf v s)) = uint v" "Descriptors (gUSBInfo (set_conf v s)) = Descriptors (gUSBInfo s)"
  by (simp_all add: set_conf_def upd_udi_def)

lemma low_byte: "(w :: u16) AND 0xFF = ucast (ucast w :: u8)" "(ucast b :: u16) = ucast c \<longleftrightarrow> b = (c :: u8)"
  "uint (ucast b :: u16) = uint (b :: u8)" "(ucast b :: u16) = 0 \<longleftrightarrow> b = 0"
proof -
  have m: "(0xFF :: u16) = mask 8" by (simp add: mask_eq_exp_minus_1)
  show "(w :: u16) AND 0xFF = ucast (ucast w :: u8)"
    by (rule bit_word_eqI) (auto simp: m bit_and_iff bit_mask_iff bit_ucast_iff)
  show u: "uint (ucast b :: u16) = uint (b :: u8)" for b
    using uint_bounded [of b] by (simp add: unsigned_ucast_eq take_bit_int_eq_self)
  show e: "(ucast b :: u16) = ucast c \<longleftrightarrow> b = c" for b c :: u8
    using u [of b] u [of c] by (metis word_uint_eqI)
  show "(ucast b :: u16) = 0 \<longleftrightarrow> b = 0" using e [of b 0] by simp
qed

lemma conf_eps_start: "sub = [] \<or> hd sub ! 1 = 4 \<Longrightarrow> conf_eps al sub = conf_eps 0 sub"
  by (cases sub) auto

lemma scan_confs:
  assumes dev: "answers dev" and "descr_array (ram s) a (conf_list confs @ rest)" and "\<forall>c\<in>set confs. conf_ok c"
    and "wValue (usp s) AND 0xFF = ucast v"
  shows "\<exists>h al'. set_config_loop (no_dma dev) a al rc s =
      set_config_loop (no_dma dev) (a + of_nat (length (concat (conf_list confs)))) al' (rc \<or> chosen v confs \<noteq> [])
        ((if chosen v confs \<noteq> [] then set_conf v s else s)\<lparr>io := h\<rparr>) \<and>
    realized h = realized (io s) @ chosen_eps v confs \<and> tx_packets h = tx_packets (io s)"
  using assms(2-)
proof (induction confs arbitrary: a al rc s)
  case Nil
  show ?case by (intro exI [of _ "io s"] exI [of _ al]) (simp add: chosen_def conf_list_def chosen_eps_def)
next
  case (Cons p confs)
  obtain c sub where p: "p = (c, sub)" by fastforce
  have da: "descr_array (ram s) a (c # (sub @ conf_list confs @ rest))"
    "descr_array (ram s) a ((c # sub) @ (conf_list confs @ rest))"
    using Cons.prems(1) by (simp_all add: p conf_list_def)
  note d = descr_array_Cons [OF da(1)]
  have ok: "c ! 1 = 2" "\<forall>d\<in>set sub. d ! 1 \<noteq> 2" "sub = [] \<or> hd sub ! 1 = 4"
    "total_length c = int (length (concat (c # sub)))" using Cons.prems(2) by (simp_all add: p conf_ok_def)
  have v5: "ld8 (ram s) (a + 5) = c ! 5" using d(1) d(2) [of 5] ok(1) by (simp add: descr_ok_def)
  let ?a = "a + of_nat (length (concat (c # sub)))"
  have pos: "?a + of_nat (length (concat (conf_list confs))) = a + of_nat (length (concat (conf_list (p # confs))))"
    by (simp add: p conf_list_def)
  have tail: "descr_array (ram s) ?a (conf_list confs @ rest)" by (rule descr_array_append(2) [OF da(2)])
  let ?hit = "c ! 5 = v"
  have "\<exists>h al'. set_config_loop (no_dma dev) a al rc s =
      set_config_loop (no_dma dev) ?a al' (rc \<or> ?hit) ((if ?hit then set_conf v s else s)\<lparr>io := h\<rparr>) \<and>
      realized h = realized (io s) @ (if ?hit then map ep_pair (conf_eps 0 sub) else []) \<and> tx_packets h = tx_packets (io s)"
  proof (cases ?hit)
    case False
    have "uint (ld16 (ram s) (a + 2)) = int (length (concat (c # sub)))" using descr_total [OF da(1) ok(1)] ok(4) by simp
    then have "(ucast (ld16 (ram s) (a + 2)) :: u32) = of_nat (length (concat (c # sub)))" by (metis of_int_of_nat_eq of_int_uint)
    then have "set_config_loop (no_dma dev) a al rc s = set_config_loop (no_dma dev) ?a al rc s"
      using False d(4,5) ok(1) v5 Cons.prems(3) by (simp add: set_config_loop.simps [of _ a] Let_def low_byte(2))
    then show ?thesis using False by (intro exI [of _ "io s"] exI [of _ al]) simp
  next
    case True
    obtain h where h: "tn_usb_configure_device dev True (set_conf v s) = Some ((set_conf v s)\<lparr>io := h\<rparr>)"
      "realized h = realized (io s)" "tx_packets h = tx_packets (io s)"
      using lpc_cmd_write_returns [OF dev, of CMD_DEV_CONFIG CONF_DEVICE "set_conf v s"] no_packets_after
      by (auto simp: tn_usb_configure_device_def)
    have "set_config_loop (no_dma dev) a al rc s =
        set_config_loop (no_dma dev) (a + of_nat (length c)) al True ((set_conf v s)\<lparr>io := h\<rparr>)"
      using True d(4,5,7) ok(1) v5 Cons.prems(3) h(1) by (simp add: set_config_loop.simps [of _ a] Let_def low_byte no_dma_def set_conf_def upd_udi_def)
    moreover obtain h' where "set_config_loop (no_dma dev) (a + of_nat (length c)) al True ((set_conf v s)\<lparr>io := h\<rparr>) =
        set_config_loop (no_dma dev) (a + of_nat (length c) + of_nat (length (concat sub))) (last_alt al sub) True ((set_conf v s)\<lparr>io := h'\<rparr>)"
      "realized h' = realized h @ map ep_pair (conf_eps al sub)" "tx_packets h' = tx_packets h"
      using scan_part [OF dev, of "(set_conf v s)\<lparr>io := h\<rparr>" "a + of_nat (length c)" sub "conf_list confs @ rest" al True] d(6) ok(2) by auto
    ultimately show ?thesis using True h conf_eps_start [OF ok(3), of al]
      by (intro exI [of _ h'] exI [of _ "last_alt al sub"]) (simp add: add.assoc)
  qed
  then obtain h al' where h: "set_config_loop (no_dma dev) a al rc s =
      set_config_loop (no_dma dev) ?a al' (rc \<or> ?hit) ((if ?hit then set_conf v s else s)\<lparr>io := h\<rparr>)"
      "realized h = realized (io s) @ (if ?hit then map ep_pair (conf_eps 0 sub) else [])" "tx_packets h = tx_packets (io s)" by blast
  let ?s = "(if ?hit then set_conf v s else s)\<lparr>io := h\<rparr>"
  have same: "krn ?s = krn s" "usp ?s = usp s" by simp_all
  obtain h' al'' where h': "set_config_loop (no_dma dev) ?a al' (rc \<or> ?hit) ?s =
      set_config_loop (no_dma dev) (?a + of_nat (length (concat (conf_list confs)))) al'' ((rc \<or> ?hit) \<or> chosen v confs \<noteq> [])
        ((if chosen v confs \<noteq> [] then set_conf v ?s else ?s)\<lparr>io := h'\<rparr>)"
    "realized h' = realized (io ?s) @ chosen_eps v confs" "tx_packets h' = tx_packets (io ?s)"
    using Cons.IH [of ?s ?a al' "rc \<or> ?hit", unfolded same, OF tail] Cons.prems(2,3) by auto
  have ch: "chosen v (p # confs) = (if ?hit then p # chosen v confs else chosen v confs)" by (simp add: chosen_def p)
  show ?case
  proof (intro exI conjI)
    show "set_config_loop (no_dma dev) a al rc s =
        set_config_loop (no_dma dev) (a + of_nat (length (concat (conf_list (p # confs))))) al'' (rc \<or> chosen v (p # confs) \<noteq> [])
          ((if chosen v (p # confs) \<noteq> [] then set_conf v s else s)\<lparr>io := h'\<rparr>)"
      unfolding h(1) h'(1) pos by (simp add: ch)
    show "realized h' = realized (io s) @ chosen_eps v (p # confs)" using h'(2) h(2) unfolding chosen_eps_def ch by (simp add: p)
    show "tx_packets h' = tx_packets (io s)" using h'(3) h(3) by simp
  qed
qed

section \<open>The request\<close>

lemma conf_eps_none: "\<forall>d\<in>set ds. d ! 1 \<notin> {2, 4, 5} \<Longrightarrow> conf_eps al ds = []"
  by (induction ds) simp_all

lemma set_configuration:
  assumes dev: "answers dev" and da: "descr_array (ram s) (Descriptors (gUSBInfo s)) (pre @ conf_list confs @ post)"
    and ot: "\<forall>d\<in>set (pre @ post). d ! 1 \<notin> {2, 4, 5}" and ok: "\<forall>c\<in>set confs. conf_ok c"
    and v: "ucast (wValue (usp s)) = v"
  shows "\<exists>h. usb_SET_CONFIGURATION (no_dma dev) s = Some (v = 0 \<or> chosen v confs \<noteq> [] \<or> Configuration (gUSBInfo s) = uint v,
      (if v = 0 \<or> chosen v confs \<noteq> [] then set_conf v s else s)\<lparr>io := h\<rparr>) \<and>
    realized h = realized (io s) @ (if v = 0 then [] else chosen_eps v confs) \<and> tx_packets h = tx_packets (io s)"
proof (cases "v = 0")
  case True
  have z: "wValue (usp s) AND 0xFF = 0" using True v by (simp add: low_byte(1))
  obtain h where h: "tn_usb_configure_device dev False (set_conf 0 s) = Some ((set_conf 0 s)\<lparr>io := h\<rparr>)"
    "realized h = realized (io s)" "tx_packets h = tx_packets (io s)"
    using lpc_cmd_write_returns [OF dev, of CMD_DEV_CONFIG 0 "set_conf 0 s"] no_packets_after
    by (auto simp: tn_usb_configure_device_def)
  then show ?thesis using True z
    by (intro exI [of _ h]) (simp add: usb_SET_CONFIGURATION_def no_dma_def set_conf_def upd_udi_def)
next
  case False
  have cv: "wValue (usp s) AND 0xFF = ucast v" using v by (simp add: low_byte(1))
  let ?l = "no_dma dev" and ?a = "Descriptors (gUSBInfo s)"
  have t: "\<forall>d\<in>set pre. d ! 1 \<noteq> 2" "\<forall>d\<in>set post. d ! 1 \<noteq> 2" using ot by auto
  have e: "conf_eps al pre = []" "conf_eps al post = []" for al using ot by (auto intro!: conf_eps_none)
  obtain h1 where h1: "set_config_loop ?l ?a 0 False s =
      set_config_loop ?l (?a + of_nat (length (concat pre))) (last_alt 0 pre) False (s\<lparr>io := h1\<rparr>)"
    "realized h1 = realized (io s)" "tx_packets h1 = tx_packets (io s)"
    using scan_part [OF dev da t(1), of 0 False] e by auto
  let ?s1 = "s\<lparr>io := h1\<rparr>" and ?a1 = "?a + of_nat (length (concat pre))"
  have da1: "descr_array (ram ?s1) ?a1 (conf_list confs @ post)" using descr_array_append(2) [OF da] by simp
  let ?s2 = "if chosen v confs \<noteq> [] then set_conf v s else s" and ?a2 = "?a1 + of_nat (length (concat (conf_list confs)))"
  have eq: "(if chosen v confs \<noteq> [] then set_conf v ?s1 else ?s1)\<lparr>io := h\<rparr> = ?s2\<lparr>io := h\<rparr>" for h by simp
  obtain h2 al where h2: "set_config_loop ?l ?a1 (last_alt 0 pre) False ?s1 =
      set_config_loop ?l ?a2 al (chosen v confs \<noteq> []) (?s2\<lparr>io := h2\<rparr>)"
    "realized h2 = realized (io s) @ chosen_eps v confs" "tx_packets h2 = tx_packets (io s)"
    using scan_confs [OF dev da1 ok, of v "last_alt 0 pre" False] cv h1(2,3) eq by auto
  have da2: "descr_array (ram (?s2\<lparr>io := h2\<rparr>)) ?a2 (post @ [])" using descr_array_append(2) [OF da1] by simp
  obtain h3 where h3: "set_config_loop ?l ?a2 al (chosen v confs \<noteq> []) (?s2\<lparr>io := h2\<rparr>) =
      set_config_loop ?l (?a2 + of_nat (length (concat post))) (last_alt al post) (chosen v confs \<noteq> []) (?s2\<lparr>io := h3\<rparr>)"
    "realized h3 = realized h2" "tx_packets h3 = tx_packets h2"
    using scan_part [OF dev da2 t(2), of al "chosen v confs \<noteq> []"] e by auto
  have "ld8 (ram (?s2\<lparr>io := h3\<rparr>)) (?a2 + of_nat (length (concat post))) = 0"
    using descr_array_Nil [OF descr_array_append(2) [OF da2]] by simp
  then have "set_config_loop ?l ?a 0 False s = Some (chosen v confs \<noteq> [], ?s2\<lparr>io := h3\<rparr>)"
    unfolding h1(1) h2(1) h3(1) by (simp add: set_config_loop.simps [of ?l "?a2 + of_nat (length (concat post))"])
  then show ?thesis using False cv h2 h3
    by (intro exI [of _ h3]) (simp add: usb_SET_CONFIGURATION_def low_byte)
qed

text \<open>C12. The whole way of a request \<open>SET_CONFIGURATION\<close>: when the set-up packet arrives and there is a configuration with the value
  the host asks for, the interrupt handler realizes exactly the end points of its interfaces with
  alternate setting 0, in the order of the descriptors and each with the packet size of its descriptor, remembers the value
  and answers with an empty packet; the other configurations are skipped. The value 0 leaves the
  configured state. A value that no configuration has stalls the end point, unless it is already set.\<close>

theorem ep0_set_configuration:
  assumes dev: "answers dev" "accepts dev" "delivers dev 8 [w0, w1]" and st: "\<And>h. dev h rUSBCmdData AND STP \<noteq> 0"
    and da: "descr_array (ram s) (Descriptors (gUSBInfo s)) (pre @ conf_list confs @ post)"
    and ot: "\<forall>d\<in>set (pre @ post). d ! 1 \<notin> {2, 4, 5}" and ok: "\<forall>c\<in>set confs. conf_ok c"
    and req: "bmRequestType (setup_of w0 w1) = 0" "bRequest (setup_of w0 w1) = 9" "wLength (setup_of w0 w1) = 0"
    and v: "ucast (wValue (setup_of w0 w1)) = v"
  shows "\<exists>s'. tn_usb_EP0_rx_int_func (no_dma dev) s = Some s' \<and> krn s' = krn s \<and>
    Configuration (gUSBInfo s') = (if v = 0 \<or> chosen v confs \<noteq> [] then uint v else Configuration (gUSBInfo s)) \<and>
    realized (io s') = realized (io s) @ (if v = 0 then [] else chosen_eps v confs) \<and>
    sent s' = sent s @ (if v = 0 \<or> chosen v confs \<noteq> [] \<or> Configuration (gUSBInfo s) = uint v then [[]] else [])"
proof -
  let ?l = "no_dma dev" and ?rc = "v = 0 \<or> chosen v confs \<noteq> [] \<or> Configuration (gUSBInfo s) = uint v"
  have l: "hw_dev ?l = dev" by (simp add: no_dma_def)
  obtain s2 where run: "tn_usb_EP0_rx_int_func ?l s = do {
        (rc, s) \<leftarrow> tn_usb_EP0_SETUP ?l s2;
        s \<leftarrow> (if \<not> rc then tn_usb_stall_ep dev 0 True s
               else tn_usb_st_DATAIN dev (if nbytes (eps s) > uint (wLength (usp s))
                       then upd_eps (\<lambda>e. e\<lparr>nbytes := uint (wLength (usp s))\<rparr>) s else s));
        Some (reg_write rUSBEpIntClr 1 s) }"
    and s2: "usp s2 = setup_of w0 w1" "krn s2 = krn s" "Descriptors (gUSBInfo s2) = Descriptors (gUSBInfo s)"
      "Configuration (gUSBInfo s2) = Configuration (gUSBInfo s)" "sent s2 = sent s" "realized (io s2) = realized (io s)"
      "nbytes (eps s2) = 0"
    using setup_arrives [of ?l, unfolded l, OF dev(1,3) st, of s] req(3) by auto
  have ep0: "tn_usb_EP0_SETUP ?l s2 = usb_SET_CONFIGURATION ?l s2"
    using req s2(1) by (simp add: tn_usb_EP0_SETUP_def std_out_request_def)
  let ?s3 = "if v = 0 \<or> chosen v confs \<noteq> [] then set_conf v s2 else s2"
  obtain h where h: "usb_SET_CONFIGURATION ?l s2 = Some (?rc, ?s3\<lparr>io := h\<rparr>)"
    "realized h = realized (io s) @ (if v = 0 then [] else chosen_eps v confs)" "tx_packets h = tx_packets (io s2)"
    using set_configuration [OF dev(1), of s2 pre confs post v] da ot ok v s2 by auto
  let ?s4 = "?s3\<lparr>io := h\<rparr>"
  have s4: "krn ?s4 = krn s" "nbytes (eps ?s4) = int 0" "sent ?s4 = sent s" "realized (io ?s4) = realized h"
    "uint (wLength (usp ?s4)) = 0"
    "Configuration (gUSBInfo ?s4) = (if v = 0 \<or> chosen v confs \<noteq> [] then uint v else Configuration (gUSBInfo s))"
    using s2 h(3) req(3) by (simp_all add: sent_def)
  show ?thesis
  proof (cases ?rc)
    case True
    obtain s5 where s5: "tn_usb_st_DATAIN dev ?s4 = Some s5" "sent s5 = sent ?s4 @ [bytes_at (ram ?s4) (pdata (eps ?s4)) (min 0 64)]"
      "krn s5 = krn ?s4" "Configuration (gUSBInfo s5) = Configuration (gUSBInfo ?s4)" "realized (io s5) = realized (io ?s4)"
      using datain_sends [OF dev(1,2) s4(2)] by blast
    have "tn_usb_EP0_rx_int_func ?l s = Some (reg_write rUSBEpIntClr 1 s5)"
      unfolding run ep0 h(1) bind.bind_lunit prod.case s4(2,5) using True s5(1) by simp
    then show ?thesis using True s4 s5(2-5) h(2) by (simp add: reg_write_def sent_def bytes_at_0)
  next
    case False
    obtain h5 where h5: "tn_usb_stall_ep dev 0 True ?s4 = Some (?s4\<lparr>io := h5\<rparr>)" "realized h5 = realized (io ?s4)"
      "sent (?s4\<lparr>io := h5\<rparr>) = sent ?s4" using stall_ep0 [OF dev(1)] by blast
    have "tn_usb_EP0_rx_int_func ?l s = Some (reg_write rUSBEpIntClr 1 (?s4\<lparr>io := h5\<rparr>))"
      unfolding run ep0 h(1) bind.bind_lunit prod.case using False h5(1) by simp
    then show ?thesis using False s4 h5(2,3) h(2) by (simp add: reg_write_def sent_def)
  qed
qed

section \<open>The configuration of the program\<close>

definition the_conf :: conf where
  "the_conf = (configuration_descriptor, [interface_descriptor, endpoint_descriptor 2, endpoint_descriptor 0x82,
     endpoint_descriptor 5, endpoint_descriptor 0x85])"

definition string_table :: "u8 list list" where
  "string_table = drop 7 descriptor_list"

lemmas descr_defs = descriptor_list_def device_descriptor_def configuration_descriptor_def interface_descriptor_def
  endpoint_descriptor_def string_descriptor_def twobytes_le_def

lemma the_conf_table: "descriptor_list = [device_descriptor] @ conf_list [the_conf] @ string_table"
  by (simp add: string_table_def descriptor_list_def conf_list_def the_conf_def)

lemma the_conf_ok: "conf_ok the_conf"
  by (simp add: conf_ok_def the_conf_def total_length_def descr_defs)

lemma the_conf_others: "\<forall>d\<in>set ([device_descriptor] @ string_table). d ! 1 \<notin> {2, 4, 5}"
  by (simp add: string_table_def descr_defs)

lemma the_conf_eps: "chosen_eps 1 [the_conf] = [(4, 64), (5, 64), (10, 64), (11, 64)]" "chosen 1 [the_conf] = [the_conf]"
  by (simp_all add: chosen_eps_def chosen_def the_conf_def ep_pair_def ep_num_lg2ph_def descr_defs)

theorem ep0_set_configuration_witness:
  "\<exists>s'. tn_usb_EP0_rx_int_func (no_dma (sim 4 8 [0x00010900, 0])) demo_usb = Some s' \<and>
     Configuration (gUSBInfo s') = 1 \<and> realized (io s') = [(4, 64), (5, 64), (10, 64), (11, 64)] \<and> sent s' = [[]]"
proof -
  let ?d = "sim 4 8 [0x00010900, 0]"
  have dev: "answers ?d" "accepts ?d" "delivers ?d 8 [0x00010900, 0]"
    by (simp_all add: sim_answers sim_accepts sim_delivers)
  have st: "\<And>h. ?d h rUSBCmdData AND STP \<noteq> 0" by (simp add: sim_def)
  have req: "bmRequestType (setup_of 0x00010900 0) = 0" "bRequest (setup_of 0x00010900 0) = 9"
    "wLength (setup_of 0x00010900 0) = 0" "ucast (wValue (setup_of 0x00010900 0)) = (1 :: u8)"
    by (simp_all add: setup_of_def)
  have s: "sent demo_usb = []" "realized (io demo_usb) = []"
    by (simp_all add: demo_usb_def upd_ram_def demo_machine_def sent_def)
  have ok: "\<forall>c\<in>set [the_conf]. conf_ok c" using the_conf_ok by simp
  from ep0_set_configuration [OF dev st demo_usb_array [unfolded the_conf_table] the_conf_others ok req]
  show ?thesis unfolding the_conf_eps s by auto
qed

end
