(* ===== verification/USB_App_Dma.thy ===== *)
theory USB_App_Dma
  imports USB_App
begin

text \<open>
  The application of the device with DMA, \<^verbatim>\<open>usb_tst2.c\<close>, where it differs from \<open>USB_App\<close>: the main
  function prepares the DMA descriptors, the queues and pools of the IN end points are smaller by
  the descriptor that sends no packet, and a task that receives starts the DMA again. The tasks
  \<open>task_ep5_tx_func\<close>, \<open>task_processing_func\<close> and \<open>task_io_func\<close> have the same body as there.
\<close>

definition app_queues_dma :: "app_addresses \<Rightarrow> kernel \<Rightarrow> kernel option" where
  "app_queues_dma a k =
     do {
       k \<leftarrow> app_queue a 0 8 k;
       k \<leftarrow> app_queue a 1 7 k;
       k \<leftarrow> app_queue a 2 8 k;
       k \<leftarrow> app_queue a 3 7 k;
       app_queue a 4 16 k
     }"

definition app_pools_dma :: "app_addresses \<Rightarrow> kernel \<Rightarrow> kernel option" where
  "app_pools_dma a k =
     do {
       k \<leftarrow> app_pool a 0 8 k;
       k \<leftarrow> app_pool a 1 7 k;
       k \<leftarrow> app_pool a 2 8 k;
       k \<leftarrow> app_pool a 3 7 k;
       app_pool a 4 16 k
     }"

definition tn_app_init_dma :: "app_addresses \<Rightarrow> kernel \<Rightarrow> kernel option" where
  "tn_app_init_dma a k = do { k \<leftarrow> app_tasks a k; k \<leftarrow> app_queues_dma a k; app_pools_dma a k }"

text \<open>The four calls that prepare the descriptors, in \<open>main\<close>\<close>

definition dma_init_all :: "machine \<Rightarrow> machine" where
  "dma_init_all s =
     (let s = tn_usb_dma_rx_init (edi 4 0) s;
          s = tn_usb_dma_tx_init (edi 5 1) s;
          s = tn_usb_dma_rx_init (edi 10 2) s
      in tn_usb_dma_tx_init (edi 11 3) s)"

definition usb_main_dma :: "device \<Rightarrow> int_vectors \<Rightarrow> link_addresses \<Rightarrow> app_addresses \<Rightarrow> machine \<Rightarrow> machine option" where
  "usb_main_dma dev v l a s =
     do {
       let s = s\<lparr>krn := snd (tn_cpu_save_sr (krn s))\<rparr>;
       s \<leftarrow> HardwareInit_dma dev v s;
       let s = upd_udi (\<lambda>u. u\<lparr>Descriptors := descr_addr a\<rparr>) s;
       let s = tn_usb_reset_data (upd_eps (\<lambda>e. e\<lparr>pbuf := ep0_buf a\<rparr>) s);
       let s = dma_init_all s;
       k \<leftarrow> tn_start_system l (krn s);
       Some (s\<lparr>krn := k\<rparr>)
     }"

definition task_ep2_rx_func_dma :: prog where
  "task_ep2_rx_func_dma =
     Call (tn_queue_receive (Some 0) True TN_WAIT_INFINITE) (\<lambda>rc ptr1.
       if rc = TERR_NO_ERR then
         Call (tn_fmem_get (Some 4) True TN_WAIT_INFINITE) (\<lambda>rc ptr.
           let finish = Call (tn_fmem_release (Some 0) ptr1)
                          (\<lambda>_ _. Local (\<lambda>s. Some (reg_write rUSBEpDMAEn (push_bit 4 1) s)) Again)
           in if rc = TERR_NO_ERR
              then Local (memcpy_s ptr ptr1 64)
                     (Call (tn_queue_send (Some 4) ptr TN_WAIT_INFINITE) (\<lambda>_ _. finish))
              else finish)
       else Again)"

definition task_ep5_rx_func_dma :: "u32 \<Rightarrow> prog" where
  "task_ep5_rx_func_dma dbg_buf =
     Call (tn_queue_receive (Some 2) True TN_WAIT_INFINITE) (\<lambda>rc ptr.
       if rc = TERR_NO_ERR
       then Local (memcpy_s dbg_buf ptr 64)
              (Call (tn_fmem_release (Some 2) ptr)
                (\<lambda>_ _. Local (\<lambda>s. Some (reg_write rUSBEpDMAEn (push_bit 10 1) s)) Again))
       else Again)"

end
