(* ===== verification/USB_Dma_Init.thy ===== *)
theory USB_Dma_Init
  imports USB_Bytes USB_App_Dma
begin

text \<open>
  The DMA descriptors of a receiving end point as \<open>tn_usb_dma_rx_init\<close> leaves them, and what is wrong with them: the
  buffers overlap.
\<close>

section \<open>One descriptor\<close>

text \<open>The six words of descriptor \<open>i\<close>, at address \<open>d\<close>, with its buffer at \<open>b\<close>.\<close>

definition dd_words :: "ep_dma_info \<Rightarrow> u32 \<Rightarrow> nat \<Rightarrow> u32 \<Rightarrow> (u32 \<Rightarrow> u32) \<Rightarrow> bool" where
  "dd_words e d i b m \<longleftrightarrow> m d = 0 \<and> m (d + 4) = word_1 (edi_dma_addr e) \<and> m (d + 8) = b \<and>
     m (d + 12) = (if i = 0 then 0 else 1) \<and> m (d + 16) = 0 \<and> m (d + 20) = b"

definition dd_cells :: "u32 \<Rightarrow> u32 set" where
  "dd_cells d = {d, d + 4, d + 8, d + 12, d + 16, d + 20}"

lemma dd_words_cong: "(\<And>x. x \<in> dd_cells d \<Longrightarrow> m' x = m x) \<Longrightarrow> dd_words e d i b m' = dd_words e d i b m"
  by (simp add: dd_words_def dd_cells_def)

lemma aligned_cells:
  assumes "(d :: u32) AND 3 = 0"
  shows "d AND NOT 3 = d" "(d + 4) AND NOT 3 = d + 4" "(d + 8) AND NOT 3 = d + 8" "(d + 12) AND NOT 3 = d + 12"
    "(d + 16) AND NOT 3 = d + 16" "(d + 20) AND NOT 3 = d + 20" "(d + 24) AND 3 = 0"
proof -
  have a: "(d + k) AND 3 = 0" if "k AND 3 = 0" for k
  proof -
    have "unat (d + k) mod 4 = (unat d + unat k) mod 2 ^ 32 mod 4" by (simp add: unat_word_ariths)
    also have "\<dots> = (unat d + unat k) mod 4" by (rule mod_mod_cancel) simp
    also have "\<dots> = (unat d mod 4 + unat k mod 4) mod 4" by (simp only: mod_add_eq)
    also have "\<dots> = 0" using assms that mask_3(2) [of d] mask_3(2) [of k] by simp
    finally have "unat ((d + k) AND 3) = 0" using mask_3(2) [of "d + k"] by simp
    then show ?thesis by (simp only: unat_eq_0)
  qed
  have "(4 :: u32) AND 3 = 0" "(8 :: u32) AND 3 = 0" "(12 :: u32) AND 3 = 0" "(16 :: u32) AND 3 = 0"
    "(20 :: u32) AND 3 = 0" "(24 :: u32) AND 3 = 0" by simp_all
  note k = this [THEN a]
  show "d AND NOT 3 = d" by (rule aligned_low [OF assms])
  show "(d + 4) AND NOT 3 = d + 4" "(d + 8) AND NOT 3 = d + 8" "(d + 12) AND NOT 3 = d + 12"
    "(d + 16) AND NOT 3 = d + 16" "(d + 20) AND NOT 3 = d + 20" "(d + 24) AND 3 = 0"
    using k aligned_low by blast+
qed

text \<open>One turn of the loop.\<close>

definition rx_step :: "ep_dma_info \<Rightarrow> nat \<Rightarrow> u32 \<Rightarrow> u32 \<Rightarrow> (u32 \<Rightarrow> u32) \<Rightarrow> u32 \<Rightarrow> u32" where
  "rx_step e i d b m =
     (let m = st32 d 0 m;
          m = st32 (d + 4) (word_1 (edi_dma_addr e)) m;
          m = (if i = 0 then st32 (d + 12) 0 (st32 (pUDCA_pos e) d m) else st32 (d + 12) 1 m);
          m = st32 (d + 8) b m;
          m = st32 (d + 16) 0 m
      in st32 (d + 20) b m)"

lemma rx_loop_Suc: "dma_rx_loop e i (Suc n) d b z m = dma_rx_loop e (Suc i) n (d + DD_SIZE) (b + z) z (rx_step e i d b m)"
  by (simp add: rx_step_def Let_def)

lemma rx_step_words:
  assumes d: "d AND 3 = 0" and u: "pUDCA_pos e AND 3 = 0" "pUDCA_pos e \<notin> dd_cells d"
  shows "dd_words e d i b (rx_step e i d b m)"
    "x \<notin> dd_cells d \<Longrightarrow> rx_step e i d b m x = (if i = 0 \<and> x = pUDCA_pos e then d else m x)"
  using u(2) aligned_cells [OF d] aligned_low [OF u(1)]
  by (auto simp: dd_words_def dd_cells_def rx_step_def st32_def Let_def)

section \<open>All descriptors\<close>

lemma cell_offset: "x \<in> dd_cells (d + of_nat p) \<longleftrightarrow> (\<exists>k \<in> {0, 4, 8, 12, 16, 20}. x = d + of_nat (p + k))"
  by (auto simp: dd_cells_def add.assoc)

lemma cells_disjoint:
  assumes "p + 24 \<le> q" and "q + 24 \<le> 2 ^ 32"
  shows "dd_cells (d + of_nat p) \<inter> dd_cells (d + of_nat q) = {}"
proof -
  have "d + of_nat (p + k) \<noteq> d + of_nat (q + l)" if "k \<le> 20" "l \<le> 20" for k l
  proof
    assume "d + of_nat (p + k) = d + of_nat (q + l)"
    then have "unat (of_nat (p + k) :: u32) = unat (of_nat (q + l) :: u32)" by (simp del: of_nat_add)
    then have "p + k = q + l" using assms that by (simp add: unsigned_of_nat take_bit_nat_eq_self del: of_nat_add)
    then show False using assms that by simp
  qed
  moreover have "\<exists>k \<le> 20. x = d + of_nat (p + k)" if "x \<in> dd_cells (d + of_nat p)" for x p
  proof -
    have "\<exists>k \<in> {0, 4, 8, 12, 16, 20}. x = d + of_nat (p + k)" using that by (simp only: cell_offset)
    then obtain k where k: "k \<in> {0, 4, 8, 12, 16, 20}" "x = d + of_nat (p + k)" by (rule bexE)
    from k(1) have "k \<le> 20" by auto
    with k(2) show ?thesis by (intro exI [of _ k] conjI)
  qed
  ultimately show ?thesis by blast
qed

lemma rx_loop_words:
  assumes "d AND 3 = 0" and "pUDCA_pos e AND 3 = 0" and "24 * n \<le> 2 ^ 32"
    and "\<And>j. j < n \<Longrightarrow> pUDCA_pos e \<notin> dd_cells (d + of_nat (24 * j))"
  shows "(\<forall>j < n. dd_words e (d + of_nat (24 * j)) (i + j) (b + of_nat j * z) (dma_rx_loop e i n d b z m)) \<and>
    (\<forall>x. (\<forall>j < n. x \<notin> dd_cells (d + of_nat (24 * j))) \<longrightarrow>
       dma_rx_loop e i n d b z m x = (if i = 0 \<and> 0 < n \<and> x = pUDCA_pos e then d else m x))"
  using assms
proof (induction n arbitrary: i d b m)
  case (Suc n)
  let ?m = "rx_step e i d b m"
  let ?r = "dma_rx_loop e (Suc i) n (d + 24) (b + z) z ?m"
  have at: "d + 24 + of_nat (24 * j) = d + of_nat (24 * Suc j)" for j by (simp add: algebra_simps)
  have al: "(d + 24) AND 3 = 0" by (rule aligned_cells [OF Suc.prems(1)])
  have u0: "pUDCA_pos e \<notin> dd_cells d" using Suc.prems(4) [of 0] by simp
  note st = rx_step_words [where i = i and b = b and m = m, OF Suc.prems(1,2) u0]
  have le: "24 * n \<le> 2 ^ 32" using Suc.prems(3) by simp
  have un: "pUDCA_pos e \<notin> dd_cells (d + 24 + of_nat (24 * j))" if "j < n" for j
    unfolding at by (rule Suc.prems(4)) (use that in simp)
  note ih0 = Suc.IH [where i = "Suc i" and b = "b + z" and m = ?m, OF al Suc.prems(2) le un, unfolded at]
  have ih: "\<forall>j < n. dd_words e (d + of_nat (24 * Suc j)) (Suc i + j) (b + z + of_nat j * z) ?r"
    "\<forall>x. (\<forall>j < n. x \<notin> dd_cells (d + of_nat (24 * Suc j))) \<longrightarrow> ?r x = ?m x"
    using ih0 by simp_all
  have out: "x \<notin> dd_cells (d + of_nat (24 * Suc j))" if "x \<in> dd_cells d" "j < n" for x j
    using cells_disjoint [of 0 "24 * Suc j" d] Suc.prems(3) that by auto
  have "dd_words e d i b ?r = dd_words e d i b ?m"
    by (rule dd_words_cong) (use ih(2) out in blast)
  then have hd: "dd_words e d i b ?r" using st(1) by simp
  have "dd_words e (d + of_nat (24 * j)) (i + j) (b + of_nat j * z) ?r" if "j < Suc n" for j
  proof (cases j)
    case (Suc k)
    have "dd_words e (d + of_nat (24 * Suc k)) (Suc i + k) (b + z + of_nat k * z) ?r" using ih(1) Suc that by blast
    moreover have "b + of_nat j * z = b + z + of_nat k * z" "Suc i + k = i + j" using Suc by (simp_all add: algebra_simps)
    ultimately show ?thesis using Suc by metis
  qed (use hd in simp)
  moreover have "?r x = (if i = 0 \<and> x = pUDCA_pos e then d else m x)" if "\<forall>j < Suc n. x \<notin> dd_cells (d + of_nat (24 * j))" for x
  proof -
    have "?r x = ?m x" using ih(2) that by (metis Suc_less_eq)
    moreover have "x \<notin> dd_cells d" using that by force
    ultimately show ?thesis using st(2) by simp
  qed
  ultimately show ?case unfolding rx_loop_Suc by simp
qed simp

text \<open>C40. \<open>tn_usb_dma_rx_init\<close> writes \<open>nbuffers\<close> descriptors, one behind the other, the first one active and the others marked as
  retired, and enters the first one in the table of the controller, and changes nothing else. The address of the buffer grows
  from one descriptor to the next by the number of words of a buffer, not by its number of bytes.\<close>

theorem dma_rx_descriptors:
  assumes "pDD (edi_dma_addr e) AND 3 = 0" and "pUDCA_pos e AND 3 = 0" and "24 * nbuffers (edi_dma_addr e) \<le> 2 ^ 32"
    and "0 < nbuffers (edi_dma_addr e)"
    and "\<forall>j < nbuffers (edi_dma_addr e). pUDCA_pos e \<notin> dd_cells (pDD (edi_dma_addr e) + of_nat (24 * j))"
  shows "(\<forall>j < nbuffers (edi_dma_addr e).
      dd_words e (pDD (edi_dma_addr e) + of_nat (24 * j)) j
        (p_data_buffers (edi_dma_addr e) + of_nat j * (drop_bit 16 (word_1 (edi_dma_addr e)) div 4)) (ram (tn_usb_dma_rx_init e s))) \<and>
    ram (tn_usb_dma_rx_init e s) (pUDCA_pos e) = pDD (edi_dma_addr e) \<and>
    (\<forall>x. x \<noteq> pUDCA_pos e \<and> (\<forall>j < nbuffers (edi_dma_addr e). x \<notin> dd_cells (pDD (edi_dma_addr e) + of_nat (24 * j))) \<longrightarrow>
      ram (tn_usb_dma_rx_init e s) x = ram s x)"
proof -
  have w: "drop_bit 16 (word_1 (edi_dma_addr e)) AND 0xFFFF = drop_bit 16 (word_1 (edi_dma_addr e))"
  proof (rule bit_word_eqI)
    fix n
    have m: "(0xFFFF :: u32) = mask 16" by (simp add: mask_eq_exp_minus_1)
    have "\<not> bit (word_1 (edi_dma_addr e)) (16 + n)" if "16 \<le> n" using that by (auto dest: bit_imp_le_length)
    then have "bit (word_1 (edi_dma_addr e)) (16 + n) \<Longrightarrow> n < 16" by (metis not_less)
    then show "bit (drop_bit 16 (word_1 (edi_dma_addr e)) AND 0xFFFF) n \<longleftrightarrow> bit (drop_bit 16 (word_1 (edi_dma_addr e))) n"
      unfolding m by (auto simp: bit_and_iff bit_mask_iff bit_drop_bit_eq)
  qed
  have "dma_buf_size e = drop_bit 16 (word_1 (edi_dma_addr e)) div 4"
    unfolding dma_buf_size_def w by (subst drop_bit_eq_div [of 2]) simp
  then show ?thesis
    using rx_loop_words [OF assms(1-3), of 0 "p_data_buffers (edi_dma_addr e)" "dma_buf_size e" "ram s"] assms(4,5)
    by (simp add: tn_usb_dma_rx_init_def upd_ram_def)
qed

text \<open>The receiving end point 2 of the program: the buffers are 64 bytes long and 16 bytes apart.\<close>

theorem dma_rx_descriptors_witness:
  "\<forall>s. drop_bit 16 (ram (tn_usb_dma_rx_init (edi 4 0) s) (EP2_RX_DD + 4)) = 64 \<and>
     ram (tn_usb_dma_rx_init (edi 4 0) s) (EP2_RX_DD + 32) = ram (tn_usb_dma_rx_init (edi 4 0) s) (EP2_RX_DD + 8) + 16"
proof
  fix s
  let ?e = "edi 4 0" and ?m = "ram (tn_usb_dma_rx_init (edi 4 0) s)"
  have e: "pDD (edi_dma_addr ?e) = EP2_RX_DD" "nbuffers (edi_dma_addr ?e) = 8" "word_1 (edi_dma_addr ?e) = 0x400800"
    "pUDCA_pos ?e = 0x7FD00010" "p_data_buffers (edi_dma_addr ?e) = EP2_RX_DATABUF"
    by (simp_all add: edi_def gDMAAddresses_def DMA_EP_BULK_WORD_1_def Let_def)
  have dd: "EP2_RX_DD = 0x7FD00080" by (simp add: EP2_RX_DD_def)
  have "pUDCA_pos ?e \<notin> dd_cells (pDD (edi_dma_addr ?e) + of_nat (24 * j))" if "j < nbuffers (edi_dma_addr ?e)" for j
  proof -
    have "j = 0 \<or> j = 1 \<or> j = 2 \<or> j = 3 \<or> j = 4 \<or> j = 5 \<or> j = 6 \<or> j = 7" using that e(2) by linarith
    then show ?thesis unfolding e dd by (elim disjE) (simp_all add: dd_cells_def)
  qed
  then have "\<forall>j < 8. dd_words ?e (EP2_RX_DD + of_nat (24 * j)) j (EP2_RX_DATABUF + of_nat j * (drop_bit 16 0x400800 div 4)) ?m"
    using dma_rx_descriptors [of ?e s] by (simp add: e dd)
  then have "dd_words ?e (EP2_RX_DD + of_nat (24 * 0)) 0 (EP2_RX_DATABUF + of_nat 0 * (drop_bit 16 0x400800 div 4)) ?m"
    "dd_words ?e (EP2_RX_DD + of_nat (24 * 1)) 1 (EP2_RX_DATABUF + of_nat 1 * (drop_bit 16 0x400800 div 4)) ?m"
    by (meson zero_less_numeral one_less_numeral_iff semiring_norm)+
  then show "drop_bit 16 (?m (EP2_RX_DD + 4)) = 64 \<and> ?m (EP2_RX_DD + 32) = ?m (EP2_RX_DD + 8) + 16"
    by (simp add: dd_words_def e dd)
qed

end
