(* ===== verification/USB_Loader.thy ===== *)
theory USB_Loader
  imports TN_Prelude "HOL-Library.Word"
begin

text \<open>
  The flash loader, \<^verbatim>\<open>CrossWorks_GCC/loader/loader.c\<close> (the same file in both devices): it keeps one block of 4096 bytes in RAM, in
  which the bytes that the host sends are changed, and writes the block to the flash when it needs another one.

  The In-Application-Programming routines in the boot ROM of the chip and the memory they change are not code of this repository:
  they are the parameter \<open>rom\<close>, over a type of chip states. What the properties assume of them (\<open>rom_ok\<close>) is what
  the user manual of the chip says of the two commands that write; \<open>sim_rom\<close> is a chip that does so.
  \<open>loaderReadWord\<close> is not in the repository either; the words it will return are a list.
\<close>

unbundle bit_operations_syntax

section \<open>Constants and state\<close>

abbreviation (input) IAP_CMD_PREPARE_SECTORS_FOR_WRITE_OPERATION :: u32 where "IAP_CMD_PREPARE_SECTORS_FOR_WRITE_OPERATION \<equiv> 50"
abbreviation (input) IAP_CMD_COPY_RAM_TO_FLASH :: u32 where "IAP_CMD_COPY_RAM_TO_FLASH \<equiv> 51"
abbreviation (input) IAP_CMD_ERASE_SECTORS :: u32 where "IAP_CMD_ERASE_SECTORS \<equiv> 52"
abbreviation (input) IAP_CMD_READ_PART_ID :: u32 where "IAP_CMD_READ_PART_ID \<equiv> 54"
abbreviation (input) CMD_SUCCESS :: u32 where "CMD_SUCCESS \<equiv> 0"
abbreviation (input) FLASH_START_ADDRESS :: u32 where "FLASH_START_ADDRESS \<equiv> 0"
abbreviation (input) FLASH_INVALID_ADDRESS :: u32 where "FLASH_INVALID_ADDRESS \<equiv> 0xFFFFFFFF"
abbreviation (input) BLOCK_SIZE :: u32 where "BLOCK_SIZE \<equiv> 0x1000"

record sectdef_t =
  sd_n :: u32
  sd_size :: u32

text \<open>The chip: the entry of the boot ROM (command words and the block in RAM give the result words), the bytes
  it can read, the two registers of the PLL, and the address of the block in RAM.\<close>

record 'c rom =
  iapEntry :: "u32 list \<Rightarrow> u8 list \<Rightarrow> 'c \<Rightarrow> (u32 \<times> u32) \<times> 'c"
  byte :: "'c \<Rightarrow> u32 \<Rightarrow> u8"
  PLLCON :: "'c \<Rightarrow> u32"
  PLLCFG :: "'c \<Rightarrow> u32"
  blockData_addr :: u32

record 'c loader =
  geometry :: "sectdef_t list"
  blockData :: "u8 list"
  currentBlockAddress :: u32
  processorClockFrequency :: u32
  chip :: 'c

section \<open>Geometry of the flash\<close>

definition geometry0 :: "sectdef_t list" where
  "geometry0 = [\<lparr>sd_n = 15, sd_size = 0x1000\<rparr>, \<lparr>sd_n = 0, sd_size = 0\<rparr>]"

definition geometry1 :: "sectdef_t list" where
  "geometry1 = [\<lparr>sd_n = 15, sd_size = 0x2000\<rparr>, \<lparr>sd_n = 0, sd_size = 0\<rparr>]"

definition geometry2 :: "sectdef_t list" where
  "geometry2 = [\<lparr>sd_n = 8, sd_size = 0x2000\<rparr>, \<lparr>sd_n = 2, sd_size = 0x10000\<rparr>, \<lparr>sd_n = 8, sd_size = 0x2000\<rparr>,
     \<lparr>sd_n = 0, sd_size = 0\<rparr>]"

definition geometry3 :: "sectdef_t list" where
  "geometry3 = [\<lparr>sd_n = 8, sd_size = 0x1000\<rparr>, \<lparr>sd_n = 14, sd_size = 0x8000\<rparr>, \<lparr>sd_n = 5, sd_size = 0x1000\<rparr>,
     \<lparr>sd_n = 0, sd_size = 0\<rparr>]"

text \<open>The two loops of \<open>getSectorNumber\<close>; the inner one returns a sector (\<open>Inl\<close>) or goes on behind the sectors it looked at.\<close>

fun sector_in :: "nat \<Rightarrow> u32 \<Rightarrow> u32 \<Rightarrow> u32 \<Rightarrow> int \<Rightarrow> int + (u32 \<times> int)" where
  "sector_in 0 sz address sectorStartAddress n = Inr (sectorStartAddress, n)"
| "sector_in (Suc j) sz address sectorStartAddress n =
     (let sectorEndAddress = sectorStartAddress + sz
      in if address \<ge> sectorStartAddress \<and> address < sectorEndAddress then Inl n
         else sector_in j sz address sectorEndAddress (n + 1))"

fun sector_loop :: "sectdef_t list \<Rightarrow> u32 \<Rightarrow> u32 \<Rightarrow> int \<Rightarrow> int" where
  "sector_loop [] address sectorStartAddress n = -1"
| "sector_loop (i # ds) address sectorStartAddress n =
     (if sd_n i = 0 then -1
      else case sector_in (unat (sd_n i)) (sd_size i) address sectorStartAddress n of
             Inl k \<Rightarrow> k
           | Inr (sectorStartAddress, n) \<Rightarrow> sector_loop ds address sectorStartAddress n)"

definition getSectorNumber :: "u32 \<Rightarrow> 'c loader \<Rightarrow> int" where
  "getSectorNumber address s = sector_loop (geometry s) address FLASH_START_ADDRESS 0"

fun number_loop :: "sectdef_t list \<Rightarrow> int \<Rightarrow> int" where
  "number_loop [] n = n"
| "number_loop (i # ds) n = (if sd_n i = 0 then n else number_loop ds (n + uint (sd_n i)))"

definition getNumberOfSectors :: "'c loader \<Rightarrow> u32" where
  "getNumberOfSectors s = word_of_int (number_loop (geometry s) 0)"

text \<open>The static variables as the loader starts: \<open>blockData\<close> is in a section that is not loaded, so its
  contents \<open>b\<close> are whatever the RAM holds.\<close>

definition loader_init :: "u8 list \<Rightarrow> 'c \<Rightarrow> 'c loader" where
  "loader_init b c =
     \<lparr>geometry = geometry1, blockData = b, currentBlockAddress = FLASH_INVALID_ADDRESS,
      processorClockFrequency = 0, chip = c\<rparr>"

section \<open>Commands\<close>

definition iapCommand :: "'c rom \<Rightarrow> u32 \<Rightarrow> u32 \<Rightarrow> u32 \<Rightarrow> u32 \<Rightarrow> u32 \<Rightarrow> 'c loader \<Rightarrow> (u32 \<times> u32) \<times> 'c loader" where
  "iapCommand r cmd p0 p1 p2 p3 s =
     (case iapEntry r [cmd, p0, p1, p2, p3] (blockData s) (chip s) of (res, c) \<Rightarrow> (res, s\<lparr>chip := c\<rparr>))"

definition writeCurrentBlock :: "'c rom \<Rightarrow> 'c loader \<Rightarrow> int \<times> 'c loader" where
  "writeCurrentBlock r s =
     (if currentBlockAddress s \<noteq> FLASH_INVALID_ADDRESS then
        let sectorNumber = getSectorNumber (currentBlockAddress s) s
        in if sectorNumber \<noteq> -1 then
             let ((r0, _), s) = iapCommand r IAP_CMD_PREPARE_SECTORS_FOR_WRITE_OPERATION
                                  (word_of_int sectorNumber) (word_of_int sectorNumber) 0 0 s
             in if r0 \<noteq> CMD_SUCCESS then (0, s)
                else let ((r0, _), s) = iapCommand r IAP_CMD_COPY_RAM_TO_FLASH (currentBlockAddress s)
                                          (blockData_addr r) BLOCK_SIZE (processorClockFrequency s div 1000) s
                     in if r0 \<noteq> CMD_SUCCESS then (0, s)
                        else (1, s\<lparr>currentBlockAddress := FLASH_INVALID_ADDRESS\<rparr>)
           else (1, s\<lparr>currentBlockAddress := FLASH_INVALID_ADDRESS\<rparr>)
      else (1, s))"

definition setOscillatorFrequency :: "'c rom \<Rightarrow> u32 \<Rightarrow> 'c loader \<Rightarrow> 'c loader" where
  "setOscillatorFrequency r freq s =
     s\<lparr>processorClockFrequency :=
         freq * (if PLLCON r (chip s) AND 1 \<noteq> 0 then (PLLCFG r (chip s) AND 0xF) + 1 else 1)\<rparr>"

section \<open>The operations the host calls\<close>

definition geometry_of_part :: "u32 \<Rightarrow> sectdef_t list \<Rightarrow> sectdef_t list" where
  "geometry_of_part partID g =
     (if partID = 0x0004FF11 then geometry0
      else if partID \<in> {0xFFF0FF12, 0xFFF0FF22, 0xFFF0FF32, 0x0101FF12, 0x0201FF12} then geometry1
      else if partID \<in> {0x0101FF13, 0x0401FF12, 0x0601FF13, 0x0201FF13, 0x0301FF13, 0x0401FF13, 0x0501FF13} then geometry2
      else if partID \<in> {0x0002FF01, 0x0002FF11, 0x0002FF12, 0x0002FF23, 0x0002FF25, 0x0402FF23} then geometry3
      else g)"

definition loaderBegin :: "'c rom \<Rightarrow> 'c loader \<Rightarrow> 'c loader" where
  "loaderBegin r s =
     (let s = setOscillatorFrequency r 10000000 s;
          ((_, partID), s) = iapCommand r IAP_CMD_READ_PART_ID 0 0 0 0 s
      in s\<lparr>geometry := geometry_of_part partID (geometry s)\<rparr>)"

definition loaderEnd :: "'c loader \<Rightarrow> 'c loader" where
  "loaderEnd s = s"

definition loaderFlushWrites :: "'c rom \<Rightarrow> 'c loader \<Rightarrow> 'c loader" where
  "loaderFlushWrites r s = snd (writeCurrentBlock r s)"

definition block_of :: "u32 \<Rightarrow> u32" where
  "block_of address = address AND NOT (BLOCK_SIZE - 1)"

text \<open>\<open>memcpy(blockData, blockAddress, BLOCK_SIZE)\<close> after the block that was there has been written.\<close>

definition change_block :: "'c rom \<Rightarrow> u32 \<Rightarrow> 'c loader \<Rightarrow> 'c loader" where
  "change_block r blockAddress s =
     (if blockAddress \<noteq> currentBlockAddress s then
        let s = snd (writeCurrentBlock r s)
        in s\<lparr>blockData := map (\<lambda>k. byte r (chip s) (blockAddress + of_nat k)) [0..<4096],
             currentBlockAddress := blockAddress\<rparr>
      else s)"

fun poke_bytes :: "'c rom \<Rightarrow> nat \<Rightarrow> u32 \<Rightarrow> u32 \<Rightarrow> u32 \<Rightarrow> 'c loader \<Rightarrow> u32 \<times> u32 \<times> 'c loader" where
  "poke_bytes r 0 data address len s = (address, len, s)"
| "poke_bytes r (Suc i) data address len s =
     (if len = 0 then (address, len, s)
      else let s = change_block r (block_of address) s;
               s = s\<lparr>blockData := (blockData s)[unat (address - currentBlockAddress s) := ucast data]\<rparr>
           in poke_bytes r i (drop_bit 8 data) (address + 1) (len - 1) s)"

text \<open>\<open>None\<close>: the host has sent too few words, and the loader waits.\<close>

fun loaderPoke :: "'c rom \<Rightarrow> u32 list \<Rightarrow> u32 \<Rightarrow> u32 \<Rightarrow> 'c loader \<Rightarrow> (int \<times> u32 list \<times> 'c loader) option" where
  "loaderPoke r ws address len s =
     (if len = 0 then Some (1, ws, s)
      else case ws of
             [] \<Rightarrow> None
           | data # ws \<Rightarrow>
               (case poke_bytes r 4 data address len s of
                  (address, len, s) \<Rightarrow> loaderPoke r ws address len s))"


definition memset :: "nat \<Rightarrow> nat \<Rightarrow> u8 \<Rightarrow> u8 list \<Rightarrow> u8 list" where
  "memset offset n c b = map (\<lambda>k. if offset \<le> k \<and> k < offset + n then c else b ! k) [0..<length b]"

text \<open>One turn of the loop of \<open>loaderMemset\<close>: the part of the bytes that lies in one block.\<close>

definition memset_frag :: "u32 \<Rightarrow> u32 \<Rightarrow> u32" where
  "memset_frag address len =
     (let offset = address - (block_of address); frag = BLOCK_SIZE - offset
      in if len < frag then len else frag)"

lemma block_mask: "block_of a = a AND NOT (mask 12)" "(0xFFF :: u32) = mask 12"
  by (simp_all add: block_of_def mask_eq_exp_minus_1)

lemma block_offset: "a - block_of a = take_bit 12 a"
proof -
  have "block_of a + take_bit 12 a = block_of a OR take_bit 12 a"
    unfolding block_mask by (rule disjunctive_add) (auto simp: bit_simps)
  also have "\<dots> = a" unfolding block_mask by (rule bit_word_eqI) (auto simp: bit_simps)
  finally show ?thesis by (metis add_diff_cancel_left')
qed

lemma unat_offset: "unat (a - block_of a) = unat a mod 4096"
  by (simp add: block_offset take_bit_eq_mod unat_mod)

lemma memset_frag_pos: "len \<noteq> 0 \<Longrightarrow> memset_frag address len \<noteq> 0 \<and> memset_frag address len \<le> len"
proof -
  assume l: "len \<noteq> 0"
  have lt: "unat (address - block_of address) < 4096" by (simp add: unat_offset)
  then have "unat (0x1000 - (address - block_of address)) = 0x1000 - unat (address - block_of address)"
    by (simp add: unat_sub word_le_nat_alt)
  then have "unat (0x1000 - (address - block_of address)) \<noteq> 0" using lt by simp
  then have "0x1000 - (address - block_of address) \<noteq> 0" by force
  then show ?thesis using l unfolding memset_frag_def Let_def by auto
qed

function loaderMemset :: "'c rom \<Rightarrow> u32 \<Rightarrow> u32 \<Rightarrow> u8 \<Rightarrow> 'c loader \<Rightarrow> int \<times> 'c loader" where
  "loaderMemset r address len c s =
     (if len = 0 then (1, s)
      else let s = change_block r (block_of address) s;
               frag = memset_frag address len;
               s = s\<lparr>blockData := memset (unat (address - currentBlockAddress s)) (unat frag) c (blockData s)\<rparr>
           in loaderMemset r (address + frag) (len - frag) c s)"
  by pat_completeness auto
termination
proof (relation "measure (\<lambda>(r, address, len, c, s). unat len)", goal_cases)
  case (2 r address len c s x xa xb)
  then show ?case using memset_frag_pos [of len address] by (simp add: unat_sub word_less_nat_alt unat_gt_0)
qed simp

definition loaderErase :: "'c rom \<Rightarrow> u32 \<Rightarrow> u32 \<Rightarrow> 'c loader \<Rightarrow> int \<times> 'c loader" where
  "loaderErase r address len s =
     (let sectorStartNumber = getSectorNumber address s;
          sectorEndNumber = getSectorNumber (address + len - 1) s
      in if sectorStartNumber \<noteq> -1 \<and> sectorEndNumber \<noteq> -1 then
           let (_, s) = iapCommand r IAP_CMD_PREPARE_SECTORS_FOR_WRITE_OPERATION
                          (word_of_int sectorStartNumber) (word_of_int sectorEndNumber) 0 0 s;
               (_, s) = iapCommand r IAP_CMD_ERASE_SECTORS (word_of_int sectorStartNumber)
                          (word_of_int sectorEndNumber) (processorClockFrequency s div 1000) 0 s
           in (1, s)
         else (1, s))"

definition loaderEraseAll :: "'c rom \<Rightarrow> 'c loader \<Rightarrow> int \<times> 'c loader" where
  "loaderEraseAll r s =
     (let numberOfSectors = getNumberOfSectors s;
          (_, s) = iapCommand r IAP_CMD_PREPARE_SECTORS_FOR_WRITE_OPERATION 0 (numberOfSectors - 1) 0 0 s;
          (_, s) = iapCommand r IAP_CMD_ERASE_SECTORS 0 (numberOfSectors - 1) (processorClockFrequency s div 1000) 0 s
      in (1, s))"

definition loaderSetParameter :: "'c rom \<Rightarrow> u32 \<Rightarrow> u32 \<Rightarrow> 'c loader \<Rightarrow> int \<times> 'c loader" where
  "loaderSetParameter r parameter val s = (1, if parameter = 0 then setOscillatorFrequency r val s else s)"

section \<open>The blank check\<close>

text \<open>The three loops of \<open>isErased\<close>: up to a word boundary, word by word, the rest byte by byte. \<open>None\<close> is the
  return of 0.\<close>

definition word_at :: "(u32 \<Rightarrow> u8) \<Rightarrow> u32 \<Rightarrow> u32" where
  "word_at m a = ucast (m a) OR push_bit 8 (ucast (m (a + 1))) OR push_bit 16 (ucast (m (a + 2))) OR
     push_bit 24 (ucast (m (a + 3)))"

lemma align_step: "(a :: u32) AND 3 \<noteq> 0 \<Longrightarrow> (4 - unat (a + 1) mod 4) mod 4 < (4 - unat a mod 4) mod (4 :: nat)"
proof -
  assume a: "a AND 3 \<noteq> 0"
  have "a AND 3 = a mod 4" using take_bit_eq_mod [of 2 a] by (simp add: take_bit_eq_mask mask_eq_exp_minus_1)
  then have "unat (a mod 4) \<noteq> 0" using a by (simp add: unat_eq_0)
  then have "unat a mod 4 \<noteq> 0" "unat a mod 4 < 4" by (simp_all add: unat_mod)
  then have "unat a mod 4 = 1 \<or> unat a mod 4 = 2 \<or> unat a mod 4 = 3" by linarith
  moreover have "unat (a + 1) mod 4 = (unat a mod 4 + 1) mod 4"
  proof -
    have "unat (a + 1) mod 4 = (unat a + 1) mod 2 ^ 32 mod 4" by (simp add: unat_word_ariths)
    also have "\<dots> = (unat a + 1) mod 4" by (rule mod_mod_cancel) simp
    also have "\<dots> = (unat a mod 4 + 1) mod 4" by (simp only: mod_add_left_eq)
    finally show ?thesis .
  qed
  ultimately show ?thesis by (elim disjE) simp_all
qed

function erased_head :: "(u32 \<Rightarrow> u8) \<Rightarrow> u32 \<Rightarrow> u32 \<Rightarrow> (u32 \<times> u32) option" where
  "erased_head m address len =
     (if address AND 3 \<noteq> 0 then
        if m address \<noteq> 0xFF then None else erased_head m (address + 1) (len - 1)
      else Some (address, len))"
  by pat_completeness auto
termination
proof (relation "measure (\<lambda>(m, a, l). (4 - unat a mod 4) mod 4)", goal_cases)
  case (2 m a l)
  then show ?case using align_step [of a] unfolding in_measure prod.case by blast
qed simp

function erased_words :: "(u32 \<Rightarrow> u8) \<Rightarrow> u32 \<Rightarrow> u32 \<Rightarrow> (u32 \<times> u32) option" where
  "erased_words m address len =
     (if len > 4 then
        if word_at m address \<noteq> 0xFFFFFFFF then None else erased_words m (address + 4) (len - 4)
      else Some (address, len))"
  by pat_completeness auto
termination
proof (relation "measure (\<lambda>(m, a, l). unat l)", goal_cases)
  case (2 m a l)
  then have "unat (l - 4) < unat l" by (simp add: unat_sub word_less_nat_alt word_le_nat_alt)
  then show ?case by simp
qed simp

function erased_bytes :: "(u32 \<Rightarrow> u8) \<Rightarrow> u32 \<Rightarrow> u32 \<Rightarrow> bool" where
  "erased_bytes m address len =
     (if len \<noteq> 0 then
        if m address \<noteq> 0xFF then False else erased_bytes m (address + 1) (len - 1)
      else True)"
  by pat_completeness auto
termination
proof (relation "measure (\<lambda>(m, a, l). unat l)", goal_cases)
  case (2 m a l)
  then have "unat (l - 1) < unat l" by (simp add: unat_minus_one unat_gt_0)
  then show ?case by simp
qed simp

definition isErased :: "'c rom \<Rightarrow> u32 \<Rightarrow> u32 \<Rightarrow> 'c loader \<Rightarrow> bool" where
  "isErased r address len s =
     (case erased_head (byte r (chip s)) address len of
        None \<Rightarrow> False
      | Some (address, len) \<Rightarrow>
          (case erased_words (byte r (chip s)) address len of
             None \<Rightarrow> False
           | Some (address, len) \<Rightarrow> erased_bytes (byte r (chip s)) address len))"

declare loaderPoke.simps [simp del] loaderMemset.simps [simp del]
declare erased_head.simps [simp del] erased_words.simps [simp del] erased_bytes.simps [simp del]

section \<open>Sectors\<close>

text \<open>The sizes of all sectors, one after the other, and the search in that list.\<close>

definition sector_sizes :: "sectdef_t list \<Rightarrow> nat list" where
  "sector_sizes g = concat (map (\<lambda>i. replicate (unat (sd_n i)) (unat (sd_size i))) (takeWhile (\<lambda>i. sd_n i \<noteq> 0) g))"

fun find_sector :: "nat list \<Rightarrow> nat \<Rightarrow> int \<Rightarrow> int" where
  "find_sector [] a n = -1"
| "find_sector (z # zs) a n = (if a < z then n else find_sector zs (a - z) (n + 1))"

lemma find_sector_replicate:
  "find_sector (replicate j z @ zs) a n = (if a < j * z then n + int (a div z) else find_sector zs (a - j * z) (n + int j))"
proof (induction j arbitrary: a n)
  case (Suc j)
  show ?case
  proof (cases "a < z")
    case False
    then have "a < Suc j * z \<longleftrightarrow> a - z < j * z" by auto
    moreover have "a div z = Suc ((a - z) div z)" if "a < Suc j * z"
      using False that by (intro le_div_geq) (auto intro: gr0I)
    ultimately show ?thesis using False Suc.IH by (auto simp: algebra_simps)
  qed auto
qed simp

lemma sector_in_eq:
  assumes "b + j * unat sz < 2 ^ 32" and "b \<le> unat a"
  shows "sector_in j sz a (of_nat b) n =
    (if unat a - b < j * unat sz then Inl (n + int ((unat a - b) div unat sz)) else Inr (of_nat (b + j * unat sz), n + int j))"
  using assms
proof (induction j arbitrary: b n)
  case (Suc j)
  have e: "of_nat b + sz = (of_nat (b + unat sz) :: u32)" by simp
  have lt: "b + unat sz < 2 ^ 32" "b + unat sz + j * unat sz < 2 ^ 32" using Suc.prems(1) by simp_all
  have c: "of_nat b \<le> a" "a < of_nat (b + unat sz) \<longleftrightarrow> unat a < b + unat sz"
    using lt(1) Suc.prems(2) by (simp_all add: word_le_nat_alt word_less_nat_alt unat_of_nat del: of_nat_add)
  show ?case
  proof (cases "unat a < b + unat sz")
    case True
    then have "unat a - b < unat sz" using Suc.prems(2) by simp
    then show ?thesis using True c unfolding sector_in.simps e Let_def by simp
  next
    case False
    define x where "x = unat a - (b + unat sz)"
    have x: "unat a - b = x + unat sz" using False by (simp add: x_def)
    have d: "(x + unat sz) div unat sz = x div unat sz + 1" if "0 < unat sz" by (rule div_add_self2) (use that in simp)
    have "sector_in (Suc j) sz a (of_nat b) n = sector_in j sz a (of_nat (b + unat sz)) (n + 1)"
      using False c unfolding sector_in.simps e Let_def by simp
    also have "\<dots> = (if x < j * unat sz then Inl (n + 1 + int (x div unat sz))
        else Inr (of_nat (b + unat sz + j * unat sz), n + 1 + int j))"
      unfolding x_def by (rule Suc.IH) (use lt False in simp_all)
    also have "\<dots> = (if unat a - b < Suc j * unat sz then Inl (n + int ((unat a - b) div unat sz))
        else Inr (of_nat (b + Suc j * unat sz), n + int (Suc j)))"
    proof (cases "unat sz = 0")
      case True
      then show ?thesis unfolding x by (simp add: algebra_simps)
    next
      case pos: False
      have lt: "x + unat sz < Suc j * unat sz \<longleftrightarrow> x < j * unat sz" by simp
      have w: "b + Suc j * unat sz = b + unat sz + j * unat sz" by simp
      show ?thesis unfolding x lt w using d pos by simp
    qed
    finally show ?thesis .
  qed
qed simp

lemma sector_loop_eq:
  assumes "b + sum_list (sector_sizes g) < 2 ^ 32" and "b \<le> unat a"
  shows "sector_loop g a (of_nat b) n = find_sector (sector_sizes g) (unat a - b) n"
  using assms
proof (induction g arbitrary: b n)
  case Nil
  then show ?case by (simp add: sector_sizes_def)
next
  case (Cons i g)
  show ?case
  proof (cases "sd_n i = 0")
    case True
    then show ?thesis by (simp add: sector_sizes_def)
  next
    case False
    let ?j = "unat (sd_n i)"
    have z: "sector_sizes (i # g) = replicate ?j (unat (sd_size i)) @ sector_sizes g" using False by (simp add: sector_sizes_def)
    have lt: "b + ?j * unat (sd_size i) < 2 ^ 32" "b + ?j * unat (sd_size i) + sum_list (sector_sizes g) < 2 ^ 32"
      using Cons.prems(1) unfolding z by (simp_all add: sum_list_replicate)
    show ?thesis
    proof (cases "unat a - b < ?j * unat (sd_size i)")
      case True
      then show ?thesis using False sector_in_eq [OF lt(1) Cons.prems(2)] unfolding z by (simp add: find_sector_replicate)
    next
      case out: False
      have le: "b + ?j * unat (sd_size i) \<le> unat a" using out Cons.prems(2) by simp
      show ?thesis
        using False out sector_in_eq [OF lt(1) Cons.prems(2), of n] Cons.IH [OF lt(2) le]
        unfolding z by (simp add: find_sector_replicate del: of_nat_add)
    qed
  qed
qed

text \<open>Where the search ends.\<close>

lemma find_sector_ge: "find_sector zs a n = -1 \<or> n \<le> find_sector zs a n"
proof (induction zs arbitrary: a n)
  case (Cons z zs)
  show ?case using Cons.IH [of "a - z" "n + 1"] by (simp, linarith)
qed simp

lemma find_sector_bounds:
  "find_sector zs a n = n + int k \<longleftrightarrow>
     (if k < length zs then sum_list (take k zs) \<le> a \<and> a < sum_list (take (Suc k) zs)
      else n + int k = -1 \<and> sum_list zs \<le> a)" if "0 \<le> n"
  using that
proof (induction zs arbitrary: a n k)
  case (Cons z zs)
  show ?case
  proof (cases "a < z")
    case True
    then show ?thesis by (cases k) auto
  next
    case False
    have ne: "find_sector zs b m \<noteq> m - 1" if "0 < m" for b m using find_sector_ge [of zs b m] that by auto
    show ?thesis
    proof (cases k)
      case 0
      then show ?thesis using False ne [of "n + 1" "a - z"] Cons.prems by simp
    next
      case (Suc k')
      have "find_sector (z # zs) a n = n + int k \<longleftrightarrow> find_sector zs (a - z) (n + 1) = n + 1 + int k'" using False Suc by (simp add: add.assoc)
      then show ?thesis using Cons.IH [of "n + 1" "a - z" k'] Cons.prems False Suc by auto
    qed
  qed
qed auto

lemma find_sector_none:
  "0 \<le> n \<Longrightarrow> find_sector zs a n = -1 \<longleftrightarrow> sum_list zs \<le> a"
  by (induction zs arbitrary: a n) auto

lemma number_loop_eq: "number_loop g n = n + int (length (sector_sizes g))"
  by (induction g arbitrary: n) (simp_all add: sector_sizes_def)

text \<open>C39. \<open>getSectorNumber\<close> and \<open>getNumberOfSectors\<close> for every geometry that fits into the address space: the number of the sector that
  holds the address, counted through the groups of sectors, and -1 exactly for an address behind the last sector.\<close>

theorem sector_number_correct:
  assumes "sum_list (sector_sizes (geometry s)) < 2 ^ 32"
  shows "(getSectorNumber a s = int k \<longleftrightarrow> k < length (sector_sizes (geometry s)) \<and>
      sum_list (take k (sector_sizes (geometry s))) \<le> unat a \<and> unat a < sum_list (take (Suc k) (sector_sizes (geometry s)))) \<and>
    (getSectorNumber a s = -1 \<longleftrightarrow> sum_list (sector_sizes (geometry s)) \<le> unat a) \<and>
    getNumberOfSectors s = of_nat (length (sector_sizes (geometry s)))"
proof -
  have "getSectorNumber a s = find_sector (sector_sizes (geometry s)) (unat a) 0"
    using sector_loop_eq [of 0 "geometry s" a 0] assms by (simp add: getSectorNumber_def)
  then show ?thesis
    using find_sector_bounds [of 0 "sector_sizes (geometry s)" "unat a" k] find_sector_none [of 0 "sector_sizes (geometry s)" "unat a"]
    by (auto simp: getNumberOfSectors_def number_loop_eq)
qed

text \<open>The geometry of the LPC2146: address 0x9000 is in the second sector of 32 KB.\<close>

theorem sector_number_correct_witness:
  "getSectorNumber 0x9000 \<lparr>geometry = geometry3, blockData = [], currentBlockAddress = 0, processorClockFrequency = 0, chip = ()\<rparr> = 8"
proof -
  let ?s = "\<lparr>geometry = geometry3, blockData = [], currentBlockAddress = 0, processorClockFrequency = 0, chip = ()\<rparr>"
  have z: "sector_sizes (geometry ?s) = replicate 8 0x1000 @ replicate 14 0x8000 @ replicate 5 0x1000"
    by (simp add: sector_sizes_def geometry3_def)
  have "sum_list (sector_sizes (geometry ?s)) < 2 ^ 32" unfolding z by (simp add: sum_list_replicate)
  from sector_number_correct [OF this, of "0x9000" 8] show ?thesis
    unfolding z by (simp add: sum_list_replicate take_Cons')
qed

section \<open>The block in RAM\<close>

text \<open>What the host sees: the block in RAM and, elsewhere, the flash.\<close>

definition view :: "'c rom \<Rightarrow> 'c loader \<Rightarrow> u32 \<Rightarrow> u8" where
  "view r s a = (if block_of a = currentBlockAddress s then blockData s ! unat (a - block_of a) else byte r (chip s) a)"

definition in_flash :: "sectdef_t list \<Rightarrow> u32 \<Rightarrow> bool" where
  "in_flash g a \<longleftrightarrow> sector_loop g (block_of a) 0 0 \<noteq> -1"

text \<open>Writing a block, after its sector was prepared, clears bits and sets none.\<close>

definition rom_ok :: "'c rom \<Rightarrow> sectdef_t list \<Rightarrow> bool" where
  "rom_ok r g \<longleftrightarrow> (\<forall>c b a hz. length b = 4096 \<and> in_flash g a \<longrightarrow>
     (let n = word_of_int (sector_loop g (block_of a) 0 0);
          ((p, _), c1) = iapEntry r [50, n, n, 0, 0] b c;
          ((w, _), c2) = iapEntry r [51, block_of a, blockData_addr r, 0x1000, hz] b c1
      in p = 0 \<and> w = 0 \<and>
         byte r c2 = (\<lambda>x. if block_of x = block_of a then byte r c x AND b ! unat (x - block_of x) else byte r c x)))"

text \<open>The block in RAM can be written: nothing in it needs a bit set.\<close>

definition cached :: "'c rom \<Rightarrow> 'c loader \<Rightarrow> bool" where
  "cached r s \<longleftrightarrow> length (blockData s) = 4096 \<and>
     (currentBlockAddress s = FLASH_INVALID_ADDRESS \<or>
      (\<exists>a. currentBlockAddress s = block_of a \<and> in_flash (geometry s) a) \<and>
      (\<forall>x. block_of x = currentBlockAddress s \<longrightarrow> byte r (chip s) x AND view r s x = view r s x))"

lemma cached_init: "length b = 4096 \<Longrightarrow> cached r (loader_init b c)"
  by (simp add: cached_def loader_init_def)

lemma block_of_block [simp]: "block_of (block_of a) = block_of a"
  by (simp add: block_of_def)

lemma block_valid [simp]: "block_of a \<noteq> FLASH_INVALID_ADDRESS"
proof
  assume "block_of a = 0xFFFFFFFF"
  moreover have "\<not> bit (block_of a) 0" unfolding block_mask by (simp add: bit_simps)
  ultimately show False by simp
qed

lemma block_index: "unat (a - block_of a) < 4096"
  by (simp add: unat_offset)

lemma write_current:
  assumes rom: "rom_ok r (geometry s)" and c: "cached r s"
  shows "\<exists>ch. writeCurrentBlock r s = (1, s\<lparr>chip := ch, currentBlockAddress := FLASH_INVALID_ADDRESS\<rparr>) \<and> byte r ch = view r s"
proof (cases "currentBlockAddress s = FLASH_INVALID_ADDRESS")
  case True
  then have "view r s = byte r (chip s)" by (auto simp: view_def fun_eq_iff)
  moreover have "s\<lparr>chip := chip s, currentBlockAddress := FLASH_INVALID_ADDRESS\<rparr> = s" using True by simp
  ultimately show ?thesis using True by (intro exI [of _ "chip s"]) (simp add: writeCurrentBlock_def)
next
  case False
  then obtain a where a: "currentBlockAddress s = block_of a" "in_flash (geometry s) a" using c by (auto simp: cached_def)
  have len: "length (blockData s) = 4096" using c by (simp add: cached_def)
  let ?n = "word_of_int (sector_loop (geometry s) (block_of a) 0 0) :: u32"
  obtain p p' c1 where p: "iapEntry r [50, ?n, ?n, 0, 0] (blockData s) (chip s) = ((p, p'), c1)" by (metis prod.collapse)
  let ?hz = "processorClockFrequency s div 1000"
  obtain w w' c2 where w: "iapEntry r [51, block_of a, blockData_addr r, 0x1000, ?hz] (blockData s) c1 = ((w, w'), c2)"
    by (metis prod.collapse)
  have ok: "p = 0" "w = 0"
    "byte r c2 = (\<lambda>x. if block_of x = block_of a then byte r (chip s) x AND blockData s ! unat (x - block_of x) else byte r (chip s) x)"
    using rom [unfolded rom_ok_def, rule_format, of "blockData s" a "chip s" ?hz] len a(2) p w by (simp_all add: Let_def)
  have "byte r c2 = view r s"
    using c False a(1) by (auto simp: ok(3) fun_eq_iff view_def cached_def)
  moreover have "writeCurrentBlock r s = (1, s\<lparr>chip := c2, currentBlockAddress := FLASH_INVALID_ADDRESS\<rparr>)"
    using False a p w ok(1,2) by (simp add: writeCurrentBlock_def Let_def iapCommand_def getSectorNumber_def in_flash_def)
  ultimately show ?thesis by blast
qed

lemma change_block_ok:
  assumes rom: "rom_ok r (geometry s)" and c: "cached r s" and a: "in_flash (geometry s) a"
  shows "cached r (change_block r (block_of a) s)" "view r (change_block r (block_of a) s) = view r s"
    "currentBlockAddress (change_block r (block_of a) s) = block_of a" "geometry (change_block r (block_of a) s) = geometry s"
proof -
  let ?s = "change_block r (block_of a) s"
  have "cached r ?s \<and> view r ?s = view r s \<and> currentBlockAddress ?s = block_of a \<and> geometry ?s = geometry s"
  proof (cases "block_of a = currentBlockAddress s")
    case True
    then show ?thesis using c by (simp add: change_block_def)
  next
    case False
    obtain ch where ch: "writeCurrentBlock r s = (1, s\<lparr>chip := ch, currentBlockAddress := FLASH_INVALID_ADDRESS\<rparr>)" "byte r ch = view r s"
      using write_current [OF rom c] by blast
    let ?s' = "s\<lparr>chip := ch, blockData := map (\<lambda>k. byte r ch (block_of a + of_nat k)) [0..<4096], currentBlockAddress := block_of a\<rparr>"
    have s': "?s = ?s'" using False ch(1) by (simp add: change_block_def)
    have v: "view r ?s' = view r s"
    proof
      fix x show "view r ?s' x = view r s x"
      proof (cases "block_of x = block_of a")
        case True
        have "block_of a + of_nat (unat (x - block_of x)) = x" using True by simp
        then show ?thesis unfolding view_def [of r ?s'] using True block_index [of x] ch(2) by simp
      next
        case other: False
        then show ?thesis unfolding view_def [of r ?s'] using ch(2) by simp
      qed
    qed
    have "cached r ?s'" using a v ch(2) by (auto simp: cached_def)
    then show ?thesis using v unfolding s' by simp
  qed
  then show "cached r ?s" "view r ?s = view r s" "currentBlockAddress ?s = block_of a" "geometry ?s = geometry s" by simp_all
qed

text \<open>One byte is changed in the block.\<close>

lemma poke_byte:
  assumes c: "cached r s" and a: "currentBlockAddress s = block_of a" and v: "view r s a AND b = b"
  shows "cached r (s\<lparr>blockData := (blockData s)[unat (a - currentBlockAddress s) := b]\<rparr>)"
    "view r (s\<lparr>blockData := (blockData s)[unat (a - currentBlockAddress s) := b]\<rparr>) = (view r s)(a := b)"
proof -
  let ?s = "s\<lparr>blockData := (blockData s)[unat (a - currentBlockAddress s) := b]\<rparr>"
  have len: "length (blockData s) = 4096" using c by (simp add: cached_def)
  show vw: "view r ?s = (view r s)(a := b)"
  proof
    fix x show "view r ?s x = ((view r s)(a := b)) x"
    proof (cases "block_of x = block_of a")
      case True
      have "unat (x - block_of a) = unat (a - block_of a) \<longleftrightarrow> x = a" by (simp add: word_unat_eq_iff [symmetric])
      then show ?thesis
        using True a len block_index [of a] block_index [of x] by (auto simp: view_def nth_list_update)
    qed (use a in \<open>auto simp: view_def\<close>)
  qed
  have "byte r (chip s) x AND view r ?s x = view r ?s x" if "block_of x = block_of a" for x
  proof -
    have old: "byte r (chip s) y AND view r s y = view r s y" if "block_of y = block_of a" for y
      using c a that by (auto simp: cached_def)
    have "byte r (chip s) a AND b = b" using old [of a] v by (metis and.assoc)
    then show ?thesis using old [OF that] by (simp add: vw)
  qed
  then show "cached r ?s" using c a len by (auto simp: cached_def)
qed

section \<open>Programming the flash\<close>

definition overlay :: "(u32 \<Rightarrow> u8) \<Rightarrow> u32 \<Rightarrow> u8 list \<Rightarrow> u32 \<Rightarrow> u8" where
  "overlay m a bs x = (if unat (x - a) < length bs then bs ! unat (x - a) else m x)"

lemma overlay_Nil [simp]: "overlay m a [] = m"
  by (simp add: overlay_def fun_eq_iff)

lemma overlay_Cons: "length bs < 2 ^ 32 \<Longrightarrow> overlay m a (b # bs) = overlay (m(a := b)) (a + 1) bs"
proof
  fix x assume l: "length bs < 2 ^ 32"
  show "overlay m a (b # bs) x = overlay (m(a := b)) (a + 1) bs x"
  proof (cases "x = a")
    case True
    have e: "x - (a + 1) = (0xFFFFFFFF :: u32)" using True by simp
    have "unat (x - (a + 1)) = 2 ^ 32 - 1" unfolding e by simp
    then show ?thesis using True l by (simp add: overlay_def)
  next
    case False
    have "unat (x - a) \<noteq> 0" using False by (simp add: unat_eq_0)
    moreover have "unat (x - (a + 1)) = unat (x - a) - 1"
      using unat_minus_one [of "x - a"] False by (simp add: algebra_simps)
    ultimately show ?thesis using False by (auto simp: overlay_def nth_Cons' dest: gr0_implies_Suc)
  qed
qed

lemma overlay_overlay:
  "length bs + length cs < 2 ^ 32 \<Longrightarrow> overlay m a (bs @ cs) = overlay (overlay m a bs) (a + of_nat (length bs)) cs"
proof (induction bs arbitrary: m a)
  case (Cons b bs)
  then show ?case by (simp add: overlay_Cons algebra_simps)
qed simp

text \<open>The bytes of the words that the host sends.\<close>

definition bytes_of :: "nat \<Rightarrow> u32 \<Rightarrow> u8 list" where
  "bytes_of n data = map (\<lambda>k. ucast (drop_bit (8 * k) data)) [0..<n]"

lemma bytes_of_Suc: "bytes_of (Suc n) data = ucast data # bytes_of n (drop_bit 8 data)"
proof -
  have "map (\<lambda>k. ucast (drop_bit (8 * k) data)) [Suc 0..<Suc n] = map (\<lambda>k. ucast (drop_bit (8 * k) (drop_bit 8 data)) :: u8) [0..<n]"
    by (simp only: map_Suc_upt [symmetric] map_map) (simp add: comp_def drop_bit_drop_bit algebra_simps)
  then show ?thesis unfolding bytes_of_def by (simp only: upt_conv_Cons zero_less_Suc list.map) simp
qed

lemma bytes_of_4: "bytes_of 4 d = [ucast d, ucast (drop_bit 8 d), ucast (drop_bit 16 d), ucast (drop_bit 24 d)]"
proof -
  have n: "4 = Suc (Suc (Suc (Suc 0)))" by simp
  have z: "bytes_of 0 x = []" for x by (simp add: bytes_of_def)
  show ?thesis unfolding n bytes_of_Suc z by (simp add: drop_bit_drop_bit)
qed

text \<open>Bytes that may be programmed: they are in the flash and set no bit.\<close>

definition programmable :: "sectdef_t list \<Rightarrow> (u32 \<Rightarrow> u8) \<Rightarrow> u32 \<Rightarrow> u8 list \<Rightarrow> bool" where
  "programmable g m a bs \<longleftrightarrow> length bs < 2 ^ 32 \<and>
     (\<forall>k < length bs. in_flash g (a + of_nat k) \<and> m (a + of_nat k) AND bs ! k = bs ! k)"

lemma programmable_Nil [simp]: "programmable g m a []"
  by (simp add: programmable_def)

lemma programmable_Cons:
  assumes p: "programmable g m a (b # bs)"
  shows "in_flash g a" "m a AND b = b" "length bs < 2 ^ 32" "programmable g (m(a := b)) (a + 1) bs"
proof -
  show "in_flash g a" "m a AND b = b" using p by (force simp: programmable_def)+
  show len: "length bs < 2 ^ 32" using p by (simp add: programmable_def)
  show "programmable g (m(a := b)) (a + 1) bs"
    unfolding programmable_def
  proof (intro conjI allI impI)
    fix k assume k: "k < length bs"
    then have "in_flash g (a + of_nat (Suc k)) \<and> m (a + of_nat (Suc k)) AND (b # bs) ! Suc k = (b # bs) ! Suc k"
      using p unfolding programmable_def by (metis Suc_less_eq length_Cons)
    moreover have "a + of_nat (Suc k) = a + 1 + of_nat k" by simp
    moreover have "unat (of_nat (Suc k) :: u32) = Suc k"
      using p k by (simp add: programmable_def unsigned_of_nat take_bit_nat_eq_self del: of_nat_Suc)
    then have "(of_nat (Suc k) :: u32) \<noteq> 0" by (metis Zero_not_Suc unsigned_0)
    then have "a + 1 + of_nat k \<noteq> a" by (simp add: add.assoc)
    ultimately show "in_flash g (a + 1 + of_nat k)" "(m(a := b)) (a + 1 + of_nat k) AND bs ! k = bs ! k"
      by (simp_all add: add.assoc)
  qed (rule len)
qed

lemma programmable_append:
  "programmable g m a (bs @ cs) \<Longrightarrow> programmable g (overlay m a bs) (a + of_nat (length bs)) cs"
proof (induction bs arbitrary: m a)
  case (Cons b bs)
  note c = programmable_Cons [OF Cons.prems [simplified]]
  have o: "overlay m a (b # bs) = overlay (m(a := b)) (a + 1) bs" using c(3) by (intro overlay_Cons) simp
  have l: "a + of_nat (length (b # bs)) = a + 1 + of_nat (length bs)" by simp
  show ?case unfolding o l by (rule Cons.IH [OF c(4)])
qed simp

lemma programmable_prefix: "programmable g m a (bs @ cs) \<Longrightarrow> programmable g m a bs"
  unfolding programmable_def by (metis add_lessD1 length_append nth_append trans_less_add1)

lemma poke_bytes_ok:
  assumes "rom_ok r (geometry s)" and "cached r s"
    and "programmable (geometry s) (view r s) a (take (unat len) (bytes_of i data))"
  shows "\<exists>s'. poke_bytes r i data a len s = (a + of_nat (min i (unat len)), len - of_nat (min i (unat len)), s') \<and>
    cached r s' \<and> geometry s' = geometry s \<and> view r s' = overlay (view r s) a (take (unat len) (bytes_of i data))"
  using assms
proof (induction i arbitrary: data a len s)
  case 0
  then show ?case by (simp add: bytes_of_def)
next
  case (Suc i)
  show ?case
  proof (cases "len = 0")
    case False
    have l: "unat (len - 1) = unat len - 1" "0 < unat len" using False by (simp_all add: unat_minus_one unat_gt_0)
    let ?b = "ucast data :: u8"
    let ?bs = "take (unat (len - 1)) (bytes_of i (drop_bit 8 data))"
    have b: "take (unat len) (bytes_of (Suc i) data) = ?b # ?bs" using l by (cases "unat len") (simp_all add: bytes_of_Suc)
    let ?s1 = "change_block r (block_of a) s"
    have pr: "in_flash (geometry s) a" "view r s a AND ?b = ?b"
      using programmable_Cons(1,2) [OF Suc.prems(3) [unfolded b]] by simp_all
    note cb = change_block_ok [OF Suc.prems(1,2) pr(1)]
    define s2 where "s2 = ?s1\<lparr>blockData := (blockData ?s1)[unat (a - currentBlockAddress ?s1) := ?b]\<rparr>"
    have s2: "cached r s2" "view r s2 = (view r s)(a := ?b)" "geometry s2 = geometry s"
      unfolding s2_def using poke_byte [OF cb(1,3), of ?b] cb(2,4) pr(2) by simp_all
    have p2: "programmable (geometry s2) (view r s2) (a + 1) ?bs"
      using programmable_Cons(4) [OF Suc.prems(3) [unfolded b]] s2(2,3) by simp
    obtain s' where s': "poke_bytes r i (drop_bit 8 data) (a + 1) (len - 1) s2 =
        (a + 1 + of_nat (min i (unat (len - 1))), len - 1 - of_nat (min i (unat (len - 1))), s')"
      "cached r s'" "geometry s' = geometry s2" "view r s' = overlay (view r s2) (a + 1) ?bs"
      using Suc.IH [OF _ s2(1) p2] Suc.prems(1) s2(3) by auto
    have m: "min (Suc i) (unat len) = Suc (min i (unat (len - 1)))" using l by simp
    have "length ?bs < 2 ^ 32" using p2 by (simp add: programmable_def)
    then have "view r s' = overlay (view r s) a (take (unat len) (bytes_of (Suc i) data))"
      unfolding b using s'(4) s2(2) by (simp add: overlay_Cons)
    moreover have "poke_bytes r (Suc i) data a len s = (a + of_nat (min (Suc i) (unat len)), len - of_nat (min (Suc i) (unat len)), s')"
      using False s'(1) unfolding m by (simp add: Let_def s2_def [symmetric] algebra_simps)
    ultimately show ?thesis using s'(2,3) s2(3) by auto
  qed (use Suc.prems in simp)
qed

lemma loaderPoke_ok:
  assumes "rom_ok r (geometry s)" and "cached r s" and "unat len \<le> 4 * length ws"
    and "programmable (geometry s) (view r s) a (take (unat len) (concat (map (bytes_of 4) ws)))"
  shows "\<exists>s'. loaderPoke r ws a len s = Some (1, drop ((unat len + 3) div 4) ws, s') \<and> cached r s' \<and> geometry s' = geometry s \<and>
    view r s' = overlay (view r s) a (take (unat len) (concat (map (bytes_of 4) ws)))"
  using assms
proof (induction ws arbitrary: a len s)
  case Nil
  then have "len = 0" by (simp add: unat_eq_0)
  then show ?case using Nil.prems by (simp add: loaderPoke.simps)
next
  case (Cons d ws)
  show ?case
  proof (cases "len = 0")
    case False
    let ?n = "min 4 (unat len)"
    let ?len = "len - of_nat ?n"
    let ?b = "take (unat len) (bytes_of 4 d)"
    let ?c = "take (unat ?len) (concat (map (bytes_of 4) ws))"
    have bl: "length (bytes_of 4 d) = 4" "length ?b = ?n" by (simp_all add: bytes_of_def min.commute)
    have nn: "unat (of_nat ?n :: u32) = ?n" by (simp add: unsigned_of_nat take_bit_nat_eq_self)
    then have "of_nat ?n \<le> len" by (simp add: word_le_nat_alt)
    then have l: "unat ?len = unat len - ?n" using nn by (simp add: unat_sub)
    have split: "take (unat len) (concat (map (bytes_of 4) (d # ws))) = ?b @ ?c" using bl(1) l by (auto simp: min_def)
    obtain s1 where s1: "poke_bytes r 4 d a len s = (a + of_nat ?n, ?len, s1)" "cached r s1" "geometry s1 = geometry s"
      "view r s1 = overlay (view r s) a ?b"
      using poke_bytes_ok [OF Cons.prems(1,2) programmable_prefix [OF Cons.prems(4) [unfolded split]]] by blast
    have p: "programmable (geometry s1) (view r s1) (a + of_nat ?n) ?c"
      using programmable_append [OF Cons.prems(4) [unfolded split]] s1(3,4) bl(2) by simp
    have le: "unat ?len \<le> 4 * length ws" using l Cons.prems(3) by simp
    obtain s' where s': "loaderPoke r ws (a + of_nat ?n) ?len s1 = Some (1, drop ((unat ?len + 3) div 4) ws, s')" "cached r s'"
      "geometry s' = geometry s1" "view r s' = overlay (view r s1) (a + of_nat ?n) ?c"
      using Cons.IH [OF _ s1(2) le p] Cons.prems(1) s1(3) by auto
    have "length (?b @ ?c) < 2 ^ 32" using Cons.prems(4) unfolding split by (simp add: programmable_def)
    then have "view r s' = overlay (view r s) a (?b @ ?c)"
      using s'(4) s1(4) bl(2) overlay_overlay [of ?b ?c] by simp
    moreover have "(unat len + 3) div 4 = Suc ((unat ?len + 3) div 4)"
    proof (cases "unat len < 4")
      case True
      have "0 < unat len" using False by (simp add: unat_gt_0)
      with True l show ?thesis by simp
    next
      case big: False
      then have e: "unat len + 3 = (unat ?len + 3) + 4" using l by simp
      show ?thesis by (subst e, subst div_add_self2) simp_all
    qed
    then have "loaderPoke r (d # ws) a len s = Some (1, drop ((unat len + 3) div 4) (d # ws), s')"
      using False s1(1) s'(1) by (simp add: loaderPoke.simps [of r "d # ws"])
    ultimately show ?thesis using s'(2,3) s1(3) unfolding split by auto
  qed (use Cons.prems in \<open>simp add: loaderPoke.simps\<close>)
qed

text \<open>The part of \<open>loaderMemset\<close> in one block.\<close>

lemma block_iff: "block_of x = block_of a \<longleftrightarrow> unat (x - block_of a) < 4096"
proof
  assume "unat (x - block_of a) < 4096"
  then have e: "take_bit 12 (x - block_of a) = x - block_of a"
    by (simp add: take_bit_eq_mod word_unat_eq_iff unat_mod)
  then have nb: "\<not> bit (x - block_of a) n" if "12 \<le> n" for n using that by (metis bit_take_bit_iff not_less)
  have "x = block_of a + (x - block_of a)" by simp
  also have "\<dots> = block_of a OR (x - block_of a)"
  proof (rule disjunctive_add)
    show "\<not> bit (block_of a) n \<or> \<not> bit (x - block_of a) n" for n
      using nb [of n] unfolding block_mask by (cases "n < 12") (auto simp: bit_simps)
  qed
  finally have x: "x = block_of a OR (x - block_of a)" .
  have "block_of x = block_of a"
  proof (rule bit_word_eqI)
    fix n assume "n < LENGTH(32)"
    then show "bit (block_of x) n \<longleftrightarrow> bit (block_of a) n"
      by (subst x) (use nb [of n] in \<open>auto simp: block_mask bit_simps\<close>)
  qed
  then show "block_of x = block_of a" .
qed (use block_index [of x] in simp)

lemma memset_position:
  assumes n: "unat (a - block_of a) + n \<le> 4096"
  shows "unat (x - a) < n \<longleftrightarrow> block_of x = block_of a \<and>
    unat (a - block_of a) \<le> unat (x - block_of a) \<and> unat (x - block_of a) < unat (a - block_of a) + n"
proof -
  let ?d = "unat (a - block_of a)" and ?e = "unat (x - block_of a)"
  have xa: "x - a = (x - block_of a) - (a - block_of a)" by simp
  have gen: "unat (y - z) = (if unat z \<le> unat y then unat y - unat z else unat y + 2 ^ 32 - unat z)" for y z :: u32
    by (simp add: unat_sub_if_size word_size)
  have e: "unat (x - a) = (if ?d \<le> ?e then ?e - ?d else ?e + 2 ^ 32 - ?d)"
    unfolding xa by (rule gen)
  have "?d \<le> 4096" using n by simp
  then show ?thesis using n block_iff [of x a] by (auto simp: e)
qed

lemma memset_ok:
  assumes c: "cached r s" and a: "currentBlockAddress s = block_of a" and n: "unat (a - block_of a) + n \<le> 4096"
    and p: "programmable (geometry s) (view r s) a (replicate n b)"
  shows "cached r (s\<lparr>blockData := memset (unat (a - currentBlockAddress s)) n b (blockData s)\<rparr>)"
    "view r (s\<lparr>blockData := memset (unat (a - currentBlockAddress s)) n b (blockData s)\<rparr>) = overlay (view r s) a (replicate n b)"
proof -
  let ?s = "s\<lparr>blockData := memset (unat (a - currentBlockAddress s)) n b (blockData s)\<rparr>"
  have len: "length (blockData s) = 4096" using c by (simp add: cached_def)
  show vw: "view r ?s = overlay (view r s) a (replicate n b)"
  proof
    fix x
    have i: "unat (x - block_of a) < 4096" if "block_of x = block_of a" using that block_iff by blast
    show "view r ?s x = overlay (view r s) a (replicate n b) x"
      using a len i memset_position [OF n, of x] by (auto simp: view_def overlay_def memset_def)
  qed
  have "byte r (chip s) x AND view r ?s x = view r ?s x" if x: "block_of x = block_of a" for x
  proof -
    have old: "byte r (chip s) x AND view r s x = view r s x" using c a x by (auto simp: cached_def)
    show ?thesis
    proof (cases "unat (x - a) < n")
      case True
      have "view r s (a + of_nat (unat (x - a))) AND replicate n b ! unat (x - a) = replicate n b ! unat (x - a)"
        using p True unfolding programmable_def by (simp only: length_replicate)
      then have "view r s x AND b = b" using True by simp
      then have "byte r (chip s) x AND b = b" using old by (metis and.assoc)
      then show ?thesis using True by (simp add: vw overlay_def)
    qed (use old in \<open>simp add: vw overlay_def\<close>)
  qed
  then show "cached r ?s" using c a len by (auto simp: cached_def memset_def)
qed

lemma loaderMemset_ok:
  assumes "rom_ok r (geometry s)" and "cached r s"
    and "programmable (geometry s) (view r s) a (replicate (unat len) b)"
  shows "\<exists>s'. loaderMemset r a len b s = (1, s') \<and> cached r s' \<and> geometry s' = geometry s \<and>
    view r s' = overlay (view r s) a (replicate (unat len) b)"
  using assms
proof (induction "unat len" arbitrary: a len s rule: less_induct)
  case less
  show ?case
  proof (cases "len = 0")
    case False
    let ?f = "memset_frag a len"
    have f: "?f \<noteq> 0" "?f \<le> len" using memset_frag_pos [OF False] by simp_all
    have lenf: "unat (len - ?f) = unat len - unat ?f" "0 < unat ?f" "unat ?f \<le> unat len"
      using f by (simp_all add: unat_sub unat_gt_0 word_le_nat_alt)
    have n: "unat (a - block_of a) + unat ?f \<le> 4096"
    proof -
      have "unat (0x1000 - (a - block_of a)) = 0x1000 - unat (a - block_of a)"
        using block_index [of a] by (simp add: unat_sub word_le_nat_alt)
      moreover have "?f \<le> 0x1000 - (a - block_of a)" by (auto simp: memset_frag_def Let_def)
      ultimately show ?thesis using block_index [of a] by (simp add: word_le_nat_alt)
    qed
    have split: "replicate (unat len) b = replicate (unat ?f) b @ replicate (unat (len - ?f)) b"
      using lenf by (simp add: replicate_add [symmetric])
    note p = less.prems(3) [unfolded split]
    obtain m where "unat ?f = Suc m" using lenf(2) gr0_implies_Suc by blast
    then have fl: "in_flash (geometry s) a" using programmable_prefix [OF p] programmable_Cons(1) by force
    note cb = change_block_ok [OF less.prems(1,2) fl]
    define s2 where "s2 = (let s1 = change_block r (block_of a) s
      in s1\<lparr>blockData := memset (unat (a - currentBlockAddress s1)) (unat ?f) b (blockData s1)\<rparr>)"
    have p1: "programmable (geometry (change_block r (block_of a) s)) (view r (change_block r (block_of a) s)) a (replicate (unat ?f) b)"
      using programmable_prefix [OF p] cb(2,4) by simp
    have s2: "cached r s2" "view r s2 = overlay (view r s) a (replicate (unat ?f) b)" "geometry s2 = geometry s"
      unfolding s2_def Let_def using memset_ok [OF cb(1,3) n p1] cb(2,4) by simp_all
    have p2: "programmable (geometry s2) (view r s2) (a + ?f) (replicate (unat (len - ?f)) b)"
      using programmable_append [OF p] s2(2,3) by simp
    obtain s' where s': "loaderMemset r (a + ?f) (len - ?f) b s2 = (1, s')" "cached r s'" "geometry s' = geometry s2"
      "view r s' = overlay (view r s2) (a + ?f) (replicate (unat (len - ?f)) b)"
      using less.hyps [of "len - ?f" s2 "a + ?f"] less.prems(1) s2 p2 lenf by auto
    have "length (replicate (unat ?f) b) + length (replicate (unat (len - ?f)) b) < 2 ^ 32" using lenf unsigned_less [of len] by simp
    from overlay_overlay [OF this] have "view r s' = overlay (view r s) a (replicate (unat len) b)"
      unfolding split using s'(4) s2(2) by simp
    moreover have "loaderMemset r a len b s = (1, s')"
      using False s'(1) by (simp add: loaderMemset.simps [of r a len] Let_def s2_def)
    ultimately show ?thesis using s'(2,3) s2(3) by auto
  qed (use less.prems in \<open>simp add: loaderMemset.simps\<close>)
qed

text \<open>C6. \<open>loaderPoke\<close> with enough words from the host returns, and \<open>loaderFlushWrites\<close> after it leaves exactly the bytes of the
  words in the memory, at their addresses, across any number of blocks, and all other bytes as they were; if the bytes
  lie in the flash and set no bit (after an erase they never do) and the ROM writes as it is documented to.\<close>

theorem loader_programs_flash:
  assumes "rom_ok r (geometry s)" and "cached r s" and "unat len \<le> 4 * length ws"
    and "programmable (geometry s) (view r s) a (take (unat len) (concat (map (bytes_of 4) ws)))"
  shows "\<exists>s'. loaderPoke r ws a len s = Some (1, drop ((unat len + 3) div 4) ws, s') \<and>
    currentBlockAddress (loaderFlushWrites r s') = FLASH_INVALID_ADDRESS \<and>
    byte r (chip (loaderFlushWrites r s')) = overlay (view r s) a (take (unat len) (concat (map (bytes_of 4) ws)))"
proof -
  obtain s' where s': "loaderPoke r ws a len s = Some (1, drop ((unat len + 3) div 4) ws, s')" "cached r s'" "geometry s' = geometry s"
    "view r s' = overlay (view r s) a (take (unat len) (concat (map (bytes_of 4) ws)))"
    using loaderPoke_ok [OF assms] by blast
  have "rom_ok r (geometry s')" using assms(1) s'(3) by simp
  then show ?thesis using s' write_current [of r s'] by (auto simp: loaderFlushWrites_def)
qed

lemma in_flash_geometry3: "unat a < 0x7D000 \<Longrightarrow> in_flash geometry3 a"
proof -
  assume a: "unat a < 0x7D000"
  have z: "sector_sizes geometry3 = replicate 8 0x1000 @ replicate 14 0x8000 @ replicate 5 0x1000"
    by (simp add: sector_sizes_def geometry3_def)
  have sum: "sum_list (sector_sizes geometry3) = 0x7D000" unfolding z by (simp add: sum_list_replicate)
  have "block_of a \<le> a" unfolding block_of_def by (rule word_and_le2)
  then have "unat (block_of a) < 0x7D000" using a by (simp add: word_le_nat_alt)
  then have "find_sector (sector_sizes geometry3) (unat (block_of a)) 0 \<noteq> -1" using find_sector_none [of 0] sum by simp
  then show ?thesis using sector_loop_eq [of 0 geometry3 "block_of a" 0] sum by (simp add: in_flash_def)
qed

text \<open>A chip that does what the manual says: the writing command needs prepared sectors and clears bits.\<close>

type_synonym sim_chip = "(u32 \<Rightarrow> u8) \<times> bool"

definition sim_iap :: "u32 list \<Rightarrow> u8 list \<Rightarrow> sim_chip \<Rightarrow> (u32 \<times> u32) \<times> sim_chip" where
  "sim_iap cmd b c =
     (if cmd ! 0 = 50 then ((0, 0), (fst c, True))
      else if cmd ! 0 = 51 then
        if snd c then ((0, 0), (\<lambda>x. if block_of x = cmd ! 1 then fst c x AND b ! unat (x - block_of x) else fst c x, False))
        else ((9, 0), c)
      else ((1, 0), c))"

definition sim_rom :: "sim_chip rom" where
  "sim_rom = \<lparr>iapEntry = sim_iap, byte = fst, PLLCON = (\<lambda>_. 0), PLLCFG = (\<lambda>_. 0), blockData_addr = 0x40000000\<rparr>"

definition blank_loader :: "sim_chip loader" where
  "blank_loader = \<lparr>geometry = geometry3, blockData = replicate 4096 0, currentBlockAddress = FLASH_INVALID_ADDRESS,
     processorClockFrequency = 10000000, chip = (\<lambda>_. 0xFF, False)\<rparr>"

lemma sim_rom_ok: "rom_ok sim_rom g"
  by (auto simp: rom_ok_def sim_rom_def sim_iap_def Let_def)

lemma blank_cached: "cached sim_rom blank_loader" "view sim_rom blank_loader = (\<lambda>_. 0xFF)"
  by (simp_all add: cached_def blank_loader_def view_def sim_rom_def fun_eq_iff)

theorem loader_programs_flash_witness:
  "\<exists>s'. loaderPoke sim_rom [0x04030201, 0x0605] 0xFFE 6 blank_loader = Some (1, [], s') \<and>
     map (fst (chip (loaderFlushWrites sim_rom s'))) [0xFFE, 0xFFF, 0x1000, 0x1001, 0x1002, 0x1003, 0x1004] =
       [1, 2, 3, 4, 5, 6, 0xFF]"
proof -
  have b: "take 6 (concat (map (bytes_of 4) [0x04030201, 0x0605])) = [1, 2, 3, 4, 5, 6 :: u8]"
    by (simp add: bytes_of_4)
  have ff: "(0xFF :: u8) AND x = x" for x
  proof -
    have "(0xFF :: u8) = - 1" by simp
    then show ?thesis by (simp only: and.left_neutral)
  qed
  let ?bs = "[1, 2, 3, 4, 5, 6] :: u8 list"
  have p: "programmable (geometry blank_loader) (view sim_rom blank_loader) 0xFFE (take (unat (6 :: u32)) (concat (map (bytes_of 4) [0x04030201, 0x0605])))"
  proof -
    have "in_flash geometry3 (0xFFE + of_nat k)" if "k < 6" for k
    proof (rule in_flash_geometry3)
      have "k = 0 \<or> k = 1 \<or> k = 2 \<or> k = 3 \<or> k = 4 \<or> k = 5" using that by linarith
      then show "unat (0xFFE + of_nat k :: u32) < 0x7D000" by (elim disjE) simp_all
    qed
    then show ?thesis using b ff by (simp add: programmable_def blank_cached(2)) (simp add: blank_loader_def)
  qed
  obtain s' where s': "loaderPoke sim_rom [0x04030201, 0x0605] 0xFFE 6 blank_loader = Some (1, drop ((unat (6 :: u32) + 3) div 4) [0x04030201, 0x0605], s')"
    "byte sim_rom (chip (loaderFlushWrites sim_rom s')) = overlay (\<lambda>_. 0xFF) 0xFFE ?bs"
    using loader_programs_flash [OF sim_rom_ok blank_cached(1) _ p] b blank_cached(2) by auto
  have "fst (chip (loaderFlushWrites sim_rom s')) = overlay (\<lambda>_. 0xFF) 0xFFE ?bs" using s'(2) by (simp add: sim_rom_def)
  then have "map (fst (chip (loaderFlushWrites sim_rom s'))) [0xFFE, 0xFFF, 0x1000, 0x1001, 0x1002, 0x1003, 0x1004] =
      [1, 2, 3, 4, 5, 6, 0xFF]" by (simp add: overlay_def)
  then show ?thesis using s'(1) by simp
qed

end
