(* ===== verification/Spec2Isabelle.thy ===== *)
theory Spec2Isabelle
  imports TN_Run TN_Sem_Delete TN_Mutex_Unlock TN_Port TN_Fifo USB_Config USB_App_Dma USB_Dma_Init USB_Loader
begin

text \<open>
  A model of the TNKernel real-time kernel and of the USB device stack and applications of the LPC2146 examples.

  \<^bold>\<open>The program.\<close> \<^verbatim>\<open>src/TNKernel\<close> is a preemptive real-time kernel for ARM7: tasks with 32
  priorities, semaphores, event flags, data queues, fixed-size memory pools and mutexes with the
  priority ceiling and the priority inheritance protocols, driven by a timer tick. All its lists
  are circular doubly linked lists of \<open>CDLL_QUEUE\<close> cells inside the objects (\<^verbatim>\<open>tn_utils.c\<close>).
  \<^verbatim>\<open>src/LPC2146_USB\<close> and \<^verbatim>\<open>src/LPC2146_USB_DMA\<close> are two test devices built on it.

  \<^bold>\<open>The state.\<close> One record \<open>kernel\<close> (\<open>TN_Kernel\<close>) holds the global variables of \<^verbatim>\<open>tn.c\<close>, the
  control blocks of the objects (\<open>tn_tcb\<close>, \<open>tn_sem\<close>, \<open>tn_event\<close>, \<open>tn_dque\<close>, \<open>tn_fmp\<close>, \<open>tn_mutex\<close>,
  field by field from \<^verbatim>\<open>tn.h\<close>), a word memory for the buffers of the caller, and the status
  register. Queue cells are addresses of the datatype \<open>qaddr\<close> (\<open>TaskQ t\<close> is \<open>task->task_queue\<close>,
  \<open>SemWaitQ i\<close> is \<open>sem->wait_queue\<close>, and so on) in the heap \<open>qh\<close>, whose cells hold the two pointers;
  a null pointer is \<open>None\<close>. Reading through a null pointer makes an operation \<open>None\<close>.

  \<^bold>\<open>The operations.\<close> Every service call is one definition with the name of the C function. It
  returns \<open>Done rc out\<close>, or \<open>Switch k\<close> when it gives the processor away: \<open>k\<close> says what the call
  does when its task runs again, and \<open>resume\<close> in \<open>TN_System\<close> does that. \<open>None\<close> is a null pointer
  access or a loop that does not end. Integers are words of the width of the C type where
  the arithmetic matters (time-outs, masks, sizes, addresses) and integers for priorities,
  return codes and counters.

  \<^bold>\<open>The theories.\<close>
  \<^item> \<open>TN_Prelude\<close>: constants of \<^verbatim>\<open>tn.h\<close>, lemmas on lists and words.
  \<^item> \<open>TN_Cdll\<close>: \<open>CDLL_QUEUE\<close> and \<^verbatim>\<open>tn_utils.c\<close>; the lists a heap carries, the interface
    \<open>wait_queues\<close> the rest relies on, and its interpretation.
  \<^item> \<open>TN_Kernel\<close>: the state, the primitives of \<^verbatim>\<open>tn_port_asm.s\<close> and \<^verbatim>\<open>tn_port.c\<close>.
  \<^item> \<open>TN_Port\<close>: the stack frame, pointer arithmetic of the container routines, \<open>ffs_asm\<close>.
  \<^item> \<open>TN_Fifo\<close>: the ring buffer of a data queue as a bounded list.
  \<^item> \<open>TN_Sched\<close>: the scheduler routines of \<^verbatim>\<open>tn_tasks.c\<close>.
  \<^item> \<open>TN_Inv\<close>, \<open>TN_Kinv\<close>: the invariant \<open>kernel_ok\<close> and what the scheduler does to it.
  \<^item> \<open>TN_Call\<close>: the frame of a call, the interface \<open>wait_object\<close> of an object with a wait queue
    and \<open>deletable_object\<close>.
  \<^item> \<open>TN_Demo\<close>: a concrete kernel state with a task in every kind of wait, for the witnesses.
  \<^item> \<open>TN_Sem\<close>, \<open>TN_Event\<close>, \<open>TN_Dqueue\<close>, \<open>TN_Mem\<close>, \<open>TN_Mutex\<close>, \<open>TN_Tasks\<close>: one per object, from
    the C file of that name.
  \<^item> \<open>TN_Mutex_Inv\<close>, \<open>TN_Mutex_Unlock\<close>: the properties of the mutexes: the loops over the lists, the inheritance of
    a priority along a chain of blocked tasks (\<open>heir\<close> says which task inherits; \<open>no_deadlock\<close>: the chain comes to an
    end), lock and unlock. \<open>above_ceilings\<close> is the rule of the priority ceiling protocol, from which the test of the code differs.
  \<^item> \<open>TN_System\<close>: \<^verbatim>\<open>tn.c\<close>: start, timer tick, round robin, idle and timer task.
  \<^item> \<open>TN_Task_Inv\<close>: the properties of the service calls on tasks: suspend and resume, sleep and
    wake-up, activation, change of priority.
  \<^item> \<open>TN_Task_Life\<close>, \<open>TN_Start\<close>: creation of a task, and the start of the system, which
    establishes the invariant.
  \<^item> \<open>TN_Sem_Delete\<close>: \<open>tn_sem_delete\<close> from its start to its return. It gives the processor away after each task it makes ready;
    what the other tasks do until the caller runs again is a parameter (\<open>others_run\<close>).
  \<^item> \<open>TN_Tick\<close>: the processing of a timer tick: round robin and the list of timeouts; and a wait for a semaphore that runs out,
    which leaves the task in the wait queue.
  \<^item> \<open>TN_Run\<close>: the running system as a machine. Its steps (\<open>sys_event\<close>, \<open>does\<close>, \<open>may\<close>) are the service calls on tasks and
    semaphores except exit, termination and deletion, the timer interrupt, and interrupts that signal a semaphore or wake up a task, in any
    order. Two kinds of steps that break the wait queue of a semaphore are excluded by \<open>may\<close>: a tick at which a wait for it runs
    out, and the release from such a wait. \<open>system_ok\<close> is the invariant of the reachable states, and a task
    that sleeps wakes up in every run in which the timer goes on ticking (\<open>sleep_ends\<close>).
  \<^item> \<open>USB_Hw\<close>: the registers of the USB device controller and \<^verbatim>\<open>tn_usb_hw.c\<close>; \<open>USB_Req\<close>: \<^verbatim>\<open>tn_usb_req.c\<close> and
    the interrupts of end point 0; \<open>USB_Ep\<close>: the bulk end points (\<^verbatim>\<open>tn_usb_ep.c\<close>) and the interrupt
    handlers (\<^verbatim>\<open>tn_user.c\<close>); \<open>USB_Utils\<close>: \<^verbatim>\<open>utils.c\<close>; \<open>USB_Dma\<close>: the files of the device with DMA that
    differ; \<open>USB_App\<close>, \<open>USB_App_Dma\<close>: the descriptors and the two applications, \<^verbatim>\<open>usb_tst1.c\<close> and \<^verbatim>\<open>usb_tst2.c\<close>.
  \<^item> \<open>USB_Bytes\<close>, \<open>USB_Control\<close>, \<open>USB_Descr\<close>, \<open>USB_Config\<close>: what the USB device does: bytes in the word memory,
    commands and packets, the requests that read the descriptors, and \<open>SET_CONFIGURATION\<close>.
  \<^item> \<open>USB_Dma_Init\<close>: the DMA descriptors that \<open>tn_usb_dma_rx_init\<close> leaves in USB RAM.
  \<^item> \<open>USB_Loader\<close>: the flash loader, \<^verbatim>\<open>CrossWorks_GCC/loader/loader.c\<close>: the search for a sector, and the block in RAM as a
    write-back cache of the flash. The boot ROM that programs the flash is the parameter \<open>rom\<close>; \<open>rom_ok\<close> is what its manual says,
    and \<open>sim_rom\<close> a chip that does so.

  \<^bold>\<open>The USB device.\<close> The record \<open>machine\<close> adds to the kernel the variable \<open>gUSBInfo\<close> and the list \<open>io\<close> of all
  accesses to registers. The controller is a chip, not code: it is a parameter \<open>device\<close>, the value a
  read of a register gives after the accesses so far. What the properties assume of it (\<open>answers\<close>,
  \<open>accepts\<close>, \<open>delivers\<close> in \<open>USB_Control\<close>) is in its user manual: a command ends, the write enable bit stays
  until the packet is written, a packet is read word by word. \<open>sim\<close> is a controller that does so.
  The two devices share the requests, which are modelled over the two functions that differ
  (\<open>hw_layer\<close>). The body of a task is a program of service calls and memory steps (\<open>prog\<close> in \<open>USB_App\<close>). The
  half-words of the descriptors, which the code reads through a pointer to half-words, are joined from their two bytes: at an odd
  address, where some of them are, that load is unpredictable on an ARM7.

  \<^bold>\<open>The invariant.\<close> \<open>kernel_ok s L\<close> says that the heap carries the lists \<open>L\<close> and that every queue
  cell of a task is in exactly the list its control block says: a ready task in the ready list of
  its priority, a waiting task in the queue \<open>pwait_queue\<close>, a task with a time-out also in the list of
  time-outs; the bit map has the bits of the ready lists that are not empty, and
  \<open>tn_next_task_to_run\<close> is a ready task of the highest priority.

  \<^bold>\<open>Loops.\<close> Loops over queues that only end if the queue is well formed are
  \<open>partial_function (option)\<close>; the properties say that they return.

  \<^bold>\<open>Not modelled.\<close> The start-up assembler, linker scripts, project files, the register addresses of \<^verbatim>\<open>lpc214x.h\<close>, functions with an empty body
  (\<open>tn_usb_suspend\<close>, \<open>tn_usb_resume\<close>, \<open>tn_usb_wakeup_config\<close>), empty delay loops, and the copies of
  \<^verbatim>\<open>tn_usb_req.c\<close>, \<^verbatim>\<open>tn_usb_descr.c\<close> and most of \<^verbatim>\<open>tn_usb_hw.c\<close> and \<^verbatim>\<open>utils.c\<close> in the device with DMA, which
  are the same code.
\<close>

end
